(* ===== verification/OB_Prelude.thy ===== *)
theory OB_Prelude
  imports Main "HOL-Library.Word" "HOL-Library.Monad_Syntax"
begin

text \<open>
  Shared vocabulary of the development.

  \<^item> \<open>ob_ret\<close> is the \<^verbatim>\<open>int ret\<close> every OceanBase function returns: \<open>OB_SUCCESS\<close> or the
    name of an error code of \<^verbatim>\<open>deps/oblib/src/lib/ob_errno.h\<close>.
  \<^item> A function of the source that may run into behaviour the language leaves undefined (an access
    outside an array, a dereference of a null pointer, an uncaught \<^verbatim>\<open>std::out_of_range\<close>) is modelled
    in the option monad: \<open>None\<close> is that behaviour, \<open>Some\<close> is a normal return. A theorem that a
    result is \<open>Some\<close> is therefore a memory-safety statement.
  \<^item> \<open>to_i32\<close> writes out the truncation of a wider integer to a 32-bit \<^verbatim>\<open>int\<close>.
  \<^item> \<open>for_ret\<close> is the loop \<^verbatim>\<open>for (...; OB_SUCC(ret) && ...)\<close> the source uses everywhere: it
    stops at the first call that does not return \<open>OB_SUCCESS\<close>.
\<close>

datatype ob_ret =
    OB_SUCCESS
  | OB_ERROR
  | OB_INVALID_ARGUMENT
  | OB_INIT_TWICE
  | OB_NOT_INIT
  | OB_NOT_SUPPORTED
  | OB_ITER_END
  | OB_ERR_UNEXPECTED
  | OB_ENTRY_NOT_EXIST
  | OB_SIZE_OVERFLOW
  | OB_ARRAY_OUT_OF_RANGE
  | OB_NOT_IMPLEMENT
  | OB_ALLOCATE_MEMORY_FAILED
  | OB_ERR_SYS
  | OB_INIT_FAIL
  | OB_HASH_EXIST
  | OB_HASH_NOT_EXIST
  | OB_HASH_FULL
  | OB_CONFLICT_VALUE
  | OB_FILE_NOT_EXIST
  | OB_ERR_FUNCTION_UNKNOWN
  | OB_ERR_INVALID_PYTHON_UDF
  | OB_DESERIALIZE_ERROR
  | OB_BUF_NOT_ENOUGH
  | OB_ERR_PRIMARY_KEY_DUPLICATE
  | OB_ERR_PARSER_SYNTAX
  | OB_DATA_OUT_OF_RANGE
  | OB_ERR_COLUMN_NOT_FOUND
  | OB_OBJ_TYPE_ERROR
  | OB_ERR_PARAM_SIZE
  | OB_ERR_DATA_TOO_LONG
  | OB_TIMEOUT
  | OB_TRANS_UNKNOWN

type_synonym byte = "8 word"

named_theorems ob_frame \<open>what an operation leaves unchanged\<close>
named_theorems ob_loop \<open>unfolding equations of loops\<close>

section \<open>Machine integers\<close>

definition to_i32 :: "int \<Rightarrow> int" where
  "to_i32 x = sint (word_of_int x :: 32 word)"

lemma to_i32_id [simp]: "- 2147483648 \<le> x \<Longrightarrow> x < 2147483648 \<Longrightarrow> to_i32 x = x"
  by (simp add: to_i32_def signed_take_bit_int_eq_self sint_sbintrunc')

lemma to_i32_bounds: "- 2147483648 \<le> to_i32 x \<and> to_i32 x < 2147483648"
  unfolding to_i32_def
  using sint_ge [of "word_of_int x :: 32 word"] sint_lt [of "word_of_int x :: 32 word"] by simp

section \<open>Loops over a list with an early exit\<close>

fun for_ret :: "('a \<Rightarrow> 's \<Rightarrow> (ob_ret \<times> 's) option) \<Rightarrow> 'a list \<Rightarrow> 's \<Rightarrow> (ob_ret \<times> 's) option" where
  "for_ret f [] s = Some (OB_SUCCESS, s)"
| "for_ret f (x # xs) s =
     (case f x s of
        None \<Rightarrow> None
      | Some (ret, s') \<Rightarrow> if ret = OB_SUCCESS then for_ret f xs s' else Some (ret, s'))"

text \<open>
  The rule for a loop none of whose steps fails: an invariant over the elements already done.
\<close>

lemma for_ret_success:
  assumes "I [] s"
    and "\<And>done x rest s. xs = done @ x # rest \<Longrightarrow> I done s \<Longrightarrow>
           \<exists>s'. f x s = Some (OB_SUCCESS, s') \<and> I (done @ [x]) s'"
  shows "\<exists>s'. for_ret f xs s = Some (OB_SUCCESS, s') \<and> I xs s'"
proof -
  have "\<exists>s'. for_ret f rest s = Some (OB_SUCCESS, s') \<and> I xs s'"
    if "xs = done @ rest" and "I done s" for "done" rest s
    using that
  proof (induction rest arbitrary: "done" s)
    case Nil
    then show ?case by simp
  next
    case (Cons x rest)
    from assms(2) [OF Cons.prems] obtain s' where
      s': "f x s = Some (OB_SUCCESS, s')" "I (done @ [x]) s'" by blast
    with Cons.IH [of "done @ [x]" s'] Cons.prems show ?case by simp
  qed
  from this [of "[]" xs s] assms(1) show ?thesis by simp
qed

lemma for_ret_cong [fundef_cong]:
  "xs = ys \<Longrightarrow> s = t \<Longrightarrow> (\<And>x s. x \<in> set ys \<Longrightarrow> f x s = g x s) \<Longrightarrow> for_ret f xs s = for_ret g ys t"
proof (induction xs arbitrary: ys s t)
  case (Cons x xs)
  then show ?case by (auto split: option.splits)
qed auto

section \<open>Lists\<close>

lemma take_drop_append: "drop i (take (i + n) xs) @ drop (i + n) xs = drop i xs"
  by (metis add.commute append_take_drop_id drop_drop drop_take add_diff_cancel_left')

lemma nth_list_update': "j < length xs \<Longrightarrow> xs[i := x] ! j = (if i = j then x else xs ! j)"
  by (cases "i < length xs") (auto simp: list_update_beyond)

lemma map_nth_upt: "map ((!) xs) [i..<j] = drop i (take j xs)" if "j \<le> length xs"
  using that by (intro nth_equalityI) auto

lemma upt_eq_append:
  assumes "[0..<n] = xs @ i # ys"
  shows "i < n" "xs = [0..<i]"
proof -
  have "length xs < n" using arg_cong [OF assms, of length] by simp
  moreover from this have "i = length xs" using arg_cong [OF assms, of "\<lambda>l. l ! length xs"] by simp
  ultimately show "i < n" by simp
  have "take (length xs) [0..<n] = xs" unfolding assms by simp
  then show "xs = [0..<i]" using \<open>i = length xs\<close> \<open>i < n\<close> by (simp add: take_upt)
qed

end
