(* ===== verification/OB_Popcount.thy ===== *)
theory OB_Popcount
  imports OB_Prelude
begin

text \<open>
  \<open>ObBitVectorImpl::popcount64\<close> of \<^verbatim>\<open>src/sql/engine/ob_bit_vector.h\<close>: the portable branch
  (no \<^verbatim>\<open>__POPCNT__\<close> instruction), which adds up the bits of a word in parallel. The proof
  follows the four lines of the source: pairs of bits, nibbles, bytes, and the multiplication that
  leaves the sum of the eight byte counts in the top byte. \<open>dsum w k v\<close> is the number whose
  \<open>k\<close> digits of \<open>w\<close> bits are the bit counts of the \<open>w\<close>-bit digits of \<open>v\<close>.
\<close>

unbundle bit_operations_syntax

definition popcount64 :: "64 word \<Rightarrow> nat" where
  "popcount64 v =
     (if v \<noteq> 0 then
        let v = v - (drop_bit 1 v AND 0x5555555555555555);
            v = (v AND 0x3333333333333333) + (drop_bit 2 v AND 0x3333333333333333)
        in unat (drop_bit 56 (((v + drop_bit 4 v) AND 0xF0F0F0F0F0F0F0F) * 0x101010101010101))
      else 0)"

definition bcnt :: "nat \<Rightarrow> nat \<Rightarrow> nat" where
  "bcnt w v = (\<Sum>i<w. if bit v i then 1 else 0)"

fun dsum :: "nat \<Rightarrow> nat \<Rightarrow> nat \<Rightarrow> nat" where
  "dsum w 0 v = 0"
| "dsum w (Suc k) v = bcnt w v + 2 ^ w * dsum w k (v div 2 ^ w)"

fun rep_mask :: "nat \<Rightarrow> nat \<Rightarrow> nat \<Rightarrow> nat" where
  "rep_mask w m 0 = 0"
| "rep_mask w m (Suc k) = m + 2 ^ w * rep_mask w m k"

lemma and_split_nat:
  "x AND y = (x mod 2 ^ n AND y mod 2 ^ n) + 2 ^ n * (x div 2 ^ n AND y div 2 ^ n)" for x y :: nat
proof -
  have "x AND y = push_bit n (drop_bit n (x AND y)) + take_bit n (x AND y)"
    by (simp only: bits_ident)
  then show ?thesis
    by (simp add: take_bit_eq_mod [symmetric] drop_bit_eq_div [symmetric] push_bit_eq_mult
        take_bit_and drop_bit_and)
qed

lemma and_mask_digit:
  fixes x m :: nat
  assumes "j \<le> w"
  shows "x AND (2 ^ j - 1 + 2 ^ w * m) = x mod 2 ^ j + 2 ^ w * (x div 2 ^ w AND m)"
proof -
  have le: "(2::nat) ^ j \<le> 2 ^ w" using assms by simp
  have pos: "(1::nat) \<le> 2 ^ j" by simp
  have lt: "(2::nat) ^ j - 1 < 2 ^ w" using le pos by linarith
  have "x mod 2 ^ w AND (2 ^ j - 1) = x mod 2 ^ j"
    unfolding mask_eq_exp_minus_1 [symmetric] take_bit_eq_mod [symmetric] take_bit_eq_mask [symmetric]
    using assms by (simp add: min_def)
  moreover have "(a + 2 ^ w * m) mod 2 ^ w = a" "(a + 2 ^ w * m) div 2 ^ w = m" if "a < 2 ^ w" for a
    using that by simp_all
  ultimately show ?thesis by (subst and_split_nat [of _ _ w]) (simp only: lt)
qed

lemma bcnt_add: "bcnt (a + b) v = bcnt a v + bcnt b (v div 2 ^ a)"
proof (induction b)
  case (Suc b)
  have "bit v (a + b) = bit (v div 2 ^ a) b"
    by (simp add: drop_bit_eq_div [symmetric] bit_drop_bit_eq)
  with Suc show ?case by (simp add: bcnt_def)
qed (simp add: bcnt_def)

lemma bcnt_le: "bcnt w v \<le> w"
  unfolding bcnt_def by (rule order_trans [OF sum_bounded_above [where K = 1]]) auto

lemma bcnt_1: "bcnt 1 v = v mod 2"
  by (simp add: bcnt_def bit_0 odd_iff_mod_2_eq_one)

lemma bcnt_2: "bcnt 2 v = v mod 2 + v div 2 mod 2"
  using bcnt_add [of 1 1 v] by (simp add: bcnt_1 del: One_nat_def) 

lemma dsum_le: "dsum w k v mod 2 ^ w \<le> w"
proof (cases k)
  case (Suc k')
  have "bcnt w v < 2 ^ w" by (rule le_less_trans [OF bcnt_le less_exp])
  with Suc show ?thesis by (simp add: bcnt_le)
qed simp

lemma swar_pairs:
  "v < 4 ^ k \<Longrightarrow> v = dsum 2 k v + (v div 2 AND rep_mask 2 1 k)"
proof (induction k arbitrary: v)
  case (Suc k)
  let ?q = "v div 4"
  have "v div 2 AND rep_mask 2 1 (Suc k) = v div 2 mod 2 + 4 * (v div 2 div 4 AND rep_mask 2 1 k)"
    using and_mask_digit [of 1 2 "v div 2" "rep_mask 2 1 k"] by simp
  moreover have "v div 2 div 4 = ?q div 2" by (simp add: div_mult2_eq [symmetric])
  moreover have "?q = dsum 2 k ?q + (?q div 2 AND rep_mask 2 1 k)"
    using Suc.prems by (intro Suc.IH) simp
  moreover have "v = 4 * ?q + 2 * (v div 2 mod 2) + v mod 2" by presburger
  ultimately show ?case by (simp add: bcnt_2)
qed simp

lemma dsum_two: "dsum w (2 * Suc k) v = bcnt w v + 2 ^ w * (bcnt w (v div 2 ^ w) + 2 ^ w * dsum w (2 * k) (v div 2 ^ w div 2 ^ w))"
  by simp

lemma digit_eqs:
  fixes a b q :: nat
  assumes "a < b"
  shows "(a + b * q) mod b = a" "(a + b * q) div b = q" "(a + b * q) div (b * c) = q div c"
  using assms by (simp_all add: div_mult2_eq)

lemma swar_nibbles:
  "(dsum 2 (2 * k) v AND rep_mask 4 3 k) + (dsum 2 (2 * k) v div 4 AND rep_mask 4 3 k) = dsum 4 k v"
proof (induction k arbitrary: v)
  case (Suc k)
  define X b0 b1 where "X = dsum 2 (2 * k) (v div 16)" and "b0 = bcnt 2 v" and "b1 = bcnt 2 (v div 4)"
  have b: "b0 \<le> 2" "b1 \<le> 2" by (simp_all add: b0_def b1_def bcnt_le)
  have eq: "dsum 2 (2 * Suc k) v = b0 + 4 * (b1 + 4 * X)"
    unfolding dsum_two by (simp add: X_def b0_def b1_def div_mult2_eq [symmetric])
  have m: "x AND rep_mask 4 3 (Suc k) = x mod 4 + 16 * (x div 16 AND rep_mask 4 3 k)" for x
    using and_mask_digit [of 2 4 x "rep_mask 4 3 k"] by simp
  have "(b0 + 4 * (b1 + 4 * X)) mod 4 = b0" "(b0 + 4 * (b1 + 4 * X)) div 16 = X"
    "(b0 + 4 * (b1 + 4 * X)) div 4 = b1 + 4 * X" "(b1 + 4 * X) mod 4 = b1"
    "(b1 + 4 * X) div 16 = X div 4"
    using b digit_eqs [of b0 4 "b1 + 4 * X"] digit_eqs [of b1 4 X]
      digit_eqs(3) [of b0 4 "b1 + 4 * X" 4] digit_eqs(3) [of b1 4 X 4] by simp_all
  moreover have "bcnt 4 v = b0 + b1"
    using bcnt_add [of 2 2 v] by (simp add: b0_def b1_def)
  moreover note Suc.IH [of "v div 16", folded X_def]
  ultimately show ?case unfolding eq m by (simp only: dsum.simps) (simp)
qed simp

lemma swar_bytes:
  "(dsum 4 (2 * k) v + dsum 4 (2 * k) v div 16) AND rep_mask 8 15 k = dsum 8 k v"
proof (induction k arbitrary: v)
  case (Suc k)
  define Y c0 c1 where "Y = dsum 4 (2 * k) (v div 256)" and "c0 = bcnt 4 v" and "c1 = bcnt 4 (v div 16)"
  have c: "c0 \<le> 4" "c1 \<le> 4" by (simp_all add: c0_def c1_def bcnt_le)
  have Y: "Y mod 16 \<le> 4" using dsum_le [of 4 "2 * k" "v div 256"] by (simp add: Y_def)
  have eq: "dsum 4 (2 * Suc k) v = c0 + 16 * (c1 + 16 * Y)"
    unfolding dsum_two by (simp add: Y_def c0_def c1_def div_mult2_eq [symmetric])
  have m: "x AND rep_mask 8 15 (Suc k) = x mod 16 + 256 * (x div 256 AND rep_mask 8 15 k)" for x
    using and_mask_digit [of 4 8 x "rep_mask 8 15 k"] by simp
  have s: "c0 + 16 * (c1 + 16 * Y) + (c0 + 16 * (c1 + 16 * Y)) div 16 = c0 + c1 + 16 * (c1 + Y + 16 * Y)"
    using c digit_eqs [of c0 16 "c1 + 16 * Y"] by simp
  have "(c0 + c1 + 16 * (c1 + Y + 16 * Y)) mod 16 = c0 + c1"
    using c digit_eqs [of "c0 + c1" 16 "c1 + Y + 16 * Y"] by simp
  moreover have "(c1 + Y) div 16 = Y div 16" using c Y by (simp add: div_add1_eq [of c1 Y])
  then have "(c0 + c1 + 16 * (c1 + Y + 16 * Y)) div 256 = Y + Y div 16"
    using c digit_eqs(3) [of "c0 + c1" 16 "c1 + Y + 16 * Y" 16] by simp
  moreover have "bcnt 8 v = c0 + c1"
    using bcnt_add [of 4 4 v] by (simp add: c0_def c1_def)
  moreover note Suc.IH [of "v div 256", folded Y_def]
  ultimately show ?case unfolding eq m s by (simp only: dsum.simps) simp
qed simp


lemma eight_Suc: "8 = Suc (Suc (Suc (Suc (Suc (Suc (Suc (Suc 0)))))))"
  by simp

lemma dsum_8_8:
  "dsum 8 8 v * 0x101010101010101 mod 2 ^ 64 div 2 ^ 56 = bcnt 64 v"
proof -
  define d where "d i = bcnt 8 (v div 256 ^ i)" for i
  have le: "d i \<le> 8" for i by (simp add: d_def bcnt_le)
  have "dsum 8 (Suc (Suc (Suc (Suc (Suc (Suc (Suc (Suc 0)))))))) v =
    d 0 + 256 * (d 1 + 256 * (d 2 + 256 * (d 3 + 256 * (d 4 + 256 * (d 5 + 256 * (d 6 + 256 * d 7))))))"
    by (simp add: d_def div_mult2_eq [symmetric])
  then have D: "dsum 8 8 v =
    d 0 + 256 * (d 1 + 256 * (d 2 + 256 * (d 3 + 256 * (d 4 + 256 * (d 5 + 256 * (d 6 + 256 * d 7))))))"
    by (subst (2) eight_Suc)
  define Q where "Q = 1 * d 1 + 257 * d 2 + 65793 * d 3 + 16843009 * d 4 + 4311810305 * d 5 + 1103823438081 * d 6 + 282578800148737 * d 7"
  define R where "R = 282578800148737 * d 0 + 282578800148736 * d 1 + 282578800148480 * d 2 + 282578800082944 * d 3 + 282578783305728 * d 4 + 282574488338432 * d 5 + 281474976710656 * d 6"
  define S where "S = d 0 + d 1 + d 2 + d 3 + d 4 + d 5 + d 6 + d 7"
  have S: "S = bcnt 64 v"
    using bcnt_add [of 8 56 v] bcnt_add [of 8 48 "v div 256 ^ 1"] bcnt_add [of 8 40 "v div 256 ^ 2"]
      bcnt_add [of 8 32 "v div 256 ^ 3"] bcnt_add [of 8 24 "v div 256 ^ 4"]
      bcnt_add [of 8 16 "v div 256 ^ 5"] bcnt_add [of 8 8 "v div 256 ^ 6"]
    by (simp add: S_def d_def div_mult2_eq [symmetric])
  have "S \<le> 64" unfolding S using bcnt_le [of 64 v] .
  have R: "R < 2 ^ 56"
    using le [of 0] le [of 1] le [of 2] le [of 3] le [of 4] le [of 5] le [of 6] unfolding R_def by simp
  with \<open>S \<le> 64\<close> have "R + 2 ^ 56 * S < 2 ^ 64" by simp
  moreover have "dsum 8 8 v * 0x101010101010101 = (R + 2 ^ 56 * S) + 2 ^ 64 * Q"
    unfolding D Q_def R_def S_def by simp
  ultimately have "dsum 8 8 v * 0x101010101010101 mod 2 ^ 64 = R + 2 ^ 56 * S"
    by (simp only: digit_eqs)
  with digit_eqs(2) [OF R] S show ?thesis by simp
qed

lemma unat_and64: "unat (x AND y) = unat x AND unat y" for x y :: "64 word"
  by (simp add: unsigned_and_eq)

lemma unat_drop64: "unat (drop_bit n x) = unat x div 2 ^ n" for x :: "64 word"
  unfolding unat_drop_bit_eq by (rule drop_bit_eq_div)

lemma and_le_nat: "x AND y \<le> y" for x y :: nat
  using AND_upper2 [of "int y" "int x"] by (simp add: of_nat_and_eq [symmetric])

lemma rep_mask_numeral:
  "rep_mask w m (numeral k) = m + 2 ^ w * rep_mask w m (pred_numeral k)"
  by (simp add: numeral_eq_Suc)

lemma rep_masks:
  "rep_mask 2 1 32 = 0x5555555555555555" "rep_mask 4 3 16 = 0x3333333333333333"
  "rep_mask 8 15 8 = 0xF0F0F0F0F0F0F0F"
  by (simp_all add: rep_mask_numeral)

lemma popcount64_bcnt: "popcount64 v = bcnt 64 (unat v)"
proof (cases "v = 0")
  case True
  then show ?thesis by (simp add: popcount64_def bcnt_def)
next
  case False
  define N where "N = unat v"
  have N: "N < 4 ^ 32" using unsigned_less [of v] by (simp add: N_def)
  define v1 where "v1 = v - (drop_bit 1 v AND 0x5555555555555555)"
  define v2 where "v2 = (v1 AND 0x3333333333333333) + (drop_bit 2 v1 AND 0x3333333333333333)"
  define v3 where "v3 = (v2 + drop_bit 4 v2) AND 0xF0F0F0F0F0F0F0F"
  have s1: "N = dsum 2 32 N + (N div 2 AND 0x5555555555555555)"
    using swar_pairs [OF N] unfolding rep_masks .
  have m1: "unat (drop_bit 1 v AND 0x5555555555555555) = N div 2 AND 0x5555555555555555"
    by (simp only: unat_and64 unat_drop64 N_def) simp
  have u1: "unat v1 = dsum 2 32 N"
    unfolding v1_def using s1 m1 by (subst unat_sub) (simp_all add: word_le_nat_alt N_def)
  have le: "x AND 0x3333333333333333 \<le> 0x3333333333333333" for x :: nat
    by (rule and_le_nat)
  have u2: "unat v2 = dsum 4 16 N"
  proof -
    have e: "dsum 4 16 N = unat (v1 AND 0x3333333333333333) + unat (drop_bit 2 v1 AND 0x3333333333333333)"
      using swar_nibbles [of 16 N] by (simp add: rep_masks unat_and64 unat_drop64 u1 del: dsum.simps)
    show ?thesis unfolding v2_def e
      using le [of "unat v1"] le [of "unat (drop_bit 2 v1)"]
      by (subst unat_add_lem [THEN iffD1]) (simp_all add: unat_and64)
  qed
  have v2_le: "unat v2 \<le> 0x6666666666666666"
    using swar_nibbles [of 16 N] le [of "dsum 2 32 N"] le [of "dsum 2 32 N div 4"]
    unfolding u2 rep_masks by simp
  have u3: "unat v3 = dsum 8 8 N"
  proof -
    have "unat (v2 + drop_bit 4 v2) = unat v2 + unat v2 div 16"
      using v2_le by (subst unat_add_lem [THEN iffD1]) (simp_all add: unat_drop64)
    with swar_bytes [of 8 N] show ?thesis
      by (simp add: v3_def unat_and64 u2 rep_masks)
  qed
  have "popcount64 v = unat (drop_bit 56 (v3 * 0x101010101010101))"
    using False by (simp only: popcount64_def Let_def v1_def v2_def v3_def if_True not_False_eq_True)
  also have "\<dots> = dsum 8 8 N * 0x101010101010101 mod 2 ^ 64 div 2 ^ 56"
    by (simp only: unat_drop64 unat_word_ariths u3) simp
  finally show ?thesis by (simp only: dsum_8_8 N_def)
qed

lemma popcount64_card: "popcount64 v = card {i. i < 64 \<and> bit v i}"
proof -
  have "bcnt 64 (unat v) = card {i \<in> {..<64}. bit v i}"
    unfolding bcnt_def by (simp add: sum.If_cases bit_unsigned_iff Int_def cong: conj_cong)
  then show ?thesis by (simp add: popcount64_bcnt)
qed

section \<open>The property\<close>

text \<open>C21. \<open>popcount64\<close>, which adds up the bits of a word in parallel with masks, shifts and one multiplication, returns
  the number of set bits of the word.\<close>

theorem popcount64_correct: "popcount64 v = card {i. i < 64 \<and> bit v i}"
  by (rule popcount64_card)

end
