(* ===== verification/OB_Bit_Vector.thy ===== *)
theory OB_Bit_Vector
  imports OB_Popcount
begin

text \<open>
  \<^verbatim>\<open>src/sql/engine/ob_bit_vector.h\<close>: the bit vector that marks the rows of a batch which are
  filtered out. \<open>bit_vector\<close> is the array \<^verbatim>\<open>data_\<close> of 64-bit words (the instance
  \<^verbatim>\<open>ObBitVector = ObBitVectorImpl<uint64_t>\<close>). As in the source, it is the caller's duty to
  have allocated enough words; the lemmas speak of bits within the words that exist. A word outside of the list, which the
  source would write behind the array, is ignored by a list update, so nothing is claimed of such a write.

  The abstraction is \<open>bv_at\<close>: every operation is characterised by what it does to each bit,
  and \<open>accumulate_bit_cnt\<close> by the number of set bits. 
\<close>

unbundle bit_operations_syntax

type_synonym bit_vector = "64 word list"

section \<open>Sizes and single bits\<close>

definition word_count :: "nat \<Rightarrow> nat" where
  "word_count sz = (sz + 64 - 1) div 64"

definition byte_count :: "nat \<Rightarrow> nat" where
  "byte_count sz = (sz + 8 - 1) div 8"

definition memory_size :: "nat \<Rightarrow> nat" where
  "memory_size sz = word_count sz * 8"

definition low_mask :: "nat \<Rightarrow> 64 word" where
  "low_mask n = push_bit n 1 - 1"

definition bv_at :: "bit_vector \<Rightarrow> nat \<Rightarrow> bool" where
  "bv_at bv idx \<longleftrightarrow> bv ! (idx div 64) AND push_bit (idx mod 64) 1 \<noteq> 0"

definition bv_set :: "bit_vector \<Rightarrow> nat \<Rightarrow> bit_vector" where
  "bv_set bv idx = bv[idx div 64 := bv ! (idx div 64) OR push_bit (idx mod 64) 1]"

definition bv_unset :: "bit_vector \<Rightarrow> nat \<Rightarrow> bit_vector" where
  "bv_unset bv idx = bv[idx div 64 := bv ! (idx div 64) AND NOT (push_bit (idx mod 64) 1)]"

definition bit_or_assign :: "bit_vector \<Rightarrow> nat \<Rightarrow> bool \<Rightarrow> bit_vector" where
  "bit_or_assign bv idx v =
     bv[idx div 64 := bv ! (idx div 64) OR push_bit (idx mod 64) (if v then 1 else 0)]"

text \<open>\<open>init\<close> and \<open>reset\<close>: \<^verbatim>\<open>MEMSET(data_, 0, memory_size(size))\<close>, whole words.\<close>

definition bv_reset :: "bit_vector \<Rightarrow> nat \<Rightarrow> bit_vector" where
  "bv_reset bv sz = replicate (memory_size sz div 8) 0 @ drop (memory_size sz div 8) bv"

text \<open>
  \<open>deep_copy\<close>: \<^verbatim>\<open>MEMCPY(data_, src.data_, byte_count(size))\<close>. The copy ends at a byte, so
  the last word may keep its high bytes (the machine is little-endian).
\<close>

definition deep_copy :: "bit_vector \<Rightarrow> bit_vector \<Rightarrow> nat \<Rightarrow> bit_vector" where
  "deep_copy bv src sz =
     (let full = byte_count sz div 8; rest = byte_count sz mod 8;
          bv1 = take full src @ drop full bv
      in if rest = 0 then bv1
         else bv1[full := (bv ! full AND NOT (low_mask (8 * rest)))
                          OR (src ! full AND low_mask (8 * rest))])"

section \<open>Operations on a prefix of the vector\<close>

fun upd_words :: "nat \<Rightarrow> (nat \<Rightarrow> 64 word) \<Rightarrow> bit_vector \<Rightarrow> bit_vector" where
  "upd_words 0 g bv = bv"
| "upd_words (Suc n) g bv = (upd_words n g bv)[n := g n]"

definition is_superset_of :: "bit_vector \<Rightarrow> bit_vector \<Rightarrow> nat \<Rightarrow> bool" where
  "is_superset_of bv other sz \<longleftrightarrow>
     list_all (\<lambda>i. NOT (bv ! i) AND other ! i = 0) [0..<word_count sz]"

definition is_subset_of :: "bit_vector \<Rightarrow> bit_vector \<Rightarrow> nat \<Rightarrow> bool" where
  "is_subset_of bv other sz = is_superset_of other bv sz"

definition bit_op_zero ::
  "bit_vector \<Rightarrow> bit_vector \<Rightarrow> nat \<Rightarrow> (64 word \<Rightarrow> 64 word \<Rightarrow> 64 word) \<Rightarrow> bool" where
  "bit_op_zero l r sz op \<longleftrightarrow>
     (let cnt = sz div 64; passed = list_all (\<lambda>i. op (l ! i) (r ! i) = 0) [0..<cnt]
      in if passed \<and> sz mod 64 \<noteq> 0
         then op (l ! cnt) (r ! cnt) AND low_mask (sz mod 64) = 0
         else passed)"

definition bit_calculate ::
  "bit_vector \<Rightarrow> bit_vector \<Rightarrow> bit_vector \<Rightarrow> nat \<Rightarrow> (64 word \<Rightarrow> 64 word \<Rightarrow> 64 word) \<Rightarrow> bit_vector" where
  "bit_calculate bv l r sz op =
     (let cnt = sz div 64; bv1 = upd_words cnt (\<lambda>i. op (l ! i) (r ! i)) bv
      in if sz mod 64 \<noteq> 0
         then bv1[cnt := (op (l ! cnt) (r ! cnt) AND low_mask (sz mod 64))
                         OR (bv1 ! cnt AND NOT (low_mask (sz mod 64)))]
         else bv1)"

definition bit_not :: "bit_vector \<Rightarrow> nat \<Rightarrow> bit_vector" where
  "bit_not bv sz =
     (let cnt = sz div 64; bv1 = upd_words cnt (\<lambda>i. NOT (bv ! i)) bv
      in if sz mod 64 \<noteq> 0
         then bv1[cnt := (NOT (bv1 ! cnt) AND low_mask (sz mod 64))
                         OR (bv1 ! cnt AND NOT (low_mask (sz mod 64)))]
         else bv1)"

definition bit_not_of :: "bit_vector \<Rightarrow> bit_vector \<Rightarrow> nat \<Rightarrow> bit_vector" where
  "bit_not_of bv other sz =
     (let cnt = sz div 64; bv1 = upd_words cnt (\<lambda>i. NOT (other ! i)) bv
      in if sz mod 64 \<noteq> 0
         then bv1[cnt := (NOT (other ! cnt) AND low_mask (sz mod 64))
                         OR (bv1 ! cnt AND NOT (low_mask (sz mod 64)))]
         else bv1)"

definition set_all :: "bit_vector \<Rightarrow> nat \<Rightarrow> bit_vector" where
  "set_all bv sz =
     (let cnt = sz div 64; bv1 = upd_words cnt (\<lambda>i. - 1) bv
      in if sz mod 64 \<noteq> 0 then bv1[cnt := bv1 ! cnt OR low_mask (sz mod 64)] else bv1)"

definition is_all_true :: "bit_vector \<Rightarrow> nat \<Rightarrow> bool" where
  "is_all_true bv sz \<longleftrightarrow>
     (let cnt = sz div 64; remain = sz mod 64; all = list_all (\<lambda>i. - 1 = bv ! i) [0..<cnt]
      in if all \<and> remain > 0 then bv ! cnt AND low_mask remain = low_mask remain else all)"

definition is_all_false :: "bit_vector \<Rightarrow> nat \<Rightarrow> bool" where
  "is_all_false bv sz \<longleftrightarrow>
     (let cnt = sz div 64; remain = sz mod 64; all = list_all (\<lambda>i. 0 = bv ! i) [0..<cnt]
      in if all \<and> remain > 0 then bv ! cnt AND low_mask remain = 0 else all)"

definition accumulate_bit_cnt :: "bit_vector \<Rightarrow> nat \<Rightarrow> nat" where
  "accumulate_bit_cnt bv sz =
     (let cnt = sz div 64; remain = sz mod 64;
          bit_cnt = sum_list (map (\<lambda>i. popcount64 (bv ! i)) [0..<cnt])
      in if remain > 0 then bit_cnt + popcount64 (bv ! cnt AND low_mask remain) else bit_cnt)"

section \<open>Operations on a range of the vector\<close>

definition get_start_end_mask :: "nat \<Rightarrow> nat \<Rightarrow> 64 word \<times> 64 word \<times> nat \<times> nat" where
  "get_start_end_mask start_idx end_idx =
     (push_bit (start_idx mod 64) (- 1), low_mask (end_idx mod 64), start_idx div 64, end_idx div 64)"

text \<open>The word loop \<^verbatim>\<open>for (i = lo; i < hi; i++) data_[i] = g(i)\<close> of the range operations.\<close>

fun upd_range :: "nat \<Rightarrow> nat \<Rightarrow> (nat \<Rightarrow> 64 word) \<Rightarrow> bit_vector \<Rightarrow> bit_vector" where
  "upd_range lo 0 g bv = bv"
| "upd_range lo (Suc hi) g bv = (if lo \<le> hi then (upd_range lo hi g bv)[hi := g hi] else bv)"

definition bit_op_zero_bound ::
  "bit_vector \<Rightarrow> bit_vector \<Rightarrow> nat \<Rightarrow> nat \<Rightarrow> (64 word \<Rightarrow> 64 word \<Rightarrow> 64 word) \<Rightarrow> bool" where
  "bit_op_zero_bound l r s e op \<longleftrightarrow>
     (let (start_mask, end_mask, start_cnt, end_cnt) = get_start_end_mask s e
      in if start_cnt = end_cnt
         then op (l ! start_cnt) (r ! start_cnt) AND (start_mask AND end_mask) = 0
         else (let passed = (op (l ! start_cnt) (r ! start_cnt) AND start_mask = 0);
                   passed = (passed \<and> list_all (\<lambda>i. op (l ! i) (r ! i) = 0) [start_cnt + 1..<end_cnt])
               in if passed \<and> end_mask > 0
                  then op (l ! end_cnt) (r ! end_cnt) AND end_mask = 0
                  else passed))"

definition bit_calculate_bound ::
  "bit_vector \<Rightarrow> bit_vector \<Rightarrow> bit_vector \<Rightarrow> nat \<Rightarrow> nat \<Rightarrow> (64 word \<Rightarrow> 64 word \<Rightarrow> 64 word) \<Rightarrow> bit_vector" where
  "bit_calculate_bound bv l r s e op =
     (let (start_mask, end_mask, start_cnt, end_cnt) = get_start_end_mask s e
      in if start_cnt = end_cnt
         then let only_mask = start_mask AND end_mask
              in bv[start_cnt := (bv ! start_cnt AND NOT only_mask)
                                 OR (op (l ! start_cnt) (r ! start_cnt) AND only_mask)]
         else let bv1 = bv[start_cnt := (bv ! start_cnt AND NOT start_mask)
                                        OR (op (l ! start_cnt) (r ! start_cnt) AND start_mask)];
                  bv2 = upd_range (start_cnt + 1) end_cnt (\<lambda>i. op (l ! i) (r ! i)) bv1
              in if end_mask > 0
                 then bv2[end_cnt := (bv2 ! end_cnt AND NOT end_mask)
                                     OR (op (l ! end_cnt) (r ! end_cnt) AND end_mask)]
                 else bv2)"

definition bit_not_bound :: "bit_vector \<Rightarrow> bit_vector \<Rightarrow> nat \<Rightarrow> nat \<Rightarrow> bit_vector" where
  "bit_not_bound bv other s e =
     (let (start_mask, end_mask, start_cnt, end_cnt) = get_start_end_mask s e
      in if start_cnt = end_cnt
         then let only_mask = start_mask AND end_mask
              in bv[start_cnt := (bv ! start_cnt AND NOT only_mask) OR (NOT (other ! start_cnt) AND only_mask)]
         else let bv1 = bv[start_cnt := (bv ! start_cnt AND NOT start_mask)
                                        OR (NOT (other ! start_cnt) AND start_mask)];
                  bv2 = upd_range (start_cnt + 1) end_cnt (\<lambda>i. NOT (other ! i)) bv1
              in if end_mask > 0
                 then bv2[end_cnt := (bv2 ! end_cnt AND NOT end_mask) OR (NOT (other ! end_cnt) AND end_mask)]
                 else bv2)"

definition accumulate_bit_cnt_bound :: "bit_vector \<Rightarrow> nat \<Rightarrow> nat \<Rightarrow> int" where
  "accumulate_bit_cnt_bound bv s e =
     (let start = s div 64; endw = e div 64;
          bit_cnt = int (sum_list (map (\<lambda>i. popcount64 (bv ! i)) [start..<endw]));
          front = s mod 64;
          bit_cnt = (if front > 0 then bit_cnt - int (popcount64 (bv ! start AND low_mask front)) else bit_cnt);
          back = e mod 64
      in if back > 0 then bit_cnt + int (popcount64 (bv ! endw AND low_mask back)) else bit_cnt)"

definition is_all_true_range :: "bit_vector \<Rightarrow> nat \<Rightarrow> nat \<Rightarrow> bool" where
  "is_all_true_range bv s e \<longleftrightarrow>
     (let (start_mask, end_mask, start_cnt, end_cnt) = get_start_end_mask s e
      in if start_cnt = end_cnt
         then let one_word_mask = start_mask AND end_mask
              in bv ! start_cnt AND one_word_mask = one_word_mask
         else let all = (bv ! start_cnt AND start_mask = start_mask);
                  all = (all \<and> list_all (\<lambda>i. - 1 = bv ! i) [start_cnt + 1..<end_cnt])
              in if end_mask > 0 then all \<and> bv ! end_cnt AND end_mask = end_mask else all)"

definition set_all_range :: "bit_vector \<Rightarrow> nat \<Rightarrow> nat \<Rightarrow> bit_vector" where
  "set_all_range bv s e =
     (let (start_mask, end_mask, start_cnt, end_cnt) = get_start_end_mask s e
      in if start_cnt = end_cnt
         then bv[start_cnt := bv ! start_cnt OR (start_mask AND end_mask)]
         else let bv1 = bv[start_cnt := bv ! start_cnt OR start_mask];
                  bv2 = upd_range (start_cnt + 1) end_cnt (\<lambda>i. - 1) bv1
              in if end_mask > 0 then bv2[end_cnt := bv2 ! end_cnt OR end_mask] else bv2)"

definition unset_all_range :: "bit_vector \<Rightarrow> nat \<Rightarrow> nat \<Rightarrow> bit_vector" where
  "unset_all_range bv s e =
     (let (start_mask, end_mask, start_cnt, end_cnt) = get_start_end_mask s e
      in if start_cnt = end_cnt
         then bv[start_cnt := bv ! start_cnt AND NOT (start_mask AND end_mask)]
         else let bv1 = bv[start_cnt := bv ! start_cnt AND NOT start_mask];
                  bv2 = upd_range (start_cnt + 1) end_cnt (\<lambda>i. 0) bv1
              in if end_mask > 0 then bv2[end_cnt := bv2 ! end_cnt AND NOT end_mask] else bv2)"

definition deep_copy_range :: "bit_vector \<Rightarrow> bit_vector \<Rightarrow> nat \<Rightarrow> nat \<Rightarrow> bit_vector" where
  "deep_copy_range bv src s e =
     (let (start_mask, end_mask, start_cnt, end_cnt) = get_start_end_mask s e
      in if start_cnt = end_cnt
         then let one_word_mask = start_mask AND end_mask
              in bv[start_cnt := (bv ! start_cnt AND NOT one_word_mask) OR (src ! start_cnt AND one_word_mask)]
         else let bv1 = bv[start_cnt := (bv ! start_cnt AND NOT start_mask) OR (src ! start_cnt AND start_mask)];
                  bv2 = upd_range (start_cnt + 1) end_cnt (\<lambda>i. src ! i) bv1
              in if end_mask > 0
                 then bv2[end_cnt := (bv2 ! end_cnt AND NOT end_mask) OR (src ! end_cnt AND end_mask)]
                 else bv2)"

definition bit_or_range :: "bit_vector \<Rightarrow> bit_vector \<Rightarrow> nat \<Rightarrow> nat \<Rightarrow> bit_vector" where
  "bit_or_range bv src s e =
     (let (start_mask, end_mask, start_cnt, end_cnt) = get_start_end_mask s e
      in if start_cnt = end_cnt
         then bv[start_cnt := bv ! start_cnt OR (src ! start_cnt AND (start_mask AND end_mask))]
         else let bv1 = bv[start_cnt := bv ! start_cnt OR (src ! start_cnt AND start_mask)];
                  bv2 = upd_range (start_cnt + 1) end_cnt (\<lambda>i. bv ! i OR src ! i) bv1
              in if end_mask > 0
                 then bv2[end_cnt := bv2 ! end_cnt OR (src ! end_cnt AND end_mask)]
                 else bv2)"

section \<open>Bits of the masks and words\<close>

lemma low_mask_eq: "low_mask n = mask n"
  by (simp add: low_mask_def mask_eq_exp_minus_1)

lemma bit_low_mask [simp]: "bit (low_mask n) i \<longleftrightarrow> i < n \<and> i < 64"
  by (auto simp: low_mask_eq bit_mask_iff)

lemma and_single_bit_iff: "w AND push_bit n 1 \<noteq> 0 \<longleftrightarrow> bit w n" for w :: "64 word"
  by (metis and.commute and_exp_eq_0_iff_not_bit push_bit_of_1)

lemma bv_at_bit: "bv_at bv i \<longleftrightarrow> bit (bv ! (i div 64)) (i mod 64)"
  unfolding bv_at_def by (rule and_single_bit_iff)

lemma word64_eq_iff: "v = w \<longleftrightarrow> (\<forall>j<64. bit v j = bit w j)" for v w :: "64 word"
proof
  assume "\<forall>j<64. bit v j = bit w j"
  then show "v = w" by (intro bit_word_eqI) simp
qed simp

lemma bit_two_power [simp]: "bit (2 ^ n :: 64 word) j \<longleftrightarrow> j = n \<and> n < 64"
  by (auto simp: bit_exp_iff)

lemma div_mod_neq: "i \<noteq> j \<Longrightarrow> i div 64 = j div 64 \<Longrightarrow> i mod 64 \<noteq> j mod (64::nat)"
  by (metis div_mult_mod_eq)

lemma word_below: "i div 64 < length bv \<longleftrightarrow> i < 64 * length bv" for bv :: bit_vector
  by (simp add: div_less_iff_less_mult mult.commute)

section \<open>What single-bit operations do to each bit\<close>

lemma bv_at_set: "i < 64 * length bv \<Longrightarrow> bv_at (bv_set bv idx) i = (bv_at bv i \<or> i = idx)"
  by (auto simp: bv_at_bit bv_set_def nth_list_update' bit_or_iff word_below [symmetric]
      dest: div_mod_neq)

lemma bv_at_unset: "i < 64 * length bv \<Longrightarrow> bv_at (bv_unset bv idx) i = (bv_at bv i \<and> i \<noteq> idx)"
  by (auto simp: bv_at_bit bv_unset_def nth_list_update' bit_and_iff bit_not_iff word_below [symmetric]
      dest: div_mod_neq)

lemma bv_at_bit_or_assign:
  "i < 64 * length bv \<Longrightarrow> bv_at (bit_or_assign bv idx v) i = (bv_at bv i \<or> i = idx \<and> v)"
  by (auto simp: bv_at_bit bit_or_assign_def nth_list_update' bit_or_iff word_below [symmetric]
      dest: div_mod_neq)

lemma length_single [simp]:
  "length (bv_set bv i) = length bv" "length (bv_unset bv i) = length bv"
  "length (bit_or_assign bv i v) = length bv"
  by (simp_all add: bv_set_def bv_unset_def bit_or_assign_def)

lemma word_count_le: "sz \<le> 64 * n \<Longrightarrow> word_count sz \<le> n"
  by (simp add: word_count_def)

lemma le_word_count: "sz \<le> 64 * word_count sz"
  by (simp add: word_count_def)

lemma length_bv_reset: "sz \<le> 64 * length bv \<Longrightarrow> length (bv_reset bv sz) = length bv"
  using word_count_le [of sz "length bv"] by (simp add: bv_reset_def memory_size_def)

lemma bv_at_reset: "i < sz \<Longrightarrow> \<not> bv_at (bv_reset bv sz) i"
proof -
  assume "i < sz"
  then have "i div 64 < word_count sz"
    using le_word_count [of sz] by (simp add: div_less_iff_less_mult mult.commute)
  then show ?thesis by (simp add: bv_at_bit bv_reset_def memory_size_def nth_append)
qed

lemma length_deep_copy:
  "sz \<le> 64 * length bv \<Longrightarrow> sz \<le> 64 * length src \<Longrightarrow> length (deep_copy bv src sz) = length bv"
proof -
  assume *: "sz \<le> 64 * length bv" "sz \<le> 64 * length src"
  then have "byte_count sz div 8 \<le> length bv" "byte_count sz div 8 \<le> length src"
    by (simp_all add: byte_count_def)
  then show ?thesis by (simp add: deep_copy_def Let_def)
qed

lemma bv_at_deep_copy:
  assumes "sz \<le> 64 * length bv" "sz \<le> 64 * length src" "i < sz"
  shows "bv_at (deep_copy bv src sz) i = bv_at src i"
proof -
  define full where "full = byte_count sz div 8"
  define rest where "rest = byte_count sz mod 8"
  have bc: "byte_count sz = 8 * full + rest" "sz \<le> 8 * byte_count sz"
    by (simp_all add: full_def rest_def byte_count_def)
  have "byte_count sz \<le> 8 * length src" "byte_count sz \<le> 8 * length bv"
    using assms(1,2) by (simp_all add: byte_count_def)
  then have le: "full \<le> length src" "full \<le> length bv" "rest \<noteq> 0 \<Longrightarrow> full < length bv"
    unfolding bc(1) by linarith+
  have cases: "i div 64 < full \<or> i div 64 = full \<and> i mod 64 < 8 * rest"
  proof -
    have "i < 64 * full + 8 * rest" using bc assms(3) by simp
    moreover have "i = 64 * (i div 64) + i mod 64" by simp
    moreover have "rest < 8" by (simp add: rest_def)
    ultimately show ?thesis by linarith
  qed
  show ?thesis
  proof (cases "i div 64 < full")
    case True
    then show ?thesis using le
      by (auto simp: deep_copy_def Let_def bv_at_bit nth_append nth_list_update
          full_def [symmetric] rest_def [symmetric] min_absorb2)
  next
    case False
    with cases have "i div 64 = full" "i mod 64 < 8 * rest" "rest \<noteq> 0" by auto
    then show ?thesis using le
      by (auto simp: deep_copy_def Let_def bv_at_bit full_def [symmetric] rest_def [symmetric]
          bit_or_iff bit_and_iff bit_not_iff)
  qed
qed

section \<open>What operations on a prefix do to each bit\<close>

lemma length_upd_words [simp]: "length (upd_words n g bv) = length bv"
  by (induction n) auto

lemma nth_upd_words: "i < length bv \<Longrightarrow> upd_words n g bv ! i = (if i < n then g i else bv ! i)"
  by (induction n) (auto simp: nth_list_update')

lemma pos_less: "i < sz \<longleftrightarrow> i div 64 < sz div 64 \<or> i div 64 = sz div 64 \<and> i mod 64 < sz mod (64::nat)"
proof -
  have "i = 64 * (i div 64) + i mod 64" "sz = 64 * (sz div 64) + sz mod 64"
    "i mod 64 < 64" "sz mod 64 < 64" by simp_all
  then show ?thesis by linarith
qed

lemma bv_at_masked_prefix:
  assumes "i < 64 * length bv"
  shows "bv_at (let cnt = sz div 64; bv1 = upd_words cnt g bv
           in if sz mod 64 \<noteq> 0
              then bv1[cnt := (g cnt AND low_mask (sz mod 64)) OR (bv1 ! cnt AND NOT (low_mask (sz mod 64)))]
              else bv1) i =
         (if i < sz then bit (g (i div 64)) (i mod 64) else bv_at bv i)"
proof -
  have "i div 64 < length bv" using assms by (simp add: word_below)
  then show ?thesis
    by (auto simp: Let_def bv_at_bit nth_list_update' nth_upd_words pos_less [of i sz]
        bit_or_iff bit_and_iff bit_not_iff)
qed

lemma bv_at_bit_calculate:
  assumes "i < 64 * length bv"
    and "\<And>x y n. n < 64 \<Longrightarrow> bit (op x y) n = f (bit x n) (bit y n)"
  shows "bv_at (bit_calculate bv l r sz op) i =
         (if i < sz then f (bv_at l i) (bv_at r i) else bv_at bv i)"
  unfolding bit_calculate_def bv_at_masked_prefix [OF assms(1)]
  by (simp add: assms(2) bv_at_bit)

lemma bv_at_bit_not_of:
  "i < 64 * length bv \<Longrightarrow>
     bv_at (bit_not_of bv other sz) i = (if i < sz then \<not> bv_at other i else bv_at bv i)"
  unfolding bit_not_of_def
  by (subst bv_at_masked_prefix) (simp_all add: bv_at_bit bit_not_iff)

lemma bit_not_eq: "sz \<le> 64 * length bv \<Longrightarrow> bit_not bv sz = bit_not_of bv bv sz"
proof -
  assume "sz \<le> 64 * length bv"
  then have "sz mod 64 \<noteq> 0 \<Longrightarrow> sz div 64 < length bv"
    by (metis dvd_imp_mod_0 dvd_triv_left le_neq_implies_less word_below)
  then show ?thesis
    by (auto simp: bit_not_def bit_not_of_def Let_def nth_upd_words)
qed

lemma bv_at_set_all:
  "i < 64 * length bv \<Longrightarrow> bv_at (set_all bv sz) i = (i < sz \<or> bv_at bv i)"
  by (auto simp: set_all_def Let_def bv_at_bit nth_list_update' nth_upd_words pos_less [of i sz]
      bit_or_iff word_below [symmetric])

lemma is_superset_of_iff:
  "is_superset_of bv other sz \<longleftrightarrow> (\<forall>i < 64 * word_count sz. bv_at other i \<longrightarrow> bv_at bv i)"
proof -
  have eq: "NOT v AND w = 0 \<longleftrightarrow> (\<forall>j<64. bit w j \<longrightarrow> bit v j)" for v w :: "64 word"
    by (auto simp: word64_eq_iff bit_and_iff bit_not_iff)
  show ?thesis
  proof
    assume *: "is_superset_of bv other sz"
    show "\<forall>i < 64 * word_count sz. bv_at other i \<longrightarrow> bv_at bv i"
      using * by (auto simp: is_superset_of_def list_all_iff eq bv_at_bit div_less_iff_less_mult mult.commute)
  next
    assume *: "\<forall>i < 64 * word_count sz. bv_at other i \<longrightarrow> bv_at bv i"
    have "bit (other ! k) j \<longrightarrow> bit (bv ! k) j" if "k < word_count sz" "j < 64" for k j
    proof -
      have "64 * k + j < 64 * word_count sz" using that by linarith
      with * that show ?thesis by (auto simp: bv_at_bit dest!: spec [of _ "64 * k + j"])
    qed
    then show "is_superset_of bv other sz" by (auto simp: is_superset_of_def list_all_iff eq)
  qed
qed

lemma less_mod64: "j < sz mod 64 \<Longrightarrow> j < (64::nat)"
  by (meson less_trans mod_less_divisor zero_less_numeral)

text \<open>A property of every bit of a prefix, word by word.\<close>

lemma all_bits_prefix:
  "(\<forall>i < sz. P (bit (g (i div 64)) (i mod 64))) \<longleftrightarrow>
   (\<forall>k < sz div 64. \<forall>j < 64. P (bit (g k) j)) \<and> (\<forall>j < sz mod 64. P (bit (g (sz div 64)) j))"
  (is "?all \<longleftrightarrow> ?words \<and> ?last") for g :: "nat \<Rightarrow> 64 word"
proof
  assume *: ?all
  have "P (bit (g k) j)" if "k < sz div 64" "j < 64" for k j
    using * [rule_format, of "64 * k + j"] that by (simp add: pos_less [of _ sz])
  moreover have "P (bit (g (sz div 64)) j)" if "j < sz mod 64" for j
  proof -
    have "j < 64" using that by (rule less_mod64)
    with * [rule_format, of "64 * (sz div 64) + j"] that show ?thesis
      by (simp add: pos_less [of _ sz])
  qed
  ultimately show "?words \<and> ?last" by blast
next
  assume "?words \<and> ?last"
  then show ?all by (auto simp: pos_less [of _ sz])
qed

lemma bit_op_zero_iff:
  assumes "\<And>x y n. n < 64 \<Longrightarrow> bit (op x y) n = f (bit x n) (bit y n)"
  shows "bit_op_zero l r sz op \<longleftrightarrow> (\<forall>i < sz. \<not> f (bv_at l i) (bv_at r i))"
proof -
  have "(\<forall>i < sz. \<not> f (bv_at l i) (bv_at r i)) \<longleftrightarrow>
        (\<forall>i < sz. \<not> bit (op (l ! (i div 64)) (r ! (i div 64))) (i mod 64))"
    by (simp add: assms bv_at_bit)
  also have "\<dots> \<longleftrightarrow> bit_op_zero l r sz op"
    unfolding all_bits_prefix [where P = Not and g = "\<lambda>k. op (l ! k) (r ! k)"]
    by (auto simp: bit_op_zero_def Let_def list_all_iff word64_eq_iff bit_and_iff) (meson less_mod64)
  finally show ?thesis by simp
qed

lemma is_all_true_iff: "is_all_true bv sz \<longleftrightarrow> (\<forall>i < sz. bv_at bv i)"
  unfolding bv_at_bit all_bits_prefix [where P = "\<lambda>b. b" and g = "\<lambda>k. bv ! k"]
  by (auto simp: is_all_true_def Let_def list_all_iff word64_eq_iff bit_and_iff) (meson less_mod64)+

lemma is_all_false_iff: "is_all_false bv sz \<longleftrightarrow> (\<forall>i < sz. \<not> bv_at bv i)"
  unfolding bv_at_bit all_bits_prefix [where P = Not and g = "\<lambda>k. bv ! k"]
  by (auto simp: is_all_false_def Let_def list_all_iff word64_eq_iff bit_and_iff) (meson less_mod64)+

section \<open>Counting bits\<close>

lemma in_word: "64 * k \<le> i \<Longrightarrow> i < 64 * Suc k \<Longrightarrow> i div 64 = (k::nat)"
  by (auto intro!: div_nat_eqI simp: mult.commute)

lemma card_bits_in_word:
  "card {i. 64 * k \<le> i \<and> i < 64 * Suc k \<and> bit w (i mod 64)} = popcount64 w"
proof -
  have "{i. 64 * k \<le> i \<and> i < 64 * Suc k \<and> bit w (i mod 64)} = (\<lambda>j. 64 * k + j) ` {j. j < 64 \<and> bit w j}"
    (is "?A = ?B")
  proof
    show "?A \<subseteq> ?B"
    proof
      fix i assume i: "i \<in> ?A"
      then have "i = 64 * k + i mod 64" by (metis (lifting) in_word mem_Collect_eq mult_div_mod_eq)
      with i show "i \<in> ?B" by (auto intro!: image_eqI [of _ _ "i mod 64"])
    qed
    show "?B \<subseteq> ?A" by auto
  qed
  then show ?thesis by (simp add: popcount64_card card_image inj_on_def)
qed

lemma card_bits_word:
  "card {i. 64 * k \<le> i \<and> i < 64 * Suc k \<and> bv_at bv i} = popcount64 (bv ! k)"
  unfolding card_bits_in_word [of k "bv ! k", symmetric]
  by (rule arg_cong [where f = card]) (auto simp: bv_at_bit in_word)

lemma card_bits_split:
  "lo \<le> hi \<Longrightarrow> card {b. b < hi \<and> sel b} = card {b. b < lo \<and> sel b} + card {b. lo \<le> b \<and> b < hi \<and> sel b}" for hi :: nat
  by (subst card_Un_disjoint [symmetric]) (auto intro!: arg_cong [where f = card])

lemma card_bits_words:
  "card {i. i < 64 * n \<and> bv_at bv i} = sum_list (map (\<lambda>i. popcount64 (bv ! i)) [0..<n])"
proof (induction n)
  case (Suc n)
  with card_bits_split [of "64 * n" "64 * Suc n" "bv_at bv"] card_bits_word [of n bv]
  show ?case by simp
qed simp

lemma card_bits_tail:
  assumes "r < 64"
  shows "card {i. 64 * k \<le> i \<and> i < 64 * k + r \<and> bv_at bv i} = popcount64 (bv ! k AND low_mask r)"
proof -
  have "i < 64 * k + r \<longleftrightarrow> i < 64 * Suc k \<and> i mod 64 < r" if "64 * k \<le> i" for i
    using that assms in_word [OF that] by (auto simp: pos_less [of i "64 * k + r"] pos_less [of i "64 * Suc k"])
  then show ?thesis
    unfolding card_bits_in_word [of k, symmetric]
    by (intro arg_cong [where f = card]) (auto simp: bv_at_bit in_word bit_and_iff)
qed

lemma accumulate_bit_cnt_card: "accumulate_bit_cnt bv sz = card {i. i < sz \<and> bv_at bv i}"
proof -
  have "card {i. i < sz \<and> bv_at bv i} =
        sum_list (map (\<lambda>i. popcount64 (bv ! i)) [0..<sz div 64]) + popcount64 (bv ! (sz div 64) AND low_mask (sz mod 64))"
    using card_bits_split [of "64 * (sz div 64)" sz "bv_at bv"]
      card_bits_tail [of "sz mod 64" "sz div 64" bv] card_bits_words [of "sz div 64" bv] by simp
  then show ?thesis
    by (auto simp: accumulate_bit_cnt_def Let_def low_mask_def popcount64_def)
qed

lemma accumulate_bit_cnt_le: "accumulate_bit_cnt bv sz \<le> sz"
proof -
  have "{i. i < sz \<and> bv_at bv i} \<subseteq> {..<sz}" by auto
  then show ?thesis unfolding accumulate_bit_cnt_card
    using card_mono [of "{..<sz}"] by fastforce
qed

section \<open>What range operations do to each bit\<close>

lemma length_upd_range [simp]: "length (upd_range lo hi g bv) = length bv"
  by (induction hi) auto

lemma nth_upd_range:
  "i < length bv \<Longrightarrow> upd_range lo hi g bv ! i = (if lo \<le> i \<and> i < hi then g i else bv ! i)"
  by (induction hi) (auto simp: nth_list_update' less_Suc_eq)

lemma pos_le: "s \<le> i \<longleftrightarrow> s div 64 < i div 64 \<or> s div 64 = i div 64 \<and> s mod 64 \<le> i mod (64::nat)"
  using pos_less [of i s] by auto

lemma bit_not_mask [simp]: "bit (NOT (mask n) :: 64 word) j \<longleftrightarrow> n \<le> j \<and> j < 64"
  by (auto simp: bit_not_iff bit_mask_iff)

lemma low_mask_pos: "low_mask r > 0 \<longleftrightarrow> r > 0"
proof (cases r)
  case (Suc r')
  have "bit (low_mask r) 0" using Suc by simp
  then show ?thesis using Suc by (metis bit_0_eq bot_apply bot_bool_def word_gt_0 zero_less_Suc)
qed (simp add: low_mask_def)

text \<open>
  The shape shared by the operations on \<open>[s, e)\<close>: \<open>F k old mask\<close> changes the masked bits of word
  \<open>k\<close>, \<open>g k\<close> is the new value of a word that lies inside the range.
\<close>

definition range_update ::
  "(nat \<Rightarrow> 64 word \<Rightarrow> 64 word \<Rightarrow> 64 word) \<Rightarrow> (nat \<Rightarrow> 64 word) \<Rightarrow> bit_vector \<Rightarrow> nat \<Rightarrow> nat \<Rightarrow> bit_vector" where
  "range_update F g bv s e =
     (let (start_mask, end_mask, start_cnt, end_cnt) = get_start_end_mask s e
      in if start_cnt = end_cnt
         then bv[start_cnt := F start_cnt (bv ! start_cnt) (start_mask AND end_mask)]
         else let bv1 = bv[start_cnt := F start_cnt (bv ! start_cnt) start_mask];
                  bv2 = upd_range (start_cnt + 1) end_cnt g bv1
              in if end_mask > 0 then bv2[end_cnt := F end_cnt (bv2 ! end_cnt) end_mask] else bv2)"

lemma bv_at_range_update:
  assumes F: "\<And>k w m j. j < 64 \<Longrightarrow> bit (F k w m) j = (if bit m j then h k j (bit w j) else bit w j)"
    and g: "\<And>k j. j < 64 \<Longrightarrow> bit (g k) j = h k j (bit (bv ! k) j)"
    and se: "s \<le> e" and i: "i < 64 * length bv"
  shows "bv_at (range_update F g bv s e) i =
         (if s \<le> i \<and> i < e then h (i div 64) (i mod 64) (bv_at bv i) else bv_at bv i)"
proof -
  have len: "i div 64 < length bv" using i by (simp add: word_below)
  have sc: "s div 64 \<le> e div 64" using se by (rule div_le_mono)
  show ?thesis
  proof (cases "s div 64 = e div 64")
    case True
    with len show ?thesis
      by (auto simp: range_update_def get_start_end_mask_def bv_at_bit nth_list_update' F
          pos_less [of i e] pos_le [of s i] bit_and_iff)
  next
    case False
    with sc have "s div 64 < e div 64" by simp
    with len show ?thesis
      by (auto simp: range_update_def get_start_end_mask_def Let_def bv_at_bit nth_list_update' nth_upd_range
          F g low_mask_pos pos_less [of i e] pos_le [of s i])
  qed
qed

lemma bv_at_set_all_range:
  assumes "s \<le> e" "i < 64 * length bv"
  shows "bv_at (set_all_range bv s e) i = (s \<le> i \<and> i < e \<or> bv_at bv i)"
proof -
  have "set_all_range bv s e = range_update (\<lambda>k w m. w OR m) (\<lambda>k. - 1) bv s e"
    unfolding set_all_range_def range_update_def Let_def by (rule refl)
  then show ?thesis
    by (simp only:, subst bv_at_range_update [where h = "\<lambda>k j b. True", OF _ _ assms(1,2)])
      (auto simp: assms bit_or_iff)
qed

lemma bv_at_unset_all_range:
  assumes "s \<le> e" "i < 64 * length bv"
  shows "bv_at (unset_all_range bv s e) i = (\<not> (s \<le> i \<and> i < e) \<and> bv_at bv i)"
proof -
  have "unset_all_range bv s e = range_update (\<lambda>k w m. w AND NOT m) (\<lambda>k. 0) bv s e"
    unfolding unset_all_range_def range_update_def Let_def by (rule refl)
  then show ?thesis
    by (simp only:, subst bv_at_range_update [where h = "\<lambda>k j b. False", OF _ _ assms(1,2)])
      (auto simp: assms bit_and_iff bit_not_iff)
qed

lemma bv_at_deep_copy_range:
  assumes "s \<le> e" "i < 64 * length bv"
  shows "bv_at (deep_copy_range bv src s e) i = (if s \<le> i \<and> i < e then bv_at src i else bv_at bv i)"
proof -
  have "deep_copy_range bv src s e =
        range_update (\<lambda>k w m. (w AND NOT m) OR (src ! k AND m)) (\<lambda>k. src ! k) bv s e"
    unfolding deep_copy_range_def range_update_def Let_def by (rule refl)
  then show ?thesis
    by (simp only:, subst bv_at_range_update [where h = "\<lambda>k j b. bit (src ! k) j", OF _ _ assms(1,2)])
      (auto simp: assms bv_at_bit
        bit_and_iff bit_not_iff bit_or_iff)
qed

lemma bv_at_bit_or_range:
  assumes "s \<le> e" "i < 64 * length bv"
  shows "bv_at (bit_or_range bv src s e) i = (bv_at bv i \<or> s \<le> i \<and> i < e \<and> bv_at src i)"
proof -
  have "bit_or_range bv src s e =
        range_update (\<lambda>k w m. w OR (src ! k AND m)) (\<lambda>k. bv ! k OR src ! k) bv s e"
    unfolding bit_or_range_def range_update_def Let_def by (rule refl)
  then show ?thesis
    by (simp only:, subst bv_at_range_update [where h = "\<lambda>k j b. b \<or> bit (src ! k) j", OF _ _ assms(1,2)])
      (auto simp: assms bv_at_bit
        bit_and_iff bit_or_iff)
qed

lemma bv_at_bit_calculate_bound:
  assumes "s \<le> e" "i < 64 * length bv"
    and "\<And>x y n. n < 64 \<Longrightarrow> bit (op x y) n = f (bit x n) (bit y n)"
  shows "bv_at (bit_calculate_bound bv l r s e op) i =
         (if s \<le> i \<and> i < e then f (bv_at l i) (bv_at r i) else bv_at bv i)"
proof -
  have "bit_calculate_bound bv l r s e op =
        range_update (\<lambda>k w m. (w AND NOT m) OR (op (l ! k) (r ! k) AND m)) (\<lambda>k. op (l ! k) (r ! k)) bv s e"
    unfolding bit_calculate_bound_def range_update_def Let_def by (rule refl)
  then show ?thesis
    by (simp only:, subst bv_at_range_update [where h = "\<lambda>k j b. f (bit (l ! k) j) (bit (r ! k) j)", OF _ _ assms(1,2)])
      (auto simp: assms bv_at_bit
        bit_and_iff bit_not_iff bit_or_iff)
qed

lemma bv_at_bit_not_bound:
  assumes "s \<le> e" "i < 64 * length bv"
  shows "bv_at (bit_not_bound bv other s e) i =
         (if s \<le> i \<and> i < e then \<not> bv_at other i else bv_at bv i)"
proof -
  have "bit_not_bound bv other s e = bit_calculate_bound bv other other s e (\<lambda>x y. NOT x)"
    unfolding bit_not_bound_def bit_calculate_bound_def by (rule refl)
  with assms show ?thesis
    by (auto simp: bv_at_bit_calculate_bound [where f = "\<lambda>a b. \<not> a"] bit_not_iff)
qed

text \<open>A property of every bit of a range, word by word.\<close>

lemma all_bits_range:
  fixes g :: "nat \<Rightarrow> 64 word"
  assumes "s \<le> e"
  shows "(\<forall>i. s \<le> i \<and> i < e \<longrightarrow> P (bit (g (i div 64)) (i mod 64))) \<longleftrightarrow>
   (if s div 64 = e div 64 then \<forall>j<64. s mod 64 \<le> j \<and> j < e mod 64 \<longrightarrow> P (bit (g (s div 64)) j)
    else (\<forall>j<64. s mod 64 \<le> j \<longrightarrow> P (bit (g (s div 64)) j)) \<and>
         (\<forall>k \<in> {s div 64 + 1..<e div 64}. \<forall>j<64. P (bit (g k) j)) \<and>
         (\<forall>j<64. j < e mod 64 \<longrightarrow> P (bit (g (e div 64)) j)))"
  (is "?all \<longleftrightarrow> ?words")
proof -
  have sc: "s div 64 \<le> e div 64" using assms by (rule div_le_mono)
  have "?all \<longleftrightarrow> (\<forall>k. \<forall>j<64. s \<le> 64 * k + j \<and> 64 * k + j < e \<longrightarrow> P (bit (g k) j))" (is "_ \<longleftrightarrow> ?flat")
  proof
    assume all: ?all
    have "P (bit (g k) j)" if "j < 64" "s \<le> 64 * k + j \<and> 64 * k + j < e" for k j
      using all [rule_format, OF that(2)] that(1) by simp
    then show ?flat by blast
  next
    assume flat: ?flat
    have "P (bit (g (i div 64)) (i mod 64))" if "s \<le> i \<and> i < e" for i
      using flat [rule_format, of "i mod 64" "i div 64"] that by simp
    then show ?all by blast
  qed
  also have "\<dots> \<longleftrightarrow> ?words"
  proof (cases "s div 64 = e div 64")
    case True
    then show ?thesis by (auto simp: pos_less [of _ e] pos_le [of s])
  next
    case False
    with sc have "s div 64 < e div 64" by simp
    then show ?thesis by (auto simp: pos_less [of _ e] pos_le [of s])
  qed
  finally show ?thesis .
qed

lemma masked_zero_iff:
  "w AND m = 0 \<longleftrightarrow> (\<forall>j<64. bit m j \<longrightarrow> \<not> bit w j)" "w = 0 \<longleftrightarrow> (\<forall>j<64. \<not> bit w j)" for w m :: "64 word"
  by (auto simp: word64_eq_iff bit_and_iff)

lemma masked_ones_iff:
  "w AND m = m \<longleftrightarrow> (\<forall>j<64. bit m j \<longrightarrow> bit w j)" "- 1 = w \<longleftrightarrow> (\<forall>j<64. bit w j)" for w m :: "64 word"
  by (auto simp: word64_eq_iff bit_and_iff)

lemma bit_op_zero_bound_iff:
  assumes "s \<le> e" and "\<And>x y n. n < 64 \<Longrightarrow> bit (op x y) n = f (bit x n) (bit y n)"
  shows "bit_op_zero_bound l r s e op \<longleftrightarrow> (\<forall>i. s \<le> i \<and> i < e \<longrightarrow> \<not> f (bv_at l i) (bv_at r i))"
proof -
  have "(\<forall>i. s \<le> i \<and> i < e \<longrightarrow> \<not> f (bv_at l i) (bv_at r i)) \<longleftrightarrow>
        (\<forall>i. s \<le> i \<and> i < e \<longrightarrow> \<not> bit (op (l ! (i div 64)) (r ! (i div 64))) (i mod 64))"
    by (simp add: assms bv_at_bit)
  also have "\<dots> \<longleftrightarrow> bit_op_zero_bound l r s e op"
    unfolding all_bits_range [OF assms(1), where P = Not and g = "\<lambda>k. op (l ! k) (r ! k)"]
    by (auto simp: bit_op_zero_bound_def get_start_end_mask_def Let_def list_all_iff
        masked_zero_iff low_mask_pos bit_and_iff)
  finally show ?thesis by simp
qed

lemma is_all_true_range_iff:
  "s \<le> e \<Longrightarrow> is_all_true_range bv s e \<longleftrightarrow> (\<forall>i. s \<le> i \<and> i < e \<longrightarrow> bv_at bv i)"
  unfolding bv_at_bit
  by (subst all_bits_range [where P = "\<lambda>b. b" and g = "\<lambda>k. bv ! k"])
    (auto simp: is_all_true_range_def get_start_end_mask_def Let_def list_all_iff
        masked_ones_iff low_mask_pos bit_and_iff)


lemma accumulate_bit_cnt_bound_diff:
  assumes "s \<le> e"
  shows "accumulate_bit_cnt_bound bv s e = int (accumulate_bit_cnt bv e) - int (accumulate_bit_cnt bv s)"
proof -
  have "s div 64 \<le> e div 64" using assms by (rule div_le_mono)
  then have "[0..<e div 64] = [0..<s div 64] @ [s div 64..<e div 64]"
    by (metis le0 le_add_diff_inverse upt_add_eq_append)
  then show ?thesis
    by (auto simp: accumulate_bit_cnt_bound_def accumulate_bit_cnt_def Let_def)
qed

lemma accumulate_bit_cnt_bound_card:
  "s \<le> e \<Longrightarrow> accumulate_bit_cnt_bound bv s e = int (card {i. s \<le> i \<and> i < e \<and> bv_at bv i})"
  using card_bits_split [of s e "bv_at bv"]
  by (simp add: accumulate_bit_cnt_bound_diff accumulate_bit_cnt_card)

section \<open>Properties\<close>

text \<open>C36. \<open>accumulate_bit_cnt\<close> of a prefix counts the set bits below \<open>e\<close>, also when the last word is used in part, and
  the version for a range counts the set bits of the range.\<close>

theorem accumulate_bit_cnt_correct:
  assumes "s \<le> e"
  shows "accumulate_bit_cnt bv e = card {i. i < e \<and> bv_at bv i} \<and>
         accumulate_bit_cnt_bound bv s e = int (card {i. s \<le> i \<and> i < e \<and> bv_at bv i})"
  using assms by (simp add: accumulate_bit_cnt_card accumulate_bit_cnt_bound_card)

theorem accumulate_bit_cnt_witness:
  "accumulate_bit_cnt_bound [255, 3] 4 66 = int (card {i. 4 \<le> i \<and> i < 66 \<and> bv_at [255, 3] i})"
  using accumulate_bit_cnt_correct [of 4 66 "[255, 3]"] by simp

text \<open>C37. The operations on a range \<open>[s, e)\<close> work with masks for the first and the last word and whole words between
  them; together they change exactly the bits of the range and give each of them its value.\<close>

theorem range_ops_correct:
  assumes "s \<le> e" "i < 64 * length bv"
  shows "bv_at (set_all_range bv s e) i = (s \<le> i \<and> i < e \<or> bv_at bv i) \<and>
         bv_at (unset_all_range bv s e) i = (\<not> (s \<le> i \<and> i < e) \<and> bv_at bv i) \<and>
         bv_at (deep_copy_range bv src s e) i = (if s \<le> i \<and> i < e then bv_at src i else bv_at bv i) \<and>
         bv_at (bit_or_range bv src s e) i = (bv_at bv i \<or> s \<le> i \<and> i < e \<and> bv_at src i) \<and>
         bv_at (bit_not_bound bv src s e) i = (if s \<le> i \<and> i < e then \<not> bv_at src i else bv_at bv i)"
  using assms
  by (simp add: bv_at_set_all_range bv_at_unset_all_range bv_at_deep_copy_range bv_at_bit_or_range bv_at_bit_not_bound)

theorem range_ops_witness:
  "bv_at (set_all_range [0, 1] 60 70) 65 \<and> \<not> bv_at (unset_all_range [0, 1] 60 70) 64 \<and>
   bv_at (deep_copy_range [0, 1] [0, 2] 60 70) 65"
  using range_ops_correct [of 60 70 65 "[0, 1]" "[0, 2]"] range_ops_correct [of 60 70 64 "[0, 1]" "[0, 2]"]
  by (simp add: bv_at_bit bit_numeral_rec)

end
