(* ===== verification/OB_Bit_Foreach.thy ===== *)
theory OB_Bit_Foreach
  imports OB_Bit_Vector
begin

text \<open>
  The bit iterators \<open>foreach\<close> and \<open>flip_foreach\<close> of \<^verbatim>\<open>src/sql/engine/ob_bit_vector.h\<close>:
  a word is scanned in steps of 16 bits, a full step calls the operation 16 times, another step finds its set bits
  with \<^verbatim>\<open>__builtin_ctz\<close> and clears them one by one. The reference definition is the loop over the
  indices in order that skips the bits that are not set; the two are equal, early exits included.
\<close>

unbundle bit_operations_syntax

section \<open>The iterators\<close>

definition ctz16 :: "16 word \<Rightarrow> nat" where
  "ctz16 v = length (takeWhile (\<lambda>j. \<not> bit v j) [0..<16])"

type_synonym 's bit_op = "nat \<Rightarrow> 's \<Rightarrow> (ob_ret \<times> 's) option"

lemma and_pred_less: "0 < v AND (v - 1) \<Longrightarrow> unat (v AND (v - 1)) < unat v" for v :: "'a::len word"
proof -
  assume "0 < v AND (v - 1)"
  then have "v \<noteq> 0" by auto
  have "unat (v AND (v - 1)) \<le> unat (v - 1)"
    unfolding unsigned_and_eq by (rule and_le_nat)
  also have "\<dots> < unat v" using \<open>v \<noteq> 0\<close> by (simp add: unat_minus_one unat_gt_0)
  finally show ?thesis .
qed

function foreach_step :: "'s bit_op \<Rightarrow> nat \<Rightarrow> 16 word \<Rightarrow> 's \<Rightarrow> (ob_ret \<times> 's) option" where
  "foreach_step op tmp_step step_val s =
     (case op (ctz16 step_val + tmp_step) s of
        None \<Rightarrow> None
      | Some (ret, s') \<Rightarrow>
          (let step_val' = step_val AND (step_val - 1)
           in if step_val' > 0 \<and> ret = OB_SUCCESS then foreach_step op tmp_step step_val' s'
              else Some (ret, s')))"
  by pat_completeness auto
termination
  by (relation "measure (\<lambda>(op, t, v, s). unat v)") (auto simp: and_pred_less)

lemma drop16_less: "0 < drop_bit 16 w \<Longrightarrow> unat (drop_bit 16 w) < unat w" for w :: "64 word"
  unfolding unat_drop64 word_less_nat_alt by simp

function foreach_word :: "'s bit_op \<Rightarrow> nat \<Rightarrow> 64 word \<Rightarrow> 's \<Rightarrow> (ob_ret \<times> 's) option" where
  "foreach_word op tmp_step w s =
     (let step_val = ucast (w AND 0xFFFF) :: 16 word;
          res = (if step_val = 0xFFFF then for_ret (\<lambda>j. op (j + tmp_step)) [0..<16] s
                 else if step_val > 0 then foreach_step op tmp_step step_val s
                 else Some (OB_SUCCESS, s))
      in case res of
           None \<Rightarrow> None
         | Some (ret, s') \<Rightarrow>
             (if drop_bit 16 w > 0 \<and> ret = OB_SUCCESS
              then foreach_word op (tmp_step + 16) (drop_bit 16 w) s'
              else Some (ret, s')))"
  by pat_completeness auto
termination
  by (relation "measure (\<lambda>(op, t, w, s). unat w)") (auto dest: drop16_less simp del: drop_bit_numeral_minus_bit1)

declare foreach_step.simps [simp del] foreach_word.simps [simp del]

definition inner_foreach_one_word :: "64 word \<Rightarrow> nat \<Rightarrow> 's bit_op \<Rightarrow> 's \<Rightarrow> (ob_ret \<times> 's) option" where
  "inner_foreach_one_word s_word step op s =
     (if s_word > 0 then foreach_word op step s_word s else Some (OB_SUCCESS, s))"

definition inner_foreach ::
  "bool \<Rightarrow> bit_vector \<Rightarrow> nat \<Rightarrow> nat \<Rightarrow> 's bit_op \<Rightarrow> 's \<Rightarrow> (ob_ret \<times> 's) option" where
  "inner_foreach is_flip skip start_idx end_idx op s =
     (let (start_mask, end_mask, start_cnt, end_cnt) = get_start_end_mask start_idx end_idx;
          word = (\<lambda>i. if is_flip then NOT (skip ! i) else skip ! i)
      in if start_cnt = end_cnt
         then inner_foreach_one_word (word start_cnt AND (start_mask AND end_mask)) (64 * start_cnt) op s
         else do {
           (ret, s) \<leftarrow> inner_foreach_one_word
             (if start_mask > 0 then word start_cnt AND start_mask else word start_cnt) (64 * start_cnt) op s;
           (ret, s) \<leftarrow> (if ret = OB_SUCCESS
                       then for_ret (\<lambda>i. inner_foreach_one_word (word i) (64 * i) op) [start_cnt + 1..<end_cnt] s
                       else Some (ret, s));
           (if ret = OB_SUCCESS \<and> end_mask > 0
            then inner_foreach_one_word (word end_cnt AND end_mask) (64 * end_cnt) op s
            else Some (ret, s))
         })"

definition flip_foreach :: "bit_vector \<Rightarrow> nat \<Rightarrow> 's bit_op \<Rightarrow> 's \<Rightarrow> (ob_ret \<times> 's) option" where
  "flip_foreach skip sz op s = inner_foreach True skip 0 sz op s"

definition foreach :: "bit_vector \<Rightarrow> nat \<Rightarrow> 's bit_op \<Rightarrow> 's \<Rightarrow> (ob_ret \<times> 's) option" where
  "foreach skip sz op s = inner_foreach False skip 0 sz op s"

definition flip_foreach_bound :: "bit_vector \<Rightarrow> nat \<Rightarrow> nat \<Rightarrow> 's bit_op \<Rightarrow> 's \<Rightarrow> (ob_ret \<times> 's) option" where
  "flip_foreach_bound skip start fin op s = inner_foreach True skip start fin op s"

definition foreach_bound :: "bit_vector \<Rightarrow> nat \<Rightarrow> nat \<Rightarrow> 's bit_op \<Rightarrow> 's \<Rightarrow> (ob_ret \<times> 's) option" where
  "foreach_bound skip start fin op s = inner_foreach False skip start fin op s"

section \<open>One step\<close>

lemma for_ret_append:
  "for_ret f (xs @ ys) s =
     (case for_ret f xs s of None \<Rightarrow> None
      | Some (ret, s') \<Rightarrow> if ret = OB_SUCCESS then for_ret f ys s' else Some (ret, s'))"
  by (induction xs arbitrary: s) (auto split: option.splits)

lemma for_ret_map: "for_ret f (map h xs) s = for_ret (\<lambda>x. f (h x)) xs s"
  by (induction xs arbitrary: s) (auto split: option.splits)

lemma for_ret_single: "for_ret f [x] s = f x s"
  by (auto split: option.splits)

lemma for_ret_ends:
  "for_ret f (x # xs @ [y]) s = do {
     (ret, s) \<leftarrow> f x s;
     (ret, s) \<leftarrow> (if ret = OB_SUCCESS then for_ret f xs s else Some (ret, s));
     (if ret = OB_SUCCESS then f y s else Some (ret, s))
   }"
  by (auto simp: for_ret_append for_ret_single simp del: for_ret.simps(2) simp: for_ret.simps(2) [of f x]
      split: Option.bind_splits option.splits)

lemma if_success:
  "(if r = OB_SUCCESS \<and> c then X else Some (r, s)) =
   (if r = OB_SUCCESS then (if c then X else Some (OB_SUCCESS, s)) else Some (r, s))"
  by simp

lemma minus_1_push: "push_bit n (- 1 :: 64 word) = NOT (mask n)"
  by simp

lemma ctz16_bits:
  assumes "v \<noteq> 0"
  shows "ctz16 v < 16" "bit v (ctz16 v)" "j < ctz16 v \<Longrightarrow> \<not> bit v j"
proof -
  have ex: "\<exists>j<16. bit v j"
  proof (rule ccontr)
    assume "\<not> ?thesis"
    then have "v = 0" by (intro bit_word_eqI) auto
    with assms show False by simp
  qed
  then obtain j where j: "j < 16" "bit v j" by blast
  have "length (takeWhile (\<lambda>j. \<not> bit v j) [0..<16]) < length [0..<16::nat]"
  proof (rule ccontr)
    assume "\<not> ?thesis"
    then have "takeWhile (\<lambda>j. \<not> bit v j) [0..<16] = [0..<16::nat]"
      by (metis length_takeWhile_le linorder_not_less nle_le takeWhile_eq_take take_all)
    with j show False by (metis atLeastLessThan_iff le0 set_takeWhileD set_upt)
  qed
  then show lt: "ctz16 v < 16" by (simp add: ctz16_def)
  show "bit v (ctz16 v)"
    using nth_length_takeWhile [of "\<lambda>j. \<not> bit v j" "[0..<16]"] lt by (simp add: ctz16_def)
  show "\<not> bit v j" if "j < ctz16 v" for j
    using takeWhile_nth [of j "\<lambda>j. \<not> bit v j" "[0..<16]"] set_takeWhileD [of "j" "\<lambda>j. \<not> bit v j" "[0..<16]"]
      that lt nth_mem [of j "takeWhile (\<lambda>j. \<not> bit v j) [0..<16]"]
    by (simp add: ctz16_def)
qed

lemma bit_pred_nat:
  fixes q n :: nat
  defines "x \<equiv> 2 ^ n * (2 * q + 1)"
  shows "bit (x - 1) n = False" "n < j \<Longrightarrow> bit (x - 1) j = bit x j"
proof -
  have x: "x - 1 = (2 ^ n - 1) + 2 ^ n * (2 * q)" by (simp add: x_def algebra_simps)
  have "(x - 1) div 2 ^ n = 2 * q" unfolding x by (rule digit_eqs) simp
  moreover have "x div 2 ^ n = 2 * q + 1" by (simp add: x_def)
  ultimately have d: "(x - 1) div 2 ^ n = 2 * q" "x div 2 ^ n = 2 * q + 1" by blast+
  then show "bit (x - 1) n = False" by (simp add: bit_iff_odd)
  show "bit (x - 1) j = bit x j" if "n < j"
  proof -
    obtain m where m: "j = Suc (n + m)" using less_imp_Suc_add [OF \<open>n < j\<close>] by blast
    have "(2::nat) ^ j = 2 ^ n * 2 * 2 ^ m" by (simp add: m power_add)
    then have "(x - 1) div 2 ^ j = x div 2 ^ j" by (simp only: div_mult2_eq d) simp
    then show ?thesis by (simp only: bit_iff_odd)
  qed
qed

lemma bit_clear_lowest: "v \<noteq> 0 \<Longrightarrow> bit (v AND (v - 1)) j \<longleftrightarrow> bit v j \<and> j \<noteq> ctz16 v"
proof -
  assume v: "v \<noteq> 0"
  define n N where "n = ctz16 v" and "N = unat v"
  have bits: "bit N i \<longleftrightarrow> bit v i" for i by (simp add: N_def bit_unsigned_iff)
  have "take_bit n N = 0"
    by (rule bit_eqI) (use ctz16_bits(3) [OF v] in \<open>auto simp: bit_take_bit_iff bits n_def\<close>)
  then have "N = 2 ^ n * (N div 2 ^ n)" using mult_div_mod_eq [of "2 ^ n" N] by (simp add: take_bit_eq_mod)
  moreover have "odd (N div 2 ^ n)" using ctz16_bits(2) [OF v] by (simp add: bit_iff_odd [symmetric] bits n_def)
  ultimately obtain q where N: "N = 2 ^ n * (2 * q + 1)" by (metis oddE)
  have p: "bit (v - 1) i \<longleftrightarrow> bit (N - 1) i" for i
  proof -
    have "unat (v - 1) = N - 1" using v by (simp add: N_def unat_minus_one)
    moreover have "bit (unat (v - 1)) i \<longleftrightarrow> bit (v - 1) i" by (simp add: bit_unsigned_iff)
    ultimately show ?thesis by simp
  qed
  consider "j < n" | "j = n" | "n < j" by linarith
  then show ?thesis
  proof cases
    case 1
    with ctz16_bits(3) [OF v] show ?thesis by (simp add: bit_and_iff n_def)
  next
    case 2
    with p bit_pred_nat(1) [of n q] N show ?thesis by (simp add: bit_and_iff n_def)
  next
    case 3
    with p bit_pred_nat(2) [of n j q] N bits show ?thesis by (auto simp: bit_and_iff n_def)
  qed
qed

lemma sorted_filter_upt [simp]: "sorted (filter P [a..<b])"
  by (simp add: sorted_wrt_filter)

lemma sorted_filter_upt_eq:
  fixes a b c d :: nat
  assumes "{i \<in> {a..<b}. P i} = {i \<in> {c..<d}. Q i}"
  shows "filter P [a..<b] = filter Q [c..<d]"
proof (rule sorted_distinct_set_unique)
  show "set (filter P [a..<b]) = set (filter Q [c..<d])"
    unfolding set_filter set_upt by (rule assms)
qed simp_all

lemma filter_ctz16:
  "v \<noteq> 0 \<Longrightarrow> filter (bit v) [0..<16] = ctz16 v # filter (bit (v AND (v - 1))) [0..<16]"
proof (rule sorted_distinct_set_unique)
  assume v: "v \<noteq> 0"
  have "ctz16 v < j" if "bit v j" "j \<noteq> ctz16 v" for j
    using that ctz16_bits(3) [OF v, of j] by linarith
  then show "sorted (ctz16 v # filter (bit (v AND (v - 1))) [0..<16])"
    by (auto simp: bit_clear_lowest [OF v] intro: less_imp_le)
  show "set (filter (bit v) [0..<16]) = set (ctz16 v # filter (bit (v AND (v - 1))) [0..<16])"
    using ctz16_bits [OF v] by (auto simp: bit_clear_lowest [OF v])
  show "distinct (ctz16 v # filter (bit (v AND (v - 1))) [0..<16])"
    by (simp add: bit_clear_lowest [OF v])
qed simp_all

lemma filter_bit_none: "\<not> 0 < w \<Longrightarrow> filter (bit w) xs = []" for w :: "'a::len word"
  unfolding word_gt_0 by (simp add: filter_empty_conv)

lemma foreach_step_eq:
  "v \<noteq> 0 \<Longrightarrow> foreach_step op t v s = for_ret (\<lambda>j. op (j + t)) (filter (bit v) [0..<16]) s"
proof (induction op t v s rule: foreach_step.induct)
  case (1 op t v s)
  show ?case
    by (subst foreach_step.simps)
      (use 1 in \<open>auto simp: filter_ctz16 Let_def filter_bit_none split: option.splits\<close>)
qed

section \<open>One word\<close>

lemma bit_low16: "bit (ucast (w AND 0xFFFF) :: 16 word) j \<longleftrightarrow> j < 16 \<and> bit w j" for w :: "64 word"
proof -
  have "(0xFFFF :: 64 word) = mask 16" by (simp add: mask_eq_exp_minus_1)
  then show ?thesis
    by (simp only: bit_ucast_iff bit_and_iff bit_mask_iff) (auto dest: bit_imp_le_length)
qed

lemma low16_step:
  fixes w :: "64 word"
  defines "step_val \<equiv> ucast (w AND 0xFFFF) :: 16 word"
  shows "(if step_val = 0xFFFF then for_ret (\<lambda>j. op (j + t)) [0..<16] s
          else if step_val > 0 then foreach_step op t step_val s
          else Some (OB_SUCCESS, s)) =
         for_ret (\<lambda>j. op (j + t)) (filter (bit w) [0..<16]) s"
proof -
  have eq: "filter (bit step_val) [0..<16] = filter (bit w) [0..<16]"
    by (rule filter_cong) (simp_all add: step_val_def bit_low16)
  have "filter (bit step_val) [0..<16] = [0..<16]" if "step_val = 0xFFFF"
  proof -
    have "(0xFFFF :: 16 word) = mask 16" by (simp add: mask_eq_exp_minus_1)
    with that show ?thesis by (simp only: filter_id_conv bit_mask_iff) simp
  qed
  with eq foreach_step_eq [of step_val op t s] show ?thesis
    by (auto simp: word_gt_0 eq [symmetric] simp del: of_nat_numeral)
qed

lemma filter_drop16:
  "filter (bit w) [0..<64] = filter (bit w) [0..<16] @ map (\<lambda>j. j + 16) (filter (bit (drop_bit 16 w)) [0..<64])"
  for w :: "64 word"
proof (rule sorted_distinct_set_unique)
  show "set (filter (bit w) [0..<64]) =
        set (filter (bit w) [0..<16] @ map (\<lambda>j. j + 16) (filter (bit (drop_bit 16 w)) [0..<64]))"
  proof -
    have "i \<in> (\<lambda>j. j + 16) ` {j. j < 64 \<and> bit w (16 + j)}" if "i < 64" "\<not> i < 16" "bit w i" for i
      using that by (intro image_eqI [of _ _ "i - 16"]) auto
    moreover have "16 + j < 64" if "bit w (16 + j)" for j using bit_imp_le_length [OF that] by simp
    ultimately show ?thesis by (auto simp: bit_drop_bit_eq add.commute simp del: drop_bit_numeral_minus_bit1)
  qed
qed (auto simp: sorted_append sorted_map distinct_map inj_on_def)

lemma foreach_word_eq:
  "foreach_word op t w s = for_ret (\<lambda>j. op (j + t)) (filter (bit w) [0..<64]) s"
proof (induction op t w s rule: foreach_word.induct)
  case (1 op t w s)
  let ?low = "for_ret (\<lambda>j. op (j + t)) (filter (bit w) [0..<16]) s"
  have rhs: "for_ret (\<lambda>j. op (j + t)) (filter (bit w) [0..<64]) s =
    (case ?low of None \<Rightarrow> None
     | Some (ret, s') \<Rightarrow> if ret = OB_SUCCESS
         then for_ret (\<lambda>j. op (j + (t + 16))) (filter (bit (drop_bit 16 w)) [0..<64]) s' else Some (ret, s'))"
    by (subst filter_drop16) (simp only: for_ret_append for_ret_map ac_simps)
  have lhs: "foreach_word op t w s =
    (case ?low of None \<Rightarrow> None
     | Some (ret, s') \<Rightarrow> if drop_bit 16 w > 0 \<and> ret = OB_SUCCESS
         then foreach_word op (t + 16) (drop_bit 16 w) s' else Some (ret, s'))"
    unfolding foreach_word.simps [of op t w s] Let_def low16_step by (rule refl)
  show ?case
  proof (cases ?low)
    case None
    then show ?thesis by (simp only: lhs rhs option.case)
  next
    case (Some p)
    obtain ret s' where p: "p = (ret, s')" by fastforce
    have "foreach_word op (t + 16) (drop_bit 16 w) s' =
          for_ret (\<lambda>j. op (j + (t + 16))) (filter (bit (drop_bit 16 w)) [0..<64]) s'"
      if "drop_bit 16 w > 0 \<and> ret = OB_SUCCESS"
      using "1.IH" [OF refl refl, unfolded low16_step, OF Some p [symmetric] that] by (simp only: p)
    then show ?thesis unfolding lhs rhs Some p option.case prod.case
      using filter_bit_none [of "drop_bit 16 w"] 
      by (cases "drop_bit 16 w > 0"; cases "ret = OB_SUCCESS") (simp_all only: for_ret.simps simp_thms if_True if_False)
  qed
qed

lemma inner_foreach_one_word_eq:
  "inner_foreach_one_word w t op s = for_ret op (map (\<lambda>j. j + t) (filter (bit w) [0..<64])) s"
  by (cases "w > 0") (simp_all add: inner_foreach_one_word_def foreach_word_eq for_ret_map filter_bit_none)

section \<open>A range of words\<close>

text \<open>The indices of the bits of word \<open>k\<close> that hold in \<open>w\<close>.\<close>

lemma word_indices:
  "map (\<lambda>j. j + 64 * k) (filter (bit w) [0..<64]) = filter (\<lambda>i. bit w (i mod 64)) [64 * k..<64 * Suc k]"
proof (rule sorted_distinct_set_unique)
  have "i \<in> (\<lambda>j. j + 64 * k) ` {j. j < 64 \<and> bit w j}" if "64 * k \<le> i" "i < 64 * Suc k" "bit w (i mod 64)" for i
  proof (rule image_eqI [of _ _ "i mod 64"])
    show "i = i mod 64 + 64 * k" using in_word [OF that(1,2)] by (metis mod_mult_div_eq)
  qed (use that in simp)
  then show "set (map (\<lambda>j. j + 64 * k) (filter (bit w) [0..<64])) =
        set (filter (\<lambda>i. bit w (i mod 64)) [64 * k..<64 * Suc k])"
    by auto
qed (auto simp: sorted_map distinct_map inj_on_def)

lemma for_ret_words:
  "for_ret (\<lambda>i. inner_foreach_one_word (w i) (64 * i) op) [a..<b] s =
   for_ret op (filter (\<lambda>i. bit (w (i div 64)) (i mod 64)) [64 * a..<64 * b]) s"
proof (induction b)
  case (Suc b)
  show ?case
  proof (cases "a \<le> b")
    case True
    have "[64 * a..<64 * Suc b] = [64 * a..<64 * b] @ [64 * b..<64 * Suc b]"
      using True upt_add_eq_append [of "64 * a" "64 * b" 64] by (simp add: add.commute)
    moreover have "filter (\<lambda>i. bit (w (i div 64)) (i mod 64)) [64 * b..<64 * Suc b] =
                   filter (\<lambda>i. bit (w b) (i mod 64)) [64 * b..<64 * Suc b]"
      by (rule filter_cong) (auto simp: in_word)
    ultimately show ?thesis
      using True Suc by (simp add: for_ret_append inner_foreach_one_word_eq word_indices split: option.splits)
  qed simp
qed simp

text \<open>The words the code scans: the first and the last one masked to the range.\<close>

definition masked_word :: "bool \<Rightarrow> bit_vector \<Rightarrow> nat \<Rightarrow> nat \<Rightarrow> nat \<Rightarrow> 64 word" where
  "masked_word is_flip skip s e i =
     (let w = (if is_flip then NOT (skip ! i) else skip ! i);
          w = (if i = s div 64 then w AND NOT (mask (s mod 64)) else w)
      in if i = e div 64 then w AND low_mask (e mod 64) else w)"

lemma bit_masked_word:
  assumes "s div 64 \<le> i div 64" "i div 64 \<le> e div 64"
  shows "bit (masked_word is_flip skip s e (i div 64)) (i mod 64) \<longleftrightarrow> s \<le> i \<and> i < e \<and> bv_at skip i \<noteq> is_flip"
  using assms by (auto simp: masked_word_def Let_def bit_and_iff bit_not_iff bit_mask_iff bv_at_bit pos_less [of i e] pos_le [of s i])

lemma inner_foreach_masked:
  assumes "s \<le> e"
  shows "inner_foreach is_flip skip s e op st =
        for_ret (\<lambda>i. inner_foreach_one_word (masked_word is_flip skip s e i) (64 * i) op)
          [s div 64..<Suc (e div 64)] st"
proof (cases "s div 64 = e div 64")
  case True
  then show ?thesis
    by (auto simp: inner_foreach_def get_start_end_mask_def masked_word_def Let_def ac_simps split: option.splits)
next
  case False
  have sc: "s div 64 < e div 64" using div_le_mono [OF assms, of 64] False by simp
  have upt: "[s div 64..<Suc (e div 64)] = s div 64 # [s div 64 + 1..<e div 64] @ [e div 64]"
    using sc by (simp add: upt_conv_Cons [OF sc])
  have pos: "0 < (NOT (mask (s mod 64)) :: 64 word)"
  proof -
    have "bit (NOT (mask (s mod 64)) :: 64 word) 63" by simp
    then show ?thesis by (metis bit_0_eq bot_apply bot_bool_def word_gt_0)
  qed
  have mid: "for_ret (\<lambda>i. inner_foreach_one_word (if is_flip then NOT (skip ! i) else skip ! i) (64 * i) op)
        [s div 64 + 1..<e div 64] st' =
      for_ret (\<lambda>i. inner_foreach_one_word (masked_word is_flip skip s e i) (64 * i) op)
        [s div 64 + 1..<e div 64] st'" for st'
    by (rule for_ret_cong) (auto simp: masked_word_def)
  have first: "(if is_flip then NOT (skip ! (s div 64)) else skip ! (s div 64)) AND NOT (mask (s mod 64)) =
      masked_word is_flip skip s e (s div 64)"
    using sc by (simp add: masked_word_def)
  have last: "(if 0 < low_mask (e mod 64)
       then inner_foreach_one_word ((if is_flip then NOT (skip ! (e div 64)) else skip ! (e div 64)) AND low_mask (e mod 64))
              (64 * (e div 64)) op st'
       else Some (OB_SUCCESS, st')) =
      inner_foreach_one_word (masked_word is_flip skip s e (e div 64)) (64 * (e div 64)) op st'" for st'
  proof (cases "0 < low_mask (e mod 64)")
    case False
    then have "masked_word is_flip skip s e (e div 64) = 0"
      using sc by (simp add: masked_word_def low_mask_pos) (simp add: low_mask_def)
    with False show ?thesis by (simp add: inner_foreach_one_word_def)
  qed (use sc in \<open>simp add: masked_word_def\<close>)
  show ?thesis
    unfolding upt for_ret_ends inner_foreach_def get_start_end_mask_def Let_def prod.case
    using False pos by (simp only: minus_1_push if_True if_False first mid if_success last)
qed

theorem inner_foreach_eq:
  assumes "s \<le> e"
  shows "inner_foreach is_flip skip s e op st =
         for_ret op (filter (\<lambda>i. bv_at skip i \<noteq> is_flip) [s..<e]) st"
proof -
  have sc: "s div 64 \<le> e div 64" using assms by (rule div_le_mono)
  have "filter (\<lambda>i. bit (masked_word is_flip skip s e (i div 64)) (i mod 64)) [64 * (s div 64)..<64 * Suc (e div 64)] =
        filter (\<lambda>i. bv_at skip i \<noteq> is_flip) [s..<e]"
  proof (rule sorted_filter_upt_eq)
    have "i \<in> {64 * (s div 64)..<64 * Suc (e div 64)} \<longleftrightarrow> s div 64 \<le> i div 64 \<and> i div 64 \<le> e div 64" for i
      by (auto simp: pos_less [of i "64 * Suc (e div 64)"] pos_le [of "64 * (s div 64)" i])
    moreover have "i div 64 \<ge> s div 64 \<and> i div 64 \<le> e div 64" if "s \<le> i" "i < e" for i
      using that by (auto intro: div_le_mono)
    ultimately show "{i \<in> {64 * (s div 64)..<64 * Suc (e div 64)}.
          bit (masked_word is_flip skip s e (i div 64)) (i mod 64)} =
        {i \<in> {s..<e}. bv_at skip i \<noteq> is_flip}"
      using bit_masked_word by (auto simp del: mult_Suc_right)
  qed
  then show ?thesis by (simp only: inner_foreach_masked [OF assms] for_ret_words)
qed

section \<open>The property\<close>

text \<open>C20. \<open>inner_foreach\<close>, which masks the first and the last word and walks every word with its lowest set bit in
  steps of 16 bits, is the plain loop over the selected indices of the range in ascending order; it stops at the first
  index whose operation fails. It terminates for every operation.\<close>

theorem inner_foreach_correct:
  assumes "s \<le> e"
  shows "inner_foreach is_flip skip s e op st = for_ret op (filter (\<lambda>i. bv_at skip i \<noteq> is_flip) [s..<e]) st"
  by (rule inner_foreach_eq) (rule assms)

theorem inner_foreach_witness:
  "inner_foreach True [5] 1 7 (\<lambda>i s. Some (OB_SUCCESS, s @ [i])) [] =
   for_ret (\<lambda>i s. Some (OB_SUCCESS, s @ [i])) (filter (\<lambda>i. bv_at [5] i \<noteq> True) [1..<7]) []"
  by (rule inner_foreach_correct) simp

end
