(* ===== verification/OB_Dictionary.thy ===== *)
theory OB_Dictionary
  imports OB_Prelude
begin

text \<open>
  Containers of objects that carry their own key. \<open>key_map\<close> reads a list of objects as a finite map from
  keys to objects. The locale \<open>dictionary\<close> is the contract the schema managers rely on: storing an
  object replaces the one with the same key, deleting a key removes its object, and nothing else
  changes. The sorted vector and the pointer hash map provide it.
\<close>

section \<open>A list of objects as a map\<close>

definition key_map :: "('v \<Rightarrow> 'k) \<Rightarrow> 'v list \<Rightarrow> 'k \<Rightarrow> 'v option" where
  "key_map key vs k = find (\<lambda>v. key v = k) vs"

lemma key_map_Nil [simp]: "key_map key [] = Map.empty"
  by (simp add: key_map_def fun_eq_iff)

lemma key_map_None: "key_map key vs k = None \<longleftrightarrow> k \<notin> key ` set vs"
  by (auto simp: key_map_def find_None_iff)

lemma dom_key_map: "dom (key_map key vs) = key ` set vs"
  by (rule set_eqI) (simp add: domIff key_map_None)

lemma key_map_SomeD: "key_map key vs k = Some v \<Longrightarrow> v \<in> set vs \<and> key v = k"
  by (auto simp: key_map_def find_Some_iff)

lemma key_map_Some:
  "distinct (map key vs) \<Longrightarrow> key_map key vs k = Some v \<longleftrightarrow> v \<in> set vs \<and> key v = k"
  by (induction vs) (auto simp: key_map_def)

lemma key_map_append: "key_map key (xs @ ys) = key_map key ys ++ key_map key xs"
  by (induction xs) (auto simp: key_map_def fun_eq_iff map_add_def)

lemma key_map_insert:
  "key v \<notin> key ` set (xs @ ys) \<Longrightarrow> key_map key (xs @ v # ys) = (key_map key (xs @ ys))(key v \<mapsto> v)"
  by (rule ext, induction xs) (auto simp: key_map_def)

lemma key_map_remove:
  "key v \<notin> key ` set (xs @ ys) \<Longrightarrow> key_map key (xs @ ys) = (key_map key (xs @ v # ys))(key v := None)"
  by (auto simp: key_map_insert fun_eq_iff key_map_None)

lemma key_map_cong:
  assumes "set xs = set ys" "distinct (map key xs)" "distinct (map key ys)"
  shows "key_map key xs = key_map key ys"
proof
  fix k show "key_map key xs k = key_map key ys k"
  proof (cases "key_map key xs k")
    case None
    then have "key_map key ys k = None" using assms(1) unfolding key_map_None by simp
    with None show ?thesis by simp
  next
    case (Some v)
    then have "key_map key ys k = Some v" using assms unfolding key_map_Some [OF assms(2)] key_map_Some [OF assms(3)] by simp
    with Some show ?thesis by simp
  qed
qed

section \<open>The contract\<close>

datatype ('k, 'v) dict_op = Put 'v | Del 'k

fun dict_spec :: "('v \<Rightarrow> 'k) \<Rightarrow> ('k, 'v) dict_op \<Rightarrow> ('k \<rightharpoonup> 'v) \<Rightarrow> ('k \<rightharpoonup> 'v)" where
  "dict_spec key (Put v) m = m(key v \<mapsto> v)"
| "dict_spec key (Del k) m = m(k := None)"

locale dictionary =
  fixes ok :: "'s \<Rightarrow> bool"
    and look :: "'s \<Rightarrow> 'k \<Rightarrow> 'v option"
    and key :: "'v \<Rightarrow> 'k"
    and put :: "'v \<Rightarrow> 's \<Rightarrow> (ob_ret \<times> 's) option"
    and del :: "'k \<Rightarrow> 's \<Rightarrow> (ob_ret \<times> 's) option"
  assumes look_key: "ok s \<Longrightarrow> look s k = Some v \<Longrightarrow> key v = k"
    and put_ok: "ok s \<Longrightarrow> \<exists>s'. put v s = Some (OB_SUCCESS, s') \<and> ok s' \<and> look s' = (look s)(key v \<mapsto> v)"
    and del_ok: "ok s \<Longrightarrow> \<exists>ret s'. del k s = Some (ret, s') \<and> ok s' \<and> look s' = (look s)(k := None) \<and>
                   (ret = OB_SUCCESS \<longleftrightarrow> look s k \<noteq> None)"
begin

definition apply_op :: "('k, 'v) dict_op \<Rightarrow> 's \<Rightarrow> 's option" where
  "apply_op opn s = map_option snd (case opn of Put v \<Rightarrow> put v s | Del k \<Rightarrow> del k s)"

fun apply_ops :: "('k, 'v) dict_op list \<Rightarrow> 's \<Rightarrow> 's option" where
  "apply_ops [] s = Some s"
| "apply_ops (opn # ops) s = (case apply_op opn s of None \<Rightarrow> None | Some s' \<Rightarrow> apply_ops ops s')"

lemma apply_op_ok: "ok s \<Longrightarrow> \<exists>s'. apply_op opn s = Some s' \<and> ok s' \<and> look s' = dict_spec key opn (look s)"
  using put_ok [of s] del_ok [of s] by (cases opn) (fastforce simp: apply_op_def)+

text \<open>Any sequence of operations has the effect of the same sequence on the map.\<close>

lemma apply_ops_ok:
  "ok s \<Longrightarrow> \<exists>s'. apply_ops ops s = Some s' \<and> ok s' \<and> look s' = fold (dict_spec key) ops (look s)"
proof (induction ops arbitrary: s)
  case (Cons opn ops)
  from apply_op_ok [OF Cons.prems, of opn] obtain s' where
    s': "apply_op opn s = Some s'" "ok s'" "look s' = dict_spec key opn (look s)" by blast
  with Cons.IH [of s'] show ?case by simp
qed simp

end

text \<open>
  Two dictionaries that hold the same objects and are changed together. Their keys have the same type but may be read
  differently; an object is stored in both only if they agree on its key.
\<close>

locale dictionary_pair = a: dictionary ok look key put del + b: dictionary ok' look' key' put' del'
  for ok :: "'s \<Rightarrow> bool" and look :: "'s \<Rightarrow> 'k \<Rightarrow> 'v option" and key put del
    and ok' :: "'t \<Rightarrow> bool" and look' :: "'t \<Rightarrow> 'k \<Rightarrow> 'v option" and key' put' del'
begin

definition agree :: "'s \<Rightarrow> 't \<Rightarrow> bool" where
  "agree s t \<longleftrightarrow> ok s \<and> ok' t \<and> look s = look' t"

lemma agree_put:
  "agree s t \<Longrightarrow> key' v = key v \<Longrightarrow> \<exists>s' t'. put v s = Some (OB_SUCCESS, s') \<and> put' v t = Some (OB_SUCCESS, t') \<and>
     agree s' t' \<and> look s' = (look s)(key v \<mapsto> v)"
  using a.put_ok [of s v] b.put_ok [of t v] by (auto simp: agree_def)

lemma agree_del:
  "agree s t \<Longrightarrow> \<exists>ret s' ret' t'. del k s = Some (ret, s') \<and> del' k t = Some (ret', t') \<and>
     agree s' t' \<and> look s' = (look s)(k := None) \<and>
     (ret = OB_SUCCESS \<longleftrightarrow> look s k \<noteq> None) \<and> (ret' = OB_SUCCESS \<longleftrightarrow> look s k \<noteq> None)"
  using a.del_ok [of s k] b.del_ok [of t k] by (auto simp: agree_def)

text \<open>Filling the second from scratch with the objects of the first makes them agree again.\<close>

lemma refill:
  assumes "ok' t" and "look' t = Map.empty" and "distinct (map key' vs)"
  shows "\<exists>t'. for_ret put' vs t = Some (OB_SUCCESS, t') \<and> ok' t' \<and> look' t' = key_map key' vs"
proof -
  let ?I = "\<lambda>ds t. ok' t \<and> look' t = key_map key' ds"
  have "\<exists>t'. for_ret put' vs t = Some (OB_SUCCESS, t') \<and> ?I vs t'"
  proof (rule for_ret_success)
    show "?I [] t" using assms(1,2) by simp
    fix ds v rest t assume vs: "vs = ds @ v # rest" and I: "?I ds t"
    from vs assms(3) have "key' v \<notin> key' ` set (ds @ [])" by auto
    from key_map_insert [OF this] b.put_ok [of t v] I
    show "\<exists>t'. put' v t = Some (OB_SUCCESS, t') \<and> ?I (ds @ [v]) t'" by auto
  qed
  then show ?thesis by blast
qed

end

end
