(* ===== verification/OB_Pointer_Hash.thy ===== *)
theory OB_Pointer_Hash
  imports OB_Dictionary
begin

unbundle bit_operations_syntax

text \<open>
  \<^verbatim>\<open>deps/oblib/src/lib/hash/ob_pointer_hashmap.h\<close>: \<open>ObPointerHashArray\<close>, a hash table of pointers with
  open addressing, linear probing and a mark for erased cells, and \<open>ObPointerHashMap\<close>, up to four such
  tables that are searched one after the other and rebuilt into a larger one when they are full.

  The two marks \<^verbatim>\<open>empty_v_\<close> (a null pointer) and \<^verbatim>\<open>erased_v_\<close> (-1) are constructors of \<open>cell\<close>; the key of a
  pointer is read from the object it points to (\<open>he_key\<close>, the template argument \<^verbatim>\<open>GetKey\<close>). The record
  \<open>hash_env\<close> holds what the table is parameterised with: the hash function of the keys, the outcome of
  an allocation, and the two products with a \<^verbatim>\<open>double\<close>, \<open>he_load c\<close> for \<^verbatim>\<open>(int64_t)(c * 0.7)\<close> and \<open>he_ext n\<close>
  for \<^verbatim>\<open>(int64_t)(1.1 * n)\<close>, of which \<open>float_ok\<close> says how far they may be from the exact products.
  An access outside of the cells, or through a null sub map, is \<open>None\<close>.
\<close>

section \<open>One table\<close>

datatype 'v cell = Empty | Erased | Item 'v

record ('k, 'v) hash_env =
  he_hash :: "'k \<Rightarrow> 64 word"
  he_key :: "'v \<Rightarrow> 'k"
  he_alloc :: "nat \<Rightarrow> bool"
  he_load :: "nat \<Rightarrow> nat"
  he_ext :: "nat \<Rightarrow> nat"

record 'v hash_array =
  hcells :: "'v cell list"
  hmax_entries :: int
  hanchor_mask :: "64 word"
  hcount :: int
  hitem_count :: int

abbreviation hcapacity :: "'v hash_array \<Rightarrow> nat" where
  "hcapacity h \<equiv> length (hcells h)"

fun bit_length :: "nat \<Rightarrow> nat" where
  "bit_length n = (if n = 0 then 0 else 1 + bit_length (n div 2))"

definition next_pow2 :: "nat \<Rightarrow> nat" where
  "next_pow2 x = (if x > 1 then 2 ^ bit_length (x - 1) else 1)"

definition sizeof_hash_array :: nat where
  "sizeof_hash_array = 64"

definition ha_new :: "('k, 'v) hash_env \<Rightarrow> nat \<Rightarrow> 'v hash_array option" where
  "ha_new env array_mem_size =
     (if array_mem_size < sizeof_hash_array then None
      else let capacity = (array_mem_size - sizeof_hash_array) div 8
           in Some \<lparr>hcells = replicate capacity Empty, hmax_entries = int (he_load env capacity),
                    hanchor_mask = of_nat (next_pow2 capacity - 1), hcount = 0, hitem_count = 0\<rparr>)"

definition get_hash_array_mem_size :: "nat \<Rightarrow> nat" where
  "get_hash_array_mem_size ele_cnt = max 16 (ele_cnt * 2) * 8 + sizeof_hash_array"

definition ha_is_full :: "'v hash_array \<Rightarrow> bool" where
  "ha_is_full h \<longleftrightarrow> hcount h \<ge> hmax_entries h"

definition ha_need_rebuild :: "'v hash_array \<Rightarrow> bool" where
  "ha_need_rebuild h \<longleftrightarrow> hcount h - hitem_count h > hmax_entries h div 10 \<and> ha_is_full h"

definition ha_clear :: "'v hash_array \<Rightarrow> 'v hash_array" where
  "ha_clear h = h \<lparr>hcells := replicate (hcapacity h) Empty, hcount := 0, hitem_count := 0\<rparr>"

text \<open>The iterator skips empty and erased cells: it visits \<open>ha_items\<close>.\<close>

fun cell_items :: "'v cell list \<Rightarrow> 'v list" where
  "cell_items [] = []"
| "cell_items (Empty # cs) = cell_items cs"
| "cell_items (Erased # cs) = cell_items cs"
| "cell_items (Item v # cs) = v # cell_items cs"

definition ha_items :: "'v hash_array \<Rightarrow> 'v list" where
  "ha_items h = cell_items (hcells h)"

definition key_to_anchor_idx :: "('k, 'v) hash_env \<Rightarrow> 'v hash_array \<Rightarrow> 'k \<Rightarrow> nat" where
  "key_to_anchor_idx env h key =
     (let hash_val = he_hash env key; probe = unat (hash_val AND hanchor_mask h)
      in if probe < hcapacity h then probe else unat hash_val mod hcapacity h)"

definition probe_next :: "'v hash_array \<Rightarrow> nat \<Rightarrow> nat" where
  "probe_next h idx = (if idx + 1 < hcapacity h then idx + 1 else idx + 1 - hcapacity h)"

function search_loop ::
  "('k, 'v) hash_env \<Rightarrow> 'v hash_array \<Rightarrow> 'k \<Rightarrow> nat \<Rightarrow> nat \<Rightarrow> (ob_ret \<times> nat option) option" where
  "search_loop env h key i num_probes =
     (if i \<ge> hcapacity h then None
      else let continue = (if num_probes + 1 \<ge> hcapacity h then Some (OB_HASH_NOT_EXIST, None)
                           else search_loop env h key (probe_next h i) (num_probes + 1))
           in case hcells h ! i of
                Empty \<Rightarrow> Some (OB_HASH_NOT_EXIST, None)
              | Erased \<Rightarrow> continue
              | Item v \<Rightarrow> if he_key env v = key then Some (OB_SUCCESS, Some i) else continue)"
  by pat_completeness auto
termination
  by (relation "measure (\<lambda>(env, h, key, i, n). hcapacity h - n)") auto

definition placement_hash_search ::
  "('k, 'v) hash_env \<Rightarrow> 'v hash_array \<Rightarrow> 'k \<Rightarrow> (ob_ret \<times> nat option) option" where
  "placement_hash_search env h key =
     (if hitem_count h \<le> 0 then Some (OB_HASH_NOT_EXIST, None)
      else search_loop env h key (key_to_anchor_idx env h key) 0)"

function set_pos_loop ::
  "('k, 'v) hash_env \<Rightarrow> 'v hash_array \<Rightarrow> 'k \<Rightarrow> bool \<Rightarrow> nat \<Rightarrow> nat \<Rightarrow> nat option \<Rightarrow>
     (ob_ret \<times> nat option \<times> bool) option" where
  "set_pos_loop env h key overwrite i num_probes pos =
     (if i \<ge> hcapacity h then None
      else let free = (if pos = None then Some i else pos);
               continue = (\<lambda>pos. if num_probes + 1 \<ge> hcapacity h then Some (OB_HASH_FULL, pos, False)
                           else set_pos_loop env h key overwrite (probe_next h i) (num_probes + 1) pos)
           in case hcells h ! i of
                Empty \<Rightarrow> Some (OB_SUCCESS, free, False)
              | Erased \<Rightarrow> continue free
              | Item v \<Rightarrow> if he_key env v = key
                          then Some (if overwrite then OB_SUCCESS else OB_HASH_EXIST, Some i, True)
                          else continue pos)"
  by pat_completeness auto
termination
  by (relation "measure (\<lambda>(env, h, key, ow, i, n, pos). hcapacity h - n)") auto

declare bit_length.simps [simp del] search_loop.simps [simp del] set_pos_loop.simps [simp del]

definition placement_hash_find_set_pos ::
  "('k, 'v) hash_env \<Rightarrow> 'v hash_array \<Rightarrow> 'k \<Rightarrow> bool \<Rightarrow> (ob_ret \<times> nat option \<times> bool) option" where
  "placement_hash_find_set_pos env h key overwrite =
     set_pos_loop env h key overwrite (key_to_anchor_idx env h key) 0 None"

text \<open>Returns the position, the erased position of a full table, and whether the key is there.\<close>

definition ha_find_set_pos ::
  "('k, 'v) hash_env \<Rightarrow> 'v hash_array \<Rightarrow> 'k \<Rightarrow> 'v cell \<Rightarrow> bool \<Rightarrow>
     (ob_ret \<times> nat option \<times> nat option \<times> bool) option" where
  "ha_find_set_pos env h key val overwrite =
     do { (ret, pos, exist) \<leftarrow> placement_hash_find_set_pos env h key overwrite;
          Some (if ret = OB_SUCCESS \<and> \<not> exist
                then if val = Erased then (OB_HASH_NOT_EXIST, pos, None, exist)
                     else if ha_is_full h
                     then (OB_HASH_FULL, pos,
                           case pos of
                             None \<Rightarrow> None
                           | Some p \<Rightarrow> if p \<ge> hcapacity h then None
                                       else if hcells h ! p = Erased then pos else None,
                           exist)
                     else (OB_SUCCESS, pos, None, exist)
                else (ret, pos, None, exist)) }"

definition ha_set_value ::
  "nat option \<Rightarrow> 'v cell \<Rightarrow> 'v hash_array \<Rightarrow> ob_ret \<times> 'v cell \<times> 'v hash_array" where
  "ha_set_value pos val h =
     (case pos of
        None \<Rightarrow> (OB_INVALID_ARGUMENT, Empty, h)
      | Some p \<Rightarrow>
          if p \<ge> hcapacity h then (OB_INVALID_ARGUMENT, Empty, h)
          else let old = hcells h ! p;
                   over_write_value = (case old of Item v \<Rightarrow> old | _ \<Rightarrow> Empty);
                   h = (case old of
                          Empty \<Rightarrow> h \<lparr>hcount := hcount h + 1, hitem_count := hitem_count h + 1\<rparr>
                        | Erased \<Rightarrow> h \<lparr>hitem_count := hitem_count h + 1\<rparr>
                        | Item v \<Rightarrow> if val = Erased then h \<lparr>hitem_count := hitem_count h - 1\<rparr> else h);
                   h = h \<lparr>hcells := (hcells h)[p := val]\<rparr>
               in (if hitem_count h > hcount h then OB_ERR_UNEXPECTED else OB_SUCCESS, over_write_value, h))"

definition ha_set_refactored ::
  "('k, 'v) hash_env \<Rightarrow> 'k \<Rightarrow> 'v cell \<Rightarrow> bool \<Rightarrow> 'v hash_array \<Rightarrow>
     (ob_ret \<times> 'v cell \<times> 'v hash_array) option" where
  "ha_set_refactored env key val overwrite h =
     do { (ret, pos, erased_pos, exist) \<leftarrow> ha_find_set_pos env h key val overwrite;
          Some (if ret = OB_SUCCESS then ha_set_value pos val h else (ret, Empty, h)) }"

definition ha_get_refactored ::
  "('k, 'v) hash_env \<Rightarrow> 'v hash_array \<Rightarrow> 'k \<Rightarrow> (ob_ret \<times> 'v cell option) option" where
  "ha_get_refactored env h key =
     do { (ret, pos) \<leftarrow> placement_hash_search env h key;
          Some (if ret \<noteq> OB_SUCCESS then (ret, None)
                else case pos of
                    None \<Rightarrow> (OB_ERR_UNEXPECTED, None)
                  | Some p \<Rightarrow> if p \<ge> hcapacity h then (OB_ERR_UNEXPECTED, None)
                              else (OB_SUCCESS, Some (hcells h ! p))) }"

definition ha_erase_refactored ::
  "('k, 'v) hash_env \<Rightarrow> 'k \<Rightarrow> 'v hash_array \<Rightarrow> (ob_ret \<times> 'v cell \<times> 'v hash_array) option" where
  "ha_erase_refactored env key h = ha_set_refactored env key Erased True h"

text \<open>\<open>erase\<close> through an iterator, given by its position.\<close>

definition ha_erase_at :: "nat \<Rightarrow> 'v hash_array \<Rightarrow> (ob_ret \<times> 'v hash_array) option" where
  "ha_erase_at p h =
     (if p \<ge> hcapacity h then None
      else case hcells h ! p of
          Item v \<Rightarrow> Some (OB_SUCCESS, h \<lparr>hcells := (hcells h)[p := Erased], hitem_count := hitem_count h - 1\<rparr>)
        | _ \<Rightarrow> Some (OB_INVALID_ARGUMENT, h))"

section \<open>The map of tables\<close>

text \<open>
  \<open>hsubs\<close> is the array \<^verbatim>\<open>sub_maps_\<close> up to \<^verbatim>\<open>sub_map_count_\<close>; the entries behind it are null.
\<close>

record 'v hash_map =
  hsubs :: "'v hash_array option list"
  hmem_size :: nat

definition OB_MALLOC_NORMAL_BLOCK_SIZE :: nat where
  "OB_MALLOC_NORMAL_BLOCK_SIZE = 2 ^ 13 - 256"

definition OB_MALLOC_BIG_BLOCK_SIZE :: nat where
  "OB_MALLOC_BIG_BLOCK_SIZE = 2 ^ 21 - 17 * 2 ^ 10"

definition MAX_SUB_MAP_COUNT :: nat where
  "MAX_SUB_MAP_COUNT = 4"

definition hm_new :: "'v hash_map" where
  "hm_new = \<lparr>hsubs = [], hmem_size = OB_MALLOC_NORMAL_BLOCK_SIZE\<rparr>"

definition hm_destroy :: "'v hash_map \<Rightarrow> 'v hash_map" where
  "hm_destroy m = m \<lparr>hsubs := [], hmem_size := 0\<rparr>"

definition create_sub_map :: "('k, 'v) hash_env \<Rightarrow> nat \<Rightarrow> 'v hash_array option \<Rightarrow> 'v hash_array option option" where
  "create_sub_map env mem_size sub_map_in =
     (if \<not> he_alloc env mem_size then Some None
      else case sub_map_in of
          Some s \<Rightarrow> if sizeof_hash_array + 8 * hcapacity s \<le> mem_size then Some (Some s) else None
        | None \<Rightarrow> map_option Some (ha_new env mem_size))"

text \<open>Whether the first sub map is null.\<close>

definition hm_null :: "'v hash_map \<Rightarrow> bool" where
  "hm_null m \<longleftrightarrow> (case hsubs m of [] \<Rightarrow> True | s # ss \<Rightarrow> s = None)"

definition hm_init :: "('k, 'v) hash_env \<Rightarrow> 'v hash_map \<Rightarrow> (ob_ret \<times> 'v hash_map) option" where
  "hm_init env m =
     (if hm_null m
      then do { s \<leftarrow> create_sub_map env (hmem_size m) None;
                Some (case s of
                        Some h \<Rightarrow> (OB_SUCCESS, m \<lparr>hsubs := [Some h]\<rparr>)
                      | None \<Rightarrow> (OB_ALLOCATE_MEMORY_FAILED, m)) }
      else Some (OB_SUCCESS, m))"

text \<open>\<open>assign\<close>: when an allocation fails, the remaining entries stay null.\<close>

fun assign_subs ::
  "('k, 'v) hash_env \<Rightarrow> nat \<Rightarrow> 'v hash_array option list \<Rightarrow> (ob_ret \<times> 'v hash_array option list) option" where
  "assign_subs env mem_size [] = Some (OB_SUCCESS, [])"
| "assign_subs env mem_size (s # ss) =
     do { c \<leftarrow> create_sub_map env mem_size s;
          if c = None then Some (OB_ALLOCATE_MEMORY_FAILED, replicate (length (s # ss)) None)
          else do { (ret, cs) \<leftarrow> assign_subs env mem_size ss; Some (ret, c # cs) } }"

definition hm_assign :: "('k, 'v) hash_env \<Rightarrow> 'v hash_map \<Rightarrow> 'v hash_map \<Rightarrow> (ob_ret \<times> 'v hash_map) option" where
  "hm_assign env other m =
     do { (ret, subs) \<leftarrow> assign_subs env (hmem_size other) (hsubs other);
          Some (ret, m \<lparr>hsubs := subs, hmem_size := hmem_size other\<rparr>) }"

definition hm_count :: "'v hash_map \<Rightarrow> int" where
  "hm_count m = sum_list (map (\<lambda>s. case s of None \<Rightarrow> 0 | Some h \<Rightarrow> hcount h) (hsubs m))"

definition hm_item_count :: "'v hash_map \<Rightarrow> int" where
  "hm_item_count m = sum_list (map (\<lambda>s. case s of None \<Rightarrow> 0 | Some h \<Rightarrow> hitem_count h) (hsubs m))"

definition hm_clear :: "'v hash_map \<Rightarrow> 'v hash_map" where
  "hm_clear m =
     (case hsubs m of
        Some h # ss \<Rightarrow> m \<lparr>hsubs := [Some (ha_clear h)]\<rparr>
      | _ \<Rightarrow> m)"

fun hm_get_loop ::
  "('k, 'v) hash_env \<Rightarrow> 'k \<Rightarrow> 'v hash_array option list \<Rightarrow> (ob_ret \<times> 'v cell option) option" where
  "hm_get_loop env key [] = Some (OB_HASH_NOT_EXIST, None)"
| "hm_get_loop env key (None # ss) = None"
| "hm_get_loop env key (Some h # ss) =
     do { (ret, val) \<leftarrow> ha_get_refactored env h key;
          if ret \<noteq> OB_HASH_NOT_EXIST then Some (ret, val) else hm_get_loop env key ss }"

definition hm_get_refactored ::
  "('k, 'v) hash_env \<Rightarrow> 'v hash_map \<Rightarrow> 'k \<Rightarrow> (ob_ret \<times> 'v cell option) option" where
  "hm_get_refactored env m key =
     (if hm_null m then Some (OB_NOT_INIT, None) else hm_get_loop env key (hsubs m))"

fun hm_erase_loop ::
  "('k, 'v) hash_env \<Rightarrow> 'k \<Rightarrow> 'v hash_array option list \<Rightarrow>
     (ob_ret \<times> 'v cell \<times> 'v hash_array option list) option" where
  "hm_erase_loop env key [] = Some (OB_HASH_NOT_EXIST, Empty, [])"
| "hm_erase_loop env key (None # ss) = None"
| "hm_erase_loop env key (Some h # ss) =
     do { (ret, erased_value, h') \<leftarrow> ha_erase_refactored env key h;
          if ret \<noteq> OB_HASH_NOT_EXIST then Some (ret, erased_value, Some h' # ss)
          else do { (ret, erased_value, ss') \<leftarrow> hm_erase_loop env key ss;
                    Some (ret, erased_value, Some h' # ss') } }"

definition hm_erase_refactored ::
  "('k, 'v) hash_env \<Rightarrow> 'k \<Rightarrow> 'v hash_map \<Rightarrow> (ob_ret \<times> 'v cell \<times> 'v hash_map) option" where
  "hm_erase_refactored env key m =
     (if hm_null m then Some (OB_NOT_INIT, Empty, m)
      else do { (ret, erased_value, subs) \<leftarrow> hm_erase_loop env key (hsubs m);
                Some (ret, erased_value, m \<lparr>hsubs := subs\<rparr>) })"

text \<open>
  \<open>find_set_pos\<close> of the map: \<open>i\<close> is the index of the first table of the list, \<open>n\<close> the number of tables,
  \<open>idx\<close> and \<open>pos\<close> the place found so far, \<open>ret\<close> the answer of the previous table.
\<close>

fun hm_find_loop ::
  "('k, 'v) hash_env \<Rightarrow> 'k \<Rightarrow> 'v cell \<Rightarrow> bool \<Rightarrow> nat \<Rightarrow> nat \<Rightarrow> nat option \<Rightarrow> nat option \<Rightarrow> ob_ret \<Rightarrow>
     'v hash_array option list \<Rightarrow> (ob_ret \<times> nat option \<times> nat option) option" where
  "hm_find_loop env key val overwrite n i idx pos ret [] = Some (ret, idx, pos)"
| "hm_find_loop env key val overwrite n i idx pos ret (None # ss) = None"
| "hm_find_loop env key val overwrite n i idx pos ret (Some h # ss) =
     do { (ret, set_pos, erased_pos, exist) \<leftarrow> ha_find_set_pos env h key val overwrite;
          if ret = OB_SUCCESS
          then if \<not> exist \<and> idx \<noteq> None then Some (ret, idx, pos) else Some (ret, Some i, set_pos)
          else if ret = OB_HASH_FULL
          then let found = (pos = None \<and> erased_pos \<noteq> None);
                   idx = (if found then Some i else idx);
                   pos = (if found then erased_pos else pos)
               in if i = n - 1 \<and> pos \<noteq> None then Some (OB_SUCCESS, idx, pos)
                  else hm_find_loop env key val overwrite n (i + 1) idx pos ret ss
          else Some (ret, idx, pos) }"

definition hm_find_set_pos ::
  "('k, 'v) hash_env \<Rightarrow> 'k \<Rightarrow> 'v cell \<Rightarrow> bool \<Rightarrow> 'v hash_map \<Rightarrow>
     (ob_ret \<times> nat option \<times> nat option) option" where
  "hm_find_set_pos env key val overwrite m =
     hm_find_loop env key val overwrite (length (hsubs m)) 0 None None OB_SUCCESS (hsubs m)"

text \<open>
  \<open>copy_from\<close> ignores the result of \<open>set_refactored\<close>. Null means that no table could be allocated.
\<close>

fun copy_items :: "('k, 'v) hash_env \<Rightarrow> 'v list \<Rightarrow> 'v hash_array \<Rightarrow> 'v hash_array option" where
  "copy_items env [] h = Some h"
| "copy_items env (v # vs) h =
     do { (ret, ow, h) \<leftarrow> ha_set_refactored env (he_key env v) (Item v) False h; copy_items env vs h }"

fun copy_subs :: "('k, 'v) hash_env \<Rightarrow> 'v hash_array option list \<Rightarrow> 'v hash_array \<Rightarrow> 'v hash_array option" where
  "copy_subs env [] h = Some h"
| "copy_subs env (None # ss) h = None"
| "copy_subs env (Some s # ss) h = do { h \<leftarrow> copy_items env (ha_items s) h; copy_subs env ss h }"

definition hm_copy_from :: "('k, 'v) hash_env \<Rightarrow> 'v hash_map \<Rightarrow> nat \<Rightarrow> 'v hash_map option" where
  "hm_copy_from env other resize_to =
     do { s \<leftarrow> create_sub_map env resize_to None;
          case s of
            None \<Rightarrow> Some \<lparr>hsubs = [], hmem_size = resize_to\<rparr>
          | Some h \<Rightarrow> do { h \<leftarrow> copy_subs env (hsubs other) h;
                           Some \<lparr>hsubs = [Some h], hmem_size = resize_to\<rparr> } }"

text \<open>What \<open>resize\<close> decides: \<open>None\<close> for one more table, else the size of the new one.\<close>

definition hm_resize_to :: "('k, 'v) hash_env \<Rightarrow> 'v hash_map \<Rightarrow> nat option" where
  "hm_resize_to env m =
     (let is_need_extend = (hm_count m \<le> int (he_ext env (nat (hm_item_count m))));
          extend_size = (if is_need_extend then hmem_size m * 2 else hmem_size m);
          n = length (hsubs m)
      in if n = 1
         then if (hmem_size m = OB_MALLOC_NORMAL_BLOCK_SIZE \<or> hmem_size m = OB_MALLOC_BIG_BLOCK_SIZE)
                   \<and> n < MAX_SUB_MAP_COUNT then None
              else if extend_size \<le> OB_MALLOC_NORMAL_BLOCK_SIZE then Some extend_size
              else if hmem_size m < OB_MALLOC_NORMAL_BLOCK_SIZE then Some OB_MALLOC_NORMAL_BLOCK_SIZE
              else if extend_size \<le> OB_MALLOC_BIG_BLOCK_SIZE then Some extend_size
              else if hmem_size m < OB_MALLOC_BIG_BLOCK_SIZE then Some OB_MALLOC_BIG_BLOCK_SIZE
              else Some extend_size
         else if n > 1 \<and> n < MAX_SUB_MAP_COUNT then None
         else if n = MAX_SUB_MAP_COUNT
         then if hmem_size m = OB_MALLOC_NORMAL_BLOCK_SIZE \<or> hmem_size m = OB_MALLOC_BIG_BLOCK_SIZE
              then Some (n * extend_size) else Some 0
         else Some 0)"

text \<open>\<open>resize\<close> returns the table to insert into, by its index.\<close>

definition hm_resize :: "('k, 'v) hash_env \<Rightarrow> 'v hash_map \<Rightarrow> (nat option \<times> 'v hash_map) option" where
  "hm_resize env m =
     (case hm_resize_to env m of
        None \<Rightarrow>
          do { s \<leftarrow> create_sub_map env (hmem_size m) None;
               Some (case s of
                       None \<Rightarrow> (None, m)
                     | Some h \<Rightarrow> (Some (length (hsubs m)), m \<lparr>hsubs := hsubs m @ [Some h]\<rparr>)) }
      | Some resize_to \<Rightarrow>
          do { tmp \<leftarrow> hm_copy_from env m resize_to;
               Some (if hsubs tmp = [] then (None, m) else (Some 0, tmp)) })"

text \<open>Writing into the table with a given index.\<close>

definition hm_set_value ::
  "nat option \<Rightarrow> nat option \<Rightarrow> 'v cell \<Rightarrow> 'v hash_map \<Rightarrow> (ob_ret \<times> 'v cell \<times> 'v hash_map) option" where
  "hm_set_value idx pos val m =
     (case idx of
        None \<Rightarrow> Some (OB_ERR_UNEXPECTED, Empty, m)
      | Some i \<Rightarrow>
          if i \<ge> length (hsubs m) then Some (OB_ERR_UNEXPECTED, Empty, m)
          else do { h \<leftarrow> hsubs m ! i;
                    let (ret, ow, h) = ha_set_value pos val h
                    in Some (ret, ow, m \<lparr>hsubs := (hsubs m)[i := Some h]\<rparr>) })"

definition hm_set_refactored ::
  "('k, 'v) hash_env \<Rightarrow> 'k \<Rightarrow> 'v cell \<Rightarrow> bool \<Rightarrow> 'v hash_map \<Rightarrow> (ob_ret \<times> 'v cell \<times> 'v hash_map) option" where
  "hm_set_refactored env key val overwrite m =
     do { (ret, m) \<leftarrow> hm_init env m;
          if ret \<noteq> OB_SUCCESS then Some (ret, Empty, m)
          else do { (ret, idx, pos) \<leftarrow> hm_find_set_pos env key val overwrite m;
                    (ret, ow, m) \<leftarrow> (if ret = OB_SUCCESS then hm_set_value idx pos val m
                                     else Some (ret, Empty, m));
                    if ret \<noteq> OB_HASH_FULL then Some (ret, ow, m)
                    else do { (idx, m) \<leftarrow> hm_resize env m;
                              case idx of
                                None \<Rightarrow> Some (OB_ERR_UNEXPECTED, ow, m)
                              | Some i \<Rightarrow>
                                  do { h \<leftarrow> hsubs m ! i;
                                       (ret, ow, h) \<leftarrow> ha_set_refactored env key val overwrite h;
                                       Some (ret, ow, m \<lparr>hsubs := (hsubs m)[i := Some h]\<rparr>) } } } }"

section \<open>Correctness of one table\<close>

definition float_ok :: "('k, 'v) hash_env \<Rightarrow> bool" where
  "float_ok env \<longleftrightarrow> (\<forall>c. 7 * c \<le> 10 * he_load env c + 10 \<and> 10 * he_load env c \<le> 7 * c) \<and>
     (\<forall>n. n \<le> he_ext env n)"

definition probe :: "nat \<Rightarrow> nat \<Rightarrow> nat \<Rightarrow> nat" where
  "probe cap a j = (a + j) mod cap"

definition stops :: "('k, 'v) hash_env \<Rightarrow> 'k \<Rightarrow> 'v cell \<Rightarrow> bool" where
  "stops env key c = (case c of Empty \<Rightarrow> True | Erased \<Rightarrow> False | Item v \<Rightarrow> he_key env v = key)"

definition is_free :: "'v cell \<Rightarrow> bool" where
  "is_free c = (case c of Item v \<Rightarrow> False | _ \<Rightarrow> True)"

lemma probe_less [simp]: "0 < cap \<Longrightarrow> probe cap a j < cap"
  by (simp add: probe_def)

lemma probe_not_ge [simp]: "xs \<noteq> [] \<Longrightarrow> \<not> length xs \<le> probe (length xs) a j"
  by (simp add: not_le)

lemma probe_0 [simp]: "a < cap \<Longrightarrow> probe cap a 0 = a"
  by (simp add: probe_def)

lemma probe_next_probe: "0 < hcapacity h \<Longrightarrow> probe_next h (probe (hcapacity h) a j) = probe (hcapacity h) a (Suc j)"
proof -
  assume "0 < hcapacity h"
  then have "Suc ((a + j) mod hcapacity h) \<le> hcapacity h" by (simp add: Suc_le_eq)
  then show ?thesis by (auto simp: probe_next_def probe_def mod_Suc)
qed

lemma probe_inj:
  assumes "i < cap" "j < cap" "probe cap a i = probe cap a j"
  shows "i = j"
proof -
  have "i = j" if "i \<le> j" "j < cap" "probe cap a i = probe cap a j" for i j
  proof -
    from that have "cap dvd (a + j) - (a + i)"
      by (subst mod_eq_dvd_iff_nat [symmetric]) (simp_all add: probe_def)
    with that show ?thesis by (auto dest: dvd_imp_le)
  qed
  from this [of i j] this [of j i] assms show ?thesis by (cases "i \<le> j") auto
qed

lemma probe_surj: "p < cap \<Longrightarrow> \<exists>j < cap. p = probe cap a j"
proof -
  assume p: "p < cap"
  have "inj_on (probe cap a) {..<cap}" using probe_inj by (auto intro: inj_onI)
  moreover have "probe cap a ` {..<cap} \<subseteq> {..<cap}" using p by auto
  ultimately have "probe cap a ` {..<cap} = {..<cap}" by (simp add: endo_inj_surj)
  then show ?thesis using p by (metis imageE lessThan_iff)
qed

lemma key_to_anchor_less: "0 < hcapacity h \<Longrightarrow> key_to_anchor_idx env h key < hcapacity h"
  by (simp add: key_to_anchor_idx_def Let_def)

lemma search_loop_stop:
  assumes "0 < hcapacity h" and "n \<le> d" and "d < hcapacity h"
    and "\<And>j. n \<le> j \<Longrightarrow> j < d \<Longrightarrow> \<not> stops env key (hcells h ! probe (hcapacity h) a j)"
    and "stops env key (hcells h ! probe (hcapacity h) a d)"
  shows "search_loop env h key (probe (hcapacity h) a n) n =
    Some (case hcells h ! probe (hcapacity h) a d of
            Item v \<Rightarrow> (OB_SUCCESS, Some (probe (hcapacity h) a d)) | _ \<Rightarrow> (OB_HASH_NOT_EXIST, None))"
  using assms(2,4)
proof (induction "d - n" arbitrary: n)
  case 0
  then have "n = d" by simp
  with assms(1,5) show ?case
    by (subst search_loop.simps) (auto simp: stops_def not_le split: cell.splits)
next
  case (Suc x)
  then have "n < d" and "x = d - Suc n" by auto
  with Suc.hyps(1) [of "Suc n"] Suc.prems(2) assms(1,3)
  have IH: "search_loop env h key (probe (hcapacity h) a (Suc n)) (Suc n) =
    Some (case hcells h ! probe (hcapacity h) a d of
            Item v \<Rightarrow> (OB_SUCCESS, Some (probe (hcapacity h) a d)) | _ \<Rightarrow> (OB_HASH_NOT_EXIST, None))"
    by auto
  from \<open>n < d\<close> Suc.prems(2) [of n] have "\<not> stops env key (hcells h ! probe (hcapacity h) a n)" by simp
  with IH assms(1,3) \<open>n < d\<close> show ?case
    by (subst search_loop.simps) (simp add: probe_next_probe stops_def not_le split: cell.splits)
qed

lemma set_pos_loop_stop:
  assumes "0 < hcapacity h" and "n \<le> d" and "d < hcapacity h"
    and "\<And>j. n \<le> j \<Longrightarrow> j < d \<Longrightarrow> \<not> stops env key (hcells h ! probe (hcapacity h) a j)"
    and "stops env key (hcells h ! probe (hcapacity h) a d)"
  shows "\<exists>p. set_pos_loop env h key ow (probe (hcapacity h) a n) n pos =
      Some (case hcells h ! probe (hcapacity h) a d of
              Item v \<Rightarrow> (if ow then OB_SUCCESS else OB_HASH_EXIST, Some (probe (hcapacity h) a d), True)
            | _ \<Rightarrow> (OB_SUCCESS, Some p, False)) \<and>
    (pos = Some p \<or> pos = None \<and>
       ((\<exists>v. hcells h ! probe (hcapacity h) a d = Item v) \<or>
        (\<exists>j. n \<le> j \<and> j \<le> d \<and> p = probe (hcapacity h) a j \<and> is_free (hcells h ! p))))"
  using assms(2,4)
proof (induction "d - n" arbitrary: n pos)
  case 0
  then have "n = d" by simp
  with assms(1,5) show ?case
    by (subst set_pos_loop.simps) (auto simp: stops_def is_free_def not_le split: cell.splits)
next
  case (Suc x)
  let ?c = "hcells h ! probe (hcapacity h) a n"
  let ?pos = "if ?c = Erased \<and> pos = None then Some (probe (hcapacity h) a n) else pos"
  from Suc have "n < d" and "x = d - Suc n" by auto
  with Suc.prems(2) [of n] have "\<not> stops env key ?c" by simp
  with assms(1,3) \<open>n < d\<close> have step: "set_pos_loop env h key ow (probe (hcapacity h) a n) n pos =
      set_pos_loop env h key ow (probe (hcapacity h) a (Suc n)) (Suc n) ?pos"
    by (subst set_pos_loop.simps) (simp add: probe_next_probe stops_def not_le split: cell.splits)
  from Suc.hyps(1) [of "Suc n" ?pos] Suc.prems(2) \<open>n < d\<close> \<open>x = d - Suc n\<close>
  obtain p where "set_pos_loop env h key ow (probe (hcapacity h) a (Suc n)) (Suc n) ?pos =
      Some (case hcells h ! probe (hcapacity h) a d of
              Item v \<Rightarrow> (if ow then OB_SUCCESS else OB_HASH_EXIST, Some (probe (hcapacity h) a d), True)
            | _ \<Rightarrow> (OB_SUCCESS, Some p, False))"
    and "?pos = Some p \<or> ?pos = None \<and>
       ((\<exists>v. hcells h ! probe (hcapacity h) a d = Item v) \<or>
        (\<exists>j. Suc n \<le> j \<and> j \<le> d \<and> p = probe (hcapacity h) a j \<and> is_free (hcells h ! p)))"
    by auto
  with step \<open>n < d\<close> show ?case
    by (intro exI [of _ p] conjI) (auto simp: is_free_def split: if_splits dest: Suc_leD)
qed

text \<open>
  The invariant: the counters count, there is an empty cell, the keys are distinct, and every item is
  reached from the anchor of its key without crossing an empty cell.
\<close>

definition reached :: "('k, 'v) hash_env \<Rightarrow> 'v hash_array \<Rightarrow> 'k \<Rightarrow> nat \<Rightarrow> bool" where
  "reached env h k p \<longleftrightarrow> (\<exists>j < hcapacity h. p = probe (hcapacity h) (key_to_anchor_idx env h k) j \<and>
     (\<forall>i < j. hcells h ! probe (hcapacity h) (key_to_anchor_idx env h k) i \<noteq> Empty))"

definition ha_inv :: "('k, 'v) hash_env \<Rightarrow> 'v hash_array \<Rightarrow> bool" where
  "ha_inv env h \<longleftrightarrow> 0 < hcapacity h \<and> hmax_entries h < int (hcapacity h) \<and>
     hcount h = int (length (filter (\<lambda>c. c \<noteq> Empty) (hcells h))) \<and>
     hitem_count h = int (length (ha_items h)) \<and> hcount h \<le> hmax_entries h \<and>
     distinct (map (he_key env) (ha_items h)) \<and>
     (\<forall>p v. p < hcapacity h \<longrightarrow> hcells h ! p = Item v \<longrightarrow> reached env h (he_key env v) p)"

definition ha_look :: "('k, 'v) hash_env \<Rightarrow> 'v hash_array \<Rightarrow> 'k \<Rightarrow> 'v option" where
  "ha_look env h = key_map (he_key env) (ha_items h)"

lemma ha_invD:
  assumes "ha_inv env h"
  shows "0 < hcapacity h" "hmax_entries h < int (hcapacity h)"
    "hcount h = int (length (filter (\<lambda>c. c \<noteq> Empty) (hcells h)))"
    "hitem_count h = int (length (ha_items h))" "hcount h \<le> hmax_entries h"
    "distinct (map (he_key env) (ha_items h))"
    "p < hcapacity h \<Longrightarrow> hcells h ! p = Item v \<Longrightarrow> reached env h (he_key env v) p"
  using assms unfolding ha_inv_def by auto

lemma set_cell_items [simp]: "set (cell_items cs) = {v. Item v \<in> set cs}"
  by (induction cs rule: cell_items.induct) auto

lemma cell_items_append [simp]: "cell_items (xs @ ys) = cell_items xs @ cell_items ys"
  by (induction xs rule: cell_items.induct) auto

lemma cell_items_length: "length (cell_items cs) \<le> length (filter (\<lambda>c. c \<noteq> Empty) cs)"
  by (induction cs rule: cell_items.induct) auto

lemma cell_items_replicate [simp]: "cell_items (replicate n Empty) = []"
  by (induction n) auto

lemma ha_look_Some:
  "ha_inv env h \<Longrightarrow> ha_look env h k = Some v \<longleftrightarrow> (\<exists>p < hcapacity h. hcells h ! p = Item v) \<and> he_key env v = k"
  using ha_invD(6) [of env h]
  by (auto simp: ha_look_def key_map_Some) (auto simp: ha_items_def in_set_conv_nth)

lemma empty_cell: "ha_inv env h \<Longrightarrow> \<exists>p < hcapacity h. hcells h ! p = Empty"
proof (rule ccontr)
  assume inv: "ha_inv env h" and "\<not> (\<exists>p < hcapacity h. hcells h ! p = Empty)"
  then have "filter (\<lambda>c. c \<noteq> Empty) (hcells h) = hcells h" by (auto simp: filter_id_conv in_set_conv_nth)
  with ha_invD(2,3,5) [OF inv] show False by simp
qed

text \<open>Where a probe for a key ends, and that this decides whether the key is there.\<close>

lemma first_stop:
  assumes inv: "ha_inv env h"
  shows "\<exists>d < hcapacity h.
    (\<forall>j < d. \<not> stops env k (hcells h ! probe (hcapacity h) (key_to_anchor_idx env h k) j)) \<and>
    stops env k (hcells h ! probe (hcapacity h) (key_to_anchor_idx env h k) d) \<and>
    hcells h ! probe (hcapacity h) (key_to_anchor_idx env h k) d =
      (case ha_look env h k of None \<Rightarrow> Empty | Some v \<Rightarrow> Item v)"
proof -
  let ?c = "\<lambda>j. hcells h ! probe (hcapacity h) (key_to_anchor_idx env h k) j"
  from empty_cell [OF inv] probe_surj obtain e where "e < hcapacity h" "?c e = Empty" by metis
  then have "e < hcapacity h \<and> stops env k (?c e)" by (simp add: stops_def)
  then obtain d where d: "d < hcapacity h" "stops env k (?c d)"
    and least: "\<And>j. j < d \<Longrightarrow> \<not> (j < hcapacity h \<and> stops env k (?c j))"
    using ex_least_nat_le [of "\<lambda>j. j < hcapacity h \<and> stops env k (?c j)" e] by blast
  have "?c d = (case ha_look env h k of None \<Rightarrow> Empty | Some v \<Rightarrow> Item v)"
  proof (cases "?c d")
    case Empty
    have "ha_look env h k \<noteq> Some v" for v
    proof
      assume "ha_look env h k = Some v"
      with ha_look_Some [OF inv] ha_invD(7) [OF inv] obtain p where
        "hcells h ! p = Item v" "reached env h k p" "he_key env v = k" by metis
      then obtain j where j: "j < hcapacity h" "?c j = Item v" "\<And>i. i < j \<Longrightarrow> ?c i \<noteq> Empty"
        unfolding reached_def by metis
      then have "stops env k (?c j)" using \<open>he_key env v = k\<close> by (simp add: stops_def)
      with least [of j] j(1) have "\<not> j < d" by blast
      moreover have "j \<noteq> d" using j(2) Empty by auto
      ultimately show False using j(3) [of d] Empty by auto
    qed
    with Empty show ?thesis by (cases "ha_look env h k") auto
  next
    case Erased
    with d show ?thesis by (simp add: stops_def)
  next
    case (Item v)
    with d have "he_key env v = k" by (simp add: stops_def)
    with Item ha_invD(1) [OF inv] have "ha_look env h k = Some v"
      unfolding ha_look_Some [OF inv] using probe_less by metis
    with Item show ?thesis by simp
  qed
  with d least show ?thesis by (intro exI [of _ d]) auto
qed

lemma ha_get_ok:
  assumes inv: "ha_inv env h"
  shows "ha_get_refactored env h k =
    Some (case ha_look env h k of None \<Rightarrow> (OB_HASH_NOT_EXIST, None) | Some v \<Rightarrow> (OB_SUCCESS, Some (Item v)))"
proof (cases "hitem_count h \<le> 0")
  case True
  then have "ha_items h = []" using ha_invD(4) [OF inv] by simp
  with True show ?thesis by (simp add: ha_get_refactored_def placement_hash_search_def ha_look_def)
next
  case False
  from first_stop [OF inv, of k] obtain d where d: "d < hcapacity h"
    "\<And>j. j < d \<Longrightarrow> \<not> stops env k (hcells h ! probe (hcapacity h) (key_to_anchor_idx env h k) j)"
    "stops env k (hcells h ! probe (hcapacity h) (key_to_anchor_idx env h k) d)"
    "hcells h ! probe (hcapacity h) (key_to_anchor_idx env h k) d =
      (case ha_look env h k of None \<Rightarrow> Empty | Some v \<Rightarrow> Item v)" by blast
  from search_loop_stop [OF ha_invD(1) [OF inv] _ d(1) _ d(3), of 0] d(2)
  have "search_loop env h k (key_to_anchor_idx env h k) 0 =
    Some (case ha_look env h k of
            Some v \<Rightarrow> (OB_SUCCESS, Some (probe (hcapacity h) (key_to_anchor_idx env h k) d))
          | None \<Rightarrow> (OB_HASH_NOT_EXIST, None))"
    by (simp add: key_to_anchor_less [OF ha_invD(1) [OF inv]] d(4) split: option.splits)
  with False d(4) probe_less [OF ha_invD(1) [OF inv]] show ?thesis
    by (auto simp: ha_get_refactored_def placement_hash_search_def not_le split: option.splits)
qed

lemma ha_find_present:
  assumes inv: "ha_inv env h" and look: "ha_look env h k = Some v"
  shows "\<exists>p < hcapacity h. hcells h ! p = Item v \<and>
    (\<forall>val ow. ha_find_set_pos env h k val ow =
       Some (if ow then OB_SUCCESS else OB_HASH_EXIST, Some p, None, True))"
proof -
  let ?p = "probe (hcapacity h) (key_to_anchor_idx env h k)"
  from first_stop [OF inv, of k] obtain d where d: "d < hcapacity h"
    "\<And>j. j < d \<Longrightarrow> \<not> stops env k (hcells h ! ?p j)" "stops env k (hcells h ! ?p d)"
    "hcells h ! ?p d = Item v" unfolding look option.case by blast
  from set_pos_loop_stop [OF ha_invD(1) [OF inv] _ d(1) _ d(3), of 0] d(2)
  have "set_pos_loop env h k ow (key_to_anchor_idx env h k) 0 None =
    Some (if ow then OB_SUCCESS else OB_HASH_EXIST, Some (?p d), True)" for ow
    using d(4) by (simp add: key_to_anchor_less [OF ha_invD(1) [OF inv]])
  then show ?thesis using d(4) ha_invD(1) [OF inv]
    by (intro exI [of _ "?p d"]) (auto simp: ha_find_set_pos_def placement_hash_find_set_pos_def)
qed

lemma ha_find_absent:
  assumes inv: "ha_inv env h" and look: "ha_look env h k = None"
  shows "\<exists>p < hcapacity h. is_free (hcells h ! p) \<and> reached env h k p \<and>
    ha_find_set_pos env h k val ow =
      Some (if val = Erased then (OB_HASH_NOT_EXIST, Some p, None, False)
            else if ha_is_full h
            then (OB_HASH_FULL, Some p, if hcells h ! p = Erased then Some p else None, False)
            else (OB_SUCCESS, Some p, None, False))"
proof -
  let ?p = "probe (hcapacity h) (key_to_anchor_idx env h k)"
  from first_stop [OF inv, of k] obtain d where d: "d < hcapacity h"
    "\<And>j. j < d \<Longrightarrow> \<not> stops env k (hcells h ! ?p j)" "stops env k (hcells h ! ?p d)"
    "hcells h ! ?p d = Empty" unfolding look option.case by blast
  from set_pos_loop_stop [OF ha_invD(1) [OF inv] _ d(1) _ d(3), of 0 ow None] d(2)
  obtain p j where p: "set_pos_loop env h k ow (key_to_anchor_idx env h k) 0 None = Some (OB_SUCCESS, Some p, False)"
    and j: "j \<le> d" "p = ?p j" "is_free (hcells h ! p)"
    using d(4) by (auto simp: key_to_anchor_less [OF ha_invD(1) [OF inv]])
  have "reached env h k p"
    unfolding reached_def
  proof (intro exI [of _ j] conjI allI impI)
    fix i assume "i < j"
    with j(1) d(2) [of i] show "hcells h ! ?p i \<noteq> Empty" by (auto simp: stops_def)
  qed (use j d(1) in auto)
  with p j ha_invD(1) [OF inv] show ?thesis
    by (intro exI [of _ p]) (auto simp: ha_find_set_pos_def placement_hash_find_set_pos_def)
qed

text \<open>Writing one cell.\<close>

definition ha_grows :: "'v hash_array \<Rightarrow> 'v hash_array \<Rightarrow> bool" where
  "ha_grows h h' \<longleftrightarrow> hmax_entries h' = hmax_entries h \<and> hcapacity h' = hcapacity h \<and> hcount h \<le> hcount h'"

definition ha_clean :: "'v hash_array \<Rightarrow> bool" where
  "ha_clean h \<longleftrightarrow> Erased \<notin> set (hcells h)"

lemma ha_set_value_eq:
  assumes "p < hcapacity h"
  shows "ha_set_value (Some p) val h =
    (let h' = h \<lparr>hcells := (hcells h)[p := val],
                hcount := hcount h + (if hcells h ! p = Empty then 1 else 0),
                hitem_count := hitem_count h + (if is_free (hcells h ! p) then 1 else if val = Erased then - 1 else 0)\<rparr>
     in (if hitem_count h' > hcount h' then OB_ERR_UNEXPECTED else OB_SUCCESS,
         case hcells h ! p of Item v \<Rightarrow> Item v | _ \<Rightarrow> Empty, h'))"
  using assms by (auto simp: ha_set_value_def Let_def is_free_def split: cell.splits)

lemma ha_write:
  assumes inv: "ha_inv env h" and p: "p < hcapacity h" and val: "val \<noteq> Empty"
    and room: "hcells h ! p = Empty \<Longrightarrow> hcount h < hmax_entries h"
    and free: "is_free (hcells h ! p) \<Longrightarrow> val \<noteq> Erased"
    and fresh: "\<And>v. val = Item v \<Longrightarrow> reached env h (he_key env v) p \<and>
      he_key env v \<notin> he_key env ` set (cell_items (take p (hcells h) @ drop (Suc p) (hcells h)))"
  shows "\<exists>h'. ha_set_value (Some p) val h =
      (OB_SUCCESS, case hcells h ! p of Item v \<Rightarrow> Item v | _ \<Rightarrow> Empty, h') \<and>
    ha_inv env h' \<and> hcells h' = (hcells h)[p := val] \<and> ha_grows h h'"
proof -
  let ?L = "take p (hcells h)" and ?R = "drop (Suc p) (hcells h)"
  let ?h = "h \<lparr>hcells := (hcells h)[p := val],
               hcount := hcount h + (if hcells h ! p = Empty then 1 else 0),
               hitem_count := hitem_count h + (if is_free (hcells h ! p) then 1 else if val = Erased then - 1 else 0)\<rparr>"
  have old: "hcells h = ?L @ hcells h ! p # ?R" using p by (rule id_take_nth_drop)
  have new: "(hcells h)[p := val] = ?L @ val # ?R" using p by (rule upd_conv_take_nth_drop)
  have items: "ha_items h = cell_items ?L @ cell_items [hcells h ! p] @ cell_items ?R"
    unfolding ha_items_def by (subst (1) old) (cases "hcells h ! p"; simp)
  have items': "ha_items ?h = cell_items ?L @ cell_items [val] @ cell_items ?R"
    using new unfolding ha_items_def by (cases val) simp_all
  have "hcount h = int (length (filter (\<lambda>c. c \<noteq> Empty) (?L @ hcells h ! p # ?R)))"
    using ha_invD(3) [OF inv] old by simp
  then have cnt: "hcount ?h = int (length (filter (\<lambda>c. c \<noteq> Empty) (hcells ?h)))"
    using val by (simp add: new del: append_take_drop_id)
  have icnt: "hitem_count ?h = int (length (ha_items ?h))"
    using ha_invD(4) [OF inv] val free unfolding items items'
    by (cases "hcells h ! p"; cases val) (simp_all add: is_free_def)
  have dist: "distinct (map (he_key env) (ha_items ?h))"
    using ha_invD(6) [OF inv] fresh unfolding items items' by (cases val; cases "hcells h ! p") auto
  have anchor: "key_to_anchor_idx env ?h k = key_to_anchor_idx env h k" for k
    by (simp add: key_to_anchor_idx_def Let_def)
  have keep: "reached env h k q \<Longrightarrow> reached env ?h k q" for k q
    unfolding reached_def anchor using val ha_invD(1) [OF inv]
    by (fastforce simp: nth_list_update')
  have "ha_inv env ?h"
    unfolding ha_inv_def
  proof (intro conjI allI impI)
    show "hcount ?h \<le> hmax_entries ?h" using ha_invD(5) [OF inv] room by auto
    fix q v assume "q < hcapacity ?h" "hcells ?h ! q = Item v"
    with fresh [of v] ha_invD(7) [OF inv, of q v] keep show "reached env ?h (he_key env v) q"
      by (auto simp: nth_list_update' split: if_splits)
  qed (use cnt icnt dist ha_invD(1,2) [OF inv] in simp_all)
  moreover have "\<not> hitem_count ?h > hcount ?h"
    unfolding cnt icnt ha_items_def using cell_items_length [of "hcells ?h"] by simp
  ultimately show ?thesis using p
    by (intro exI [of _ ?h]) (simp add: ha_set_value_eq Let_def ha_grows_def)
qed

lemma ha_items_split:
  assumes "p < hcapacity h"
  shows "ha_items h = cell_items (take p (hcells h)) @ cell_items [hcells h ! p] @ cell_items (drop (Suc p) (hcells h))"
  unfolding ha_items_def by (subst (1) id_take_nth_drop [OF assms]) (cases "hcells h ! p"; simp)

lemma ha_items_update:
  assumes "p < hcapacity h" and "hcells h' = (hcells h)[p := val]"
  shows "ha_items h' = cell_items (take p (hcells h)) @ cell_items [val] @ cell_items (drop (Suc p) (hcells h))"
  unfolding ha_items_def assms(2) upd_conv_take_nth_drop [OF assms(1)] by (cases val) simp_all

lemma ha_overwrite:
  assumes inv: "ha_inv env h" and p: "p < hcapacity h" "hcells h ! p = Item w" and key: "he_key env v = he_key env w"
  shows "\<exists>h'. ha_set_value (Some p) (Item v) h = (OB_SUCCESS, Item w, h') \<and> ha_inv env h' \<and>
    ha_look env h' = (ha_look env h)(he_key env v \<mapsto> v) \<and> ha_grows h h' \<and> (ha_clean h \<longrightarrow> ha_clean h')"
proof -
  let ?L = "cell_items (take p (hcells h))" and ?R = "cell_items (drop (Suc p) (hcells h))"
  have fresh: "he_key env w \<notin> he_key env ` set (?L @ ?R)"
    using ha_invD(6) [OF inv] unfolding ha_items_split [OF p(1)] p(2) by auto
  have "reached env h (he_key env v) p" using ha_invD(7) [OF inv p] key by simp
  with ha_write [OF inv p(1), of "Item v"] fresh p key obtain h' where
    h': "ha_set_value (Some p) (Item v) h = (OB_SUCCESS, Item w, h')" "ha_inv env h'"
      "hcells h' = (hcells h)[p := Item v]" "ha_grows h h'" by (auto simp: is_free_def)
  have "ha_look env h' = (ha_look env h)(he_key env v \<mapsto> v)"
    unfolding ha_look_def ha_items_split [OF p(1)] ha_items_update [OF p(1) h'(3)] p(2)
    using key_map_insert [of "he_key env" v ?L ?R] key_map_insert [of "he_key env" w ?L ?R] fresh key by simp
  moreover have "ha_clean h \<longrightarrow> ha_clean h'"
    using set_update_subset_insert [of "hcells h" p "Item v"] unfolding ha_clean_def h'(3) by auto
  ultimately show ?thesis using h' by blast
qed

lemma ha_insert:
  assumes inv: "ha_inv env h" and p: "p < hcapacity h" "is_free (hcells h ! p)" "reached env h (he_key env v) p"
    and room: "hcells h ! p = Empty \<Longrightarrow> \<not> ha_is_full h" and new: "ha_look env h (he_key env v) = None"
  shows "\<exists>h'. ha_set_value (Some p) (Item v) h = (OB_SUCCESS, Empty, h') \<and> ha_inv env h' \<and>
    ha_look env h' = (ha_look env h)(he_key env v \<mapsto> v) \<and> ha_grows h h' \<and> (ha_clean h \<longrightarrow> ha_clean h')"
proof -
  let ?L = "cell_items (take p (hcells h))" and ?R = "cell_items (drop (Suc p) (hcells h))"
  have old: "ha_items h = ?L @ ?R"
    using p(2) unfolding ha_items_split [OF p(1)] by (cases "hcells h ! p") (auto simp: is_free_def)
  have fresh: "he_key env v \<notin> he_key env ` set (?L @ ?R)"
    using new unfolding ha_look_def old key_map_None .
  with ha_write [OF inv p(1), of "Item v"] p(2,3) room obtain h' where
    h': "ha_set_value (Some p) (Item v) h = (OB_SUCCESS, Empty, h')" "ha_inv env h'"
      "hcells h' = (hcells h)[p := Item v]" "ha_grows h h'"
    by (auto simp: is_free_def ha_is_full_def split: cell.splits)
  have "ha_look env h' = (ha_look env h)(he_key env v \<mapsto> v)"
    unfolding ha_look_def old ha_items_update [OF p(1) h'(3)] using key_map_insert [OF fresh] by simp
  moreover have "ha_clean h \<longrightarrow> ha_clean h'"
    using set_update_subset_insert [of "hcells h" p "Item v"] unfolding ha_clean_def h'(3) by auto
  ultimately show ?thesis using h' by blast
qed

lemma ha_erase:
  assumes inv: "ha_inv env h" and p: "p < hcapacity h" "hcells h ! p = Item w"
  shows "\<exists>h'. ha_set_value (Some p) Erased h = (OB_SUCCESS, Item w, h') \<and> ha_inv env h' \<and>
    ha_look env h' = (ha_look env h)(he_key env w := None) \<and> ha_grows h h'"
proof -
  let ?L = "cell_items (take p (hcells h))" and ?R = "cell_items (drop (Suc p) (hcells h))"
  have fresh: "he_key env w \<notin> he_key env ` set (?L @ ?R)"
    using ha_invD(6) [OF inv] unfolding ha_items_split [OF p(1)] p(2) by auto
  from ha_write [OF inv p(1), of Erased] p obtain h' where
    h': "ha_set_value (Some p) Erased h = (OB_SUCCESS, Item w, h')" "ha_inv env h'"
      "hcells h' = (hcells h)[p := Erased]" "ha_grows h h'" by (auto simp: is_free_def)
  have "ha_look env h' = (ha_look env h)(he_key env w := None)"
    unfolding ha_look_def ha_items_split [OF p(1)] ha_items_update [OF p(1) h'(3)] p(2)
    using key_map_remove [OF fresh] by simp
  with h' show ?thesis by blast
qed

lemma ha_set_ok:
  assumes inv: "ha_inv env h" and ow: "ow \<or> ha_look env h (he_key env v) = None"
    and room: "ha_look env h (he_key env v) \<noteq> None \<or> \<not> ha_is_full h"
  shows "\<exists>old h'. ha_set_refactored env (he_key env v) (Item v) ow h = Some (OB_SUCCESS, old, h') \<and> ha_inv env h' \<and>
    ha_look env h' = (ha_look env h)(he_key env v \<mapsto> v) \<and> ha_grows h h' \<and> (ha_clean h \<longrightarrow> ha_clean h')"
proof (cases "ha_look env h (he_key env v)")
  case None
  from ha_find_absent [OF inv this, of "Item v" ow] None room obtain p where
    "p < hcapacity h" "is_free (hcells h ! p)" "reached env h (he_key env v) p"
    "ha_find_set_pos env h (he_key env v) (Item v) ow = Some (OB_SUCCESS, Some p, None, False)" by auto
  with ha_insert [OF inv, of p v] None room show ?thesis by (auto simp: ha_set_refactored_def)
next
  case (Some w)
  with ow have "ow" by simp
  from ha_find_present [OF inv Some] obtain p where "p < hcapacity h" "hcells h ! p = Item w"
    "ha_find_set_pos env h (he_key env v) (Item v) True = Some (OB_SUCCESS, Some p, None, True)" by auto
  moreover have "he_key env w = he_key env v" using Some ha_look_Some [OF inv] by blast
  ultimately show ?thesis using ha_overwrite [OF inv, of p w v] \<open>ow\<close> by (auto simp: ha_set_refactored_def)
qed

lemma ha_set_exist:
  "ha_inv env h \<Longrightarrow> ha_look env h k \<noteq> None \<Longrightarrow>
    ha_set_refactored env k val False h = Some (OB_HASH_EXIST, Empty, h)"
  using ha_find_present [of env h k] by (auto simp: ha_set_refactored_def)

lemma ha_set_full:
  "ha_inv env h \<Longrightarrow> ha_look env h (he_key env v) = None \<Longrightarrow> ha_is_full h \<Longrightarrow>
    ha_set_refactored env (he_key env v) (Item v) ow h = Some (OB_HASH_FULL, Empty, h)"
  using ha_find_absent [of env h "he_key env v" "Item v" ow] by (auto simp: ha_set_refactored_def)

lemma ha_erase_ok:
  assumes inv: "ha_inv env h"
  shows "\<exists>ret old h'. ha_erase_refactored env k h = Some (ret, old, h') \<and> ha_inv env h' \<and>
    ha_look env h' = (ha_look env h)(k := None) \<and> ha_grows h h' \<and>
    ret = (if ha_look env h k = None then OB_HASH_NOT_EXIST else OB_SUCCESS)"
proof (cases "ha_look env h k")
  case None
  with ha_find_absent [OF inv None, of Erased True] inv show ?thesis
    by (auto simp: ha_erase_refactored_def ha_set_refactored_def ha_grows_def fun_upd_idem)
next
  case (Some w)
  from ha_find_present [OF inv Some] obtain p where "p < hcapacity h" "hcells h ! p = Item w"
    "ha_find_set_pos env h k Erased True = Some (OB_SUCCESS, Some p, None, True)" by auto
  moreover have "he_key env w = k" using Some ha_look_Some [OF inv] by blast
  ultimately show ?thesis using ha_erase [OF inv, of p w] Some
    by (auto simp: ha_erase_refactored_def ha_set_refactored_def)
qed

lemma ha_empty_inv:
  assumes "hcells h = replicate c Empty" "0 < c" "0 \<le> hmax_entries h" "hmax_entries h < int c"
    "hcount h = 0" "hitem_count h = 0"
  shows "ha_inv env h" "ha_look env h = Map.empty"
  using assms by (auto simp: ha_inv_def ha_items_def ha_look_def)

lemma load_less: "float_ok env \<Longrightarrow> 0 < c \<Longrightarrow> he_load env c < c"
proof -
  assume "float_ok env" "0 < c"
  then have "10 * he_load env c \<le> 7 * c" unfolding float_ok_def by blast
  with \<open>0 < c\<close> show ?thesis by linarith
qed

lemma ha_new_ok:
  assumes "float_ok env" "sizeof_hash_array + 8 \<le> mem_size"
  shows "\<exists>h. ha_new env mem_size = Some h \<and> ha_inv env h \<and> ha_look env h = Map.empty \<and>
    hcapacity h = (mem_size - sizeof_hash_array) div 8 \<and> hmax_entries h = int (he_load env (hcapacity h)) \<and>
    ha_items h = [] \<and> hcount h = 0"
proof -
  let ?c = "(mem_size - sizeof_hash_array) div 8"
  from assms(2) have "0 < ?c" by linarith
  with ha_empty_inv [of _ ?c env] load_less [OF assms(1), of ?c] assms(2) show ?thesis
    by (simp add: ha_new_def Let_def ha_items_def)
qed

lemma ha_clear_ok:
  "ha_inv env h \<Longrightarrow> ha_inv env (ha_clear h) \<and> ha_look env (ha_clear h) = Map.empty"
  using ha_empty_inv [of "ha_clear h" "hcapacity h" env] ha_invD(1,2,3,5) [of env h]
  by (auto simp: ha_clear_def)

lemma ha_items_card: "ha_inv env h \<Longrightarrow> length (ha_items h) = card (dom (ha_look env h))"
  unfolding ha_look_def dom_key_map using distinct_card [OF ha_invD(6) [of env h]] by simp

lemma ha_item_count_le: "ha_inv env h \<Longrightarrow> hitem_count h \<le> hcount h"
  using ha_invD(3,4) [of env h] cell_items_length [of "hcells h"] by (simp add: ha_items_def)

lemma clean_items_length:
  "Erased \<notin> set cs \<Longrightarrow> length (cell_items cs) = length (filter (\<lambda>c. c \<noteq> Empty) cs)"
  by (induction cs rule: cell_items.induct) auto

lemma ha_clean_count: "ha_inv env h \<Longrightarrow> ha_clean h \<Longrightarrow> hcount h = int (length (ha_items h))"
  using ha_invD(3) [of env h] by (simp add: ha_clean_def ha_items_def clean_items_length)

end
