(* ===== verification/OB_Hash_Map.thy ===== *)
theory OB_Hash_Map
  imports OB_Pointer_Hash
begin

text \<open>
  Correctness of \<open>ObPointerHashMap\<close>: a map of up to four tables is a finite map from keys to objects. A key is
  in at most one table, and every table but the last is full, so that a lookup that misses in one of
  them goes on to the next and an insertion sees every table before it takes a new place. The map
  provides the contract \<open>dictionary\<close>.
\<close>

section \<open>A list of tables\<close>

fun subs_look :: "('k, 'v) hash_env \<Rightarrow> 'v hash_array list \<Rightarrow> 'k \<Rightarrow> 'v option" where
  "subs_look env [] k = None"
| "subs_look env (h # hs) k = (case ha_look env h k of Some v \<Rightarrow> Some v | None \<Rightarrow> subs_look env hs k)"

definition subs_disj :: "('k, 'v) hash_env \<Rightarrow> 'v hash_array list \<Rightarrow> bool" where
  "subs_disj env hs \<longleftrightarrow> (\<forall>i < length hs. \<forall>j < length hs. i \<noteq> j \<longrightarrow>
     dom (ha_look env (hs ! i)) \<inter> dom (ha_look env (hs ! j)) = {})"

definition subs_inv :: "('k, 'v) hash_env \<Rightarrow> 'v hash_array list \<Rightarrow> bool" where
  "subs_inv env hs \<longleftrightarrow> (\<forall>h \<in> set hs. ha_inv env h) \<and> subs_disj env hs \<and>
     (\<forall>i. Suc i < length hs \<longrightarrow> ha_is_full (hs ! i))"

lemma subs_look_None: "subs_look env hs k = None \<longleftrightarrow> (\<forall>h \<in> set hs. ha_look env h k = None)"
  by (induction hs) (auto split: option.splits)

lemma subs_look_SomeD: "subs_look env hs k = Some v \<Longrightarrow> \<exists>i < length hs. ha_look env (hs ! i) k = Some v"
proof (induction hs)
  case (Cons h hs)
  then show ?case by (cases "ha_look env h k") (force split: option.splits)+
qed simp

lemma subs_disjD: "subs_disj env hs \<Longrightarrow> i < length hs \<Longrightarrow> j < length hs \<Longrightarrow>
    ha_look env (hs ! i) k = Some v \<Longrightarrow> ha_look env (hs ! j) k = Some w \<Longrightarrow> i = j"
  unfolding subs_disj_def by (metis disjoint_iff domI)

lemma subs_look_nth:
  assumes "subs_disj env hs" "i < length hs" "ha_look env (hs ! i) k = Some v"
  shows "subs_look env hs k = Some v"
proof (cases "subs_look env hs k")
  case None
  with assms(2,3) show ?thesis by (auto simp: subs_look_None)
next
  case (Some w)
  from subs_look_SomeD [OF this] obtain j where "j < length hs" "ha_look env (hs ! j) k = Some w" by blast
  with subs_disjD [OF assms(1,2) this(1) assms(3) this(2)] assms(3) Some show ?thesis by simp
qed

text \<open>One table changes at one key, which no other table has.\<close>

lemma subs_update:
  assumes disj: "subs_disj env hs" and j: "j < length hs"
    and look: "ha_look env h' = (ha_look env (hs ! j))(k := x)"
    and others: "\<And>i. i < length hs \<Longrightarrow> i \<noteq> j \<Longrightarrow> ha_look env (hs ! i) k = None"
  shows "subs_disj env (hs[j := h'])" and "subs_look env (hs[j := h']) = (subs_look env hs)(k := x)"
proof -
  show d': "subs_disj env (hs[j := h'])"
    unfolding subs_disj_def length_list_update
  proof (intro allI impI)
    fix a b assume ab: "a < length hs" "b < length hs" "a \<noteq> b"
    with disj have "dom (ha_look env (hs ! a)) \<inter> dom (ha_look env (hs ! b)) = {}" unfolding subs_disj_def by blast
    with ab others [of a] others [of b] show
      "dom (ha_look env (hs[j := h'] ! a)) \<inter> dom (ha_look env (hs[j := h'] ! b)) = {}"
      by (auto simp: nth_list_update' look domIff split: if_splits)
  qed
  have nth: "ha_look env (hs[j := h'] ! i) q = (if q = k then if i = j then x else None else ha_look env (hs ! i) q)"
    if "i < length hs" for i q using that others [of i] by (auto simp: nth_list_update' look)
  show "subs_look env (hs[j := h']) = (subs_look env hs)(k := x)"
  proof
    fix q show "subs_look env (hs[j := h']) q = ((subs_look env hs)(k := x)) q"
    proof (cases "((subs_look env hs)(k := x)) q")
      case None
      then have "ha_look env (hs[j := h'] ! i) q = None" if "i < length hs" for i
        using nth [OF that, of q] that by (auto simp: subs_look_None split: if_splits)
      with None show ?thesis by (simp add: subs_look_None all_set_conv_all_nth)
    next
      case (Some w)
      have "\<exists>i < length hs. ha_look env (hs[j := h'] ! i) q = Some w"
      proof (cases "q = k")
        case True
        with Some j nth [OF j, of q] show ?thesis by auto
      next
        case False
        with Some nth subs_look_SomeD [of env hs q w] show ?thesis by auto
      qed
      with subs_look_nth [OF d'] Some show ?thesis by auto
    qed
  qed
qed

lemma subs_inv_update:
  assumes "subs_inv env hs" "j < length hs" "ha_inv env h'" "ha_grows (hs ! j) h'" "subs_disj env (hs[j := h'])"
  shows "subs_inv env (hs[j := h'])"
  using assms set_update_subset_insert [of hs j h']
  by (auto simp: subs_inv_def nth_list_update' ha_is_full_def ha_grows_def)

section \<open>Lookup and deletion\<close>

lemma hm_get_loop_ok:
  "\<forall>h \<in> set hs. ha_inv env h \<Longrightarrow> hm_get_loop env k (map Some hs) =
    Some (case subs_look env hs k of None \<Rightarrow> (OB_HASH_NOT_EXIST, None) | Some v \<Rightarrow> (OB_SUCCESS, Some (Item v)))"
  by (induction hs) (auto simp: ha_get_ok split: option.splits)

lemma ha_erase_absent:
  "ha_inv env h \<Longrightarrow> ha_look env h k = None \<Longrightarrow> ha_erase_refactored env k h = Some (OB_HASH_NOT_EXIST, Empty, h)"
  using ha_find_absent [of env h k Erased True] by (auto simp: ha_erase_refactored_def ha_set_refactored_def)

lemma hm_erase_loop_absent:
  "\<forall>h \<in> set hs. ha_inv env h \<and> ha_look env h k = None \<Longrightarrow>
     hm_erase_loop env k (map Some hs) = Some (OB_HASH_NOT_EXIST, Empty, map Some hs)"
  by (induction hs) (auto simp: ha_erase_absent)

lemma hm_erase_loop_present:
  assumes "\<forall>h \<in> set hs. ha_inv env h" and "j < length hs" and "ha_look env (hs ! j) k \<noteq> None"
    and "\<forall>i < j. ha_look env (hs ! i) k = None"
  shows "\<exists>old h'. hm_erase_loop env k (map Some hs) = Some (OB_SUCCESS, old, map Some (hs[j := h'])) \<and> ha_inv env h' \<and>
    ha_look env h' = (ha_look env (hs ! j))(k := None) \<and> ha_grows (hs ! j) h'"
  using assms
proof (induction hs arbitrary: j)
  case (Cons h hs)
  show ?case
  proof (cases j)
    case 0
    with ha_erase_ok [of env h k] Cons.prems show ?thesis by fastforce
  next
    case (Suc n)
    with Cons.prems have "ha_look env h k = None" "ha_inv env h" by auto
    moreover have "\<forall>i < n. ha_look env (hs ! i) k = None" using Cons.prems(4) Suc by force
    ultimately show ?thesis using ha_erase_absent [of env h k] Cons.IH [of n] Cons.prems(1-3) Suc by auto
  qed
qed simp

section \<open>Finding the place of a key\<close>

definition set_place :: "('k, 'v) hash_env \<Rightarrow> 'k \<Rightarrow> 'v hash_array \<Rightarrow> nat \<Rightarrow> bool" where
  "set_place env k h p \<longleftrightarrow> p < hcapacity h \<and> is_free (hcells h ! p) \<and> reached env h k p \<and>
     (hcells h ! p = Empty \<longrightarrow> \<not> ha_is_full h)"

lemma hm_find_loop_absent:
  assumes "\<forall>h \<in> set hs. ha_inv env h \<and> ha_look env h k = None" and "\<forall>i. Suc i < length hs \<longrightarrow> ha_is_full (hs ! i)"
    and "n = i + length hs" and "hs \<noteq> []" and "idx = None \<longleftrightarrow> pos = None"
  shows "\<exists>idx' pos'.
    hm_find_loop env k (Item v) ow n i idx pos r (map Some hs) = Some (OB_SUCCESS, idx', pos') \<and>
      (if idx = None then \<exists>j < length hs. \<exists>p. idx' = Some (i + j) \<and> pos' = Some p \<and> set_place env k (hs ! j) p
       else idx' = idx \<and> pos' = pos) \<or>
    hm_find_loop env k (Item v) ow n i idx pos r (map Some hs) = Some (OB_HASH_FULL, idx', pos') \<and>
      idx = None \<and> (\<forall>h \<in> set hs. ha_is_full h)"
  using assms
proof (induction hs arbitrary: i idx pos r)
  case (Cons h hs)
  then obtain p where p: "p < hcapacity h" "is_free (hcells h ! p)" "reached env h k p"
    "ha_find_set_pos env h k (Item v) ow = Some (if ha_is_full h
       then (OB_HASH_FULL, Some p, if hcells h ! p = Erased then Some p else None, False)
       else (OB_SUCCESS, Some p, None, False))"
    using ha_find_absent [of env h k "Item v" ow] by auto
  show ?case
  proof (cases "ha_is_full h")
    case False
    with Cons.prems(2) have "hs = []" by (cases hs) auto
    with False p Cons.prems(5) show ?thesis by (auto simp: set_place_def)
  next
    case True
    let ?found = "pos = None \<and> hcells h ! p = Erased"
    let ?idx = "if ?found then Some i else idx" and ?pos = "if ?found then Some p else pos"
    have here: "?found \<Longrightarrow> set_place env k h p" using p by (simp add: set_place_def)
    show ?thesis
    proof (cases "hs = []")
      case True
      with \<open>ha_is_full h\<close> p here Cons.prems(3,5) show ?thesis by (auto simp: Let_def)
    next
      case False
      with Cons.prems(3) have "i \<noteq> n - 1" by (cases hs) auto
      then have step: "hm_find_loop env k (Item v) ow n i idx pos r (map Some (h # hs)) =
          hm_find_loop env k (Item v) ow n (i + 1) ?idx ?pos OB_HASH_FULL (map Some hs)"
        using p \<open>ha_is_full h\<close> by (simp add: Let_def)
      have full: "\<forall>i. Suc i < length hs \<longrightarrow> ha_is_full (hs ! i)" using Cons.prems(2) by force
      have sync: "?idx = None \<longleftrightarrow> ?pos = None" using Cons.prems(5) by simp
      from Cons.IH [OF _ full _ False sync, of "i + 1" OB_HASH_FULL] Cons.prems(1,3)
      obtain idx' pos' where res:
        "hm_find_loop env k (Item v) ow n (i + 1) ?idx ?pos OB_HASH_FULL (map Some hs) = Some (OB_SUCCESS, idx', pos') \<and>
          (if ?idx = None then \<exists>j < length hs. \<exists>p. idx' = Some (i + 1 + j) \<and> pos' = Some p \<and> set_place env k (hs ! j) p
           else idx' = ?idx \<and> pos' = ?pos) \<or>
         hm_find_loop env k (Item v) ow n (i + 1) ?idx ?pos OB_HASH_FULL (map Some hs) = Some (OB_HASH_FULL, idx', pos') \<and>
          ?idx = None \<and> (\<forall>h \<in> set hs. ha_is_full h)" by auto
      consider (here) "?found" "idx = None" | (set) "\<not> ?found" "idx \<noteq> None" | (none) "\<not> ?found" "idx = None"
        using Cons.prems(5) by blast
      then show ?thesis
      proof cases
        case here
        with res \<open>?found \<Longrightarrow> set_place env k h p\<close> show ?thesis
          unfolding step by - (rule exI [of _ "Some i"], rule exI [of _ "Some p"], auto intro: exI [of _ 0])
      next
        case set
        with res show ?thesis unfolding step by (intro exI [of _ idx'] exI [of _ pos']) auto
      next
        case none
        then have same: "?idx = idx" "?pos = pos" by auto
        from res [unfolded same] none(2) show ?thesis
          unfolding step same
        proof (elim disjE conjE, goal_cases)
          case 1
          then obtain j p where "j < length hs" "idx' = Some (i + 1 + j)" "pos' = Some p" "set_place env k (hs ! j) p"
            by auto
          with 1 show ?case
            by - (rule exI [of _ idx'], rule exI [of _ pos'], auto intro: exI [of _ "Suc j"])
        next
          case 2
          with True show ?case by - (rule exI [of _ idx'], rule exI [of _ pos'], auto)
        qed
      qed
    qed
  qed
qed simp

lemma hm_find_loop_present:
  assumes "\<forall>h \<in> set hs. ha_inv env h" and "\<forall>i. Suc i < length hs \<longrightarrow> ha_is_full (hs ! i)"
    and "n = i + length hs" and "j < length hs" and "ha_look env (hs ! j) k = Some w"
    and "\<forall>i < j. ha_look env (hs ! i) k = None"
  shows "\<exists>idx' pos' p. p < hcapacity (hs ! j) \<and> hcells (hs ! j) ! p = Item w \<and>
    hm_find_loop env k (Item v) ow n i idx pos r (map Some hs) =
      Some (if ow then (OB_SUCCESS, Some (i + j), Some p) else (OB_HASH_EXIST, idx', pos'))"
  using assms
proof (induction hs arbitrary: i j idx pos r)
  case (Cons h hs)
  show ?case
  proof (cases j)
    case 0
    with ha_find_present [of env h k w] Cons.prems show ?thesis by fastforce
  next
    case (Suc m)
    from Suc Cons.prems(6) have "ha_look env h k = None" by auto
    moreover from Suc Cons.prems(2,4) have "ha_is_full h" by (cases hs) auto
    ultimately obtain p where p:
      "ha_find_set_pos env h k (Item v) ow =
        Some (OB_HASH_FULL, Some p, if hcells h ! p = Erased then Some p else None, False)"
      using ha_find_absent [of env h k "Item v" ow] Cons.prems(1) by auto
    let ?found = "pos = None \<and> hcells h ! p = Erased"
    let ?idx = "if ?found then Some i else idx" and ?pos = "if ?found then Some p else pos"
    from Suc Cons.prems(3,4) have "i \<noteq> n - 1" by (cases hs) auto
    then have step: "hm_find_loop env k (Item v) ow n i idx pos r (map Some (h # hs)) =
        hm_find_loop env k (Item v) ow n (i + 1) ?idx ?pos OB_HASH_FULL (map Some hs)"
      using p by (simp add: Let_def)
    have full: "\<forall>i. Suc i < length hs \<longrightarrow> ha_is_full (hs ! i)" using Cons.prems(2) by force
    have before: "\<forall>i < m. ha_look env (hs ! i) k = None" using Cons.prems(6) Suc by force
    have "\<forall>h \<in> set hs. ha_inv env h" "n = i + 1 + length hs" "m < length hs" "ha_look env (hs ! m) k = Some w"
      using Cons.prems(1,3-5) Suc by auto
    note IH = Cons.IH [OF this(1) full this(2-4) before]
    have "i + Suc m = i + 1 + m" by simp
    show ?thesis unfolding step Suc nth_Cons_Suc \<open>i + Suc m = i + 1 + m\<close> by (rule IH)
  qed
qed simp

section \<open>Rebuilding into a larger table\<close>

lemma copy_items_ok:
  assumes "ha_inv env h" "ha_clean h" "distinct (map (he_key env) vs)"
    and "\<forall>v \<in> set vs. ha_look env h (he_key env v) = None" and "hcount h + int (length vs) \<le> hmax_entries h"
  shows "\<exists>h'. copy_items env vs h = Some h' \<and> ha_inv env h' \<and> ha_clean h' \<and>
    ha_look env h' = ha_look env h ++ key_map (he_key env) vs \<and> hcount h' = hcount h + int (length vs) \<and>
    hmax_entries h' = hmax_entries h \<and> hcapacity h' = hcapacity h"
  using assms
proof (induction vs arbitrary: h)
  case (Cons v vs)
  from Cons.prems(4) have new: "ha_look env h (he_key env v) = None" by simp
  from Cons.prems(5) have "\<not> ha_is_full h" by (simp add: ha_is_full_def)
  with ha_set_ok [OF Cons.prems(1), of False v] new obtain old h' where
    h': "ha_set_refactored env (he_key env v) (Item v) False h = Some (OB_SUCCESS, old, h')" "ha_inv env h'"
      "ha_look env h' = (ha_look env h)(he_key env v \<mapsto> v)" "ha_grows h h'" "ha_clean h'"
    using Cons.prems(2) by auto
  have fin: "finite (dom (ha_look env h))" unfolding ha_look_def dom_key_map by simp
  have "hcount h' = hcount h + 1"
    using ha_clean_count [OF h'(2,5)] ha_clean_count [OF Cons.prems(1,2)] ha_items_card [OF h'(2)]
      ha_items_card [OF Cons.prems(1)] new fin by (simp add: h'(3) domIff)
  moreover have "\<forall>u \<in> set vs. ha_look env h' (he_key env u) = None"
  proof
    fix u assume "u \<in> set vs"
    then have "he_key env u \<noteq> he_key env v" using Cons.prems(3) by (auto simp: image_iff)
    then show "ha_look env h' (he_key env u) = None" using Cons.prems(4) \<open>u \<in> set vs\<close> h'(3) by simp
  qed
  ultimately obtain h'' where h'': "copy_items env vs h' = Some h''" "ha_inv env h''" "ha_clean h''"
      "ha_look env h'' = ha_look env h' ++ key_map (he_key env) vs" "hcount h'' = hcount h' + int (length vs)"
      "hmax_entries h'' = hmax_entries h'" "hcapacity h'' = hcapacity h'"
    using Cons.IH [OF h'(2,5)] Cons.prems(3,5) h'(4) by (auto simp: ha_grows_def)
  have "ha_look env h'' = ha_look env h ++ key_map (he_key env) (v # vs)"
  proof -
    have "he_key env v \<notin> he_key env ` set ([] @ vs)" using Cons.prems(3) by auto
    from key_map_insert [OF this] show ?thesis
      by (auto simp: h''(4) h'(3) map_add_def fun_eq_iff split: option.splits)
        (metis Cons.prems(3) distinct.simps(2) image_set key_map_None list.simps(9) option.distinct(1))
  qed
  with h' h'' \<open>hcount h' = hcount h + 1\<close> show ?case by (auto simp: ha_grows_def)
qed simp

lemma subs_look_Cons: "subs_look env (h # hs) = subs_look env hs ++ ha_look env h"
  by (auto simp: map_add_def split: option.splits)

lemma subs_disj_Cons:
  assumes "subs_disj env (h # hs)"
  shows "subs_disj env hs" "ha_look env h k = Some v \<Longrightarrow> subs_look env hs k = None"
proof -
  show "subs_disj env hs"
    unfolding subs_disj_def
  proof (intro allI impI)
    fix i j assume "i < length hs" "j < length hs" "i \<noteq> j"
    then show "dom (ha_look env (hs ! i)) \<inter> dom (ha_look env (hs ! j)) = {}"
      using assms [unfolded subs_disj_def, rule_format, of "Suc i" "Suc j"] by simp
  qed
  assume "ha_look env h k = Some v"
  then have "ha_look env (hs ! i) k \<noteq> Some w" if "i < length hs" for i w
    using subs_disjD [OF assms, of 0 "Suc i" k v w] that by auto
  then show "subs_look env hs k = None" using subs_look_SomeD [of env hs k] by (cases "subs_look env hs k") auto
qed

definition subs_items :: "'v hash_array list \<Rightarrow> nat" where
  "subs_items hs = sum_list (map (\<lambda>h. length (ha_items h)) hs)"

lemma copy_subs_ok:
  assumes "\<forall>s \<in> set ss. ha_inv env s" "subs_disj env ss" "ha_inv env h" "ha_clean h"
    and "\<And>k. subs_look env ss k = None \<or> ha_look env h k = None"
    and "hcount h + int (subs_items ss) \<le> hmax_entries h"
  shows "\<exists>h'. copy_subs env (map Some ss) h = Some h' \<and> ha_inv env h' \<and> ha_clean h' \<and>
    ha_look env h' = ha_look env h ++ subs_look env ss \<and> hcount h' = hcount h + int (subs_items ss) \<and>
    hmax_entries h' = hmax_entries h \<and> hcapacity h' = hcapacity h"
  using assms
proof (induction ss arbitrary: h)
  case Nil
  then show ?case by (auto simp: subs_items_def map_add_def)
next
  case (Cons s ss)
  have inv: "ha_inv env s" using Cons.prems(1) by simp
  note disj = subs_disj_Cons [OF Cons.prems(2)]
  have "ha_look env h (he_key env v) = None" if "v \<in> set (ha_items s)" for v
  proof -
    have "ha_look env s (he_key env v) = Some v"
      unfolding ha_look_def using key_map_Some [OF ha_invD(6) [OF inv]] that by simp
    then show ?thesis using Cons.prems(5) [of "he_key env v"] by simp
  qed
  then obtain h' where h': "copy_items env (ha_items s) h = Some h'" "ha_inv env h'" "ha_clean h'"
    "ha_look env h' = ha_look env h ++ ha_look env s" "hcount h' = hcount h + int (length (ha_items s))"
    "hmax_entries h' = hmax_entries h" "hcapacity h' = hcapacity h"
    using copy_items_ok [OF Cons.prems(3,4) ha_invD(6) [OF inv]] Cons.prems(6)
    unfolding ha_look_def [of env s] by (auto simp: subs_items_def)
  have "subs_look env ss k = None \<or> ha_look env h' k = None" for k
    using Cons.prems(5) [of k] disj(2) [of k] h'(4)
    by (cases "ha_look env s k") (auto simp: map_add_def)
  then obtain h'' where "copy_subs env (map Some ss) h' = Some h''" "ha_inv env h''" "ha_clean h''"
    "ha_look env h'' = ha_look env h' ++ subs_look env ss" "hcount h'' = hcount h' + int (subs_items ss)"
    "hmax_entries h'' = hmax_entries h'" "hcapacity h'' = hcapacity h'"
    using Cons.IH [OF _ disj(1) h'(2,3)] Cons.prems(1,6) h'(5,6) by (auto simp: subs_items_def)
  moreover have "ha_look env h ++ ha_look env s ++ subs_look env ss = ha_look env h ++ subs_look env (s # ss)"
    unfolding subs_look_Cons
    by (rule ext) (use disj(2) in \<open>auto simp: map_add_def split: option.splits\<close>)
  ultimately show ?case using h' by (auto simp: subs_items_def simp del: subs_look.simps)
qed

section \<open>The sizes of the tables\<close>

definition table_capacity :: "nat \<Rightarrow> nat" where
  "table_capacity mem_size = (mem_size - sizeof_hash_array) div 8"

text \<open>The sizes a map that starts with the default size goes through.\<close>

definition mem_size_ok :: "nat \<Rightarrow> bool" where
  "mem_size_ok s \<longleftrightarrow> s = OB_MALLOC_NORMAL_BLOCK_SIZE \<or> s = OB_MALLOC_BIG_BLOCK_SIZE \<or> s > OB_MALLOC_BIG_BLOCK_SIZE \<or>
     s \<in> (\<lambda>k. 4 * OB_MALLOC_NORMAL_BLOCK_SIZE * 2 ^ k) ` {0..<7}"

lemmas block_sizes = OB_MALLOC_NORMAL_BLOCK_SIZE_def OB_MALLOC_BIG_BLOCK_SIZE_def sizeof_hash_array_def

lemma mem_size_cases:
  assumes "mem_size_ok s"
  shows "s = 7936 \<or> s \<in> {31744, 63488, 126976, 253952, 507904, 1015808, 2031616} \<or> s = 2079744 \<or> s > 2079744"
proof -
  have "{0..<7} = {0, 1, 2, 3, 4, 5, 6 :: nat}" by auto
  with assms show ?thesis by (auto simp: mem_size_ok_def block_sizes)
qed

lemma mem_size_okI:
  "s = 7936 \<or> s \<in> {31744, 63488, 126976, 253952, 507904, 1015808, 2031616} \<or> s = 2079744 \<or> s > 2079744 \<Longrightarrow>
    mem_size_ok s"
proof -
  have "{0..<7} = {0, 1, 2, 3, 4, 5, 6 :: nat}" by auto
  then show "s = 7936 \<or> s \<in> {31744, 63488, 126976, 253952, 507904, 1015808, 2031616} \<or> s = 2079744 \<or> s > 2079744 \<Longrightarrow>
    mem_size_ok s" unfolding mem_size_ok_def block_sizes by auto
qed

lemma load_strict: "float_ok env \<Longrightarrow> c + 2 \<le> c' \<Longrightarrow> he_load env c < he_load env c'"
proof -
  assume f: "float_ok env" and c: "c + 2 \<le> c'"
  from f have "10 * he_load env c \<le> 7 * c" "7 * c' \<le> 10 * he_load env c' + 10" unfolding float_ok_def by blast+
  with c show ?thesis by linarith
qed

lemma load_four:
  "float_ok env \<Longrightarrow> 4 * c + 2 \<le> c' \<Longrightarrow> 4 * he_load env c < he_load env c'"
proof -
  assume f: "float_ok env" and c: "4 * c + 2 \<le> c'"
  from f have "10 * he_load env c \<le> 7 * c" "7 * c' \<le> 10 * he_load env c' + 10" unfolding float_ok_def by blast+
  with c show ?thesis by linarith
qed

lemma load_pos: "float_ok env \<Longrightarrow> mem_size_ok s \<Longrightarrow> 0 < he_load env (table_capacity s)"
proof -
  assume f: "float_ok env" and s: "mem_size_ok s"
  from mem_size_cases [OF s] have "7936 \<le> s" by auto
  then have "984 \<le> table_capacity s" by (simp add: table_capacity_def block_sizes)
  with f show ?thesis using load_strict [of env 0 "table_capacity s"] by simp
qed

section \<open>The map\<close>

definition hm_tables :: "('k, 'v) hash_env \<Rightarrow> 'v hash_map \<Rightarrow> 'v hash_array list \<Rightarrow> bool" where
  "hm_tables env m hs \<longleftrightarrow> hsubs m = map Some hs \<and> hs \<noteq> [] \<and> length hs \<le> MAX_SUB_MAP_COUNT \<and> subs_inv env hs \<and>
     mem_size_ok (hmem_size m) \<and>
     (1 < length hs \<longrightarrow> hmem_size m = OB_MALLOC_NORMAL_BLOCK_SIZE \<or> hmem_size m = OB_MALLOC_BIG_BLOCK_SIZE) \<and>
     (\<forall>h \<in> set hs. hcapacity h = table_capacity (hmem_size m) \<and> hmax_entries h = int (he_load env (hcapacity h)))"

definition hm_inv :: "('k, 'v) hash_env \<Rightarrow> 'v hash_map \<Rightarrow> bool" where
  "hm_inv env m \<longleftrightarrow> (\<exists>hs. hm_tables env m hs)"

definition hm_look :: "('k, 'v) hash_env \<Rightarrow> 'v hash_map \<Rightarrow> 'k \<Rightarrow> 'v option" where
  "hm_look env m = subs_look env (map the (hsubs m))"

lemma hm_tablesD:
  assumes "hm_tables env m hs"
  shows "hsubs m = map Some hs" "hs \<noteq> []" "length hs \<le> MAX_SUB_MAP_COUNT" "subs_inv env hs" "mem_size_ok (hmem_size m)"
    "1 < length hs \<Longrightarrow> hmem_size m = OB_MALLOC_NORMAL_BLOCK_SIZE \<or> hmem_size m = OB_MALLOC_BIG_BLOCK_SIZE"
    "h \<in> set hs \<Longrightarrow> hcapacity h = table_capacity (hmem_size m)"
    "h \<in> set hs \<Longrightarrow> hmax_entries h = int (he_load env (table_capacity (hmem_size m)))"
    "hm_look env m = subs_look env hs" "\<not> hm_null m"
    "\<forall>h \<in> set hs. ha_inv env h" "subs_disj env hs" "\<forall>i. Suc i < length hs \<longrightarrow> ha_is_full (hs ! i)"
  using assms by (auto simp: hm_tables_def hm_look_def hm_null_def subs_inv_def comp_def split: list.splits)

lemma hm_item_count_tables:
  assumes "hm_tables env m hs"
  shows "hm_item_count m = int (subs_items hs)"
proof -
  have "\<forall>h \<in> set hs. hitem_count h = int (length (ha_items h))" using hm_tablesD(11) [OF assms] ha_invD(4) by blast
  then show ?thesis unfolding hm_item_count_def hm_tablesD(1) [OF assms] subs_items_def
    by (induction hs) auto
qed

lemma hm_count_full:
  assumes m: "hm_tables env m hs" and full: "\<forall>h \<in> set hs. ha_is_full h"
  shows "hm_count m = int (length hs * he_load env (table_capacity (hmem_size m)))"
proof -
  have "\<forall>h \<in> set hs. hcount h = int (he_load env (table_capacity (hmem_size m)))"
    using full hm_tablesD(8,11) [OF m] ha_invD(5) by (fastforce simp: ha_is_full_def)
  then show ?thesis unfolding hm_count_def hm_tablesD(1) [OF m] by (induction hs) (auto simp: algebra_simps)
qed

lemma hm_items_le_count:
  assumes m: "hm_tables env m hs"
  shows "hm_item_count m \<le> hm_count m"
proof -
  have "\<forall>h \<in> set hs. hitem_count h \<le> hcount h" using hm_tablesD(11) [OF m] ha_item_count_le by blast
  then show ?thesis unfolding hm_count_def hm_item_count_def hm_tablesD(1) [OF m] by (induction hs) auto
qed

lemma resize_to_cases:
  assumes "mem_size_ok (hmem_size m)" and "length (hsubs m) \<noteq> 0" and "length (hsubs m) \<le> MAX_SUB_MAP_COUNT"
    and "1 < length (hsubs m) \<longrightarrow> hmem_size m = OB_MALLOC_NORMAL_BLOCK_SIZE \<or> hmem_size m = OB_MALLOC_BIG_BLOCK_SIZE"
    and "hm_resize_to env m = Some s"
  shows "mem_size_ok s \<and>
    (length (hsubs m) = 1 \<and> (s = hmem_size m \<and> \<not> hm_count m \<le> int (he_ext env (nat (hm_item_count m))) \<or> hmem_size m + 16 \<le> s) \<or>
     length (hsubs m) = 4 \<and> 4 * hmem_size m \<le> s)"
proof (cases "length (hsubs m) = 1")
  case True
  define s0 where "s0 = hmem_size m"
  define more where "more \<longleftrightarrow> hm_count m \<le> int (he_ext env (nat (hm_item_count m)))"
  define e where "e = (if more then s0 * 2 else s0)"
  have to: "Some s = (if s0 = 7936 \<or> s0 = 2079744 then None
      else Some (if e \<le> 7936 then e else if s0 < 7936 then 7936 else if e \<le> 2079744 then e
                 else if s0 < 2079744 then 2079744 else e))"
    unfolding assms(5) [symmetric] hm_resize_to_def e_def s0_def more_def block_sizes MAX_SUB_MAP_COUNT_def Let_def True
    by simp
  from mem_size_cases [OF assms(1)] to
  have sizes: "(s = s0 \<and> \<not> more \<or> s0 + 16 \<le> s) \<and>
      (s \<in> {31744, 63488, 126976, 253952, 507904, 1015808, 2031616} \<or> s = 2079744 \<or> s > 2079744)"
    unfolding s0_def [symmetric] e_def by (cases more; elim disjE insertE emptyE; simp)
  then have "mem_size_ok s" by (intro mem_size_okI) blast
  with True sizes show ?thesis unfolding s0_def more_def by blast
next
  case False
  have "hm_resize_to env m = None" if "1 < length (hsubs m)" "length (hsubs m) < 4"
    using that unfolding hm_resize_to_def MAX_SUB_MAP_COUNT_def Let_def by simp
  with assms(5) have "\<not> (1 < length (hsubs m) \<and> length (hsubs m) < 4)" by auto
  with False assms(2,3) have "length (hsubs m) = 4" unfolding MAX_SUB_MAP_COUNT_def by linarith
  moreover from this assms(4) have s0: "hmem_size m = 7936 \<or> hmem_size m = 2079744" unfolding block_sizes by simp
  ultimately have "s = 4 * hmem_size m \<or> s = 8 * hmem_size m"
    using assms(5) unfolding hm_resize_to_def block_sizes MAX_SUB_MAP_COUNT_def Let_def by (simp split: if_splits)
  moreover from this s0 have "mem_size_ok s" by (intro mem_size_okI) auto
  ultimately show ?thesis using \<open>length (hsubs m) = 4\<close> by auto
qed

lemma resize_room:
  assumes f: "float_ok env" and m: "hm_tables env m hs" and full: "\<forall>h \<in> set hs. ha_is_full h"
    and to: "hm_resize_to env m = Some s"
  shows "mem_size_ok s" "subs_items hs < he_load env (table_capacity s)"
proof -
  let ?s = "hmem_size m"
  let ?L = "he_load env (table_capacity ?s)"
  note D = hm_tablesD [OF m]
  have len: "length (hsubs m) = length hs" using D(1) by simp
  with resize_to_cases [OF D(5) _ _ _ to] D(2,3,6) have ok: "mem_size_ok s" and
    cases: "length hs = 1 \<and> (s = ?s \<and> \<not> hm_count m \<le> int (he_ext env (nat (hm_item_count m))) \<or> ?s + 16 \<le> s) \<or>
            length hs = 4 \<and> 4 * ?s \<le> s" by auto
  show "mem_size_ok s" by (fact ok)
  have items: "subs_items hs \<le> length hs * ?L"
    using hm_items_le_count [OF m] unfolding hm_item_count_tables [OF m] hm_count_full [OF m full] by linarith
  have s0: "64 \<le> ?s" using mem_size_cases [OF D(5)] by auto
  from cases show "subs_items hs < he_load env (table_capacity s)"
  proof (elim disjE conjE)
    assume "length hs = 1" "s = ?s" "\<not> hm_count m \<le> int (he_ext env (nat (hm_item_count m)))"
    moreover have "subs_items hs \<le> he_ext env (subs_items hs)" using f unfolding float_ok_def by blast
    ultimately show ?thesis unfolding hm_item_count_tables [OF m] hm_count_full [OF m full] by simp
  next
    assume "length hs = 1" "?s + 16 \<le> s"
    then have "table_capacity ?s + 2 \<le> table_capacity s" using s0 by (simp add: table_capacity_def block_sizes)
    from load_strict [OF f this] items \<open>length hs = 1\<close> show ?thesis by simp
  next
    assume "length hs = 4" "4 * ?s \<le> s"
    then have "4 * table_capacity ?s + 2 \<le> table_capacity s" using s0 by (simp add: table_capacity_def block_sizes)
    from load_four [OF f this] items \<open>length hs = 4\<close> show ?thesis by simp
  qed
qed

section \<open>Insertion\<close>

lemma hm_tables_update:
  assumes m: "hm_tables env m hs" and "j < length hs" "ha_inv env h'" "ha_grows (hs ! j) h'" "subs_disj env (hs[j := h'])"
  shows "hm_tables env (m \<lparr>hsubs := (hsubs m)[j := Some h']\<rparr>) (hs[j := h'])"
proof -
  have "subs_inv env (hs[j := h'])" using subs_inv_update [OF hm_tablesD(4) [OF m] assms(2-5)] .
  moreover have "hcapacity h = table_capacity (hmem_size m) \<and> hmax_entries h = int (he_load env (hcapacity h))"
    if "h \<in> set (hs[j := h'])" for h
    using set_update_subset_insert [of hs j h'] that hm_tablesD(7,8) [OF m, of h] hm_tablesD(7,8) [OF m, of "hs ! j"] assms(2,4)
    by (auto simp: ha_grows_def)
  ultimately show ?thesis using m unfolding hm_tables_def by (auto simp: map_update)
qed

lemma ha_grows_refl: "ha_grows h h"
  by (simp add: ha_grows_def)

lemma create_sub_map_new:
  assumes "float_ok env" "mem_size_ok s"
  shows "create_sub_map env s None = Some None \<and> \<not> he_alloc env s \<or>
    (\<exists>h. create_sub_map env s None = Some (Some h) \<and> ha_inv env h \<and> ha_look env h = Map.empty \<and> \<not> ha_is_full h \<and>
       ha_clean h \<and> hcount h = 0 \<and> hcapacity h = table_capacity s \<and> hmax_entries h = int (he_load env (table_capacity s)))"
proof -
  have "sizeof_hash_array + 8 \<le> s" using mem_size_cases [OF assms(2)] unfolding block_sizes by auto
  from ha_new_ok [OF assms(1) this] obtain h where h: "ha_new env s = Some h" "ha_inv env h" "ha_look env h = Map.empty"
    "hcapacity h = table_capacity s" "hmax_entries h = int (he_load env (hcapacity h))" "hcount h = 0"
    by (auto simp: table_capacity_def)
  moreover have "ha_clean h" using h(1) by (auto simp: ha_new_def ha_clean_def Let_def split: if_splits)
  ultimately show ?thesis using load_pos [OF assms] by (auto simp: create_sub_map_def ha_is_full_def)
qed

lemma resize_to_None:
  assumes m: "hm_tables env m hs" and "hm_resize_to env m = None"
  shows "length hs < MAX_SUB_MAP_COUNT"
    "hmem_size m = OB_MALLOC_NORMAL_BLOCK_SIZE \<or> hmem_size m = OB_MALLOC_BIG_BLOCK_SIZE"
  using assms(2) hm_tablesD(6) [OF m]
  unfolding hm_resize_to_def hm_tablesD(1) [OF m] Let_def MAX_SUB_MAP_COUNT_def length_map by (simp_all split: if_splits)

lemma tables_add:
  assumes m: "hm_tables env m hs" and full: "\<forall>h \<in> set hs. ha_is_full h" and to: "hm_resize_to env m = None"
    and h: "ha_inv env h" "ha_look env h = Map.empty" "hcapacity h = table_capacity (hmem_size m)"
      "hmax_entries h = int (he_load env (table_capacity (hmem_size m)))"
  shows "hm_tables env (m \<lparr>hsubs := hsubs m @ [Some h]\<rparr>) (hs @ [h])" "subs_look env (hs @ [h]) = subs_look env hs"
proof -
  note D = hm_tablesD [OF m]
  have disj: "subs_disj env (hs @ [h])"
    using D(12) h(2) unfolding subs_disj_def by (auto simp: nth_append not_less less_Suc_eq)
  have "\<forall>i. Suc i < length (hs @ [h]) \<longrightarrow> ha_is_full ((hs @ [h]) ! i)" using full by (simp add: nth_append)
  with disj D(11) h(1) have "subs_inv env (hs @ [h])" by (auto simp: subs_inv_def)
  with resize_to_None [OF m to] D h show "hm_tables env (m \<lparr>hsubs := hsubs m @ [Some h]\<rparr>) (hs @ [h])"
    unfolding hm_tables_def by auto
  show "subs_look env (hs @ [h]) = subs_look env hs"
    by (induction hs) (auto simp: h(2) fun_eq_iff split: option.splits)
qed

lemma tables_copy:
  assumes f: "float_ok env" and m: "hm_tables env m hs" and full: "\<forall>h \<in> set hs. ha_is_full h"
    and to: "hm_resize_to env m = Some s"
  shows "hm_copy_from env m s = Some \<lparr>hsubs = [], hmem_size = s\<rparr> \<and> \<not> he_alloc env s \<or>
    (\<exists>h. hm_copy_from env m s = Some \<lparr>hsubs = [Some h], hmem_size = s\<rparr> \<and>
       hm_tables env \<lparr>hsubs = [Some h], hmem_size = s\<rparr> [h] \<and> ha_look env h = subs_look env hs \<and> \<not> ha_is_full h)"
proof -
  note D = hm_tablesD [OF m] and room = resize_room [OF f m full to]
  from create_sub_map_new [OF f room(1)] show ?thesis
  proof (elim disjE exE conjE)
    assume "create_sub_map env s None = Some None" "\<not> he_alloc env s"
    then show ?thesis by (simp add: hm_copy_from_def)
  next
    fix h assume h: "create_sub_map env s None = Some (Some h)" "ha_inv env h" "ha_look env h = Map.empty" "ha_clean h"
      "hcount h = 0" "hcapacity h = table_capacity s" "hmax_entries h = int (he_load env (table_capacity s))"
    from copy_subs_ok [OF D(11,12) h(2,4)] h room(2) obtain h' where
      h': "copy_subs env (map Some hs) h = Some h'" "ha_inv env h'" "ha_look env h' = subs_look env hs"
        "hcount h' = int (subs_items hs)" "hmax_entries h' = hmax_entries h" "hcapacity h' = hcapacity h"
      by auto
    have "hm_tables env \<lparr>hsubs = [Some h'], hmem_size = s\<rparr> [h']"
      using h h' room(1) by (simp add: hm_tables_def subs_inv_def subs_disj_def MAX_SUB_MAP_COUNT_def)
    moreover have "\<not> ha_is_full h'" using h h' room(2) by (simp add: ha_is_full_def)
    ultimately show ?thesis using h(1) h' D(1) by (simp add: hm_copy_from_def)
  qed
qed

lemma hm_resize_ok:
  assumes f: "float_ok env" and m: "hm_tables env m hs" and full: "\<forall>h \<in> set hs. ha_is_full h"
  shows "hm_resize env m = Some (None, m) \<and> (\<exists>n. \<not> he_alloc env n) \<or>
    (\<exists>i m' hs'. hm_resize env m = Some (Some i, m') \<and> hm_tables env m' hs' \<and> i < length hs' \<and>
       subs_look env hs' = subs_look env hs \<and> \<not> ha_is_full (hs' ! i))"
proof (cases "hm_resize_to env m")
  case None
  note D = hm_tablesD [OF m]
  from create_sub_map_new [OF f D(5)] show ?thesis
  proof (elim disjE exE conjE)
    assume "create_sub_map env (hmem_size m) None = Some None" "\<not> he_alloc env (hmem_size m)"
    with None show ?thesis by (auto simp: hm_resize_def)
  next
    fix h assume h: "create_sub_map env (hmem_size m) None = Some (Some h)" "ha_inv env h" "ha_look env h = Map.empty"
      "\<not> ha_is_full h" "hcapacity h = table_capacity (hmem_size m)"
      "hmax_entries h = int (he_load env (table_capacity (hmem_size m)))"
    note T = tables_add [OF m full None h(2,3,5,6)]
    have "hm_resize env m = Some (Some (length hs), m \<lparr>hsubs := hsubs m @ [Some h]\<rparr>)"
      using None h(1) D(1) by (simp add: hm_resize_def)
    moreover have "\<not> ha_is_full ((hs @ [h]) ! length hs)" using h(4) by simp
    moreover have "length hs < length (hs @ [h])" by simp
    ultimately show ?thesis using T by blast
  qed
next
  case (Some s)
  from tables_copy [OF f m full Some] show ?thesis
  proof (elim disjE exE conjE)
    assume "hm_copy_from env m s = Some \<lparr>hsubs = [], hmem_size = s\<rparr>" "\<not> he_alloc env s"
    with Some show ?thesis by (auto simp: hm_resize_def)
  next
    fix h assume h: "hm_copy_from env m s = Some \<lparr>hsubs = [Some h], hmem_size = s\<rparr>"
      "hm_tables env \<lparr>hsubs = [Some h], hmem_size = s\<rparr> [h]" "ha_look env h = subs_look env hs" "\<not> ha_is_full h"
    have "subs_look env [h] = subs_look env hs" using h(3) by (auto simp: fun_eq_iff split: option.splits)
    moreover have "hm_resize env m = Some (Some 0, \<lparr>hsubs = [Some h], hmem_size = s\<rparr>)"
      using h(1) Some by (simp add: hm_resize_def)
    moreover have "\<not> ha_is_full ([h] ! 0)" "0 < length [h]" using h(4) by simp_all
    ultimately show ?thesis using h(2) by blast
  qed
qed

definition put_result ::
  "('k, 'v) hash_env \<Rightarrow> 'v \<Rightarrow> 'v hash_map \<Rightarrow> ob_ret \<Rightarrow> 'v hash_map \<Rightarrow> bool" where
  "put_result env v m ret m' \<longleftrightarrow> hm_inv env m' \<and>
     (ret = OB_SUCCESS \<and> hm_look env m' = (hm_look env m)(he_key env v \<mapsto> v) \<or>
      ret = OB_ERR_UNEXPECTED \<and> m' = m \<and> (\<exists>n. \<not> he_alloc env n))"

lemma tables_put:
  assumes m: "hm_tables env m hs" and j: "j < length hs" and h': "ha_inv env h'" "ha_grows (hs ! j) h'"
      "ha_look env h' = (ha_look env (hs ! j))(k := x)"
    and others: "\<And>i. i < length hs \<Longrightarrow> i \<noteq> j \<Longrightarrow> ha_look env (hs ! i) k = None"
  shows "hm_inv env (m \<lparr>hsubs := (hsubs m)[j := Some h']\<rparr>)"
    "hm_look env (m \<lparr>hsubs := (hsubs m)[j := Some h']\<rparr>) = (hm_look env m)(k := x)"
proof -
  note up = subs_update [OF hm_tablesD(12) [OF m] j h'(3) others]
  have T: "hm_tables env (m \<lparr>hsubs := (hsubs m)[j := Some h']\<rparr>) (hs[j := h'])"
    by (rule hm_tables_update [OF m j h'(1,2) up(1)])
  then show "hm_inv env (m \<lparr>hsubs := (hsubs m)[j := Some h']\<rparr>)" unfolding hm_inv_def by blast
  show "hm_look env (m \<lparr>hsubs := (hsubs m)[j := Some h']\<rparr>) = (hm_look env m)(k := x)"
    unfolding hm_tablesD(9) [OF T] hm_tablesD(9) [OF m] by (rule up(2))
qed

lemma hm_set_at:
  assumes m: "hm_tables env m hs" and "hm_find_set_pos env k val ow m = Some (OB_SUCCESS, Some j, Some p)"
    and "j < length hs" "ha_set_value (Some p) val (hs ! j) = (OB_SUCCESS, old, h')"
  shows "hm_set_refactored env k val ow m = Some (OB_SUCCESS, old, m \<lparr>hsubs := (hsubs m)[j := Some h']\<rparr>)"
  using assms hm_tablesD(1,10) [OF m] by (simp add: hm_set_refactored_def hm_init_def hm_set_value_def)

lemma hm_set_present:
  assumes m: "hm_tables env m hs" and look: "hm_look env m (he_key env v) = Some w"
  shows "\<exists>old m'. hm_set_refactored env (he_key env v) (Item v) True m = Some (OB_SUCCESS, old, m') \<and> put_result env v m OB_SUCCESS m'"
    and "hm_set_refactored env (he_key env v) (Item v) False m = Some (OB_HASH_EXIST, Empty, m)"
proof -
  note D = hm_tablesD [OF m]
  from subs_look_SomeD [OF look [unfolded D(9)]] obtain j where j: "j < length hs" "ha_look env (hs ! j) (he_key env v) = Some w"
    by blast
  have others: "ha_look env (hs ! i) (he_key env v) = None" if "i < length hs" "i \<noteq> j" for i
    using subs_disjD [OF D(12) that(1) j(1) _ j(2)] that by (cases "ha_look env (hs ! i) (he_key env v)") auto
  have before: "\<forall>i < j. ha_look env (hs ! i) (he_key env v) = None" using others j(1) by auto
  note find = hm_find_loop_present [OF D(11,13) _ j before, where n = "length hs" and i = 0 and v = v]
  from find [of True None None OB_SUCCESS] obtain p where p: "p < hcapacity (hs ! j)" "hcells (hs ! j) ! p = Item w"
    "hm_find_set_pos env (he_key env v) (Item v) True m = Some (OB_SUCCESS, Some j, Some p)"
    by (auto simp: hm_find_set_pos_def D(1))
  have "ha_inv env (hs ! j)" using D(11) j(1) by simp
  moreover from this j(2) have "he_key env v = he_key env w" using ha_look_Some by metis
  ultimately obtain h' where h': "ha_set_value (Some p) (Item v) (hs ! j) = (OB_SUCCESS, Item w, h')" "ha_inv env h'"
    "ha_look env h' = (ha_look env (hs ! j))(he_key env v \<mapsto> v)" "ha_grows (hs ! j) h'"
    using ha_overwrite [of env "hs ! j" p w v] p by blast
  from hm_set_at [OF m p(3) j(1) h'(1)] tables_put [OF m j(1) h'(2,4,3) others]
  show "\<exists>old m'. hm_set_refactored env (he_key env v) (Item v) True m = Some (OB_SUCCESS, old, m') \<and> put_result env v m OB_SUCCESS m'"
    by (auto simp: put_result_def)
  from find [of False None None OB_SUCCESS] obtain idx pos where
    "hm_find_set_pos env (he_key env v) (Item v) False m = Some (OB_HASH_EXIST, idx, pos)"
    by (auto simp: hm_find_set_pos_def D(1))
  then show "hm_set_refactored env (he_key env v) (Item v) False m = Some (OB_HASH_EXIST, Empty, m)"
    using D(10) by (simp add: hm_set_refactored_def hm_init_def)
qed

lemma hm_set_resized:
  assumes f: "float_ok env" and m: "hm_tables env m hs" and look: "hm_look env m (he_key env v) = None"
    and full: "\<forall>h \<in> set hs. ha_is_full h"
    and find: "hm_find_set_pos env (he_key env v) (Item v) ow m = Some (OB_HASH_FULL, idx, pos)"
  shows "\<exists>ret old m'. hm_set_refactored env (he_key env v) (Item v) ow m = Some (ret, old, m') \<and> put_result env v m ret m'"
  using hm_resize_ok [OF f m full]
proof (elim disjE exE conjE)
  fix n assume "hm_resize env m = Some (None, m)" "\<not> he_alloc env n"
  with find m hm_tablesD(10) [OF m] show ?thesis
    by (auto simp: hm_set_refactored_def hm_init_def put_result_def hm_inv_def)
next
  fix i m' hs' assume r: "hm_resize env m = Some (Some i, m')" and T: "hm_tables env m' hs'" and i: "i < length hs'"
    and same: "subs_look env hs' = subs_look env hs" and room: "\<not> ha_is_full (hs' ! i)"
  note D = hm_tablesD [OF T]
  have "subs_look env hs' (he_key env v) = None" using look same unfolding hm_tablesD(9) [OF m] by simp
  then have none: "ha_look env (hs' ! j) (he_key env v) = None" if "j < length hs'" for j
    using that unfolding subs_look_None by simp
  from ha_set_ok [of env "hs' ! i" ow v] none [OF i] room D(11) i obtain old h' where
    h': "ha_set_refactored env (he_key env v) (Item v) ow (hs' ! i) = Some (OB_SUCCESS, old, h')" "ha_inv env h'"
      "ha_look env h' = (ha_look env (hs' ! i))(he_key env v \<mapsto> v)" "ha_grows (hs' ! i) h'" by auto
  have "hm_set_refactored env (he_key env v) (Item v) ow m =
      Some (OB_SUCCESS, old, m' \<lparr>hsubs := (hsubs m')[i := Some h']\<rparr>)"
    using find r h'(1) i D(1) hm_tablesD(10) [OF m] by (simp add: hm_set_refactored_def hm_init_def)
  moreover have "hm_look env m' = hm_look env m" unfolding D(9) hm_tablesD(9) [OF m] by (rule same)
  ultimately show ?thesis using tables_put [OF T i h'(2,4,3) none] by (auto simp: put_result_def)
qed

lemma hm_set_absent:
  assumes f: "float_ok env" and m: "hm_tables env m hs" and look: "hm_look env m (he_key env v) = None"
  shows "\<exists>ret old m'. hm_set_refactored env (he_key env v) (Item v) ow m = Some (ret, old, m') \<and> put_result env v m ret m'"
proof -
  note D = hm_tablesD [OF m]
  have none: "\<forall>h \<in> set hs. ha_inv env h \<and> ha_look env h (he_key env v) = None"
    using D(11) look unfolding D(9) subs_look_None by blast
  have "length hs = 0 + length hs" by simp
  from hm_find_loop_absent [OF none D(13) this D(2), of None None v ow OB_SUCCESS]
  obtain idx pos where "hm_find_set_pos env (he_key env v) (Item v) ow m = Some (OB_SUCCESS, idx, pos) \<and>
      (\<exists>j < length hs. \<exists>p. idx = Some j \<and> pos = Some p \<and> set_place env (he_key env v) (hs ! j) p) \<or>
    hm_find_set_pos env (he_key env v) (Item v) ow m = Some (OB_HASH_FULL, idx, pos) \<and> (\<forall>h \<in> set hs. ha_is_full h)"
    unfolding hm_find_set_pos_def D(1) length_map by auto
  then show ?thesis
  proof (elim disjE exE conjE)
    fix j p assume find: "hm_find_set_pos env (he_key env v) (Item v) ow m = Some (OB_SUCCESS, idx, pos)"
      and j: "j < length hs" and p: "idx = Some j" "pos = Some p" "set_place env (he_key env v) (hs ! j) p"
    from ha_insert [of env "hs ! j" p v] p(3) none j obtain h' where
      h': "ha_set_value (Some p) (Item v) (hs ! j) = (OB_SUCCESS, Empty, h')" "ha_inv env h'"
        "ha_look env h' = (ha_look env (hs ! j))(he_key env v \<mapsto> v)" "ha_grows (hs ! j) h'"
      unfolding set_place_def by auto
    have "ha_look env (hs ! i) (he_key env v) = None" if "i < length hs" for i using none that by simp
    with hm_set_at [OF m find [unfolded p] j h'(1)] tables_put [OF m j h'(2,4,3)] show ?thesis
      by (auto simp: put_result_def)
  next
    assume "hm_find_set_pos env (he_key env v) (Item v) ow m = Some (OB_HASH_FULL, idx, pos)" "\<forall>h \<in> set hs. ha_is_full h"
    then show ?thesis using hm_set_resized [OF f m look] by blast
  qed
qed

section \<open>The operations of the map\<close>

lemma hm_put_ok:
  assumes f: "float_ok env" and inv: "hm_inv env m"
  shows "\<exists>ret old m'. hm_set_refactored env (he_key env v) (Item v) True m = Some (ret, old, m') \<and> put_result env v m ret m'"
proof -
  from inv obtain hs where m: "hm_tables env m hs" unfolding hm_inv_def by blast
  show ?thesis
  proof (cases "hm_look env m (he_key env v)")
    case None
    then show ?thesis by (rule hm_set_absent [OF f m])
  next
    case (Some w)
    then show ?thesis using hm_set_present(1) [OF m Some] by blast
  qed
qed

lemma hm_get_ok:
  "hm_inv env m \<Longrightarrow> hm_get_refactored env m k =
    Some (case hm_look env m k of None \<Rightarrow> (OB_HASH_NOT_EXIST, None) | Some v \<Rightarrow> (OB_SUCCESS, Some (Item v)))"
  unfolding hm_inv_def using hm_get_loop_ok hm_tablesD(1,9,10,11) by (fastforce simp: hm_get_refactored_def)

lemma hm_erase_ok:
  assumes inv: "hm_inv env m"
  shows "\<exists>old m'. hm_erase_refactored env k m =
      Some (if hm_look env m k = None then OB_HASH_NOT_EXIST else OB_SUCCESS, old, m') \<and>
    hm_inv env m' \<and> hm_look env m' = (hm_look env m)(k := None)"
proof -
  from inv obtain hs where m: "hm_tables env m hs" unfolding hm_inv_def by blast
  note D = hm_tablesD [OF m]
  show ?thesis
  proof (cases "hm_look env m k")
    case None
    then have "\<forall>h \<in> set hs. ha_inv env h \<and> ha_look env h k = None" using D(11) unfolding D(9) subs_look_None by blast
    from hm_erase_loop_absent [OF this] D(1,10) have "hm_erase_refactored env k m = Some (OB_HASH_NOT_EXIST, Empty, m)"
      by (cases m) (simp add: hm_erase_refactored_def)
    with None inv show ?thesis by (auto simp: fun_upd_idem)
  next
    case (Some w)
    from subs_look_SomeD [OF Some [unfolded D(9)]] obtain j where j: "j < length hs" "ha_look env (hs ! j) k = Some w" by blast
    have others: "ha_look env (hs ! i) k = None" if "i < length hs" "i \<noteq> j" for i
      using subs_disjD [OF D(12) that(1) j(1) _ j(2)] that by (cases "ha_look env (hs ! i) k") auto
    have before: "\<forall>i < j. ha_look env (hs ! i) k = None" using others j(1) by auto
    from hm_erase_loop_present [OF D(11) j(1) _ before] j(2) obtain old h' where
      h': "hm_erase_loop env k (map Some hs) = Some (OB_SUCCESS, old, map Some (hs[j := h']))" "ha_inv env h'"
        "ha_look env h' = (ha_look env (hs ! j))(k := None)" "ha_grows (hs ! j) h'" by auto
    have "hm_erase_refactored env k m = Some (OB_SUCCESS, old, m \<lparr>hsubs := (hsubs m)[j := Some h']\<rparr>)"
      using h'(1) D(1,10) by (simp add: hm_erase_refactored_def map_update)
    with tables_put [OF m j(1) h'(2,4,3) others] Some show ?thesis by auto
  qed
qed

lemma hm_clear_ok:
  assumes inv: "hm_inv env m"
  shows "hm_inv env (hm_clear m)" "hm_look env (hm_clear m) = Map.empty"
proof -
  from inv obtain hs where m: "hm_tables env m hs" unfolding hm_inv_def by blast
  note D = hm_tablesD [OF m]
  from D(2) obtain h hs' where hs: "hs = h # hs'" by (cases hs) auto
  have c: "ha_inv env (ha_clear h)" "ha_look env (ha_clear h) = Map.empty" using ha_clear_ok [of env h] D(11) hs by auto
  have T: "hm_tables env (hm_clear m) [ha_clear h]"
    using m c(1) unfolding hm_tables_def by (auto simp: hs hm_clear_def ha_clear_def subs_inv_def subs_disj_def)
  then show "hm_inv env (hm_clear m)" unfolding hm_inv_def by blast
  show "hm_look env (hm_clear m) = Map.empty" unfolding hm_tablesD(9) [OF T] using c(2) by (simp add: fun_eq_iff)
qed

lemma hm_init_ok:
  assumes "float_ok env" "he_alloc env OB_MALLOC_NORMAL_BLOCK_SIZE"
  shows "\<exists>m. hm_init env hm_new = Some (OB_SUCCESS, m) \<and> hm_inv env m \<and> hm_look env m = Map.empty"
proof -
  have ok: "mem_size_ok OB_MALLOC_NORMAL_BLOCK_SIZE" by (simp add: mem_size_ok_def)
  from create_sub_map_new [OF assms(1) ok] assms(2) obtain h where
    h: "create_sub_map env OB_MALLOC_NORMAL_BLOCK_SIZE None = Some (Some h)" "ha_inv env h" "ha_look env h = Map.empty"
      "hcapacity h = table_capacity OB_MALLOC_NORMAL_BLOCK_SIZE"
      "hmax_entries h = int (he_load env (table_capacity OB_MALLOC_NORMAL_BLOCK_SIZE))" by blast
  let ?m = "\<lparr>hsubs = [Some h], hmem_size = OB_MALLOC_NORMAL_BLOCK_SIZE\<rparr>"
  have T: "hm_tables env ?m [h]"
    using h ok by (simp add: hm_tables_def subs_inv_def subs_disj_def MAX_SUB_MAP_COUNT_def)
  moreover have "hm_init env hm_new = Some (OB_SUCCESS, ?m)" using h(1) by (simp add: hm_init_def hm_new_def hm_null_def)
  moreover have "hm_look env ?m = Map.empty" unfolding hm_tablesD(9) [OF T] using h(3) by (simp add: fun_eq_iff)
  ultimately show ?thesis unfolding hm_inv_def by blast
qed

lemma assign_subs_ok:
  assumes "he_alloc env s" "\<forall>h \<in> set hs. sizeof_hash_array + 8 * hcapacity h \<le> s"
  shows "assign_subs env s (map Some hs) = Some (OB_SUCCESS, map Some hs)"
  using assms by (induction hs) (auto simp: create_sub_map_def)

lemma hm_assign_ok:
  assumes inv: "hm_inv env other" and "he_alloc env (hmem_size other)"
  shows "\<exists>m'. hm_assign env other m = Some (OB_SUCCESS, m') \<and> hm_inv env m' \<and> hm_look env m' = hm_look env other"
proof -
  from inv obtain hs where o: "hm_tables env other hs" unfolding hm_inv_def by blast
  note D = hm_tablesD [OF o]
  have "64 \<le> hmem_size other" using mem_size_cases [OF D(5)] by auto
  then have "sizeof_hash_array + 8 * table_capacity (hmem_size other) \<le> hmem_size other"
    unfolding table_capacity_def block_sizes by linarith
  then have "\<forall>h \<in> set hs. sizeof_hash_array + 8 * hcapacity h \<le> hmem_size other" using D(7) by simp
  from assign_subs_ok [OF assms(2) this] D(1)
  have "hm_assign env other m = Some (OB_SUCCESS, m \<lparr>hsubs := map Some hs, hmem_size := hmem_size other\<rparr>)"
    by (simp add: hm_assign_def)
  moreover have T: "hm_tables env (m \<lparr>hsubs := map Some hs, hmem_size := hmem_size other\<rparr>) hs"
    using o by (simp add: hm_tables_def)
  ultimately show ?thesis using hm_tablesD(9) [OF T] D(9) unfolding hm_inv_def by auto
qed

lemma subs_items_card:
  "\<forall>h \<in> set hs. ha_inv env h \<Longrightarrow> subs_disj env hs \<Longrightarrow> subs_items hs = card (dom (subs_look env hs)) \<and> finite (dom (subs_look env hs))"
proof (induction hs)
  case Nil
  then show ?case by (simp add: subs_items_def)
next
  case (Cons h hs)
  note disj = subs_disj_Cons [OF Cons.prems(2)]
  have "dom (subs_look env hs) \<inter> dom (ha_look env h) = {}" using disj(2) by fastforce
  moreover have "finite (dom (ha_look env h))" unfolding ha_look_def dom_key_map by simp
  moreover have "dom (subs_look env (h # hs)) = dom (subs_look env hs) \<union> dom (ha_look env h)"
    unfolding subs_look_Cons by auto
  ultimately show ?case using Cons.IH Cons.prems(1) disj(1) ha_items_card [of env h]
    by (simp add: card_Un_disjoint subs_items_def del: subs_look.simps)
qed

lemma hm_item_count_ok: "hm_inv env m \<Longrightarrow> hm_item_count m = int (card (dom (hm_look env m)))"
  unfolding hm_inv_def
  using hm_item_count_tables subs_items_card hm_tablesD(9,11,12) by metis

section \<open>The contract\<close>

definition hm_put :: "('k, 'v) hash_env \<Rightarrow> 'v \<Rightarrow> 'v hash_map \<Rightarrow> (ob_ret \<times> 'v hash_map) option" where
  "hm_put env v m = map_option (\<lambda>(ret, old, m). (ret, m)) (hm_set_refactored env (he_key env v) (Item v) True m)"

definition hm_del :: "('k, 'v) hash_env \<Rightarrow> 'k \<Rightarrow> 'v hash_map \<Rightarrow> (ob_ret \<times> 'v hash_map) option" where
  "hm_del env k m = map_option (\<lambda>(ret, old, m). (ret, m)) (hm_erase_refactored env k m)"

lemma subs_look_key: "\<forall>h \<in> set hs. ha_inv env h \<Longrightarrow> subs_look env hs k = Some v \<Longrightarrow> he_key env v = k"
  using subs_look_SomeD [of env hs k v] ha_look_Some by fastforce

interpretation hash_dict: dictionary
  "\<lambda>m. float_ok env \<and> (\<forall>n. he_alloc env n) \<and> hm_inv env m" "hm_look env" "he_key env" "hm_put env" "hm_del env"
  for env :: "('k, 'v) hash_env"
proof (unfold_locales, goal_cases)
  case (1 s k v)
  then obtain hs where "hm_tables env s hs" unfolding hm_inv_def by blast
  with 1 show ?case using subs_look_key [OF hm_tablesD(11)] hm_tablesD(9) by metis
next
  case (2 s v)
  with hm_put_ok [of env s v] show ?case by (auto simp: hm_put_def put_result_def)
next
  case (3 s k)
  with hm_erase_ok [of env s k] show ?case by (auto simp: hm_del_def)
qed

section \<open>Sequences of operations\<close>

text \<open>A sequence of \<open>set_refactored\<close> with overwriting and of \<open>erase_refactored\<close>.\<close>

fun hm_run :: "('k, 'v) hash_env \<Rightarrow> ('k, 'v) dict_op list \<Rightarrow> 'v hash_map \<Rightarrow> 'v hash_map option" where
  "hm_run env [] m = Some m"
| "hm_run env (Put v # ops) m =
     do { (ret, old, m) \<leftarrow> hm_set_refactored env (he_key env v) (Item v) True m; hm_run env ops m }"
| "hm_run env (Del k # ops) m =
     do { (ret, old, m) \<leftarrow> hm_erase_refactored env k m; hm_run env ops m }"

lemma hm_run_eq: "hm_run env ops m = hash_dict.apply_ops env ops m"
proof (induction ops arbitrary: m)
  case (Cons opn ops)
  show ?case
  proof (cases opn)
    case (Put v)
    then show ?thesis using Cons.IH
      by (cases "hm_set_refactored env (he_key env v) (Item v) True m") (auto simp: hash_dict.apply_op_def hm_put_def [of env v m])
  next
    case (Del k)
    then show ?thesis using Cons.IH
      by (cases "hm_erase_refactored env k m") (auto simp: hash_dict.apply_op_def hm_del_def [of env k m])
  qed
qed simp

definition ex_hash_env :: "(nat, nat \<times> nat) hash_env" where
  "ex_hash_env = \<lparr>he_hash = of_nat, he_key = fst, he_alloc = (\<lambda>n. True), he_load = (\<lambda>c. 7 * c div 10), he_ext = (\<lambda>n. 11 * n div 10)\<rparr>"

lemma ex_hash_env_ok: "float_ok ex_hash_env" "he_alloc ex_hash_env n"
  by (auto simp: float_ok_def ex_hash_env_def)

text \<open>C7. The pointer hash map is a finite map: after any sequence of insertions and deletions, starting from a new map,
  a lookup finds exactly the objects a map would hold, and the item count is their number. This covers probing across erased
  cells, the search through several tables, the addition of tables and the rebuilding into a larger one; the sequence
  never ends in an access outside of a table.\<close>

theorem hash_map_refines_finite_map:
  assumes "float_ok env" and "\<And>n. he_alloc env n"
  shows "\<exists>m0 m. hm_init env hm_new = Some (OB_SUCCESS, m0) \<and> hm_run env ops m0 = Some m \<and>
    (\<forall>k. hm_get_refactored env m k =
       Some (case fold (dict_spec (he_key env)) ops Map.empty k of
               None \<Rightarrow> (OB_HASH_NOT_EXIST, None) | Some v \<Rightarrow> (OB_SUCCESS, Some (Item v)))) \<and>
    hm_item_count m = int (card (dom (fold (dict_spec (he_key env)) ops Map.empty)))"
proof -
  from hm_init_ok [OF assms] obtain m0 where m0: "hm_init env hm_new = Some (OB_SUCCESS, m0)" "hm_inv env m0"
    "hm_look env m0 = Map.empty" by blast
  with hash_dict.apply_ops_ok [of env m0 ops] assms obtain m where
    "hm_run env ops m0 = Some m" "hm_inv env m" "hm_look env m = fold (dict_spec (he_key env)) ops Map.empty"
    unfolding hm_run_eq by auto
  with m0(1) hm_get_ok [of env m] hm_item_count_ok [of env m] show ?thesis by auto
qed

theorem hash_map_refines_finite_map_witness:
  "\<exists>m0 m. hm_init ex_hash_env hm_new = Some (OB_SUCCESS, m0) \<and>
     hm_run ex_hash_env [Put (1, 10), Put (985, 20), Del 1, Put (985, 30)] m0 = Some m \<and>
     hm_get_refactored ex_hash_env m 985 = Some (OB_SUCCESS, Some (Item (985, 30))) \<and>
     hm_get_refactored ex_hash_env m 1 = Some (OB_HASH_NOT_EXIST, None)"
proof -
  have "he_key ex_hash_env = fst" by (simp add: ex_hash_env_def)
  with hash_map_refines_finite_map [OF ex_hash_env_ok, of "[Put (1, 10), Put (985, 20), Del 1, Put (985, 30)]"]
  show ?thesis by auto
qed

text \<open>C12. An insertion never fails halfway: it either stores the object and changes no other key, or, when there is no memory
  for another table, reports \<open>OB_ERR_UNEXPECTED\<close> and leaves the map as it was.\<close>

theorem hash_map_insert_atomic:
  assumes "float_ok env" and "hm_inv env m"
  shows "\<exists>ret old m'. hm_set_refactored env (he_key env v) (Item v) True m = Some (ret, old, m') \<and> hm_inv env m' \<and>
    (ret = OB_SUCCESS \<and> hm_look env m' = (hm_look env m)(he_key env v \<mapsto> v) \<or>
     ret = OB_ERR_UNEXPECTED \<and> m' = m \<and> (\<exists>n. \<not> he_alloc env n))"
  using hm_put_ok [OF assms, of v] by (auto simp: put_result_def)

theorem hash_map_insert_atomic_witness:
  "\<exists>m0 m old. hm_init ex_hash_env hm_new = Some (OB_SUCCESS, m0) \<and>
     hm_set_refactored ex_hash_env 3 (Item (3, 5)) True m0 = Some (OB_SUCCESS, old, m) \<and>
     hm_look ex_hash_env m = [3 \<mapsto> (3, 5)]"
proof -
  have key: "he_key ex_hash_env (3, 5) = 3" by (simp add: ex_hash_env_def)
  from hm_init_ok [OF ex_hash_env_ok] obtain m0 where m0: "hm_init ex_hash_env hm_new = Some (OB_SUCCESS, m0)"
    "hm_inv ex_hash_env m0" "hm_look ex_hash_env m0 = Map.empty" by blast
  from hash_map_insert_atomic [OF ex_hash_env_ok(1) m0(2), of "(3, 5)"] m0 ex_hash_env_ok(2) show ?thesis
    unfolding key by auto
qed

end
