(* ===== verification/OB_Sorted_Vector.thy ===== *)
theory OB_Sorted_Vector
  imports OB_Dictionary
begin

text \<open>
  \<^verbatim>\<open>deps/oblib/src/lib/container/ob_vector.h\<close> and \<^verbatim>\<open>ob_vector.ipp\<close>: \<open>ObVector\<close>, a growing array of pointers, and
  \<open>ObSortedVector\<close>, which keeps it sorted and searches it with \<^verbatim>\<open>std::lower_bound\<close>. An iterator is an index;
  \<open>vcap\<close> is the number of elements the memory has room for, \<open>mem_ok\<close> the outcome of an allocation of so many bytes.
  A null value, which the sorted vector refuses, is \<open>None\<close>. Sizes stay below \<^verbatim>\<open>2^31\<close>, where the cast in
  \<^verbatim>\<open>size()\<close> is exact.
\<close>

section \<open>The vector\<close>

record 'a ob_vector =
  vitems :: "'a list"
  vcap :: nat

definition vec_new :: "'a ob_vector" where
  "vec_new = \<lparr>vitems = [], vcap = 0\<rparr>"

definition alloc_array :: "(nat \<Rightarrow> bool) \<Rightarrow> nat \<Rightarrow> bool" where
  "alloc_array mem_ok n = mem_ok (n * 8)"

definition vec_clear :: "'a ob_vector \<Rightarrow> 'a ob_vector" where
  "vec_clear v = \<lparr>vitems = [], vcap = 0\<rparr>"

definition vec_reset :: "'a ob_vector \<Rightarrow> 'a ob_vector" where
  "vec_reset v = v \<lparr>vitems := []\<rparr>"

definition vec_remain :: "'a ob_vector \<Rightarrow> nat" where
  "vec_remain v = vcap v - length (vitems v)"

text \<open>\<open>expand\<close> compares with the number of elements, not with the capacity: it may also shrink the memory.\<close>

definition vec_expand :: "(nat \<Rightarrow> bool) \<Rightarrow> nat \<Rightarrow> 'a ob_vector \<Rightarrow> ob_ret \<times> 'a ob_vector" where
  "vec_expand mem_ok n v =
     (if length (vitems v) < n
      then if \<not> alloc_array mem_ok n then (OB_ALLOCATE_MEMORY_FAILED, v)
           else (OB_SUCCESS, v \<lparr>vcap := n\<rparr>)
      else (OB_SUCCESS, v))"

definition vec_assign :: "(nat \<Rightarrow> bool) \<Rightarrow> 'a ob_vector \<Rightarrow> 'a ob_vector \<Rightarrow> ob_ret \<times> 'a ob_vector" where
  "vec_assign mem_ok other v =
     (let v = vec_clear v
      in if length (vitems other) > 0
         then let (ret, v) = vec_expand mem_ok (length (vitems other)) v
              in if ret \<noteq> OB_SUCCESS then (ret, v) else (ret, v \<lparr>vitems := vitems other\<rparr>)
         else (OB_SUCCESS, v))"

definition vec_insert :: "(nat \<Rightarrow> bool) \<Rightarrow> nat \<Rightarrow> 'a \<Rightarrow> 'a ob_vector \<Rightarrow> (ob_ret \<times> 'a ob_vector) option" where
  "vec_insert mem_ok pos x v =
     (let n = length (vitems v); items = take pos (vitems v) @ x # drop pos (vitems v)
      in if pos > n then None
         else if vec_remain v \<ge> 1 then Some (OB_SUCCESS, v \<lparr>vitems := items\<rparr>)
         else let new_size = (n + 1) * 2
              in if \<not> alloc_array mem_ok new_size then Some (OB_ALLOCATE_MEMORY_FAILED, v)
                 else Some (OB_SUCCESS, \<lparr>vitems = items, vcap = new_size\<rparr>))"

definition vec_push_back :: "(nat \<Rightarrow> bool) \<Rightarrow> 'a \<Rightarrow> 'a ob_vector \<Rightarrow> (ob_ret \<times> 'a ob_vector) option" where
  "vec_push_back mem_ok x v = vec_insert mem_ok (length (vitems v)) x v"

definition vec_replace :: "nat \<Rightarrow> 'a \<Rightarrow> 'a ob_vector \<Rightarrow> ob_ret \<times> 'a option \<times> 'a ob_vector" where
  "vec_replace pos x v =
     (if pos < length (vitems v) then (OB_SUCCESS, Some (vitems v ! pos), v \<lparr>vitems := (vitems v)[pos := x]\<rparr>)
      else (OB_ENTRY_NOT_EXIST, None, v))"

definition vec_at :: "int \<Rightarrow> 'a ob_vector \<Rightarrow> 'a option" where
  "vec_at index v = (if 0 \<le> index \<and> index < int (length (vitems v)) then Some (vitems v ! nat index) else None)"

text \<open>The loop of \<open>find\<close>, \<open>find_if\<close> and \<open>remove_if\<close>: the index of the first match, or the end.\<close>

fun find_from :: "('a \<Rightarrow> bool) \<Rightarrow> 'a list \<Rightarrow> nat" where
  "find_from p [] = 0"
| "find_from p (x # xs) = (if p x then 0 else 1 + find_from p xs)"

definition vec_find_if :: "('a \<Rightarrow> bool) \<Rightarrow> 'a ob_vector \<Rightarrow> nat" where
  "vec_find_if equal v = find_from equal (vitems v)"

definition vec_remove :: "nat \<Rightarrow> 'a ob_vector \<Rightarrow> ob_ret \<times> 'a ob_vector" where
  "vec_remove pos v =
     (if pos \<ge> length (vitems v) then (OB_ARRAY_OUT_OF_RANGE, v)
      else (OB_SUCCESS, v \<lparr>vitems := take pos (vitems v) @ drop (pos + 1) (vitems v)\<rparr>))"

definition vec_remove_range :: "nat \<Rightarrow> nat \<Rightarrow> 'a ob_vector \<Rightarrow> ob_ret \<times> 'a ob_vector" where
  "vec_remove_range start_pos end_pos v =
     (if start_pos \<ge> length (vitems v) \<or> end_pos > length (vitems v) then (OB_ARRAY_OUT_OF_RANGE, v)
      else if end_pos > start_pos
      then (OB_SUCCESS, v \<lparr>vitems := take start_pos (vitems v) @ drop end_pos (vitems v)\<rparr>)
      else (OB_SUCCESS, v))"

definition vec_remove_index :: "int \<Rightarrow> 'a ob_vector \<Rightarrow> ob_ret \<times> 'a ob_vector" where
  "vec_remove_index index v =
     (if 0 \<le> index \<and> index < int (length (vitems v)) then vec_remove (nat index) v else (OB_ENTRY_NOT_EXIST, v))"

definition vec_remove_if :: "('a \<Rightarrow> bool) \<Rightarrow> 'a ob_vector \<Rightarrow> ob_ret \<times> 'a option \<times> 'a ob_vector" where
  "vec_remove_if pred v =
     (let pos = find_from pred (vitems v)
      in if pos \<ge> length (vitems v) then (OB_ENTRY_NOT_EXIST, None, v)
         else let (ret, v') = vec_remove pos v in (ret, Some (vitems v ! pos), v'))"

section \<open>The sorted vector\<close>

text \<open>
  The standard library, to which the sorted vector delegates: \<^verbatim>\<open>std::lower_bound\<close> and \<^verbatim>\<open>std::upper_bound\<close> halve the range \<open>[first, first + len)\<close>; \<open>before x\<close> is \<^verbatim>\<open>compare(x, value)\<close>,
  \<open>after x\<close> is \<^verbatim>\<open>compare(value, x)\<close>.
\<close>

function lower_bound_from :: "('a \<Rightarrow> bool) \<Rightarrow> 'a list \<Rightarrow> nat \<Rightarrow> nat \<Rightarrow> nat" where
  "lower_bound_from before xs first len =
     (if len = 0 then first
      else let half = len div 2; middle = first + half
           in if before (xs ! middle) then lower_bound_from before xs (middle + 1) (len - half - 1)
              else lower_bound_from before xs first half)"
  by pat_completeness auto
termination
  by (relation "measure (\<lambda>(before, xs, first, len). len)") auto

function upper_bound_from :: "('a \<Rightarrow> bool) \<Rightarrow> 'a list \<Rightarrow> nat \<Rightarrow> nat \<Rightarrow> nat" where
  "upper_bound_from after xs first len =
     (if len = 0 then first
      else let half = len div 2; middle = first + half
           in if after (xs ! middle) then upper_bound_from after xs first half
              else upper_bound_from after xs (middle + 1) (len - half - 1))"
  by pat_completeness auto
termination
  by (relation "measure (\<lambda>(after, xs, first, len). len)") auto

declare lower_bound_from.simps [simp del] upper_bound_from.simps [simp del]

definition sv_lower_bound :: "('a \<Rightarrow> bool) \<Rightarrow> 'a ob_vector \<Rightarrow> nat" where
  "sv_lower_bound before v = lower_bound_from before (vitems v) 0 (length (vitems v))"

definition sv_upper_bound :: "('a \<Rightarrow> bool) \<Rightarrow> 'a ob_vector \<Rightarrow> nat" where
  "sv_upper_bound after v = upper_bound_from after (vitems v) 0 (length (vitems v))"

definition sv_insert ::
  "(nat \<Rightarrow> bool) \<Rightarrow> ('a \<Rightarrow> 'a \<Rightarrow> bool) \<Rightarrow> 'a option \<Rightarrow> 'a ob_vector \<Rightarrow> (ob_ret \<times> nat \<times> 'a ob_vector) option" where
  "sv_insert mem_ok compare x v =
     (case x of
        None \<Rightarrow> Some (OB_ERROR, length (vitems v), v)
      | Some x \<Rightarrow> let insert_pos = sv_lower_bound (\<lambda>y. compare y x) v
                  in do { (ret, v) \<leftarrow> vec_insert mem_ok insert_pos x v; Some (ret, insert_pos, v) })"

definition sv_replace ::
  "(nat \<Rightarrow> bool) \<Rightarrow> ('a \<Rightarrow> 'a \<Rightarrow> bool) \<Rightarrow> ('a \<Rightarrow> 'a \<Rightarrow> bool) \<Rightarrow> 'a option \<Rightarrow> 'a ob_vector \<Rightarrow>
     (ob_ret \<times> nat \<times> 'a option \<times> 'a ob_vector) option" where
  "sv_replace mem_ok compare equal x v =
     (let e = length (vitems v)
      in case x of
           None \<Rightarrow> Some (OB_ERROR, e, None, v)
         | Some x \<Rightarrow>
             let find_pos = sv_lower_bound (\<lambda>y. compare y x) v
             in do { (ret, replaced, v) \<leftarrow>
                       (if find_pos \<noteq> e \<and> equal (vitems v ! find_pos) x
                        then Some (vec_replace find_pos x v)
                        else do { (ret, v) \<leftarrow> vec_insert mem_ok find_pos x v; Some (ret, None, v) });
                     Some (ret, if ret = OB_SUCCESS then find_pos else e, replaced, v) })"

definition sv_insert_unique ::
  "(nat \<Rightarrow> bool) \<Rightarrow> ('a \<Rightarrow> 'a \<Rightarrow> bool) \<Rightarrow> ('a \<Rightarrow> 'a \<Rightarrow> bool) \<Rightarrow> 'a option \<Rightarrow> 'a ob_vector \<Rightarrow>
     (ob_ret \<times> nat \<times> 'a ob_vector) option" where
  "sv_insert_unique mem_ok compare unique x v =
     (let e = length (vitems v)
      in case x of
           None \<Rightarrow> Some (OB_ERROR, e, v)
         | Some x \<Rightarrow>
             let find_pos = sv_lower_bound (\<lambda>y. compare y x) v;
                 compare_pos = (if find_pos = e \<and> e > 0 then e - 1 else find_pos);
                 prev_pos = (if find_pos > 0 \<and> find_pos < e then find_pos - 1 else e)
             in if compare_pos < e \<and> unique (vitems v ! compare_pos) x then Some (OB_CONFLICT_VALUE, compare_pos, v)
                else if prev_pos < e \<and> unique (vitems v ! prev_pos) x then Some (OB_CONFLICT_VALUE, prev_pos, v)
                else do { (ret, v) \<leftarrow> vec_insert mem_ok find_pos x v; Some (ret, find_pos, v) })"

text \<open>\<open>find\<close> with an order, and with an order and an equality for a value of another type.\<close>

definition sv_find :: "('a \<Rightarrow> 'a \<Rightarrow> bool) \<Rightarrow> 'a \<Rightarrow> 'a ob_vector \<Rightarrow> ob_ret \<times> nat" where
  "sv_find compare x v =
     (let pos = sv_lower_bound (\<lambda>y. compare y x) v; e = length (vitems v)
      in if pos \<noteq> e
         then if \<not> compare (vitems v ! pos) x \<and> \<not> compare x (vitems v ! pos) then (OB_SUCCESS, pos)
              else (OB_ENTRY_NOT_EXIST, e)
         else (OB_ENTRY_NOT_EXIST, pos))"

definition sv_find_equal :: "('a \<Rightarrow> 'k \<Rightarrow> bool) \<Rightarrow> ('a \<Rightarrow> 'k \<Rightarrow> bool) \<Rightarrow> 'k \<Rightarrow> 'a ob_vector \<Rightarrow> ob_ret \<times> nat" where
  "sv_find_equal compare equal x v =
     (let pos = sv_lower_bound (\<lambda>y. compare y x) v; e = length (vitems v)
      in if pos \<noteq> e
         then if equal (vitems v ! pos) x then (OB_SUCCESS, pos) else (OB_ENTRY_NOT_EXIST, e)
         else (OB_ENTRY_NOT_EXIST, pos))"

definition sv_remove_if ::
  "('a \<Rightarrow> 'k \<Rightarrow> bool) \<Rightarrow> ('a \<Rightarrow> 'k \<Rightarrow> bool) \<Rightarrow> 'k \<Rightarrow> 'a ob_vector \<Rightarrow> ob_ret \<times> 'a option \<times> 'a ob_vector" where
  "sv_remove_if compare equal x v =
     (let (ret, pos) = sv_find_equal compare equal x v
      in if ret = OB_SUCCESS then let (ret, v') = vec_remove pos v in (ret, Some (vitems v ! pos), v')
         else (ret, None, v))"

definition sv_remove_range :: "nat \<Rightarrow> nat \<Rightarrow> 'a ob_vector \<Rightarrow> ob_ret \<times> 'a ob_vector" where
  "sv_remove_range start_pos end_pos v =
     (if end_pos > start_pos then vec_remove_range start_pos end_pos v else (OB_SUCCESS, v))"

section \<open>Binary search\<close>

text \<open>Everything before the boundary satisfies the predicate and nothing behind it does.\<close>

definition partitioned :: "('a \<Rightarrow> bool) \<Rightarrow> 'a list \<Rightarrow> bool" where
  "partitioned p xs \<longleftrightarrow> (\<forall>i j. i \<le> j \<longrightarrow> j < length xs \<longrightarrow> p (xs ! j) \<longrightarrow> p (xs ! i))"

lemma partitioned_boundary:
  assumes "partitioned p xs" "b \<le> length xs" "\<And>i. i < b \<Longrightarrow> p (xs ! i)" "b < length xs \<Longrightarrow> \<not> p (xs ! b)"
  shows "length (takeWhile p xs) = b"
proof -
  have "takeWhile p xs = take b xs" using assms(2-4) by (intro takeWhile_eq_take_P_nth) auto
  then show ?thesis using assms(2) by simp
qed

lemma lower_bound_from_ok:
  assumes "partitioned p xs" "first + len \<le> length xs"
    and "\<And>i. i < first \<Longrightarrow> p (xs ! i)" and "\<And>i. first + len \<le> i \<Longrightarrow> i < length xs \<Longrightarrow> \<not> p (xs ! i)"
  shows "lower_bound_from p xs first len = length (takeWhile p xs)"
  using assms
proof (induction p xs first len rule: lower_bound_from.induct)
  case (1 p xs first len)
  show ?case
  proof (cases "len = 0")
    case True
    with 1 show ?thesis by (subst lower_bound_from.simps) (simp add: partitioned_boundary)
  next
    case False
    let ?m = "first + len div 2"
    have m: "?m < length xs" using 1(4) False by simp
    show ?thesis
    proof (cases "p (xs ! ?m)")
      case True
      have "p (xs ! i)" if "i < ?m + 1" for i using 1(3) True m that unfolding partitioned_def by (metis Suc_eq_plus1 less_Suc_eq_le)
      with 1 False True show ?thesis by (subst lower_bound_from.simps) (simp add: Let_def)
    next
      case pm: False
      have "\<not> p (xs ! i)" if "?m \<le> i" "i < length xs" for i using 1(3) pm that unfolding partitioned_def by blast
      with 1 False pm m show ?thesis by (subst lower_bound_from.simps) (simp add: Let_def)
    qed
  qed
qed

lemma upper_bound_lower_bound: "upper_bound_from q xs first len = lower_bound_from (\<lambda>x. \<not> q x) xs first len"
proof (induction q xs first len rule: upper_bound_from.induct)
  case (1 q xs first len)
  then show ?case by (subst upper_bound_from.simps, subst lower_bound_from.simps) (simp add: Let_def)
qed

lemma sv_lower_bound_ok: "partitioned p (vitems v) \<Longrightarrow> sv_lower_bound p v = length (takeWhile p (vitems v))"
  unfolding sv_lower_bound_def by (rule lower_bound_from_ok) auto

lemma sv_upper_bound_ok:
  "partitioned (\<lambda>x. \<not> q x) (vitems v) \<Longrightarrow> sv_upper_bound q v = length (takeWhile (\<lambda>x. \<not> q x) (vitems v))"
  unfolding sv_upper_bound_def upper_bound_lower_bound by (rule lower_bound_from_ok) auto

lemma partitioned_sorted: "sorted (map key xs) \<Longrightarrow> partitioned (\<lambda>x. key x < k) xs"
  unfolding partitioned_def sorted_iff_nth_mono by (auto intro: le_less_trans)

lemma partitioned_sorted_le: "sorted (map key xs) \<Longrightarrow> partitioned (\<lambda>x. key x \<le> k) xs"
  unfolding partitioned_def sorted_iff_nth_mono by (auto intro: order_trans)

section \<open>A vector sorted by a key\<close>

abbreviation (input) strict_keys :: "('a \<Rightarrow> 'k :: linorder) \<Rightarrow> 'a list \<Rightarrow> bool" where
  "strict_keys key xs \<equiv> sorted_wrt (<) (map key xs)"

lemma strict_keys_sorted: "strict_keys key xs \<Longrightarrow> sorted (map key xs)"
  by (simp add: strict_sorted_iff)

lemma strict_keys_distinct: "strict_keys key xs \<Longrightarrow> distinct (map key xs)"
  by (simp add: strict_sorted_iff)

text \<open>The place of a key in a strictly sorted list: smaller keys, perhaps the key itself, larger keys.\<close>

lemma sorted_split:
  assumes "strict_keys key xs"
  obtains (absent) ls rs where "xs = ls @ rs" "length (takeWhile (\<lambda>x. key x < k) xs) = length ls"
      "\<forall>x \<in> set ls. key x < k" "\<forall>x \<in> set rs. k < key x"
    | (present) ls y rs where "xs = ls @ y # rs" "length (takeWhile (\<lambda>x. key x < k) xs) = length ls" "key y = k"
      "\<forall>x \<in> set ls. key x < k" "\<forall>x \<in> set rs. k < key x"
proof -
  let ?ls = "takeWhile (\<lambda>x. key x < k) xs" and ?ds = "dropWhile (\<lambda>x. key x < k) xs"
  have xs: "xs = ?ls @ ?ds" by simp
  have ls: "\<forall>x \<in> set ?ls. key x < k" by (auto dest: set_takeWhileD)
  have ds: "strict_keys key ?ds" using assms by (metis map_append sorted_wrt_append xs)
  show thesis
  proof (cases ?ds)
    case Nil
    with ls xs show thesis by (intro absent [of ?ls "[]"]) auto
  next
    case (Cons y rs)
    then have ge: "\<not> key y < k" using hd_dropWhile [of "\<lambda>x. key x < k" xs] by simp
    have rs: "\<forall>x \<in> set rs. key y < key x" using ds Cons by auto
    show thesis
    proof (cases "key y = k")
      case True
      with present [of ?ls y rs] ls rs xs Cons show thesis by auto
    next
      case False
      with ge have "k < key y" by simp
      with rs have "\<forall>x \<in> set ?ds. k < key x" unfolding Cons by (auto intro: less_trans)
      with absent [of ?ls ?ds] ls show thesis by auto
    qed
  qed
qed

definition sv_inv :: "('a \<Rightarrow> 'k :: linorder) \<Rightarrow> 'a ob_vector \<Rightarrow> bool" where
  "sv_inv key v \<longleftrightarrow> strict_keys key (vitems v) \<and> length (vitems v) \<le> vcap v"

definition sv_look :: "('a \<Rightarrow> 'k) \<Rightarrow> 'a ob_vector \<Rightarrow> 'k \<Rightarrow> 'a option" where
  "sv_look key v = key_map key (vitems v)"

lemma sv_lower_bound_key:
  "sv_inv key v \<Longrightarrow> sv_lower_bound (\<lambda>y. key y < k) v = length (takeWhile (\<lambda>y. key y < k) (vitems v))"
  unfolding sv_inv_def by (intro sv_lower_bound_ok partitioned_sorted strict_keys_sorted) simp

lemma vec_insert_ok:
  assumes "pos \<le> length (vitems v)"
  shows "\<exists>ret v'. vec_insert mem_ok pos x v = Some (ret, v') \<and>
    (ret = OB_SUCCESS \<and> vitems v' = take pos (vitems v) @ x # drop pos (vitems v) \<and> length (vitems v') \<le> vcap v' \<or>
     ret = OB_ALLOCATE_MEMORY_FAILED \<and> v' = v \<and> (\<exists>n. \<not> mem_ok n))"
  using assms by (auto simp: vec_insert_def alloc_array_def vec_remain_def Let_def)

lemma sv_replace_ok:
  assumes inv: "sv_inv key v"
  shows "\<exists>ret pos old v'. sv_replace mem_ok (\<lambda>a b. key a < key b) (\<lambda>a b. key a = key b) (Some x) v = Some (ret, pos, old, v') \<and>
    sv_inv key v' \<and>
    (ret = OB_SUCCESS \<and> sv_look key v' = (sv_look key v)(key x \<mapsto> x) \<and> old = sv_look key v (key x) \<or>
     ret = OB_ALLOCATE_MEMORY_FAILED \<and> v' = v \<and> (\<exists>n. \<not> mem_ok n))"
proof -
  have sorted: "strict_keys key (vitems v)" using inv by (simp add: sv_inv_def)
  note lb = sv_lower_bound_key [OF inv, of "key x"]
  from sorted show ?thesis
  proof (cases rule: sorted_split [where k = "key x"])
    case (present ls y rs)
    let ?v = "v \<lparr>vitems := ls @ x # rs\<rparr>"
    have "sv_replace mem_ok (\<lambda>a b. key a < key b) (\<lambda>a b. key a = key b) (Some x) v = Some (OB_SUCCESS, length ls, Some y, ?v)"
      using present by (simp add: sv_replace_def lb Let_def vec_replace_def list_update_append)
    moreover have "sv_inv key ?v" using inv present by (auto simp: sv_inv_def sorted_wrt_append)
    moreover have fresh: "key x \<notin> key ` set (ls @ rs)" using present by (auto dest: less_imp_neq)
    then have "sv_look key ?v = (sv_look key v)(key x \<mapsto> x)" "sv_look key v (key x) = Some y"
      using key_map_insert [of key x ls rs] key_map_insert [of key y ls rs] present by (auto simp: sv_look_def)
    ultimately show ?thesis by auto
  next
    case (absent ls rs)
    have fresh: "key x \<notin> key ` set (ls @ rs)" using absent by (auto dest: less_imp_neq)
    have look: "key_map key (ls @ x # rs) = (sv_look key v)(key x \<mapsto> x)" "sv_look key v (key x) = None"
      using key_map_insert [OF fresh] fresh absent(1) by (auto simp: sv_look_def key_map_None)
    have ins: "take (length ls) (vitems v) @ x # drop (length ls) (vitems v) = ls @ x # rs"
      and new: "strict_keys key (ls @ x # rs)" and here: "length ls \<le> length (vitems v)"
      using absent sorted by (auto simp: sorted_wrt_append)
    have "\<not> (length ls \<noteq> length (vitems v) \<and> key (vitems v ! length ls) = key x)"
      using absent by (cases rs) auto
    note there = this
    from vec_insert_ok [OF here, of mem_ok x] obtain ret v' where r: "vec_insert mem_ok (length ls) x v = Some (ret, v')"
      and res: "ret = OB_SUCCESS \<and> vitems v' = ls @ x # rs \<and> length (vitems v') \<le> vcap v' \<or>
           ret = OB_ALLOCATE_MEMORY_FAILED \<and> v' = v \<and> (\<exists>n. \<not> mem_ok n)"
      unfolding ins by blast
    have "sv_replace mem_ok (\<lambda>a b. key a < key b) (\<lambda>a b. key a = key b) (Some x) v =
        Some (ret, if ret = OB_SUCCESS then length ls else length (vitems v), None, v')"
      using r there absent(2) by (auto simp: sv_replace_def lb Let_def)
    with res show ?thesis using look new inv by (auto simp: sv_inv_def sv_look_def)
  qed
qed

lemma sv_remove_ok:
  assumes inv: "sv_inv key v"
  shows "\<exists>v'. sv_remove_if (\<lambda>a k. key a < k) (\<lambda>a k. key a = k) k v =
      (if sv_look key v k = None then OB_ENTRY_NOT_EXIST else OB_SUCCESS, sv_look key v k, v') \<and>
    sv_inv key v' \<and> sv_look key v' = (sv_look key v)(k := None)"
proof -
  have sorted: "strict_keys key (vitems v)" using inv by (simp add: sv_inv_def)
  note lb = sv_lower_bound_key [OF inv, of k]
  from sorted show ?thesis
  proof (cases rule: sorted_split [where k = k])
    case (present ls y rs)
    have fresh: "key y \<notin> key ` set (ls @ rs)" using present by (auto dest: less_imp_neq)
    have "sv_look key v k = Some y" unfolding sv_look_def present(1) key_map_insert [OF fresh] using present(3) by simp
    moreover have "key_map key (ls @ rs) = (sv_look key v)(k := None)"
      unfolding sv_look_def present(1) using key_map_remove [OF fresh] present(3) by simp
    moreover have "sv_remove_if (\<lambda>a k. key a < k) (\<lambda>a k. key a = k) k v = (OB_SUCCESS, Some y, v \<lparr>vitems := ls @ rs\<rparr>)"
      using present by (simp add: sv_remove_if_def sv_find_equal_def lb Let_def vec_remove_def)
    moreover have "sv_inv key (v \<lparr>vitems := ls @ rs\<rparr>)" using inv present by (auto simp: sv_inv_def sorted_wrt_append)
    ultimately show ?thesis by (auto simp: sv_look_def)
  next
    case (absent ls rs)
    then have none: "sv_look key v k = None" by (auto simp: sv_look_def key_map_None)
    have "sv_remove_if (\<lambda>a k. key a < k) (\<lambda>a k. key a = k) k v = (OB_ENTRY_NOT_EXIST, None, v)"
      using absent by (cases rs) (auto simp: sv_remove_if_def sv_find_equal_def lb Let_def)
    with none inv show ?thesis by (auto simp: fun_upd_idem)
  qed
qed

lemma sv_insert_unique_ok:
  assumes inv: "sv_inv key v"
  shows "\<exists>ret pos v'. sv_insert_unique mem_ok (\<lambda>a b. key a < key b) (\<lambda>a b. key a = key b) (Some x) v = Some (ret, pos, v') \<and>
    sv_inv key v' \<and>
    (if sv_look key v (key x) \<noteq> None then ret = OB_CONFLICT_VALUE \<and> v' = v
     else ret = OB_SUCCESS \<and> sv_look key v' = (sv_look key v)(key x \<mapsto> x) \<or>
          ret = OB_ALLOCATE_MEMORY_FAILED \<and> v' = v \<and> (\<exists>n. \<not> mem_ok n))"
proof -
  have sorted: "strict_keys key (vitems v)" using inv by (simp add: sv_inv_def)
  note lb = sv_lower_bound_key [OF inv, of "key x"]
  from sorted show ?thesis
  proof (cases rule: sorted_split [where k = "key x"])
    case (present ls y rs)
    have fresh: "key y \<notin> key ` set (ls @ rs)" using present by (auto dest: less_imp_neq)
    have "sv_look key v (key x) = Some y" unfolding sv_look_def present(1) key_map_insert [OF fresh] using present(3) by simp
    moreover have "sv_insert_unique mem_ok (\<lambda>a b. key a < key b) (\<lambda>a b. key a = key b) (Some x) v = Some (OB_CONFLICT_VALUE, length ls, v)"
      using present by (simp add: sv_insert_unique_def lb Let_def)
    ultimately show ?thesis using inv by auto
  next
    case (absent ls rs)
    have fresh: "key x \<notin> key ` set (ls @ rs)" using absent by (auto dest: less_imp_neq)
    have look: "key_map key (ls @ x # rs) = (sv_look key v)(key x \<mapsto> x)" "sv_look key v (key x) = None"
      using key_map_insert [OF fresh] fresh absent(1) by (auto simp: sv_look_def key_map_None)
    have ins: "take (length ls) (vitems v) @ x # drop (length ls) (vitems v) = ls @ x # rs"
      and new: "strict_keys key (ls @ x # rs)" and here: "length ls \<le> length (vitems v)"
      using absent sorted by (auto simp: sorted_wrt_append)
    have other: "key (vitems v ! i) \<noteq> key x" if "i < length (vitems v)" for i
      using look(2) nth_mem [OF that] unfolding sv_look_def key_map_None by (metis imageI)
    from vec_insert_ok [OF here, of mem_ok x] obtain ret v' where r: "vec_insert mem_ok (length ls) x v = Some (ret, v')"
      and res: "ret = OB_SUCCESS \<and> vitems v' = ls @ x # rs \<and> length (vitems v') \<le> vcap v' \<or>
           ret = OB_ALLOCATE_MEMORY_FAILED \<and> v' = v \<and> (\<exists>n. \<not> mem_ok n)"
      unfolding ins by blast
    have "sv_insert_unique mem_ok (\<lambda>a b. key a < key b) (\<lambda>a b. key a = key b) (Some x) v = Some (ret, length ls, v')"
      using r absent(2) other by (auto simp: sv_insert_unique_def lb Let_def)
    with res show ?thesis using look new inv by (auto simp: sv_inv_def sv_look_def)
  qed
qed

lemma vec_assign_ok:
  "sv_inv key other \<Longrightarrow> (\<And>n. mem_ok n) \<Longrightarrow>
    \<exists>v'. vec_assign mem_ok other v = (OB_SUCCESS, v') \<and> sv_inv key v' \<and> vitems v' = vitems other"
  by (auto simp: vec_assign_def vec_expand_def vec_clear_def alloc_array_def sv_inv_def Let_def)

lemma sv_inv_empty: "sv_inv key (vec_clear v)" "sv_inv key vec_new" "sv_look key (vec_clear v) = Map.empty" "sv_look key vec_new = Map.empty"
  by (simp_all add: sv_inv_def sv_look_def vec_clear_def vec_new_def)

lemma sv_size_card: "sv_inv key v \<Longrightarrow> length (vitems v) = card (dom (sv_look key v))"
  unfolding sv_inv_def sv_look_def dom_key_map
  using distinct_card [of "map key (vitems v)"] strict_keys_distinct by fastforce

section \<open>The contract\<close>

definition sv_put :: "(nat \<Rightarrow> bool) \<Rightarrow> ('a \<Rightarrow> 'k :: linorder) \<Rightarrow> 'a \<Rightarrow> 'a ob_vector \<Rightarrow> (ob_ret \<times> 'a ob_vector) option" where
  "sv_put mem_ok key x v =
     map_option (\<lambda>(ret, pos, old, v). (ret, v)) (sv_replace mem_ok (\<lambda>a b. key a < key b) (\<lambda>a b. key a = key b) (Some x) v)"

definition sv_del :: "('a \<Rightarrow> 'k :: linorder) \<Rightarrow> 'k \<Rightarrow> 'a ob_vector \<Rightarrow> (ob_ret \<times> 'a ob_vector) option" where
  "sv_del key k v = (case sv_remove_if (\<lambda>a k. key a < k) (\<lambda>a k. key a = k) k v of (ret, old, v) \<Rightarrow> Some (ret, v))"

interpretation vector_dict: dictionary
  "\<lambda>v. (\<forall>n. mem_ok n) \<and> sv_inv key v" "sv_look key" key "sv_put mem_ok key" "sv_del key"
  for mem_ok :: "nat \<Rightarrow> bool" and key :: "'v \<Rightarrow> 'k :: linorder"
proof (unfold_locales, goal_cases)
  case (1 s k v)
  then show ?case by (auto simp: sv_look_def dest: key_map_SomeD)
next
  case (2 s v)
  with sv_replace_ok [of key s mem_ok v] show ?case by (auto simp: sv_put_def)
next
  case (3 s k)
  with sv_remove_ok [of key s k] show ?case by (auto simp: sv_del_def)
qed

section \<open>Properties\<close>

text \<open>C26. \<open>insert_unique\<close> keeps the vector strictly sorted. It refuses an element whose key is there, with
  \<open>OB_CONFLICT_VALUE\<close> and without a change, and otherwise adds the element, or fails without a change for lack of memory.\<close>

theorem insert_unique_correct:
  assumes "sv_inv key v"
  shows "\<exists>ret pos v'. sv_insert_unique mem_ok (\<lambda>a b. key a < key b) (\<lambda>a b. key a = key b) (Some x) v = Some (ret, pos, v') \<and>
    sv_inv key v' \<and>
    (if sv_look key v (key x) \<noteq> None then ret = OB_CONFLICT_VALUE \<and> v' = v
     else ret = OB_SUCCESS \<and> sv_look key v' = (sv_look key v)(key x \<mapsto> x) \<or>
          ret = OB_ALLOCATE_MEMORY_FAILED \<and> v' = v \<and> (\<exists>n. \<not> mem_ok n))"
  using assms by (rule sv_insert_unique_ok)

theorem insert_unique_correct_witness:
  "\<exists>pos v'. sv_insert_unique (\<lambda>n. True) (\<lambda>a b. a < b) (\<lambda>a b. a = b) (Some 5) \<lparr>vitems = [2, 7 :: nat], vcap = 2\<rparr> =
      Some (OB_SUCCESS, pos, v') \<and> sv_look id v' 5 = Some 5 \<and> sv_look id v' 7 = Some 7"
proof -
  have "sv_inv id \<lparr>vitems = [2, 7 :: nat], vcap = 2\<rparr>" by (simp add: sv_inv_def)
  moreover have "sv_look id \<lparr>vitems = [2, 7 :: nat], vcap = 2\<rparr> = [2 \<mapsto> 2, 7 \<mapsto> 7]"
    by (auto simp: sv_look_def key_map_def fun_eq_iff)
  ultimately show ?thesis using insert_unique_correct [of id "\<lparr>vitems = [2, 7 :: nat], vcap = 2\<rparr>" "\<lambda>n. True" 5] by auto
qed

end
