(* ===== verification/OB_Expr_Frame.thy ===== *)
theory OB_Expr_Frame
  imports OB_Bit_Vector
begin

text \<open>
  The part of the expression engine the python UDF operator works on: datums
  (\<^verbatim>\<open>src/share/datum/ob_datum.h\<close>), vectors (\<^verbatim>\<open>src/share/vector/\<close>), the frame of an expression
  (\<^verbatim>\<open>src/sql/engine/expr/ob_expr.h\<close> and \<^verbatim>\<open>ob_expr.cpp\<close>) and the description of a batch
  (\<^verbatim>\<open>src/sql/engine/ob_batch_rows.h\<close>).

  A pointer is \<open>None\<close> (\<^verbatim>\<open>nullptr\<close>) or \<open>Some mem\<close>, where \<open>mem\<close> are the bytes that may be accessed
  through it. A cell of a vector is a datum whatever the format of the vector: pointer, length and null flag. The
  reserved buffer of an expression (\<open>reserve\<close>) holds unspecified bytes.
\<close>

section \<open>Expressions\<close>

datatype (plugins only: code size) ob_obj_type =
    ObNullType | ObTinyIntType | ObSmallIntType | ObMediumIntType | ObInt32Type | ObIntType
  | ObUTinyIntType | ObUSmallIntType | ObUMediumIntType | ObUInt32Type | ObUInt64Type
  | ObFloatType | ObDoubleType | ObUFloatType | ObUDoubleType | ObNumberType | ObUNumberType
  | ObDateTimeType | ObTimestampType | ObDateType | ObTimeType | ObYearType
  | ObVarcharType | ObCharType | ObHexStringType | ObExtendType | ObUnknownType
  | ObTinyTextType | ObTextType | ObMediumTextType | ObLongTextType
  | ObBitType | ObEnumType | ObSetType | ObEnumInnerType | ObSetInnerType
  | ObTimestampTZType | ObTimestampLTZType | ObTimestampNanoType | ObRawType
  | ObIntervalYMType | ObIntervalDSType | ObNumberFloatType | ObNVarchar2Type | ObNCharType
  | ObURowIDType | ObLobType | ObJsonType | ObGeometryType | ObUserDefinedSQLType | ObDecimalIntType

text \<open>The item types the modelled code distinguishes.\<close>

datatype obj_item_type = T_FUN_PYTHON_UDF | T_REF_COLUMN | T_OTHER_EXPR

datatype vec_format =
    VEC_INVALID | VEC_FIXED | VEC_DISCRETE | VEC_CONTINUOUS | VEC_UNIFORM | VEC_UNIFORM_CONST

text \<open>
  \<open>ObExpr\<close>: its place in the frame, item type, datum type, whether it is constant, \<^verbatim>\<open>batch_result_\<close>,
  \<^verbatim>\<open>is_fixed_length_data_\<close>, \<^verbatim>\<open>res_buf_len_\<close> and the arguments.
\<close>

datatype ob_expr = ObExpr
  (expr_id: nat) (expr_type: obj_item_type) (datum_type: ob_obj_type)
  (is_const_expr: bool) (batch_result: bool) (is_fixed_length_data: bool) (res_buf_len: nat)
  (expr_args: "ob_expr list")

definition arg_cnt :: "ob_expr \<Rightarrow> nat" where
  "arg_cnt e = length (expr_args e)"

text \<open>The three groups of types the switches of the operator distinguish.\<close>

datatype arg_kind = KString | KInt | KDouble | KUnsupported

definition arg_kind :: "ob_obj_type \<Rightarrow> arg_kind" where
  "arg_kind t = (case t of
      ObCharType \<Rightarrow> KString
    | ObVarcharType \<Rightarrow> KString
    | ObTinyTextType \<Rightarrow> KString
    | ObTextType \<Rightarrow> KString
    | ObMediumTextType \<Rightarrow> KString
    | ObLongTextType \<Rightarrow> KString
    | ObTinyIntType \<Rightarrow> KInt
    | ObSmallIntType \<Rightarrow> KInt
    | ObMediumIntType \<Rightarrow> KInt
    | ObInt32Type \<Rightarrow> KInt
    | ObIntType \<Rightarrow> KInt
    | ObDoubleType \<Rightarrow> KDouble
    | _ \<Rightarrow> KUnsupported)"

section \<open>Datums\<close>

record ob_datum =
  dptr :: "byte list option"
  dlen :: nat
  dnull :: bool

text \<open>Little-endian numbers in memory.\<close>

fun le_word :: "byte list \<Rightarrow> 64 word" where
  "le_word [] = 0"
| "le_word (b # bs) = ucast b OR push_bit 8 (le_word bs)"

definition le_bytes :: "64 word \<Rightarrow> byte list" where
  "le_bytes v = map (\<lambda>i. ucast (drop_bit (8 * i) v)) [0..<8]"

text \<open>\<^verbatim>\<open>*int_\<close> and \<^verbatim>\<open>*double_\<close>: eight bytes are read through the pointer.\<close>

definition get_word :: "ob_datum \<Rightarrow> 64 word option" where
  "get_word d = (case dptr d of
      None \<Rightarrow> None
    | Some mem \<Rightarrow> if length mem < 8 then None else Some (le_word (take 8 mem)))"

definition get_int :: "ob_datum \<Rightarrow> 64 word option" where
  "get_int d = get_word d"

definition get_double :: "ob_datum \<Rightarrow> 64 word option" where
  "get_double d = get_word d"

text \<open>
  \<^verbatim>\<open>MEMCPY(dst, src, len)\<close> of \<open>len\<close> bytes read at a pointer: nothing is read when \<open>len\<close> is zero.
\<close>

definition read_bytes :: "byte list option \<Rightarrow> nat \<Rightarrow> byte list option" where
  "read_bytes p n =
     (if n = 0 then Some [] else
      case p of None \<Rightarrow> None | Some mem \<Rightarrow> if length mem < n then None else Some (take n mem))"

text \<open>
  \<open>ObDatum::deep_copy\<close> with an allocator. \<open>mem_ok n\<close> says whether an allocation of \<open>n\<close> bytes
  succeeds; if not, the destination is left as a shallow copy of the source.
\<close>

definition datum_deep_copy :: "(nat \<Rightarrow> bool) \<Rightarrow> ob_datum \<Rightarrow> (ob_ret \<times> ob_datum) option" where
  "datum_deep_copy mem_ok src =
     (if dnull src then Some (OB_SUCCESS, src)
      else let alloc_len = (if dlen src > 0 then dlen src else 1)
           in if \<not> mem_ok alloc_len then Some (OB_ALLOCATE_MEMORY_FAILED, src)
              else case read_bytes (dptr src) (dlen src) of
                     None \<Rightarrow> None
                   | Some bs \<Rightarrow> Some (OB_SUCCESS, src \<lparr>dptr := Some bs\<rparr>))"

definition datum_set_string :: "byte list option \<Rightarrow> ob_datum \<Rightarrow> ob_datum" where
  "datum_set_string p d =
     d \<lparr>dptr := p, dlen := (case p of None \<Rightarrow> 0 | Some bs \<Rightarrow> length bs), dnull := False\<rparr>"

definition datum_set_word :: "64 word \<Rightarrow> ob_datum \<Rightarrow> ob_datum option" where
  "datum_set_word v d = (case dptr d of
      None \<Rightarrow> None
    | Some mem \<Rightarrow> if length mem < 8 then None
                  else Some (d \<lparr>dptr := Some (le_bytes v @ drop 8 mem), dlen := 8, dnull := False\<rparr>))"

section \<open>Batches\<close>

record batch_rows =
  skip :: bit_vector
  bsize :: nat
  bend :: bool
  all_rows_active :: bool

definition brs_copy :: "batch_rows \<Rightarrow> batch_rows \<Rightarrow> batch_rows" where
  "brs_copy brs src =
     brs \<lparr>bsize := bsize src, all_rows_active := all_rows_active src, bend := bend src,
          skip := deep_copy (skip brs) (skip src) (bsize src)\<rparr>"

definition brs_set_skip :: "nat \<Rightarrow> batch_rows \<Rightarrow> batch_rows" where
  "brs_set_skip idx brs = brs \<lparr>skip := bv_set (skip brs) idx, all_rows_active := False\<rparr>"

definition brs_reset_skip :: "nat \<Rightarrow> batch_rows \<Rightarrow> batch_rows" where
  "brs_reset_skip sz brs = brs \<lparr>skip := bv_reset (skip brs) sz, all_rows_active := True\<rparr>"

text \<open>The indices of the rows of a batch that are not skipped, in order.\<close>

definition active_rows :: "batch_rows \<Rightarrow> nat list" where
  "active_rows brs = filter (\<lambda>j. \<not> bv_at (skip brs) j) [0..<bsize brs]"

section \<open>The frame of an expression\<close>

record expr_frame =
  vformat :: vec_format
  cells :: "ob_datum list"
  reserve :: "byte list list"
  evaluated :: bool
  projected :: bool
  evaluated_flags :: bit_vector

type_synonym frame = "nat \<Rightarrow> expr_frame"

definition eval_info_clear :: "expr_frame \<Rightarrow> expr_frame" where
  "eval_info_clear x = (if evaluated x \<or> projected x then x \<lparr>evaluated := False, projected := False\<rparr> else x)"

text \<open>The prefix of the cells changed by a loop over \<open>size\<close> rows; a longer loop leaves the array.\<close>

definition map_cells :: "nat \<Rightarrow> (nat \<Rightarrow> ob_datum \<Rightarrow> ob_datum) \<Rightarrow> expr_frame \<Rightarrow> expr_frame option" where
  "map_cells n g x =
     (if n \<le> length (cells x)
      then Some (x \<lparr>cells := map (\<lambda>i. if i < n then g i (cells x ! i) else cells x ! i) [0..<length (cells x)]\<rparr>)
      else None)"

definition to_reserve :: "expr_frame \<Rightarrow> nat \<Rightarrow> ob_datum \<Rightarrow> ob_datum" where
  "to_reserve x i d = d \<lparr>dptr := (if i < length (reserve x) then Some (reserve x ! i) else None)\<rparr>"

text \<open>
  \<open>init_vector\<close>. The switches over the value type class only choose the C++ class of the vector; their default branches, for a
  type class that does not go with the format, are not modelled.
\<close>

definition init_vector :: "ob_expr \<Rightarrow> vec_format \<Rightarrow> nat \<Rightarrow> bool \<Rightarrow> frame \<Rightarrow> (ob_ret \<times> frame) option" where
  "init_vector e fmt sz use_reserve_buf fr =
     (let x = (fr (expr_id e)) \<lparr>vformat := fmt\<rparr>; fr1 = fr(expr_id e := x)
      in if \<not> batch_result e \<and> fmt \<noteq> VEC_UNIFORM_CONST then Some (OB_ERR_UNEXPECTED, fr1)
         else case fmt of
             VEC_INVALID \<Rightarrow> Some (OB_ERR_UNEXPECTED, fr1)
           | VEC_UNIFORM_CONST \<Rightarrow>
               do { x' \<leftarrow> (if use_reserve_buf then map_cells 1 (to_reserve x) x else Some x);
                    Some (OB_SUCCESS, fr(expr_id e := x')) }
           | VEC_UNIFORM \<Rightarrow>
               do { x' \<leftarrow> (if use_reserve_buf then map_cells sz (to_reserve x) x else Some x);
                    Some (OB_SUCCESS, fr(expr_id e := x')) }
           | VEC_CONTINUOUS \<Rightarrow>
               do { x' \<leftarrow> map_cells sz (\<lambda>i d. d \<lparr>dnull := False\<rparr>) x;
                    Some (OB_SUCCESS, fr(expr_id e := x')) }
           | VEC_FIXED \<Rightarrow>
               do { x' \<leftarrow> map_cells sz (\<lambda>i d. (to_reserve x i d) \<lparr>dlen := res_buf_len e, dnull := False\<rparr>) x;
                    Some (OB_SUCCESS, fr(expr_id e := x')) }
           | VEC_DISCRETE \<Rightarrow>
               do { x' \<leftarrow> map_cells sz (\<lambda>i d. (if use_reserve_buf then to_reserve x i d else d) \<lparr>dnull := False\<rparr>) x;
                    Some (OB_SUCCESS, fr(expr_id e := x')) })"

definition get_default_res_format :: "ob_expr \<Rightarrow> vec_format" where
  "get_default_res_format e =
     (if \<not> batch_result e then VEC_UNIFORM_CONST
      else if datum_type e = ObNullType then VEC_UNIFORM
      else if is_fixed_length_data e then VEC_FIXED else VEC_DISCRETE)"

definition cast_to_uniform :: "ob_expr \<Rightarrow> nat \<Rightarrow> frame \<Rightarrow> (ob_ret \<times> frame) option" where
  "cast_to_uniform e sz fr =
     (let x = fr (expr_id e)
      in if vformat x \<in> {VEC_FIXED, VEC_DISCRETE, VEC_CONTINUOUS}
         then do { x' \<leftarrow> map_cells sz (\<lambda>i d. d \<lparr>dlen := (if dnull d then 0 else dlen d)\<rparr>) x;
                   init_vector e VEC_UNIFORM sz False (fr(expr_id e := x')) }
         else Some (OB_SUCCESS, fr))"

text \<open>\<open>get_payload(idx, payload, length)\<close>: without the null flag.\<close>

definition get_payload :: "expr_frame \<Rightarrow> nat \<Rightarrow> (byte list option \<times> nat) option" where
  "get_payload x idx =
     (let i = (if vformat x = VEC_UNIFORM_CONST then 0 else idx)
      in if vformat x = VEC_INVALID \<or> length (cells x) \<le> i then None
         else Some (dptr (cells x ! i), dlen (cells x ! i)))"

text \<open>
  \<open>set_payload\<close> copies the bytes into the buffer of the cell and clears the null flag. A cell of a fixed-length
  vector takes a payload of exactly its length (\<^verbatim>\<open>OB_ASSERT\<close>). A write past the buffer of the cell is
  \<open>None\<close>. The operator never writes to a continuous vector.
\<close>

definition set_payload :: "nat \<Rightarrow> byte list option \<Rightarrow> nat \<Rightarrow> expr_frame \<Rightarrow> expr_frame option" where
  "set_payload idx p n x =
     (let i = (if vformat x = VEC_UNIFORM_CONST then 0 else idx)
      in if vformat x \<in> {VEC_INVALID, VEC_CONTINUOUS} \<or> length (cells x) \<le> i then None
         else if vformat x = VEC_FIXED \<and> n \<noteq> dlen (cells x ! i) then None
         else do {
           bs \<leftarrow> read_bytes p n;
           p' \<leftarrow> (if n = 0 then Some (dptr (cells x ! i))
                 else do { mem \<leftarrow> dptr (cells x ! i);
                           (if length mem < n then None else Some (Some (bs @ drop n mem))) });
           Some (x \<lparr>cells := (cells x)[i := (cells x ! i) \<lparr>dptr := p', dlen := n, dnull := False\<rparr>]\<rparr>)
         })"

definition set_payload_shallow :: "nat \<Rightarrow> byte list option \<Rightarrow> nat \<Rightarrow> expr_frame \<Rightarrow> expr_frame option" where
  "set_payload_shallow idx p n x =
     (if vformat x = VEC_FIXED then set_payload idx p n x
      else let i = (if vformat x = VEC_UNIFORM_CONST then 0 else idx)
           in if vformat x \<in> {VEC_INVALID, VEC_CONTINUOUS} \<or> length (cells x) \<le> i then None
              else Some (x \<lparr>cells := (cells x)[i := (cells x ! i) \<lparr>dptr := p, dlen := n, dnull := False\<rparr>]\<rparr>))"

section \<open>Evaluation of an expression on a batch\<close>

text \<open>
  The evaluation functions of an expression are function pointers, here parameters: \<open>eval_func e\<close>, the pointer
  \<^verbatim>\<open>eval_vector_func_\<close>, is \<open>None\<close> when it is null, otherwise it takes the frame, the skip vector and the size and returns the
  frame it leaves. \<open>batch_func e\<close> says that \<^verbatim>\<open>eval_batch_func_\<close> is not null, \<open>default_func e\<close> that \<^verbatim>\<open>eval_vector_func_\<close> is
  \<open>expr_default_eval_vector_func\<close>. The check of the stack is left out.
\<close>

record expr_env =
  eval_func :: "ob_expr \<Rightarrow> (frame \<Rightarrow> bit_vector \<Rightarrow> nat \<Rightarrow> ob_ret \<times> frame) option"
  batch_func :: "ob_expr \<Rightarrow> bool"
  default_func :: "ob_expr \<Rightarrow> bool"

definition set_all_null :: "ob_expr \<Rightarrow> nat \<Rightarrow> frame \<Rightarrow> frame option" where
  "set_all_null e sz fr =
     (let x = fr (expr_id e)
      in do { x' \<leftarrow> map_cells sz
                (\<lambda>i d. if vformat x \<in> {VEC_UNIFORM, VEC_UNIFORM_CONST} then d \<lparr>dlen := 0, dnull := True\<rparr>
                       else d \<lparr>dnull := True\<rparr>) x;
              Some (fr(expr_id e := x')) })"

definition eval_vector_start :: "expr_env \<Rightarrow> ob_expr \<Rightarrow> nat \<Rightarrow> frame \<Rightarrow> (ob_ret \<times> frame) option" where
  "eval_vector_start env e sz fr =
     (let x = (fr (expr_id e)) \<lparr>evaluated_flags := bv_reset (evaluated_flags (fr (expr_id e))) sz,
                                evaluated := batch_result e\<rparr>;
          fmt = (if default_func env e \<and> batch_result e then VEC_UNIFORM else get_default_res_format e)
      in init_vector e fmt sz True (fr(expr_id e := x)))"

definition eval_vector_run ::
  "ob_expr \<Rightarrow> (frame \<Rightarrow> bit_vector \<Rightarrow> nat \<Rightarrow> ob_ret \<times> frame) option \<Rightarrow> bit_vector \<Rightarrow> nat \<Rightarrow> frame \<Rightarrow> (ob_ret \<times> frame) option" where
  "eval_vector_run e func rt_skip sz fr =
     do { f \<leftarrow> func;
          let (ret, fr1) = f fr rt_skip sz
          in if ret \<noteq> OB_SUCCESS then do { fr2 \<leftarrow> set_all_null e sz fr1; Some (ret, fr2) }
             else Some (OB_SUCCESS, fr1(expr_id e := (fr1 (expr_id e)) \<lparr>evaluated := True\<rparr>)) }"

definition eval_vector :: "expr_env \<Rightarrow> ob_expr \<Rightarrow> batch_rows \<Rightarrow> frame \<Rightarrow> (ob_ret \<times> frame) option" where
  "eval_vector env e brs fr =
     (let x = fr (expr_id e);
          sz = (if batch_result e then bsize brs else 1);
          const_skip = (if accumulate_bit_cnt_bound (skip brs) 0 (bsize brs) < int (bsize brs) then 0 else 1);
          rt_skip = (if batch_result e then skip brs else [const_skip])
      in do {
        (ret, fr1) \<leftarrow> (if vformat x = VEC_INVALID \<and> (projected x \<or> evaluated x \<or> eval_func env e = None)
                      then init_vector e (if batch_result e then VEC_UNIFORM else VEC_UNIFORM_CONST) sz False fr
                      else Some (OB_SUCCESS, fr));
        (if ret \<noteq> OB_SUCCESS then Some (ret, fr1)
         else if projected x \<or> \<not> batch_func env e \<or> (\<not> batch_result e \<and> evaluated x) then Some (OB_SUCCESS, fr1)
         else if \<not> evaluated x then do {
           (ret, fr2) \<leftarrow> eval_vector_start env e sz fr1;
           (if ret = OB_SUCCESS \<and> (batch_result e \<or> const_skip = 0)
            then eval_vector_run e (eval_func env e) rt_skip sz fr2 else Some (ret, fr2)) }
         else if bit_op_zero rt_skip (evaluated_flags x) sz (\<lambda>l r. NOT (l OR r))
         then Some (OB_SUCCESS, fr1)
         else eval_vector_run e (eval_func env e) rt_skip sz fr1)
      })"

subsection \<open>Bytes and words\<close>

lemma ucast_ucast_byte: "ucast (ucast (w :: 64 word) :: byte) = take_bit 8 w"
  by (rule bit_word_eqI) (auto simp: bit_ucast_iff bit_take_bit_iff)

lemma take_bit_byte_split: "take_bit (8 + n) (w :: 64 word) = take_bit 8 w OR push_bit 8 (take_bit n (drop_bit 8 w))"
  by (rule bit_word_eqI) (auto simp: bit_or_iff bit_take_bit_iff bit_push_bit_iff bit_drop_bit_eq)

lemma le_word_digits:
  "le_word (map (\<lambda>i. ucast (drop_bit (8 * i) v)) [k..<k + n]) = take_bit (8 * n) (drop_bit (8 * k) v)"
proof (induction n arbitrary: k)
  case (Suc n)
  have "[k..<k + Suc n] = k # [Suc k..<Suc k + n]" by (simp add: upt_conv_Cons)
  then have "le_word (map (\<lambda>i. ucast (drop_bit (8 * i) v)) [k..<k + Suc n]) =
      take_bit 8 (drop_bit (8 * k) v) OR push_bit 8 (take_bit (8 * n) (drop_bit (8 * Suc k) v))"
    using Suc.IH [of "Suc k"] by (simp only: list.map le_word.simps ucast_ucast_byte)
  also have "drop_bit (8 * Suc k) v = drop_bit 8 (drop_bit (8 * k) v)" by (simp add: drop_bit_drop_bit)
  finally show ?case using take_bit_byte_split [of "8 * n" "drop_bit (8 * k) v"] by (simp only: mult_Suc_right)
qed simp

text \<open>Reading back the bytes of a word.\<close>

lemma le_word_le_bytes: "le_word (le_bytes v) = v"
  using le_word_digits [of v 0 8] by (simp only: le_bytes_def add_0 mult_0_right drop_bit_0) (simp add: take_bit_word_eq_self)

end
