(* ===== verification/OB_Murmur_Hash.thy ===== *)
theory OB_Murmur_Hash
  imports OB_Expr_Frame
begin

unbundle bit_operations_syntax

text \<open>
  \<^verbatim>\<open>deps/oblib/src/lib/hash_func/murmur_hash.h\<close>: \<open>murmurhash64A\<close>, the hash of the keys of the schema managers. The
  eight-byte loads are little-endian.
\<close>

definition murmur_multiply :: "64 word" where
  "murmur_multiply = 0xc6a4a7935bd1e995"

definition murmur_mix :: "64 word \<Rightarrow> 64 word" where
  "murmur_mix val =
     (let val = val * murmur_multiply; val = val XOR drop_bit 47 val in val * murmur_multiply)"

text \<open>The loop over blocks of eight bytes: the hash and the bytes that are left.\<close>

function murmur_blocks :: "byte list \<Rightarrow> 64 word \<Rightarrow> 64 word \<times> byte list" where
  "murmur_blocks data ret =
     (if length data \<ge> 8
      then murmur_blocks (drop 8 data) ((ret XOR murmur_mix (le_word (take 8 data))) * murmur_multiply)
      else (ret, data))"
  by pat_completeness auto
termination
  by (relation "measure (\<lambda>(data, ret). length data)") auto

declare murmur_blocks.simps [simp del]

text \<open>The loop over the last bytes, from the last one down to the first, with \<open>len\<close> bytes left.\<close>

fun murmur_tail :: "byte list \<Rightarrow> nat \<Rightarrow> 64 word \<Rightarrow> 64 word" where
  "murmur_tail data2 0 ret = ret"
| "murmur_tail data2 (Suc len) ret =
     (let ret = ret XOR push_bit (len * 8) (ucast (data2 ! len));
          ret = (if len = 0 then ret * murmur_multiply else ret)
      in murmur_tail data2 len ret)"

definition murmurhash64A :: "byte list \<Rightarrow> 64 word \<Rightarrow> 64 word" where
  "murmurhash64A key seed =
     (let (ret, data2) = murmur_blocks key (seed XOR (of_nat (length key) * murmur_multiply));
          ret = murmur_tail data2 (length data2) ret;
          ret = ret XOR drop_bit 47 ret;
          ret = ret * murmur_multiply
      in ret XOR drop_bit 47 ret)"

section \<open>Distinct words have distinct hashes\<close>

lemma murmur_multiply_inj: "x * murmur_multiply = y * murmur_multiply \<longleftrightarrow> x = y"
proof
  assume "x * murmur_multiply = y * murmur_multiply"
  then have "x * (murmur_multiply * 6879827495036328381) = y * (murmur_multiply * 6879827495036328381)" by (simp add: mult.assoc [symmetric])
  moreover have "murmur_multiply * 6879827495036328381 = 1" by (simp add: murmur_multiply_def)
  ultimately show "x = y" by simp
qed simp

lemma xorshift_involution: "(x XOR drop_bit 47 x) XOR drop_bit 47 (x XOR drop_bit 47 x) = (x :: 64 word)"
  by (rule bit_word_eqI) (auto simp: bit_xor_iff bit_drop_bit_eq dest: bit_imp_le_length)

lemma xorshift_inj: "x XOR drop_bit 47 x = y XOR drop_bit 47 y \<longleftrightarrow> x = (y :: 64 word)"
  using xorshift_involution [of x] xorshift_involution [of y] by metis

lemma xor_left_inj: "a XOR x = a XOR y \<longleftrightarrow> x = (y :: 64 word)"
proof -
  have "a XOR (a XOR z) = z" for z :: "64 word" by (simp add: xor.assoc [symmetric])
  note cancel = this
  show ?thesis
  proof
    assume "a XOR x = a XOR y"
    then have "a XOR (a XOR x) = a XOR (a XOR y)" by (rule arg_cong)
    then show "x = y" unfolding cancel .
  qed simp
qed

lemma murmurhash64A_word:
  "murmurhash64A (le_bytes v) seed =
    (let ret = ((seed XOR (8 * murmur_multiply)) XOR murmur_mix v) * murmur_multiply;
         ret = (ret XOR drop_bit 47 ret) * murmur_multiply
     in ret XOR drop_bit 47 ret)"
proof -
  have len: "length (le_bytes v) = 8" by (simp add: le_bytes_def)
  then have "murmur_blocks (le_bytes v) r = ((r XOR murmur_mix v) * murmur_multiply, [])" for r
    by (subst murmur_blocks.simps, subst murmur_blocks.simps) (simp add: le_word_le_bytes)
  then show ?thesis by (simp add: murmurhash64A_def len Let_def)
qed

text \<open>C27. Two different eight-byte keys never have the same \<open>murmurhash64A\<close>, whatever the seed: every step of the hash is a
  bijection of the 64-bit words. The hashes of two tenant ids, for one, do not collide.\<close>

theorem murmurhash64A_injective_on_words:
  "murmurhash64A (le_bytes v) seed = murmurhash64A (le_bytes w) seed \<longleftrightarrow> v = w"
  unfolding murmurhash64A_word murmur_mix_def Let_def
  by (simp only: murmur_multiply_inj xorshift_inj xor_left_inj)

end
