(* ===== verification/Python_UDF_Schema.thy ===== *)
theory Python_UDF_Schema
  imports OB_Prelude
begin

text \<open>
  \<^verbatim>\<open>src/share/schema/ob_python_udf.h\<close> and \<^verbatim>\<open>ob_python_udf.cpp\<close>: the schema of a python UDF
  (\<open>ObPythonUDF\<close>), the metadata an expression carries (\<open>ObPythonUDFMeta\<close>) and the textual encoding of argument
  names and types. The encoder is the one of \<^verbatim>\<open>ObCreatePythonUdfResolver\<close> (joined by commas).
\<close>

section \<open>Data\<close>

datatype py_udf_ret_type = UDF_UNINITIAL | STRING | INTEGER | REAL | DECIMAL

definition OB_INVALID_ID :: "64 word" where
  "OB_INVALID_ID = - 1"

definition OB_INVALID_VERSION :: int where
  "OB_INVALID_VERSION = - 1"

record python_udf =
  tenant_id :: "64 word"
  udf_id :: "64 word"
  name :: string
  model_name :: string
  arg_num :: int
  arg_names :: string
  arg_types :: string
  ret_type :: py_udf_ret_type
  pycall :: string
  schema_version :: int
  error_ret :: ob_ret

record python_udf_meta =
  meta_name :: string
  meta_ret :: py_udf_ret_type
  meta_pycall :: string
  udf_attributes_names :: "string list"
  udf_attributes_types :: "py_udf_ret_type list"
  meta_init :: bool
  meta_batch_size :: int
  meta_batch_size_const :: bool

definition python_udf_default :: python_udf where
  "python_udf_default =
     \<lparr>tenant_id = OB_INVALID_ID, udf_id = OB_INVALID_ID, name = '''', model_name = '''', arg_num = 0,
      arg_names = '''', arg_types = '''', ret_type = UDF_UNINITIAL, pycall = '''',
      schema_version = OB_INVALID_VERSION, error_ret = OB_SUCCESS\<rparr>"

definition python_udf_meta_default :: python_udf_meta where
  "python_udf_meta_default =
     \<lparr>meta_name = '''', meta_ret = UDF_UNINITIAL, meta_pycall = '''', udf_attributes_names = [],
      udf_attributes_types = [], meta_init = False, meta_batch_size = 256, meta_batch_size_const = False\<rparr>"

text \<open>\<open>ObPythonUDFMeta::assign\<close> and \<open>operator=\<close> copy every field.\<close>

definition meta_assign :: "python_udf_meta \<Rightarrow> python_udf_meta \<Rightarrow> python_udf_meta" where
  "meta_assign m other =
     m \<lparr>meta_name := meta_name other, meta_ret := meta_ret other, meta_pycall := meta_pycall other,
        udf_attributes_names := udf_attributes_names other, udf_attributes_types := udf_attributes_types other,
        meta_init := meta_init other, meta_batch_size := meta_batch_size other,
        meta_batch_size_const := meta_batch_size_const other\<rparr>"

section \<open>Operations of the schema object\<close>

text \<open>\<open>ObPythonUDF::reset\<close>: the model name, the UDF id, the argument count and the version stay.\<close>

definition python_udf_reset :: "python_udf \<Rightarrow> python_udf" where
  "python_udf_reset u =
     u \<lparr>tenant_id := OB_INVALID_ID, name := '''', arg_names := '''', arg_types := '''',
        ret_type := UDF_UNINITIAL, pycall := '''', error_ret := OB_SUCCESS\<rparr>"

text \<open>
  \<open>ObPythonUDF::operator=\<close>. The copies of the four strings are allocated one after the other; \<open>mem_ok\<close> says
  whether a copy of so many bytes succeeds. \<open>deep_copy_str\<close> refuses to copy into an object that carries an error. After a
  failure the rest is left empty and \<open>error_ret\<close> is set.
\<close>

definition deep_copy_str :: "(nat \<Rightarrow> bool) \<Rightarrow> ob_ret \<Rightarrow> string \<Rightarrow> ob_ret" where
  "deep_copy_str mem_ok err src =
     (if err \<noteq> OB_SUCCESS then err
      else if length src > 0 \<and> \<not> mem_ok (length src + 1) then OB_ALLOCATE_MEMORY_FAILED
      else OB_SUCCESS)"

definition python_udf_assign :: "(nat \<Rightarrow> bool) \<Rightarrow> python_udf \<Rightarrow> python_udf \<Rightarrow> python_udf" where
  "python_udf_assign mem_ok u other =
     (let copy = deep_copy_str mem_ok (error_ret other);
          u1 = (python_udf_reset u)
                 \<lparr>error_ret := error_ret other, tenant_id := tenant_id other, udf_id := udf_id other,
                  arg_num := arg_num other, schema_version := schema_version other, ret_type := ret_type other\<rparr>
      in if copy (name other) \<noteq> OB_SUCCESS then u1 \<lparr>error_ret := copy (name other)\<rparr>
         else let u2 = u1 \<lparr>name := name other\<rparr>
         in if copy (arg_names other) \<noteq> OB_SUCCESS then u2 \<lparr>error_ret := copy (arg_names other)\<rparr>
         else let u3 = u2 \<lparr>arg_names := arg_names other\<rparr>
         in if copy (arg_types other) \<noteq> OB_SUCCESS then u3 \<lparr>error_ret := copy (arg_types other)\<rparr>
         else let u4 = u3 \<lparr>arg_types := arg_types other\<rparr>
         in if copy (pycall other) \<noteq> OB_SUCCESS then u4 \<lparr>error_ret := copy (pycall other)\<rparr>
         else u4 \<lparr>pycall := pycall other\<rparr>)"

text \<open>A C string ends at the first zero byte.\<close>

definition c_str :: "string \<Rightarrow> string" where
  "c_str s = takeWhile (\<lambda>c. c \<noteq> CHR 0x00) s"

text \<open>
  The tokens of \<^verbatim>\<open>while (std::getline(ss, token, ','))\<close>: an empty token at the end of the stream is not
  delivered.
\<close>

function getline_tokens :: "string \<Rightarrow> string list" where
  "getline_tokens s =
     (if s = [] then []
      else takeWhile (\<lambda>c. c \<noteq> CHR '','') s #
           (case dropWhile (\<lambda>c. c \<noteq> CHR '','') s of [] \<Rightarrow> [] | c # rest \<Rightarrow> getline_tokens rest))"
  by pat_completeness auto
termination
proof (relation "measure length")
  fix s :: string and c rest
  assume "dropWhile (\<lambda>c. c \<noteq> CHR '','') s = c # rest"
  then have "length (c # rest) \<le> length s" by (metis length_dropWhile_le)
  then show "(rest, s) \<in> measure length" by simp
qed simp

declare getline_tokens.simps [simp del]

definition ret_type_of_token :: "string \<Rightarrow> py_udf_ret_type option" where
  "ret_type_of_token t =
     (if t = ''STRING'' then Some STRING
      else if t = ''INTEGER'' then Some INTEGER
      else if t = ''REAL'' then Some REAL
      else if t = ''DECIMAL'' then Some DECIMAL
      else None)"

definition get_arg_types_arr :: "python_udf \<Rightarrow> ob_ret \<times> py_udf_ret_type list" where
  "get_arg_types_arr u =
     (let arr = List.map_filter ret_type_of_token (getline_tokens (c_str (arg_types u)))
      in (if int (length arr) \<noteq> arg_num u then OB_ERR_UNEXPECTED else OB_SUCCESS, arr))"

text \<open>
  \<open>get_arg_names_arr\<close> stores pointers into the buffer of the local \<open>token\<close>, which is gone after the return: of the
  names only the lengths are defined.
\<close>

definition get_arg_names_arr :: "python_udf \<Rightarrow> ob_ret \<times> nat list" where
  "get_arg_names_arr u =
     (let arr = map length (getline_tokens (c_str (arg_names u)))
      in (if int (length arr) \<noteq> arg_num u then OB_ERR_UNEXPECTED else OB_SUCCESS, arr))"

text \<open>\<^verbatim>\<open>strstr\<close> and \<^verbatim>\<open>std::string::find\<close>: the first position of a pattern.\<close>

fun str_find :: "string \<Rightarrow> string \<Rightarrow> nat option" where
  "str_find pat [] = (if pat = [] then Some 0 else None)"
| "str_find pat (c # s) =
     (if take (length pat) (c # s) = pat then Some 0 else map_option Suc (str_find pat s))"

definition check_pycall :: "python_udf \<Rightarrow> ob_ret" where
  "check_pycall u =
     (if str_find ''pyinitial'' (c_str (pycall u)) = None then OB_INVALID_ARGUMENT
      else if str_find ''pyfun'' (c_str (pycall u)) = None then OB_INVALID_ARGUMENT
      else OB_SUCCESS)"

section \<open>Tokens\<close>

fun join_comma :: "string list \<Rightarrow> string" where
  "join_comma [] = ''''"
| "join_comma [t] = t"
| "join_comma (t # ts) = t @ '','' @ join_comma ts"

definition no_comma :: "string \<Rightarrow> bool" where
  "no_comma t \<longleftrightarrow> CHR '','' \<notin> set t"

lemma takeWhile_no_comma: "no_comma t \<Longrightarrow> takeWhile (\<lambda>c. c \<noteq> CHR '','') (t @ CHR '','' # s) = t"
  by (induction t) (auto simp: no_comma_def)

lemma dropWhile_no_comma: "no_comma t \<Longrightarrow> dropWhile (\<lambda>c. c \<noteq> CHR '','') (t @ CHR '','' # s) = CHR '','' # s"
  by (induction t) (auto simp: no_comma_def)

lemma getline_tokens_cons: "no_comma t \<Longrightarrow> getline_tokens (t @ CHR '','' # s) = t # getline_tokens s"
  by (subst getline_tokens.simps) (simp add: takeWhile_no_comma dropWhile_no_comma)

lemma getline_tokens_last: "no_comma t \<Longrightarrow> t \<noteq> [] \<Longrightarrow> getline_tokens t = [t]"
proof -
  assume "no_comma t" "t \<noteq> []"
  then have "takeWhile (\<lambda>c. c \<noteq> CHR '','') t = t" "dropWhile (\<lambda>c. c \<noteq> CHR '','') t = []"
    by (auto simp: no_comma_def takeWhile_eq_all_conv)
  then show ?thesis using \<open>t \<noteq> []\<close> by (subst getline_tokens.simps) (simp only: if_False list.case)
qed

text \<open>Parsing undoes joining when no token contains a comma and the last one is not empty.\<close>

lemma getline_tokens_join:
  "list_all no_comma ts \<Longrightarrow> ts = [] \<or> last ts \<noteq> [] \<Longrightarrow> getline_tokens (join_comma ts) = ts"
proof (induction ts rule: join_comma.induct)
  case 1
  show ?case by (simp add: getline_tokens.simps)
next
  case (2 t)
  then show ?case by (simp add: getline_tokens_last)
next
  case (3 t u us)
  then show ?case by (simp add: getline_tokens_cons)
qed

fun type_token :: "py_udf_ret_type \<Rightarrow> string" where
  "type_token UDF_UNINITIAL = ''''"
| "type_token STRING = ''STRING''"
| "type_token INTEGER = ''INTEGER''"
| "type_token REAL = ''REAL''"
| "type_token DECIMAL = ''DECIMAL''"

lemma ret_type_of_type_token: "t \<noteq> UDF_UNINITIAL \<Longrightarrow> ret_type_of_token (type_token t) = Some t"
  by (cases t) (simp_all add: ret_type_of_token_def)

lemma type_token_chars:
  "no_comma (type_token t)" "CHR 0x00 \<notin> set (type_token t)" "t \<noteq> UDF_UNINITIAL \<Longrightarrow> type_token t \<noteq> []"
  by (cases t; simp add: no_comma_def)+

lemma c_str_id: "CHR 0x00 \<notin> set s \<Longrightarrow> c_str s = s"
  by (auto simp: c_str_def takeWhile_eq_all_conv)

lemma set_join_comma: "set (join_comma ts) \<subseteq> insert (CHR '','') (\<Union> (set ` set ts))"
  by (induction ts rule: join_comma.induct) auto

lemma join_comma_no_nul: "(\<forall>t \<in> set ts. CHR 0x00 \<notin> set t) \<Longrightarrow> CHR 0x00 \<notin> set (join_comma ts)"
  using set_join_comma [of ts] by auto

lemma map_filter_type_tokens:
  "UDF_UNINITIAL \<notin> set ts \<Longrightarrow> List.map_filter ret_type_of_token (map type_token ts) = ts"
  by (induction ts) (auto simp: map_filter_simps ret_type_of_type_token)

lemma get_arg_types_arr_join:
  assumes "UDF_UNINITIAL \<notin> set ts" and "arg_types u = join_comma (map type_token ts)"
  shows "get_arg_types_arr u = (if int (length ts) \<noteq> arg_num u then OB_ERR_UNEXPECTED else OB_SUCCESS, ts)"
proof -
  have "CHR 0x00 \<notin> set (arg_types u)"
    unfolding assms(2) by (rule join_comma_no_nul) (auto simp: type_token_chars)
  moreover have "ts = [] \<or> type_token (last ts) \<noteq> []"
    using assms(1) last_in_set [of ts] by (metis type_token_chars(3))
  then have "getline_tokens (join_comma (map type_token ts)) = map type_token ts"
    by (intro getline_tokens_join) (auto simp: list_all_iff type_token_chars last_map)
  ultimately have "getline_tokens (c_str (arg_types u)) = map type_token ts"
    by (simp add: c_str_id assms(2))
  then show ?thesis using assms by (simp add: get_arg_types_arr_def Let_def map_filter_type_tokens)
qed

section \<open>Finding a pattern\<close>

lemma str_find_Some:
  "str_find pat s = Some i \<Longrightarrow> i \<le> length s \<and> take (length pat) (drop i s) = pat"
  by (induction s arbitrary: i) (auto split: if_splits)

lemma str_find_first:
  "str_find pat s = Some i \<Longrightarrow> j < i \<Longrightarrow> take (length pat) (drop j s) \<noteq> pat"
proof (induction s arbitrary: i j)
  case (Cons c s)
  then show ?case by (cases j) (auto split: if_splits)
qed (auto split: if_splits)

lemma str_find_None:
  "str_find pat s = None \<Longrightarrow> take (length pat) (drop j s) = pat \<Longrightarrow> j \<le> length s \<Longrightarrow> False"
proof (induction s arbitrary: j)
  case (Cons c s)
  then show ?case by (cases j) (auto split: if_splits)
qed (auto split: if_splits)

lemma str_find_occurs: "str_find pat s \<noteq> None \<longleftrightarrow> (\<exists>p q. s = p @ pat @ q)"
proof
  assume "str_find pat s \<noteq> None"
  then obtain i where "take (length pat) (drop i s) = pat" using str_find_Some [of pat s] by auto
  then have "s = take i s @ pat @ drop (length pat) (drop i s)" by (metis append_take_drop_id)
  then show "\<exists>p q. s = p @ pat @ q" by blast
next
  assume "\<exists>p q. s = p @ pat @ q"
  then obtain p q where s: "s = p @ pat @ q" by blast
  then have "take (length pat) (drop (length p) s) = pat" "length p \<le> length s" by simp_all
  then show "str_find pat s \<noteq> None" using str_find_None by blast
qed

section \<open>Properties\<close>

text \<open>C39. Parsing the argument types of a UDF undoes writing them as a comma separated list: every list of types comes
  back as it was, and the parser fails exactly when the recorded number of arguments is another one.\<close>

theorem arg_types_roundtrip:
  assumes "UDF_UNINITIAL \<notin> set ts" and "arg_types u = join_comma (map type_token ts)"
  shows "get_arg_types_arr u = (if int (length ts) \<noteq> arg_num u then OB_ERR_UNEXPECTED else OB_SUCCESS, ts)"
  by (rule get_arg_types_arr_join) (rule assms)+

theorem arg_types_roundtrip_witness:
  "get_arg_types_arr (python_udf_default \<lparr>arg_num := 2, arg_types := ''STRING,REAL''\<rparr>) = (OB_SUCCESS, [STRING, REAL])"
  using arg_types_roundtrip [of "[STRING, REAL]" "python_udf_default \<lparr>arg_num := 2, arg_types := ''STRING,REAL''\<rparr>"]
  by (simp add: python_udf_default_def)

text \<open>\<open>check_pycall\<close> accepts the code of a function exactly when both handler names occur in it, up to the first
  NUL.\<close>

lemma check_pycall_correct:
  "check_pycall u = OB_SUCCESS \<longleftrightarrow>
     (\<exists>p q. c_str (pycall u) = p @ ''pyinitial'' @ q) \<and> (\<exists>p q. c_str (pycall u) = p @ ''pyfun'' @ q)"
  unfolding str_find_occurs [symmetric] by (simp add: check_pycall_def)

end
