(* ===== verification/Python_UDF_Mgr.thy ===== *)
theory Python_UDF_Mgr
  imports OB_Hash_Map OB_Sorted_Vector OB_Murmur_Hash Python_UDF_Schema
    "HOL-Library.Char_ord" "HOL-Library.List_Lexorder" "HOL-Library.Product_Lexorder"
begin

text \<open>
  \<^verbatim>\<open>src/share/schema/ob_python_udf_mgr.h\<close> and \<^verbatim>\<open>ob_python_udf_mgr.cpp\<close>: the manager of the python UDF schemas of a schema
  version. It keeps every schema twice, in a vector sorted by tenant and name and in a hash map with the same key, and
  rebuilds the map when the sizes differ. The manager implements a finite map from (tenant, name) to schemas.

  The hash map reads the name of a schema as a C string, the vector reads all of it; \<open>names_ok\<close> is that they agree, that is
  that a name has no zero byte. \<open>mgr_env\<close> holds the outcomes of allocations and of the two products with a \<^verbatim>\<open>double\<close>
  of the hash map.
\<close>

section \<open>Keys\<close>

text \<open>\<open>ObString::compare\<close>: \<open>memcmp\<close> on the common length, then the lengths.\<close>

fun memcmp :: "string \<Rightarrow> string \<Rightarrow> nat \<Rightarrow> int" where
  "memcmp xs ys 0 = 0"
| "memcmp (x # xs) (y # ys) (Suc n) =
     (if x = y then memcmp xs ys n else of_char x - of_char y)"
| "memcmp xs ys (Suc n) = 0"

definition ob_string_compare :: "string \<Rightarrow> string \<Rightarrow> int" where
  "ob_string_compare a b =
     (let cmp = memcmp a b (min (length a) (length b))
      in if cmp = 0 then int (length a) - int (length b) else cmp)"

type_synonym udf_key = "64 word \<times> string"

text \<open>The operators of \<open>ObTenantPythonUdfId\<close>.\<close>

definition tenant_udf_id_less :: "udf_key \<Rightarrow> udf_key \<Rightarrow> bool" where
  "tenant_udf_id_less a b =
     (if fst a = fst b then ob_string_compare (snd a) (snd b) < 0 else fst a < fst b)"

definition tenant_udf_id_equal :: "udf_key \<Rightarrow> udf_key \<Rightarrow> bool" where
  "tenant_udf_id_equal a b \<longleftrightarrow> fst a = fst b \<and> ob_string_compare (snd a) (snd b) = 0"

definition tenant_udf_id_is_valid :: "udf_key \<Rightarrow> bool" where
  "tenant_udf_id_is_valid k \<longleftrightarrow> fst k \<noteq> OB_INVALID_ID \<and> length (snd k) \<noteq> 0"

definition string_bytes :: "string \<Rightarrow> byte list" where
  "string_bytes s = map of_char s"

text \<open>\<open>hash\<close> of \<open>ObPythonUDFHashWrapper\<close> and of \<open>ObTenantPythonUdfId\<close>.\<close>

definition udf_key_hash :: "udf_key \<Rightarrow> 64 word" where
  "udf_key_hash k = murmurhash64A (string_bytes (snd k)) (murmurhash64A (le_bytes (fst k)) 0)"

section \<open>The schema the manager keeps\<close>

record simple_udf =
  su_tenant_id :: "64 word"
  su_udf_id :: "64 word"
  su_udf_name :: string
  su_arg_num :: int
  su_arg_names :: string
  su_arg_types :: string
  su_ret :: py_udf_ret_type
  su_pycall :: string
  su_schema_version :: int
  su_error_ret :: ob_ret

definition simple_udf_default :: simple_udf where
  "simple_udf_default =
     \<lparr>su_tenant_id = OB_INVALID_ID, su_udf_id = OB_INVALID_ID, su_udf_name = '''', su_arg_num = 0, su_arg_names = '''',
      su_arg_types = '''', su_ret = UDF_UNINITIAL, su_pycall = '''', su_schema_version = OB_INVALID_VERSION,
      su_error_ret = OB_SUCCESS\<rparr>"

definition simple_udf_reset :: "simple_udf \<Rightarrow> simple_udf" where
  "simple_udf_reset u =
     u \<lparr>su_tenant_id := OB_INVALID_ID, su_udf_name := '''', su_arg_names := '''', su_arg_types := '''',
        su_ret := UDF_UNINITIAL, su_pycall := '''', su_error_ret := OB_SUCCESS\<rparr>"

definition simple_udf_is_valid :: "simple_udf \<Rightarrow> bool" where
  "simple_udf_is_valid u \<longleftrightarrow> \<not> (su_tenant_id u = OB_INVALID_ID \<or> su_schema_version u < 0 \<or> su_udf_name u = [])"

definition simple_udf_convert_size :: "nat \<Rightarrow> simple_udf \<Rightarrow> nat" where
  "simple_udf_convert_size sizeof_simple u =
     sizeof_simple + (length (su_udf_name u) + 1) + (length (su_arg_names u) + 1) +
     (length (su_arg_types u) + 1) + (length (su_pycall u) + 1)"

definition simple_udf_assign :: "(nat \<Rightarrow> bool) \<Rightarrow> simple_udf \<Rightarrow> simple_udf \<Rightarrow> simple_udf" where
  "simple_udf_assign mem_ok u other =
     (let copy = deep_copy_str mem_ok (su_error_ret other);
          u1 = (simple_udf_reset u)
                 \<lparr>su_error_ret := su_error_ret other, su_tenant_id := su_tenant_id other, su_udf_id := su_udf_id other,
                  su_arg_num := su_arg_num other, su_schema_version := su_schema_version other, su_ret := su_ret other\<rparr>
      in if copy (su_udf_name other) \<noteq> OB_SUCCESS then u1 \<lparr>su_error_ret := copy (su_udf_name other)\<rparr>
         else let u2 = u1 \<lparr>su_udf_name := su_udf_name other\<rparr>
         in if copy (su_arg_names other) \<noteq> OB_SUCCESS then u2 \<lparr>su_error_ret := copy (su_arg_names other)\<rparr>
         else let u3 = u2 \<lparr>su_arg_names := su_arg_names other\<rparr>
         in if copy (su_arg_types other) \<noteq> OB_SUCCESS then u3 \<lparr>su_error_ret := copy (su_arg_types other)\<rparr>
         else let u4 = u3 \<lparr>su_arg_types := su_arg_types other\<rparr>
         in if copy (su_pycall other) \<noteq> OB_SUCCESS then u4 \<lparr>su_error_ret := copy (su_pycall other)\<rparr>
         else u4 \<lparr>su_pycall := su_pycall other\<rparr>)"

text \<open>
  \<open>ObSchemaUtils::alloc_schema\<close>. \<open>copy_assign\<close> looks for a member \<open>assign\<close> or \<open>get_copy_assign_ret\<close>, which the schema does not have:
  it calls \<open>operator=\<close> and returns \<open>OB_SUCCESS\<close>, whether or not the strings were copied.
\<close>

definition alloc_schema :: "(nat \<Rightarrow> bool) \<Rightarrow> nat \<Rightarrow> simple_udf \<Rightarrow> ob_ret \<times> simple_udf option" where
  "alloc_schema mem_ok sizeof_simple u =
     (if \<not> mem_ok sizeof_simple then (OB_ALLOCATE_MEMORY_FAILED, None)
      else (OB_SUCCESS, Some (simple_udf_assign mem_ok simple_udf_default u)))"

definition tenant_python_udf_id :: "simple_udf \<Rightarrow> udf_key" where
  "tenant_python_udf_id u = (su_tenant_id u, su_udf_name u)"

text \<open>\<open>ObGetPythonUDFKey\<close>: the name goes through a \<^verbatim>\<open>const char *\<close>.\<close>

definition udf_hash_key :: "simple_udf \<Rightarrow> udf_key" where
  "udf_hash_key u = (su_tenant_id u, c_str (su_udf_name u))"

definition compare_python_udf :: "simple_udf \<Rightarrow> simple_udf \<Rightarrow> bool" where
  "compare_python_udf lhs rhs = tenant_udf_id_less (tenant_python_udf_id lhs) (tenant_python_udf_id rhs)"

definition equal_python_udf :: "simple_udf \<Rightarrow> simple_udf \<Rightarrow> bool" where
  "equal_python_udf lhs rhs = tenant_udf_id_equal (tenant_python_udf_id lhs) (tenant_python_udf_id rhs)"

definition compare_with_tenant_python_udf_id :: "simple_udf \<Rightarrow> udf_key \<Rightarrow> bool" where
  "compare_with_tenant_python_udf_id lhs k = tenant_udf_id_less (tenant_python_udf_id lhs) k"

definition equal_to_tenant_python_udf_id :: "simple_udf \<Rightarrow> udf_key \<Rightarrow> bool" where
  "equal_to_tenant_python_udf_id lhs k = tenant_udf_id_equal (tenant_python_udf_id lhs) k"

section \<open>The manager\<close>

text \<open>The vector, the schemas and the hash map are allocated from different allocators.\<close>

record mgr_env =
  me_mem_ok :: "nat \<Rightarrow> bool"
  me_schema_ok :: "nat \<Rightarrow> bool"
  me_sizeof :: nat
  me_hash_alloc :: "nat \<Rightarrow> bool"
  me_load :: "nat \<Rightarrow> nat"
  me_ext :: "nat \<Rightarrow> nat"

definition udf_env :: "mgr_env \<Rightarrow> (udf_key, simple_udf) hash_env" where
  "udf_env me = \<lparr>he_hash = udf_key_hash, he_key = udf_hash_key, he_alloc = me_hash_alloc me, he_load = me_load me,
                 he_ext = me_ext me\<rparr>"

record udf_mgr =
  mg_inited :: bool
  mg_infos :: "simple_udf ob_vector"
  mg_map :: "simple_udf hash_map"

definition mgr_new :: udf_mgr where
  "mgr_new = \<lparr>mg_inited = False, mg_infos = vec_new, mg_map = hm_new\<rparr>"

definition mgr_init :: "mgr_env \<Rightarrow> udf_mgr \<Rightarrow> (ob_ret \<times> udf_mgr) option" where
  "mgr_init me mg =
     (if mg_inited mg then Some (OB_INIT_TWICE, mg)
      else do { (ret, m) \<leftarrow> hm_init (udf_env me) (mg_map mg);
                Some (ret, mg \<lparr>mg_map := m, mg_inited := (ret = OB_SUCCESS)\<rparr>) })"

definition mgr_reset :: "udf_mgr \<Rightarrow> udf_mgr" where
  "mgr_reset mg =
     (if \<not> mg_inited mg then mg else mg \<lparr>mg_infos := vec_clear (mg_infos mg), mg_map := hm_clear (mg_map mg)\<rparr>)"

text \<open>\<open>assign\<close>. The source does nothing when both objects are the same one; here they are two values.\<close>

definition mgr_assign :: "mgr_env \<Rightarrow> udf_mgr \<Rightarrow> udf_mgr \<Rightarrow> (ob_ret \<times> udf_mgr) option" where
  "mgr_assign me other mg =
     (if \<not> mg_inited mg then Some (OB_NOT_INIT, mg)
      else do { (ret, m) \<leftarrow> hm_assign (udf_env me) (mg_map other) (mg_map mg);
                let mg = mg \<lparr>mg_map := m\<rparr>
                in if ret \<noteq> OB_SUCCESS then Some (ret, mg)
                   else let (ret, v) = vec_assign (me_mem_ok me) (mg_infos other) (mg_infos mg)
                        in Some (ret, mg \<lparr>mg_infos := v\<rparr>) })"

definition get_python_udf_schema_with_name ::
  "mgr_env \<Rightarrow> 64 word \<Rightarrow> string \<Rightarrow> udf_mgr \<Rightarrow> (ob_ret \<times> simple_udf option) option" where
  "get_python_udf_schema_with_name me tenant nm mg =
     (if \<not> mg_inited mg then Some (OB_NOT_INIT, None)
      else if tenant = OB_INVALID_ID \<or> nm = [] then Some (OB_INVALID_ARGUMENT, None)
      else do { (ret, val) \<leftarrow> hm_get_refactored (udf_env me) (mg_map mg) (tenant, nm);
                Some (if ret \<noteq> OB_SUCCESS
                      then if ret = OB_HASH_NOT_EXIST then (OB_SUCCESS, None) else (ret, None)
                      else (OB_SUCCESS, case val of Some (Item u) \<Rightarrow> Some u | _ \<Rightarrow> None)) })"

definition rebuild_python_udf_hashmap ::
  "mgr_env \<Rightarrow> simple_udf ob_vector \<Rightarrow> simple_udf hash_map \<Rightarrow> (ob_ret \<times> simple_udf hash_map) option" where
  "rebuild_python_udf_hashmap me infos m =
     for_ret (\<lambda>u m. do { (ret, old, m) \<leftarrow> hm_set_refactored (udf_env me) (udf_hash_key u) (Item u) True m; Some (ret, m) })
       (vitems infos) (hm_clear m)"

text \<open>The check at the end of \<open>add_python_udf\<close> and \<open>del_python_udf\<close>; a failure of the rebuilding is only logged.\<close>

definition mgr_check_consistent :: "mgr_env \<Rightarrow> udf_mgr \<Rightarrow> udf_mgr option" where
  "mgr_check_consistent me mg =
     (if int (length (vitems (mg_infos mg))) \<noteq> hm_item_count (mg_map mg)
      then do { (tmp_ret, m) \<leftarrow> rebuild_python_udf_hashmap me (mg_infos mg) (mg_map mg); Some (mg \<lparr>mg_map := m\<rparr>) }
      else Some mg)"

definition add_python_udf :: "mgr_env \<Rightarrow> simple_udf \<Rightarrow> udf_mgr \<Rightarrow> (ob_ret \<times> udf_mgr) option" where
  "add_python_udf me u mg =
     do { (ret, mg) \<leftarrow>
            (if \<not> mg_inited mg then Some (OB_NOT_INIT, mg)
             else if \<not> simple_udf_is_valid u then Some (OB_INVALID_ARGUMENT, mg)
             else case alloc_schema (me_schema_ok me) (me_sizeof me) u of
                 (ret, None) \<Rightarrow> Some (if ret \<noteq> OB_SUCCESS then ret else OB_ERR_UNEXPECTED, mg)
               | (ret, Some new) \<Rightarrow>
                   do { (ret, pos, replaced, v) \<leftarrow>
                          sv_replace (me_mem_ok me) compare_python_udf equal_python_udf (Some new) (mg_infos mg);
                        let mg = mg \<lparr>mg_infos := v\<rparr>
                        in if ret \<noteq> OB_SUCCESS then Some (ret, mg)
                           else do { (ret, old, m) \<leftarrow>
                                       hm_set_refactored (udf_env me) (udf_hash_key new) (Item new) True (mg_map mg);
                                     Some (ret, mg \<lparr>mg_map := m\<rparr>) } });
          mg \<leftarrow> mgr_check_consistent me mg;
          Some (ret, mg) }"

definition del_python_udf :: "mgr_env \<Rightarrow> udf_key \<Rightarrow> udf_mgr \<Rightarrow> (ob_ret \<times> udf_mgr) option" where
  "del_python_udf me k mg =
     do { (ret, mg) \<leftarrow>
            (if \<not> tenant_udf_id_is_valid k then Some (OB_INVALID_ARGUMENT, mg)
             else case sv_remove_if compare_with_tenant_python_udf_id equal_to_tenant_python_udf_id k (mg_infos mg) of
                 (ret, removed, v) \<Rightarrow>
                   let mg = mg \<lparr>mg_infos := v\<rparr>
                   in if ret \<noteq> OB_SUCCESS then Some (ret, mg)
                      else case removed of
                          None \<Rightarrow> Some (OB_ERR_UNEXPECTED, mg)
                        | Some u \<Rightarrow>
                            do { (hash_ret, old, m) \<leftarrow> hm_erase_refactored (udf_env me) (udf_hash_key u) (mg_map mg);
                                 Some (if hash_ret \<noteq> OB_SUCCESS then OB_ERR_UNEXPECTED else OB_SUCCESS, mg \<lparr>mg_map := m\<rparr>) });
          mg \<leftarrow> mgr_check_consistent me mg;
          Some (ret, mg) }"

definition add_python_udfs :: "mgr_env \<Rightarrow> simple_udf list \<Rightarrow> udf_mgr \<Rightarrow> (ob_ret \<times> udf_mgr) option" where
  "add_python_udfs me us mg = for_ret (add_python_udf me) us mg"

definition mgr_deep_copy :: "mgr_env \<Rightarrow> udf_mgr \<Rightarrow> udf_mgr \<Rightarrow> (ob_ret \<times> udf_mgr) option" where
  "mgr_deep_copy me other mg =
     (if \<not> mg_inited mg then Some (OB_NOT_INIT, mg)
      else for_ret (add_python_udf me) (vitems (mg_infos other)) (mgr_reset mg))"

text \<open>The array the schemas of a tenant are collected in is assumed to grow.\<close>

definition get_python_udf_schemas_in_tenant :: "64 word \<Rightarrow> udf_mgr \<Rightarrow> simple_udf list" where
  "get_python_udf_schemas_in_tenant tenant mg = filter (\<lambda>u. su_tenant_id u = tenant) (vitems (mg_infos mg))"

definition del_schemas_in_tenant :: "mgr_env \<Rightarrow> 64 word \<Rightarrow> udf_mgr \<Rightarrow> (ob_ret \<times> udf_mgr) option" where
  "del_schemas_in_tenant me tenant mg =
     (if tenant = OB_INVALID_ID then Some (OB_INVALID_ARGUMENT, mg)
      else for_ret (\<lambda>u. del_python_udf me (tenant, c_str (su_udf_name u)))
             (get_python_udf_schemas_in_tenant tenant mg) mg)"

text \<open>\<open>get_python_udf_schema\<close>: the last match; without one the caller's pointer \<open>udf_schema\<close> keeps its value.\<close>

fun get_python_udf_schema :: "64 word \<Rightarrow> simple_udf list \<Rightarrow> simple_udf option \<Rightarrow> simple_udf option" where
  "get_python_udf_schema i [] udf_schema = udf_schema"
| "get_python_udf_schema i (u # us) udf_schema =
     get_python_udf_schema i us (if i = su_udf_id u then Some u else udf_schema)"

definition get_python_udf_schema_count :: "udf_mgr \<Rightarrow> ob_ret \<times> nat option" where
  "get_python_udf_schema_count mg =
     (if \<not> mg_inited mg then (OB_NOT_INIT, None) else (OB_SUCCESS, Some (length (vitems (mg_infos mg)))))"

datatype schema_type = UDF_SCHEMA | PYTHON_UDF_SCHEMA

definition get_schema_statistics :: "mgr_env \<Rightarrow> udf_mgr \<Rightarrow> ob_ret \<times> schema_type \<times> nat \<times> nat" where
  "get_schema_statistics me mg =
     (if \<not> mg_inited mg then (OB_NOT_INIT, UDF_SCHEMA, 0, 0)
      else (OB_SUCCESS, UDF_SCHEMA, length (vitems (mg_infos mg)),
            sum_list (map (simple_udf_convert_size (me_sizeof me)) (vitems (mg_infos mg)))))"

section \<open>The order of the keys\<close>

lemma of_char_less: "(of_char x :: int) < of_char y \<longleftrightarrow> x < y"
  using of_nat_of_char [of x, where ?'a = int] of_nat_of_char [of y, where ?'a = int]
  by (metis less_char_def of_nat_less_iff)

lemma ob_string_compare_simps:
  "ob_string_compare [] b = - int (length b)" "ob_string_compare a [] = int (length a)"
  "ob_string_compare (x # a) (y # b) = (if x = y then ob_string_compare a b else of_char x - of_char y)"
  by (auto simp: ob_string_compare_def Let_def)

lemma memcmp_less: "(ob_string_compare a b < 0 \<longleftrightarrow> a < b) \<and> (ob_string_compare a b = 0 \<longleftrightarrow> a = b)"
proof (induction a arbitrary: b)
  case Nil
  then show ?case by (cases b) (auto simp: ob_string_compare_simps)
next
  case (Cons x a)
  then show ?case by (cases b) (auto simp: ob_string_compare_simps of_char_less)
qed

lemma tenant_udf_id_less_ok: "tenant_udf_id_less a b \<longleftrightarrow> a < b"
  by (cases a; cases b) (auto simp: tenant_udf_id_less_def memcmp_less)

lemma tenant_udf_id_equal_ok: "tenant_udf_id_equal a b \<longleftrightarrow> a = b"
  by (cases a; cases b) (auto simp: tenant_udf_id_equal_def memcmp_less)

lemmas udf_comparisons =
  compare_python_udf_def equal_python_udf_def compare_with_tenant_python_udf_id_def equal_to_tenant_python_udf_id_def
  tenant_udf_id_less_ok tenant_udf_id_equal_ok

lemma compare_funs:
  "compare_python_udf = (\<lambda>a b. tenant_python_udf_id a < tenant_python_udf_id b)"
  "equal_python_udf = (\<lambda>a b. tenant_python_udf_id a = tenant_python_udf_id b)"
  "compare_with_tenant_python_udf_id = (\<lambda>a k. tenant_python_udf_id a < k)"
  "equal_to_tenant_python_udf_id = (\<lambda>a k. tenant_python_udf_id a = k)"
  by (intro ext, simp add: udf_comparisons)+

section \<open>The invariant of the manager\<close>

definition names_ok :: "simple_udf \<Rightarrow> bool" where
  "names_ok u \<longleftrightarrow> CHR 0x00 \<notin> set (su_udf_name u)"

lemma hash_key_ok: "names_ok u \<Longrightarrow> udf_hash_key u = tenant_python_udf_id u"
  by (simp add: names_ok_def udf_hash_key_def tenant_python_udf_id_def c_str_id)

interpretation udf_pair: dictionary_pair
  "\<lambda>v. (\<forall>n. me_mem_ok me n) \<and> sv_inv tenant_python_udf_id v" "sv_look tenant_python_udf_id" tenant_python_udf_id
  "sv_put (me_mem_ok me) tenant_python_udf_id" "sv_del tenant_python_udf_id"
  "\<lambda>m. float_ok (udf_env me) \<and> (\<forall>n. he_alloc (udf_env me) n) \<and> hm_inv (udf_env me) m" "hm_look (udf_env me)"
  "he_key (udf_env me)" "hm_put (udf_env me)" "hm_del (udf_env me)"
  for me :: mgr_env ..

text \<open>The vector and the map agree: the relation of the contract, written out.\<close>

definition mgr_agree :: "mgr_env \<Rightarrow> simple_udf ob_vector \<Rightarrow> simple_udf hash_map \<Rightarrow> bool" where
  "mgr_agree me v m \<longleftrightarrow> (\<forall>n. me_mem_ok me n) \<and> sv_inv tenant_python_udf_id v \<and> float_ok (udf_env me) \<and>
     (\<forall>n. me_hash_alloc me n) \<and> hm_inv (udf_env me) m \<and> sv_look tenant_python_udf_id v = hm_look (udf_env me) m"

lemma udf_env_simps: "he_key (udf_env me) = udf_hash_key" "he_alloc (udf_env me) = me_hash_alloc me"
  by (simp_all add: udf_env_def)

lemma agree_iff: "udf_pair.agree me v m \<longleftrightarrow> mgr_agree me v m"
  unfolding udf_pair.agree_def unfolding mgr_agree_def udf_env_simps by blast

lemmas mgr_agree_put = udf_pair.agree_put [unfolded agree_iff, unfolded udf_env_simps]

definition mgr_inv :: "mgr_env \<Rightarrow> udf_mgr \<Rightarrow> bool" where
  "mgr_inv me mg \<longleftrightarrow> mg_inited mg \<and> mgr_agree me (mg_infos mg) (mg_map mg) \<and> (\<forall>u \<in> set (vitems (mg_infos mg)). names_ok u)"

definition mgr_look :: "udf_mgr \<Rightarrow> udf_key \<Rightarrow> simple_udf option" where
  "mgr_look mg = sv_look tenant_python_udf_id (mg_infos mg)"

lemma mgr_invD:
  assumes "mgr_inv me mg"
  shows "mg_inited mg" "mgr_agree me (mg_infos mg) (mg_map mg)" "sv_inv tenant_python_udf_id (mg_infos mg)"
    "hm_inv (udf_env me) (mg_map mg)" "hm_look (udf_env me) (mg_map mg) = mgr_look mg" "u \<in> set (vitems (mg_infos mg)) \<Longrightarrow> names_ok u"
    "me_mem_ok me n" "me_hash_alloc me n" "float_ok (udf_env me)"
  using assms by (auto simp: mgr_inv_def mgr_agree_def mgr_look_def)

text \<open>When the two agree they have the same size, and the check does nothing.\<close>

lemma check_consistent_ok:
  assumes "mgr_agree me (mg_infos mg) (mg_map mg)"
  shows "mgr_check_consistent me mg = Some mg"
proof -
  have "int (length (vitems (mg_infos mg))) = hm_item_count (mg_map mg)"
    using assms sv_size_card [of tenant_python_udf_id "mg_infos mg"] hm_item_count_ok [of "udf_env me" "mg_map mg"]
    by (auto simp: mgr_agree_def)
  then show ?thesis by (simp add: mgr_check_consistent_def)
qed

lemma simple_udf_assign_ok: "(\<And>n. mem_ok n) \<Longrightarrow> su_error_ret u = OB_SUCCESS \<Longrightarrow> simple_udf_assign mem_ok simple_udf_default u = u"
  by (simp add: simple_udf_assign_def deep_copy_str_def simple_udf_reset_def simple_udf_default_def)

lemma alloc_schema_ok: "(\<And>n. mem_ok n) \<Longrightarrow> su_error_ret u = OB_SUCCESS \<Longrightarrow> alloc_schema mem_ok sz u = (OB_SUCCESS, Some u)"
  by (simp add: alloc_schema_def simple_udf_assign_ok)

definition addable :: "simple_udf \<Rightarrow> bool" where
  "addable u \<longleftrightarrow> simple_udf_is_valid u \<and> names_ok u \<and> su_error_ret u = OB_SUCCESS"

lemma key_map_all:
  "(\<forall>u \<in> set vs. P u) \<longleftrightarrow> (\<forall>k u. key_map key vs k = Some u \<longrightarrow> P u)" if "distinct (map key vs)"
  using key_map_Some [OF that] by auto

lemma infos_all:
  assumes "sv_inv tenant_python_udf_id v"
  shows "(\<forall>u \<in> set (vitems v). P u) \<longleftrightarrow> (\<forall>k u. sv_look tenant_python_udf_id v k = Some u \<longrightarrow> P u)"
  unfolding sv_look_def using assms by (intro key_map_all strict_keys_distinct) (simp add: sv_inv_def)

lemma add_copy_ok:
  assumes inv: "mgr_inv me mg" and u: "simple_udf_is_valid u" and c: "alloc_schema (me_schema_ok me) (me_sizeof me) u = (OB_SUCCESS, Some c)"
    and names: "names_ok c"
  shows "\<exists>mg'. add_python_udf me u mg = Some (OB_SUCCESS, mg') \<and> mgr_inv me mg' \<and>
    mgr_look mg' = (mgr_look mg)(tenant_python_udf_id c \<mapsto> c)"
proof -
  note D = mgr_invD [OF inv]
  have k: "udf_hash_key c = tenant_python_udf_id c" using names by (rule hash_key_ok)
  from mgr_agree_put [OF D(2) k] obtain v m where
    v: "sv_put (me_mem_ok me) tenant_python_udf_id c (mg_infos mg) = Some (OB_SUCCESS, v)"
    and m: "hm_put (udf_env me) c (mg_map mg) = Some (OB_SUCCESS, m)"
    and agree: "mgr_agree me v m"
    and look: "sv_look tenant_python_udf_id v = (mgr_look mg)(tenant_python_udf_id c \<mapsto> c)"
    unfolding mgr_look_def by blast
  let ?mg = "mg \<lparr>mg_infos := v, mg_map := m\<rparr>"
  have "add_python_udf me u mg = Some (OB_SUCCESS, ?mg)"
    using u v m D(1) c k check_consistent_ok [of me ?mg] agree
    by (auto simp: add_python_udf_def compare_funs sv_put_def hm_put_def udf_env_simps Let_def)
  moreover have "\<forall>u \<in> set (vitems v). names_ok u"
  proof (subst infos_all)
    show "sv_inv tenant_python_udf_id v" using agree by (simp add: mgr_agree_def)
    show "\<forall>k w. sv_look tenant_python_udf_id v k = Some w \<longrightarrow> names_ok w"
      using names D(6) infos_all [OF D(3), of names_ok] unfolding look mgr_look_def by auto
  qed
  ultimately show ?thesis using agree look D(1) by (auto simp: mgr_inv_def mgr_look_def)
qed

lemma add_python_udf_ok:
  assumes "mgr_inv me mg" "addable u" "\<And>n. me_schema_ok me n"
  shows "\<exists>mg'. add_python_udf me u mg = Some (OB_SUCCESS, mg') \<and> mgr_inv me mg' \<and>
    mgr_look mg' = (mgr_look mg)(tenant_python_udf_id u \<mapsto> u)"
  using assms alloc_schema_ok [of "me_schema_ok me" u "me_sizeof me"] by (intro add_copy_ok) (auto simp: addable_def)

lemma mgr_look_key: "mgr_inv me mg \<Longrightarrow> mgr_look mg k = Some u \<Longrightarrow> tenant_python_udf_id u = k \<and> names_ok u"
  using mgr_invD(6) [of me mg u] by (auto simp: mgr_look_def sv_look_def dest!: key_map_SomeD)

lemma del_python_udf_ok:
  assumes inv: "mgr_inv me mg" and k: "tenant_udf_id_is_valid k"
  shows "\<exists>mg'. del_python_udf me k mg = Some (if mgr_look mg k = None then OB_ENTRY_NOT_EXIST else OB_SUCCESS, mg') \<and>
    mgr_inv me mg' \<and> mgr_look mg' = (mgr_look mg)(k := None)"
proof -
  note D = mgr_invD [OF inv]
  from sv_remove_ok [OF D(3), of k] obtain v where
    v: "sv_remove_if compare_with_tenant_python_udf_id equal_to_tenant_python_udf_id k (mg_infos mg) =
        (if mgr_look mg k = None then OB_ENTRY_NOT_EXIST else OB_SUCCESS, mgr_look mg k, v)"
      "sv_inv tenant_python_udf_id v" "sv_look tenant_python_udf_id v = (mgr_look mg)(k := None)"
    unfolding compare_funs mgr_look_def by blast
  from hm_erase_ok [OF D(4), of k] obtain old m where
    m: "hm_erase_refactored (udf_env me) k (mg_map mg) =
        Some (if mgr_look mg k = None then OB_HASH_NOT_EXIST else OB_SUCCESS, old, m)"
      "hm_inv (udf_env me) m" "hm_look (udf_env me) m = (mgr_look mg)(k := None)"
    unfolding D(5) by blast
  have names: "\<forall>u \<in> set (vitems v). names_ok u"
    unfolding infos_all [OF v(2)] v(3) using D(6) infos_all [OF D(3), of names_ok] unfolding mgr_look_def by auto
  show ?thesis
  proof (cases "mgr_look mg k")
    case None
    let ?mg = "mg \<lparr>mg_infos := v\<rparr>"
    have agree: "mgr_agree me v (mg_map mg)"
      using D(2) v(2,3) None by (simp add: mgr_agree_def mgr_look_def fun_upd_idem)
    then have "del_python_udf me k mg = Some (OB_ENTRY_NOT_EXIST, ?mg)"
      using k v(1) None check_consistent_ok [of me ?mg] by (simp add: del_python_udf_def Let_def)
    then show ?thesis using agree names v(3) None D(1) by (auto simp: mgr_inv_def mgr_look_def)
  next
    case (Some u)
    let ?mg = "mg \<lparr>mg_infos := v, mg_map := m\<rparr>"
    have agree: "mgr_agree me v m"
      using D(2) v(2,3) m(2,3) by (simp add: mgr_agree_def)
    have "udf_hash_key u = k" using mgr_look_key [OF inv Some] hash_key_ok by simp
    then have "del_python_udf me k mg = Some (OB_SUCCESS, ?mg)"
      using k v(1) m(1) Some agree check_consistent_ok [of me ?mg] by (simp add: del_python_udf_def Let_def)
    then show ?thesis using agree names v(3) Some D(1) by (auto simp: mgr_inv_def mgr_look_def)
  qed
qed

section \<open>Sequences of changes\<close>

definition me_ok :: "mgr_env \<Rightarrow> bool" where
  "me_ok me \<longleftrightarrow> (\<forall>n. me_mem_ok me n) \<and> (\<forall>n. me_schema_ok me n) \<and> (\<forall>n. me_hash_alloc me n) \<and> float_ok (udf_env me)"

lemma mgr_init_ok:
  assumes "me_ok me"
  shows "\<exists>mg. mgr_init me mgr_new = Some (OB_SUCCESS, mg) \<and> mgr_inv me mg \<and> mgr_look mg = Map.empty"
proof -
  from hm_init_ok [of "udf_env me"] assms obtain m where
    "hm_init (udf_env me) hm_new = Some (OB_SUCCESS, m)" "hm_inv (udf_env me) m" "hm_look (udf_env me) m = Map.empty"
    by (auto simp: me_ok_def udf_env_simps)
  then show ?thesis using assms
    by (auto simp: mgr_init_def mgr_new_def mgr_inv_def mgr_agree_def mgr_look_def sv_inv_empty me_ok_def)
      (simp add: vec_new_def)
qed

fun mgr_run :: "mgr_env \<Rightarrow> (udf_key, simple_udf) dict_op list \<Rightarrow> udf_mgr \<Rightarrow> udf_mgr option" where
  "mgr_run me [] mg = Some mg"
| "mgr_run me (Put u # ops) mg = do { (ret, mg) \<leftarrow> add_python_udf me u mg; mgr_run me ops mg }"
| "mgr_run me (Del k # ops) mg = do { (ret, mg) \<leftarrow> del_python_udf me k mg; mgr_run me ops mg }"

fun mgr_op_ok :: "(udf_key, simple_udf) dict_op \<Rightarrow> bool" where
  "mgr_op_ok (Put u) = addable u"
| "mgr_op_ok (Del k) = tenant_udf_id_is_valid k"

lemma mgr_run_ok:
  assumes "me_ok me"
  shows "mgr_inv me mg \<Longrightarrow> \<forall>opn \<in> set ops. mgr_op_ok opn \<Longrightarrow>
    \<exists>mg'. mgr_run me ops mg = Some mg' \<and> mgr_inv me mg' \<and> mgr_look mg' = fold (dict_spec tenant_python_udf_id) ops (mgr_look mg)"
proof (induction ops arbitrary: mg)
  case (Cons opn ops)
  show ?case
  proof (cases opn)
    case (Put u)
    with Cons.prems add_python_udf_ok [of me mg u] assms obtain mg1 where
      "add_python_udf me u mg = Some (OB_SUCCESS, mg1)" "mgr_inv me mg1" "mgr_look mg1 = (mgr_look mg)(tenant_python_udf_id u \<mapsto> u)"
      by (auto simp: me_ok_def)
    with Cons.IH [of mg1] Cons.prems(2) Put show ?thesis by (simp del: fun_upd_apply)
  next
    case (Del k)
    with Cons.prems del_python_udf_ok [of me mg k] obtain ret mg1 where
      "del_python_udf me k mg = Some (ret, mg1)" "mgr_inv me mg1" "mgr_look mg1 = (mgr_look mg)(k := None)" by auto
    with Cons.IH [of mg1] Cons.prems(2) Del show ?thesis by (simp del: fun_upd_apply)
  qed
qed simp

lemma get_with_name_ok:
  assumes "mgr_inv me mg" "tenant \<noteq> OB_INVALID_ID" "nm \<noteq> []"
  shows "get_python_udf_schema_with_name me tenant nm mg = Some (OB_SUCCESS, mgr_look mg (tenant, nm))"
  using assms mgr_invD(1,5) [OF assms(1)] hm_get_ok [OF mgr_invD(4) [OF assms(1)], of "(tenant, nm)"]
  by (auto simp: get_python_udf_schema_with_name_def split: option.splits)

lemma infos_sorted: "mgr_inv me mg \<Longrightarrow> sorted_wrt (<) (map tenant_python_udf_id (vitems (mg_infos mg)))"
  using mgr_invD(3) [of me mg] by (simp add: sv_inv_def)

section \<open>Rebuilding, copies and deletion of a tenant\<close>

lemma rebuild_ok:
  assumes "float_ok (udf_env me)" "\<And>n. me_hash_alloc me n" "hm_inv (udf_env me) m" "sv_inv tenant_python_udf_id v"
    and names: "\<forall>u \<in> set (vitems v). names_ok u"
  shows "\<exists>m'. rebuild_python_udf_hashmap me v m = Some (OB_SUCCESS, m') \<and> hm_inv (udf_env me) m' \<and>
    hm_look (udf_env me) m' = sv_look tenant_python_udf_id v"
proof -
  have keys: "map udf_hash_key (vitems v) = map tenant_python_udf_id (vitems v)" using names hash_key_ok by simp
  have "key_map udf_hash_key (vitems v) k = key_map tenant_python_udf_id (vitems v) k" for k
    using names hash_key_ok unfolding key_map_def by (intro find_cong) auto
  then have look: "key_map udf_hash_key (vitems v) = sv_look tenant_python_udf_id v" by (auto simp: sv_look_def)
  have "distinct (map udf_hash_key (vitems v))"
    unfolding keys using assms(4) by (intro strict_keys_distinct) (simp add: sv_inv_def)
  moreover have "float_ok (udf_env me) \<and> (\<forall>n. he_alloc (udf_env me) n) \<and> hm_inv (udf_env me) (hm_clear m)"
    using assms(1,2) hm_clear_ok(1) [OF assms(3)] by (simp add: udf_env_simps)
  ultimately obtain m' where "for_ret (hm_put (udf_env me)) (vitems v) (hm_clear m) = Some (OB_SUCCESS, m')"
    "hm_inv (udf_env me) m'" "hm_look (udf_env me) m' = key_map udf_hash_key (vitems v)"
    using udf_pair.refill [of me "hm_clear m" "vitems v"] hm_clear_ok(2) [OF assms(3)] unfolding udf_env_simps by blast
  moreover have "rebuild_python_udf_hashmap me v m = for_ret (hm_put (udf_env me)) (vitems v) (hm_clear m)"
    unfolding rebuild_python_udf_hashmap_def hm_put_def udf_env_simps
    by (intro for_ret_cong refl) (auto simp: map_option_case split: option.splits bind_splits)
  ultimately show ?thesis unfolding look by auto
qed

lemma reset_ok:
  assumes inv: "mgr_inv me mg"
  shows "mgr_inv me (mgr_reset mg)" "mgr_look (mgr_reset mg) = Map.empty"
  using mgr_invD [OF inv] hm_clear_ok [OF mgr_invD(4) [OF inv]] sv_inv_empty(1,3) [of tenant_python_udf_id "mg_infos mg"]
  by (auto simp: mgr_reset_def mgr_inv_def mgr_agree_def mgr_look_def) (simp add: vec_clear_def)

lemma add_all_ok:
  assumes "me_ok me" "mgr_inv me mg" "mgr_look mg = Map.empty" "\<forall>u \<in> set us. addable u" "distinct (map tenant_python_udf_id us)"
  shows "\<exists>mg'. for_ret (add_python_udf me) us mg = Some (OB_SUCCESS, mg') \<and> mgr_inv me mg' \<and>
    mgr_look mg' = key_map tenant_python_udf_id us"
proof -
  let ?I = "\<lambda>ds mg. mgr_inv me mg \<and> mgr_look mg = key_map tenant_python_udf_id ds"
  have "\<exists>mg'. for_ret (add_python_udf me) us mg = Some (OB_SUCCESS, mg') \<and> ?I us mg'"
  proof (rule for_ret_success)
    show "?I [] mg" using assms by simp
    fix ds u rest mg assume us: "us = ds @ u # rest" and I: "?I ds mg"
    from us assms(5) have "tenant_python_udf_id u \<notin> tenant_python_udf_id ` set (ds @ [])" by auto
    from key_map_insert [OF this] add_python_udf_ok [of me mg u] I us assms(1,4)
    show "\<exists>mg'. add_python_udf me u mg = Some (OB_SUCCESS, mg') \<and> ?I (ds @ [u]) mg'" by (auto simp: me_ok_def)
  qed
  then show ?thesis by blast
qed

lemma del_tenant_ok:
  assumes inv: "mgr_inv me mg" and t: "tenant \<noteq> OB_INVALID_ID" and names: "\<forall>u \<in> set (vitems (mg_infos mg)). su_udf_name u \<noteq> []"
  shows "\<exists>mg'. del_schemas_in_tenant me tenant mg = Some (OB_SUCCESS, mg') \<and> mgr_inv me mg' \<and>
    mgr_look mg' = (\<lambda>k. if fst k = tenant then None else mgr_look mg k)"
proof -
  let ?us = "get_python_udf_schemas_in_tenant tenant mg"
  let ?key = tenant_python_udf_id
  let ?I = "\<lambda>ds s. mgr_inv me s \<and> mgr_look s = (\<lambda>k. if k \<in> ?key ` set ds then None else mgr_look mg k)"
  have dist: "distinct (map ?key (vitems (mg_infos mg)))" using strict_keys_distinct [OF infos_sorted [OF inv]] .
  have us: "u \<in> set ?us \<longleftrightarrow> u \<in> set (vitems (mg_infos mg)) \<and> su_tenant_id u = tenant" for u
    by (auto simp: get_python_udf_schemas_in_tenant_def)
  have "\<exists>s'. for_ret (\<lambda>u. del_python_udf me (tenant, c_str (su_udf_name u))) ?us mg = Some (OB_SUCCESS, s') \<and> ?I ?us s'"
  proof (rule for_ret_success)
    show "?I [] mg" using inv by simp
    fix ds u rest s assume split: "?us = ds @ u # rest" and I: "?I ds s"
    then have u: "u \<in> set (vitems (mg_infos mg))" "su_tenant_id u = tenant" using us [of u] by auto
    have key: "(tenant, c_str (su_udf_name u)) = ?key u"
      using mgr_invD(6) [OF inv u(1)] u(2) by (simp add: tenant_python_udf_id_def names_ok_def c_str_id)
    have "distinct (map ?key ?us)" using dist unfolding get_python_udf_schemas_in_tenant_def by (rule distinct_map_filter)
    then have "?key u \<notin> ?key ` set ds" unfolding split by auto
    moreover have "mgr_look mg (?key u) = Some u" using u(1) key_map_Some [OF dist] by (simp add: mgr_look_def sv_look_def)
    ultimately have "mgr_look s (?key u) \<noteq> None" using I by simp
    moreover have "tenant_udf_id_is_valid (?key u)"
      using t u names by (auto simp: tenant_udf_id_is_valid_def tenant_python_udf_id_def)
    ultimately obtain s' where s': "del_python_udf me (?key u) s = Some (OB_SUCCESS, s')" "mgr_inv me s'"
      "mgr_look s' = (mgr_look s)(?key u := None)"
      using del_python_udf_ok [of me s "?key u"] I by auto
    then show "\<exists>s'. del_python_udf me (tenant, c_str (su_udf_name u)) s = Some (OB_SUCCESS, s') \<and> ?I (ds @ [u]) s'"
      unfolding key using I by (auto simp: fun_eq_iff)
  qed
  then obtain s' where s': "for_ret (\<lambda>u. del_python_udf me (tenant, c_str (su_udf_name u))) ?us mg = Some (OB_SUCCESS, s')"
    "mgr_inv me s'" "mgr_look s' = (\<lambda>k. if k \<in> ?key ` set ?us then None else mgr_look mg k)" by blast
  have "(if k \<in> ?key ` set ?us then None else mgr_look mg k) = (if fst k = tenant then None else mgr_look mg k)" for k
  proof (cases "mgr_look mg k")
    case (Some u)
    then have "u \<in> set (vitems (mg_infos mg))" "?key u = k" by (auto simp: mgr_look_def sv_look_def dest: key_map_SomeD)
    then show ?thesis using us by (auto simp: tenant_python_udf_id_def image_iff)
  qed auto
  with s' t show ?thesis by (auto simp: del_schemas_in_tenant_def)
qed

lemma mgr_assign_ok:
  assumes inv: "mgr_inv me mg" and other: "mgr_inv me other"
  shows "\<exists>mg'. mgr_assign me other mg = Some (OB_SUCCESS, mg') \<and> mgr_inv me mg' \<and> mgr_look mg' = mgr_look other"
proof -
  note D = mgr_invD [OF other]
  from hm_assign_ok [OF D(4), of "mg_map mg"] D(8) obtain m where
    "hm_assign (udf_env me) (mg_map other) (mg_map mg) = Some (OB_SUCCESS, m)" "hm_inv (udf_env me) m"
    "hm_look (udf_env me) m = mgr_look other" unfolding D(5) by (auto simp: udf_env_simps)
  moreover from vec_assign_ok [OF D(3), of "me_mem_ok me" "mg_infos mg"] D(7) obtain v where
    "vec_assign (me_mem_ok me) (mg_infos other) (mg_infos mg) = (OB_SUCCESS, v)" "sv_inv tenant_python_udf_id v"
    "vitems v = vitems (mg_infos other)" by blast
  ultimately show ?thesis using mgr_invD(1) [OF inv] D(6-9)
    by (auto simp: mgr_assign_def mgr_inv_def mgr_agree_def mgr_look_def sv_look_def Let_def)
qed

section \<open>Properties\<close>

definition ex_me :: mgr_env where
  "ex_me = \<lparr>me_mem_ok = (\<lambda>n. True), me_schema_ok = (\<lambda>n. True), me_sizeof = 200, me_hash_alloc = (\<lambda>n. True),
            me_load = (\<lambda>c. 7 * c div 10), me_ext = (\<lambda>n. 11 * n div 10)\<rparr>"

definition ex_schema :: "64 word \<Rightarrow> string \<Rightarrow> simple_udf" where
  "ex_schema t nm = simple_udf_default \<lparr>su_tenant_id := t, su_udf_name := nm, su_schema_version := 1\<rparr>"

lemma ex_me_ok: "me_ok ex_me" "me_ok (ex_me \<lparr>me_sizeof := n\<rparr>)"
  by (auto simp: me_ok_def ex_me_def float_ok_def udf_env_def)

lemma ex_schema_ok: "t \<noteq> - 1 \<Longrightarrow> nm \<noteq> [] \<Longrightarrow> CHR 0x00 \<notin> set nm \<Longrightarrow> addable (ex_schema t nm)"
  by (simp add: addable_def simple_udf_is_valid_def names_ok_def ex_schema_def simple_udf_default_def OB_INVALID_ID_def)

lemma ex_schema_key [simp]: "tenant_python_udf_id (ex_schema t nm) = (t, nm)"
  by (simp add: tenant_python_udf_id_def ex_schema_def)

text \<open>C3. The manager implements a finite map from (tenant, name) to schemas. After any sequence of additions of valid schemas and
  of deletions, starting from an initialised manager, a lookup by name returns exactly the schema a map would hold, the
  vector of schemas is strictly sorted by tenant and name, and the count is the number of schemas. In particular the vector and
  the hash map never diverge.\<close>

theorem udf_manager_refines_map:
  assumes "me_ok me" and "\<forall>opn \<in> set ops. mgr_op_ok opn"
  shows "\<exists>mg0 mg. mgr_init me mgr_new = Some (OB_SUCCESS, mg0) \<and> mgr_run me ops mg0 = Some mg \<and>
    (\<forall>tenant nm. tenant \<noteq> OB_INVALID_ID \<longrightarrow> nm \<noteq> [] \<longrightarrow>
       get_python_udf_schema_with_name me tenant nm mg =
         Some (OB_SUCCESS, fold (dict_spec tenant_python_udf_id) ops Map.empty (tenant, nm))) \<and>
    sorted_wrt (<) (map tenant_python_udf_id (vitems (mg_infos mg))) \<and>
    get_python_udf_schema_count mg =
      (OB_SUCCESS, Some (card (dom (fold (dict_spec tenant_python_udf_id) ops Map.empty))))"
proof -
  from mgr_init_ok [OF assms(1)] obtain mg0 where mg0: "mgr_init me mgr_new = Some (OB_SUCCESS, mg0)" "mgr_inv me mg0"
    "mgr_look mg0 = Map.empty" by blast
  from mgr_run_ok [OF assms(1) mg0(2) assms(2)] mg0(3) obtain mg where mg: "mgr_run me ops mg0 = Some mg" "mgr_inv me mg"
    "mgr_look mg = fold (dict_spec tenant_python_udf_id) ops Map.empty" by auto
  have "length (vitems (mg_infos mg)) = card (dom (mgr_look mg))"
    unfolding mgr_look_def by (rule sv_size_card [OF mgr_invD(3) [OF mg(2)]])
  then show ?thesis using mg0(1) mg get_with_name_ok [OF mg(2)] infos_sorted [OF mg(2)] mgr_invD(1) [OF mg(2)]
    by (auto simp: get_python_udf_schema_count_def)
qed

theorem udf_manager_refines_map_witness:
  "\<exists>mg0 mg. mgr_init ex_me mgr_new = Some (OB_SUCCESS, mg0) \<and>
     mgr_run ex_me [Put (ex_schema 1 ''f''), Put (ex_schema 1 ''g''), Del (1, ''f'')] mg0 = Some mg \<and>
     get_python_udf_schema_with_name ex_me 1 ''g'' mg = Some (OB_SUCCESS, Some (ex_schema 1 ''g'')) \<and>
     get_python_udf_schema_with_name ex_me 1 ''f'' mg = Some (OB_SUCCESS, None)"
proof -
  have "\<forall>opn \<in> set [Put (ex_schema 1 ''f''), Put (ex_schema 1 ''g''), Del (1, ''f'')]. mgr_op_ok opn"
    by (simp add: ex_schema_ok tenant_udf_id_is_valid_def OB_INVALID_ID_def)
  from udf_manager_refines_map [OF ex_me_ok(1) this] show ?thesis by (auto simp: OB_INVALID_ID_def)
qed

text \<open>A manager with two functions of tenant 1 and one of tenant 2, as a state the other examples start from.\<close>

lemma ex_mgr:
  "\<exists>mg. mgr_inv ex_me mg \<and>
     mgr_look mg = [(1, ''f'') \<mapsto> ex_schema 1 ''f'', (1, ''g'') \<mapsto> ex_schema 1 ''g'', (2, ''f'') \<mapsto> ex_schema 2 ''f'']"
proof -
  let ?ops = "[Put (ex_schema 1 ''f''), Put (ex_schema 1 ''g''), Put (ex_schema 2 ''f'')]"
  have ok: "\<forall>opn \<in> set ?ops. mgr_op_ok opn" by (simp add: ex_schema_ok)
  from mgr_init_ok [OF ex_me_ok(1)] obtain mg0 where "mgr_inv ex_me mg0" "mgr_look mg0 = Map.empty" by blast
  with mgr_run_ok [OF ex_me_ok(1) _ ok, of mg0] show ?thesis by auto
qed

lemma infos_names:
  "mgr_inv me mg \<Longrightarrow> (\<forall>u \<in> set (vitems (mg_infos mg)). P u) \<longleftrightarrow> (\<forall>k u. mgr_look mg k = Some u \<longrightarrow> P u)"
  unfolding mgr_look_def by (rule infos_all [OF mgr_invD(3)])

text \<open>C28. Dropping a tenant removes all of its functions and no function of another tenant, from the vector and from the hash
  map.\<close>

theorem tenant_deletion_exact:
  assumes "mgr_inv me mg" and "tenant \<noteq> OB_INVALID_ID" and "\<forall>u \<in> set (vitems (mg_infos mg)). su_udf_name u \<noteq> []"
  shows "\<exists>mg'. del_schemas_in_tenant me tenant mg = Some (OB_SUCCESS, mg') \<and> mgr_inv me mg' \<and>
    mgr_look mg' = (\<lambda>k. if fst k = tenant then None else mgr_look mg k)"
  using assms by (rule del_tenant_ok)

theorem tenant_deletion_exact_witness:
  "\<exists>mg mg'. mgr_look mg (1, ''f'') \<noteq> None \<and> del_schemas_in_tenant ex_me 1 mg = Some (OB_SUCCESS, mg') \<and>
     mgr_look mg' (1, ''f'') = None \<and> mgr_look mg' (2, ''f'') = Some (ex_schema 2 ''f'')"
proof -
  from ex_mgr obtain mg where mg: "mgr_inv ex_me mg"
    "mgr_look mg = [(1, ''f'') \<mapsto> ex_schema 1 ''f'', (1, ''g'') \<mapsto> ex_schema 1 ''g'', (2, ''f'') \<mapsto> ex_schema 2 ''f'']" by blast
  have "\<forall>u \<in> set (vitems (mg_infos mg)). su_udf_name u \<noteq> []"
    unfolding infos_names [OF mg(1)] mg(2) by (auto simp: ex_schema_def split: if_splits)
  from tenant_deletion_exact [OF mg(1) _ this, of 1] obtain mg' where
    "del_schemas_in_tenant ex_me 1 mg = Some (OB_SUCCESS, mg')" "mgr_look mg' = (\<lambda>k. if fst k = 1 then None else mgr_look mg k)"
    by (auto simp: OB_INVALID_ID_def)
  then show ?thesis by - (rule exI [of _ mg], rule exI [of _ mg'], simp add: mg(2))
qed

text \<open>C29. Rebuilding repairs the hash map: whatever objects it held, afterwards it holds exactly the schemas of the vector, and a
  manager with the rebuilt map satisfies the invariant.\<close>

theorem rebuild_repairs_hash_map:
  assumes "me_ok me" and "hm_inv (udf_env me) m" and "sv_inv tenant_python_udf_id v" and "\<forall>u \<in> set (vitems v). names_ok u"
  shows "\<exists>m'. rebuild_python_udf_hashmap me v m = Some (OB_SUCCESS, m') \<and>
    mgr_inv me \<lparr>mg_inited = True, mg_infos = v, mg_map = m'\<rparr>"
proof -
  have me: "float_ok (udf_env me)" "\<And>n. me_hash_alloc me n" "\<And>n. me_mem_ok me n" using assms(1) by (auto simp: me_ok_def)
  from rebuild_ok [OF me(1,2) assms(2-4)] obtain m' where
    "rebuild_python_udf_hashmap me v m = Some (OB_SUCCESS, m')" "hm_inv (udf_env me) m'"
    "hm_look (udf_env me) m' = sv_look tenant_python_udf_id v" by blast
  then show ?thesis using me assms(3,4) by (auto simp: mgr_inv_def mgr_agree_def)
qed

theorem rebuild_repairs_hash_map_witness:
  "\<exists>m m'. hm_look (udf_env ex_me) m = Map.empty \<and>
     rebuild_python_udf_hashmap ex_me \<lparr>vitems = [ex_schema 1 ''f'', ex_schema 1 ''g''], vcap = 2\<rparr> m = Some (OB_SUCCESS, m') \<and>
     mgr_inv ex_me \<lparr>mg_inited = True, mg_infos = \<lparr>vitems = [ex_schema 1 ''f'', ex_schema 1 ''g''], vcap = 2\<rparr>, mg_map = m'\<rparr>"
proof -
  from hm_init_ok [of "udf_env ex_me"] ex_me_ok(1) obtain m where
    m: "hm_inv (udf_env ex_me) m" "hm_look (udf_env ex_me) m = Map.empty" by (auto simp: me_ok_def udf_env_simps)
  have "sv_inv tenant_python_udf_id \<lparr>vitems = [ex_schema 1 ''f'', ex_schema 1 ''g''], vcap = 2\<rparr>"
    by (simp add: sv_inv_def less_char_def)
  from rebuild_repairs_hash_map [OF ex_me_ok(1) m(1) this] m(2) show ?thesis
    by - (rule exI [of _ m], auto simp: names_ok_def ex_schema_def)
qed

text \<open>C30. A copy of a manager answers like the original: \<open>assign\<close>, which shares the schemas, and \<open>deep_copy\<close>, which allocates
  them again, both end in a manager with the same functions.\<close>

theorem manager_copies_agree:
  assumes "me_ok me" and "mgr_inv me mg" and "mgr_inv me other" and "\<forall>u \<in> set (vitems (mg_infos other)). addable u"
  shows "\<exists>mg1 mg2. mgr_assign me other mg = Some (OB_SUCCESS, mg1) \<and> mgr_deep_copy me other mg = Some (OB_SUCCESS, mg2) \<and>
    mgr_inv me mg1 \<and> mgr_inv me mg2 \<and> mgr_look mg1 = mgr_look other \<and> mgr_look mg2 = mgr_look other"
proof -
  have "distinct (map tenant_python_udf_id (vitems (mg_infos other)))"
    using strict_keys_distinct [OF infos_sorted [OF assms(3)]] .
  from add_all_ok [OF assms(1) reset_ok [OF assms(2)] assms(4) this] mgr_assign_ok [OF assms(2,3)] mgr_invD(1) [OF assms(2)]
  show ?thesis by (auto simp: mgr_deep_copy_def mgr_look_def sv_look_def)
qed

theorem manager_copies_agree_witness:
  "\<exists>other mg1 mg2. mgr_look other (1, ''g'') = Some (ex_schema 1 ''g'') \<and> mgr_assign ex_me other other = Some (OB_SUCCESS, mg1) \<and>
     mgr_deep_copy ex_me other other = Some (OB_SUCCESS, mg2) \<and> mgr_look mg1 = mgr_look other \<and> mgr_look mg2 = mgr_look other"
proof -
  from ex_mgr obtain mg where mg: "mgr_inv ex_me mg"
    "mgr_look mg = [(1, ''f'') \<mapsto> ex_schema 1 ''f'', (1, ''g'') \<mapsto> ex_schema 1 ''g'', (2, ''f'') \<mapsto> ex_schema 2 ''f'']" by blast
  have "\<forall>u \<in> set (vitems (mg_infos mg)). addable u"
    unfolding infos_names [OF mg(1)] mg(2) by (auto simp: ex_schema_ok split: if_splits)
  from manager_copies_agree [OF ex_me_ok(1) mg(1,1) this] mg(2) show ?thesis by - (rule exI [of _ mg], auto)
qed

text \<open>C31. A schema whose strings could not be copied is stored nevertheless. When the copy of the name fails, \<open>add_python_udf\<close>
  reports success, stores a schema without a name, and the function itself is not found.\<close>

theorem failed_copy_goes_unnoticed:
  assumes "mgr_inv me mg" and "simple_udf_is_valid u" and "su_error_ret u = OB_SUCCESS" and "me_schema_ok me (me_sizeof me)"
    and "\<not> me_schema_ok me (length (su_udf_name u) + 1)"
  shows "\<exists>mg' c. add_python_udf me u mg = Some (OB_SUCCESS, mg') \<and> su_udf_name c = [] \<and>
    mgr_look mg' = (mgr_look mg)((su_tenant_id u, []) \<mapsto> c) \<and> mgr_look mg' (tenant_python_udf_id u) = mgr_look mg (tenant_python_udf_id u)"
proof -
  let ?c = "simple_udf_assign (me_schema_ok me) simple_udf_default u"
  have nm: "su_udf_name u \<noteq> []" using assms(2) by (simp add: simple_udf_is_valid_def)
  then have c: "su_udf_name ?c = []" "su_tenant_id ?c = su_tenant_id u"
    using assms(3,5) by (simp_all add: simple_udf_assign_def deep_copy_str_def simple_udf_reset_def)
  then have key: "tenant_python_udf_id ?c = (su_tenant_id u, [])" and ok: "names_ok ?c"
    by (simp_all add: tenant_python_udf_id_def names_ok_def)
  have "alloc_schema (me_schema_ok me) (me_sizeof me) u = (OB_SUCCESS, Some ?c)" using assms(4) by (simp add: alloc_schema_def)
  from add_copy_ok [OF assms(1,2) this ok] obtain mg' where
    "add_python_udf me u mg = Some (OB_SUCCESS, mg')" "mgr_look mg' = (mgr_look mg)((su_tenant_id u, []) \<mapsto> ?c)"
    unfolding key by blast
  then show ?thesis using c(1) nm by (auto simp: tenant_python_udf_id_def)
qed

theorem failed_copy_goes_unnoticed_witness:
  "\<exists>me mg mg'. add_python_udf me (ex_schema 1 ''f'') mg = Some (OB_SUCCESS, mg') \<and>
     mgr_look mg' (1, ''f'') = None \<and> mgr_look mg' (1, []) \<noteq> None"
proof -
  let ?me = "ex_me \<lparr>me_schema_ok := (\<lambda>n. n \<noteq> 2)\<rparr>"
  have "udf_env ?me = udf_env ex_me" by (simp add: udf_env_def)
  from mgr_init_ok [OF ex_me_ok(1)] obtain mg where mg: "mgr_inv ex_me mg" "mgr_look mg = Map.empty" by blast
  then have "mgr_inv ?me mg" unfolding mgr_inv_def mgr_agree_def \<open>udf_env ?me = udf_env ex_me\<close> by (simp add: ex_me_def)
  moreover have "simple_udf_is_valid (ex_schema 1 ''f'')" "su_error_ret (ex_schema 1 ''f'') = OB_SUCCESS"
    using ex_schema_ok [of 1 "''f''"] by (simp_all add: addable_def)
  moreover have "me_schema_ok ?me (me_sizeof ?me)" "\<not> me_schema_ok ?me (length (su_udf_name (ex_schema 1 ''f'')) + 1)"
    by (simp_all add: ex_me_def ex_schema_def)
  ultimately obtain mg' c where "add_python_udf ?me (ex_schema 1 ''f'') mg = Some (OB_SUCCESS, mg')"
    "mgr_look mg' = (mgr_look mg)((su_tenant_id (ex_schema 1 ''f''), []) \<mapsto> c)"
    using failed_copy_goes_unnoticed [of ?me mg "ex_schema 1 ''f''"] by blast
  then show ?thesis using mg(2)
    by - (rule exI [of _ ?me], rule exI [of _ mg], rule exI [of _ mg'], simp add: ex_schema_def)
qed

text \<open>The lookup by id scans the whole vector and returns the last schema with that id. Without one it succeeds as well and
  leaves whatever the caller's pointer held.\<close>

lemma lookup_by_id_may_be_stale:
  "get_python_udf_schema i us old =
     (case filter (\<lambda>u. su_udf_id u = i) us of [] \<Rightarrow> old | m # ms \<Rightarrow> Some (last (m # ms)))"
  by (induction us arbitrary: old) (auto split: list.splits)

end
