(* ===== verification/OB_Fixed_Array.thy ===== *)
theory OB_Fixed_Array
  imports OB_Prelude
begin

text \<open>
  \<^verbatim>\<open>deps/oblib/src/lib/container/ob_fixed_array.h\<close>: \<open>ObFixedArrayImpl\<close>, an array whose memory is
  allocated once. \<open>adata\<close> is \<open>None\<close> for \<^verbatim>\<open>NULL == data_\<close>; an element \<open>None\<close> of the memory is not
  constructed yet. \<open>mem_ok\<close> is the outcome of an allocation of so many bytes, \<open>esz\<close> is \<^verbatim>\<open>sizeof(T)\<close>.
  The elements are pointers, whose assignment does not fail.

  The contract (locale \<open>bounded_seq\<close>) is a sequence with a capacity: \<open>push_back\<close> appends while there is room and
  returns an error without a change after that.
\<close>

section \<open>The array\<close>

record 'a fixed_array =
  adata :: "'a option list option"
  acount :: nat
  ainit_cnt :: nat
  acapacity :: nat
  ahas_allocator :: bool
  acopy_assign_ret :: ob_ret

definition fa_empty :: "nat \<Rightarrow> 'a fixed_array" where
  "fa_empty item_count = \<lparr>adata = None, acount = 0, ainit_cnt = 0, acapacity = item_count,
                          ahas_allocator = True, acopy_assign_ret = OB_SUCCESS\<rparr>"

definition fa_init :: "(nat \<Rightarrow> bool) \<Rightarrow> nat \<Rightarrow> int \<Rightarrow> 'a fixed_array \<Rightarrow> ob_ret \<times> 'a fixed_array" where
  "fa_init mem_ok esz capacity a =
     (if capacity < 0 \<or> capacity > 4294967295 then (OB_INVALID_ARGUMENT, a)
      else if adata a \<noteq> None then (OB_INIT_TWICE, a)
      else if \<not> ahas_allocator a then (OB_ERR_UNEXPECTED, a)
      else if capacity = 0 then (OB_SUCCESS, a)
      else let real_capacity = (if acapacity a = 0 then nat capacity else acapacity a)
           in if \<not> mem_ok (real_capacity * esz) then (OB_ALLOCATE_MEMORY_FAILED, a)
              else (OB_SUCCESS, a \<lparr>adata := Some (replicate real_capacity None), acount := 0,
                                   ainit_cnt := 0, acapacity := real_capacity\<rparr>))"

definition fa_reserve :: "(nat \<Rightarrow> bool) \<Rightarrow> nat \<Rightarrow> int \<Rightarrow> 'a fixed_array \<Rightarrow> ob_ret \<times> 'a fixed_array" where
  "fa_reserve mem_ok esz capacity a =
     (let (ret, a) = (if capacity < 0 \<or> capacity > 4294967295 then (OB_INVALID_ARGUMENT, a)
                      else if adata a = None then fa_init mem_ok esz capacity a
                      else (OB_SUCCESS, a))
      in if ret = OB_SUCCESS \<and> capacity > int (acapacity a) then (OB_SIZE_OVERFLOW, a) else (ret, a))"

definition fa_push_back ::
  "(nat \<Rightarrow> bool) \<Rightarrow> nat \<Rightarrow> 'a \<Rightarrow> 'a fixed_array \<Rightarrow> (ob_ret \<times> 'a fixed_array) option" where
  "fa_push_back mem_ok esz obj a =
     (let (ret, a) = (if adata a = None
                      then if acapacity a > 0 then fa_reserve mem_ok esz (int (acapacity a)) a
                           else (OB_NOT_INIT, a)
                      else if acount a \<ge> acapacity a then (OB_SIZE_OVERFLOW, a)
                      else (OB_SUCCESS, a))
      in if ret \<noteq> OB_SUCCESS then Some (ret, a)
         else case adata a of
             None \<Rightarrow> None
           | Some d \<Rightarrow>
               if acount a < length d
               then Some (OB_SUCCESS,
                      a \<lparr>adata := Some (d[acount a := Some obj]), acount := acount a + 1,
                         ainit_cnt := (if acount a \<ge> ainit_cnt a then acount a + 1 else ainit_cnt a)\<rparr>)
               else None)"

definition fa_pop_back :: "'a fixed_array \<Rightarrow> 'a fixed_array" where
  "fa_pop_back a = (if acount a > 0 then a \<lparr>acount := acount a - 1\<rparr> else a)"

definition fa_nth :: "'a fixed_array \<Rightarrow> nat \<Rightarrow> 'a option" where
  "fa_nth a i = (case adata a of None \<Rightarrow> None | Some d \<Rightarrow> if i < length d then d ! i else None)"

definition fa_pop_back_obj :: "'a fixed_array \<Rightarrow> (ob_ret \<times> 'a option \<times> 'a fixed_array) option" where
  "fa_pop_back_obj a =
     (if acount a = 0 then Some (OB_ENTRY_NOT_EXIST, None, a)
      else do { x \<leftarrow> fa_nth a (acount a - 1); Some (OB_SUCCESS, Some x, a \<lparr>acount := acount a - 1\<rparr>) })"

definition fa_remove :: "int \<Rightarrow> 'a fixed_array \<Rightarrow> ob_ret \<times> 'a fixed_array" where
  "fa_remove idx a = (OB_NOT_IMPLEMENT, a)"

definition fa_at :: "'a fixed_array \<Rightarrow> int \<Rightarrow> (ob_ret \<times> 'a option) option" where
  "fa_at a idx =
     (if idx < 0 \<or> idx \<ge> int (acount a) then Some (OB_ARRAY_OUT_OF_RANGE, None)
      else do { x \<leftarrow> fa_nth a (nat idx); Some (OB_SUCCESS, Some x) })"

text \<open>\<open>destroy\<close>, and \<open>reset\<close> and \<open>reuse\<close> that call it.\<close>

definition fa_destroy :: "'a fixed_array \<Rightarrow> 'a fixed_array" where
  "fa_destroy a =
     (if \<not> ahas_allocator a then a
      else a \<lparr>adata := None, acount := 0, ainit_cnt := 0, acapacity := 0, acopy_assign_ret := OB_SUCCESS\<rparr>)"

definition fa_clear :: "'a fixed_array \<Rightarrow> 'a fixed_array" where
  "fa_clear a = a \<lparr>acount := 0\<rparr>"

text \<open>\<open>assign\<close> from another array, given by its elements.\<close>

definition fa_assign ::
  "(nat \<Rightarrow> bool) \<Rightarrow> nat \<Rightarrow> 'a list \<Rightarrow> 'a fixed_array \<Rightarrow> (ob_ret \<times> 'a fixed_array) option" where
  "fa_assign mem_ok esz other a =
     (let (ret, a) = (if adata a = None \<and> length other > 0 then fa_init mem_ok esz (int (length other)) a
                      else (OB_SUCCESS, fa_clear a))
      in if ret = OB_SUCCESS then for_ret (fa_push_back mem_ok esz) other a else Some (ret, a))"

text \<open>\<open>prepare_allocate\<close> constructs default elements up to the capacity, \<open>init_elem\<close> being \<^verbatim>\<open>T()\<close>.\<close>

definition fa_prepare_allocate ::
  "(nat \<Rightarrow> bool) \<Rightarrow> nat \<Rightarrow> 'a \<Rightarrow> bool \<Rightarrow> int \<Rightarrow> 'a fixed_array \<Rightarrow> (ob_ret \<times> 'a fixed_array) option" where
  "fa_prepare_allocate mem_ok esz init_elem keep_count capacity a =
     (let (ret, a) = (if capacity < 0 \<or> capacity > 4294967295 then (OB_INVALID_ARGUMENT, a)
                      else fa_reserve mem_ok esz capacity a);
          cap = nat capacity
      in if ret \<noteq> OB_SUCCESS then Some (ret, a)
         else if cap \<le> ainit_cnt a
         then Some (OB_SUCCESS, a \<lparr>acount := (if keep_count then acount a else max cap (acount a))\<rparr>)
         else case adata a of
             None \<Rightarrow> None
           | Some d \<Rightarrow>
               if cap \<le> length d
               then Some (OB_SUCCESS,
                      a \<lparr>adata := Some (take (ainit_cnt a) d @ replicate (cap - ainit_cnt a) (Some init_elem) @ drop cap d),
                         acount := (if keep_count then acount a else max cap (acount a)),
                         ainit_cnt := cap\<rparr>)
               else None)"

section \<open>Invariant and contents\<close>

definition fa_inv :: "'a fixed_array \<Rightarrow> bool" where
  "fa_inv a \<longleftrightarrow> acount a \<le> ainit_cnt a \<and>
     (case adata a of
        None \<Rightarrow> ainit_cnt a = 0
      | Some d \<Rightarrow> length d = acapacity a \<and> ainit_cnt a \<le> length d \<and> (\<forall>i < ainit_cnt a. d ! i \<noteq> None))"

definition fa_list :: "'a fixed_array \<Rightarrow> 'a list" where
  "fa_list a = (case adata a of None \<Rightarrow> [] | Some d \<Rightarrow> map the (take (acount a) d))"

lemma length_fa_list: "fa_inv a \<Longrightarrow> length (fa_list a) = acount a"
  by (auto simp: fa_inv_def fa_list_def split: option.splits)

lemma fa_nth_list: "fa_inv a \<Longrightarrow> i < acount a \<Longrightarrow> fa_nth a i = Some (fa_list a ! i)"
  by (auto simp: fa_inv_def fa_list_def fa_nth_def split: option.splits)

lemma fa_inv_empty: "fa_inv (fa_empty n)" "fa_list (fa_empty n) = []"
  by (simp_all add: fa_empty_def fa_inv_def fa_list_def)

lemma fa_init_inv: "fa_inv a \<Longrightarrow> fa_inv (snd (fa_init mem_ok esz c a))"
  by (auto simp: fa_init_def fa_inv_def Let_def split: option.splits)

lemma fa_reserve_inv: "fa_inv a \<Longrightarrow> fa_inv (snd (fa_reserve mem_ok esz c a))"
  using fa_init_inv [of a mem_ok esz c]
  by (auto simp: fa_reserve_def Let_def split: prod.splits if_splits)

lemma fa_init_success:
  "fa_init mem_ok esz c a = (OB_SUCCESS, a') \<Longrightarrow> fa_inv a \<Longrightarrow>
     fa_list a' = fa_list a \<and> (c \<noteq> 0 \<longrightarrow> adata a' \<noteq> None \<and> fa_list a' = [] \<and> acount a' = 0)"
  by (auto simp: fa_init_def fa_inv_def fa_list_def Let_def split: if_splits option.splits)

lemma fa_push_back_ready:
  assumes inv: "fa_inv a" and "adata a \<noteq> None"
  shows "fa_push_back mem_ok esz x a =
    (if acount a \<ge> acapacity a then Some (OB_SIZE_OVERFLOW, a)
     else Some (OB_SUCCESS, a \<lparr>adata := Some ((the (adata a))[acount a := Some x]), acount := acount a + 1,
                               ainit_cnt := max (ainit_cnt a) (acount a + 1)\<rparr>))"
  using assms by (auto simp: fa_push_back_def fa_inv_def split: option.splits)

lemma fa_push_back_step:
  assumes inv: "fa_inv a" and "adata a \<noteq> None" and "acount a < acapacity a"
  shows "\<exists>a'. fa_push_back mem_ok esz x a = Some (OB_SUCCESS, a') \<and> fa_inv a' \<and> adata a' \<noteq> None \<and>
           acapacity a' = acapacity a \<and> ahas_allocator a' = ahas_allocator a \<and> fa_list a' = fa_list a @ [x]"
proof -
  obtain d where d: "adata a = Some d" using assms(2) by blast
  have len: "acount a < length d" using inv d assms(3) by (simp add: fa_inv_def)
  let ?a = "a \<lparr>adata := Some (d[acount a := Some x]), acount := acount a + 1,
               ainit_cnt := max (ainit_cnt a) (acount a + 1)\<rparr>"
  have "fa_push_back mem_ok esz x a = Some (OB_SUCCESS, ?a)"
    using fa_push_back_ready [OF assms(1,2)] d assms(3) by simp
  moreover have "fa_inv ?a" using inv d len by (auto simp: fa_inv_def nth_list_update' max_def)
  moreover have "fa_list ?a = fa_list a @ [x]"
    using d len by (simp add: fa_list_def take_Suc_conv_app_nth)
  ultimately show ?thesis by auto
qed

section \<open>The contract\<close>

locale bounded_seq =
  fixes inv :: "'s \<Rightarrow> bool" and content :: "'s \<Rightarrow> 'e list" and room :: "'s \<Rightarrow> nat"
    and push :: "'e \<Rightarrow> 's \<Rightarrow> (ob_ret \<times> 's) option"
  assumes push_ok: "inv s \<Longrightarrow> length (content s) < room s \<Longrightarrow>
      \<exists>s'. push x s = Some (OB_SUCCESS, s') \<and> inv s' \<and> room s' = room s \<and> content s' = content s @ [x]"
    and push_full: "inv s \<Longrightarrow> room s \<le> length (content s) \<Longrightarrow>
      \<exists>ret. ret \<noteq> OB_SUCCESS \<and> push x s = Some (ret, s)"
begin

lemma push_all:
  "inv s \<Longrightarrow> length (content s) + length xs \<le> room s \<Longrightarrow>
   \<exists>s'. for_ret push xs s = Some (OB_SUCCESS, s') \<and> inv s' \<and> room s' = room s \<and> content s' = content s @ xs"
proof (induction xs arbitrary: s)
  case (Cons x xs)
  obtain s1 where s1: "push x s = Some (OB_SUCCESS, s1)" "inv s1" "room s1 = room s" "content s1 = content s @ [x]"
    using push_ok [of s x] Cons.prems by auto
  with Cons.IH [of s1] Cons.prems show ?case by auto
qed auto

lemma push_too_many:
  assumes "inv s" "length (content s) \<le> room s" "room s < length (content s) + length xs"
  shows "\<exists>ret s'. ret \<noteq> OB_SUCCESS \<and> for_ret push xs s = Some (ret, s') \<and> inv s' \<and>
           content s' = content s @ take (room s - length (content s)) xs"
  using assms
proof (induction xs arbitrary: s)
  case (Cons x xs)
  show ?case
  proof (cases "length (content s) < room s")
    case True
    obtain s1 where s1: "push x s = Some (OB_SUCCESS, s1)" "inv s1" "room s1 = room s" "content s1 = content s @ [x]"
      using push_ok [of s x] Cons.prems True by auto
    have "room s - length (content s) = Suc (room s - Suc (length (content s)))" using True by simp
    with Cons.IH [of s1] Cons.prems s1 True show ?thesis by auto
  next
    case False
    with push_full [of s x] Cons.prems show ?thesis by auto
  qed
qed auto

end

interpretation fa_seq: bounded_seq
  "\<lambda>a :: 'a fixed_array. fa_inv a \<and> adata a \<noteq> None" fa_list acapacity "fa_push_back mem_ok esz"
  for mem_ok esz
proof (unfold_locales, goal_cases)
  case (1 a x)
  then show ?case using fa_push_back_step [of a mem_ok esz x] by (auto simp: length_fa_list)
next
  case (2 a x)
  then show ?case using fa_push_back_ready [of a mem_ok esz x] by (auto simp: length_fa_list)
qed

section \<open>The property\<close>

text \<open>C38. A fixed array whose memory is allocated is a sequence of bounded length: pushing any list of elements appends
  as many of them as fit, keeps the invariant, and succeeds exactly when all of them fit; the array never grows and no
  write happens outside of it.\<close>

theorem fixed_array_refines_bounded_sequence:
  assumes "fa_inv a" "adata a \<noteq> None" "length (fa_list a) \<le> acapacity a"
  shows "\<exists>ret a'. for_ret (fa_push_back mem_ok esz) xs a = Some (ret, a') \<and> fa_inv a' \<and>
           fa_list a' = fa_list a @ take (acapacity a - length (fa_list a)) xs \<and>
           (ret = OB_SUCCESS \<longleftrightarrow> length (fa_list a) + length xs \<le> acapacity a)"
proof (cases "length (fa_list a) + length xs \<le> acapacity a")
  case True
  with fa_seq.push_all [of a xs mem_ok esz] assms show ?thesis by auto
next
  case False
  with fa_seq.push_too_many [of a xs mem_ok esz] assms show ?thesis by fastforce
qed

theorem fixed_array_refines_bounded_sequence_witness:
  "\<exists>ret a'. for_ret (fa_push_back (\<lambda>n. True) 8) [1, 2, 3 :: nat]
       \<lparr>adata = Some [None, None], acount = 0, ainit_cnt = 0, acapacity = 2, ahas_allocator = True,
        acopy_assign_ret = OB_SUCCESS\<rparr> = Some (ret, a') \<and>
     fa_list a' = [1, 2] \<and> ret \<noteq> OB_SUCCESS"
  using fixed_array_refines_bounded_sequence [of
      "\<lparr>adata = Some [None, None], acount = 0, ainit_cnt = 0, acapacity = 2, ahas_allocator = True,
        acopy_assign_ret = OB_SUCCESS\<rparr>"
      "\<lambda>n. True" 8 "[1, 2, 3 :: nat]"]
  by (simp add: fa_inv_def fa_list_def) fastforce

end
