(* ===== verification/Python_UDF_Col_Store.thy ===== *)
theory Python_UDF_Col_Store
  imports OB_Expr_Frame OB_Fixed_Array
begin

text \<open>
  \<open>ObColInputStore\<close> of \<^verbatim>\<open>src/sql/engine/python_udf_engine/ob_python_udf_op.cpp\<close>: the buffer of the
  columns the UDFs do not compute. Rows are saved without the filtered ones and loaded back in windows.

  \<open>mem_env\<close> is the memory allocator: whether an allocation of so many bytes succeeds and what fresh memory holds. Data
  copied with \<^verbatim>\<open>tmp_alloc_\<close> may not be read after the allocator is reset, so a reset turns the pointers
  of the buffered datums into pointers that must not be dereferenced.

  The lemmas show that saving appends the payloads of the active rows of a batch to every column and that loading a
  window writes exactly the saved payloads back into the frame.
\<close>

record mem_env =
  mem_ok :: "nat \<Rightarrow> bool"
  fresh_datum :: ob_datum
  fresh_int :: "32 word"
  fresh_double :: "64 word"
  sizeof_cell :: nat

definition sizeof_datum :: nat where
  "sizeof_datum = 12"

text \<open>
  The loops over the rows of a batch that skip the filtered ones:
  \<^verbatim>\<open>for (j = 0; j < brs.size_; ++j) if (!brs.skip_->at(j)) ...\<close>
\<close>

definition copy_rows ::
  "batch_rows \<Rightarrow> (nat \<Rightarrow> 's \<Rightarrow> (ob_ret \<times> 's) option) \<Rightarrow> 's \<Rightarrow> (ob_ret \<times> 's) option" where
  "copy_rows brs f st =
     for_ret (\<lambda>j st. if bv_at (skip brs) j then Some (OB_SUCCESS, st) else f j st) [0..<bsize brs] st"

text \<open>\<^verbatim>\<open>dst[dst_idx++] = v\<close>\<close>

definition put_next :: "'a \<Rightarrow> nat \<times> 'a list \<Rightarrow> (nat \<times> 'a list) option" where
  "put_next v st = (let (i, buf) = st in if i < length buf then Some (i + 1, buf[i := v]) else None)"

definition skip_cnt :: "batch_rows \<Rightarrow> nat" where
  "skip_cnt brs = accumulate_bit_cnt (skip brs) (bsize brs)"

text \<open>\<^verbatim>\<open>brs.size_ - brs.skip_->accumulate_bit_cnt(brs.size_)\<close>\<close>

definition brs_cnt :: "batch_rows \<Rightarrow> nat" where
  "brs_cnt brs = bsize brs - skip_cnt brs"

section \<open>ObColInputStore\<close>

record col_store =
  cs_exprs :: "ob_expr fixed_array"
  cs_datums :: "ob_datum list option fixed_array"
  cs_length :: int
  cs_batch_size :: int
  cs_saved_size :: nat
  cs_output_idx :: nat
  cs_inited :: bool

definition col_store_new :: col_store where
  "col_store_new = \<lparr>cs_exprs = fa_empty 0, cs_datums = fa_empty 0, cs_length = 0, cs_batch_size = 0,
                    cs_saved_size = 0, cs_output_idx = 0, cs_inited = False\<rparr>"

definition alloc_datums :: "mem_env \<Rightarrow> int \<Rightarrow> ob_datum list option" where
  "alloc_datums m len =
     (if mem_ok m (sizeof_datum * nat len) then Some (replicate (nat len) (fresh_datum m)) else None)"

definition col_init_expr ::
  "mem_env \<Rightarrow> int \<Rightarrow> ob_expr \<Rightarrow> col_store \<Rightarrow> (ob_ret \<times> col_store) option" where
  "col_init_expr m len e s =
     (case alloc_datums m len of
        None \<Rightarrow> Some (OB_INIT_FAIL, s)
      | Some buf \<Rightarrow> do {
          (ret, ex) \<leftarrow> fa_push_back (mem_ok m) 8 e (cs_exprs s);
          (if ret \<noteq> OB_SUCCESS then Some (OB_INIT_FAIL, s \<lparr>cs_exprs := ex\<rparr>)
           else do {
             (ret, ds) \<leftarrow> fa_push_back (mem_ok m) 8 (Some buf) (cs_datums s);
             Some (if ret \<noteq> OB_SUCCESS then OB_INIT_FAIL else OB_SUCCESS, s \<lparr>cs_exprs := ex, cs_datums := ds\<rparr>)
           })
        })"

definition col_init ::
  "mem_env \<Rightarrow> ob_expr list \<Rightarrow> int \<Rightarrow> int \<Rightarrow> col_store \<Rightarrow> (ob_ret \<times> col_store) option" where
  "col_init m exprs batch_size len s =
     do {
       let s1 = s \<lparr>cs_exprs := snd (fa_init (mem_ok m) 8 (int (length exprs)) (cs_exprs s)),
                   cs_datums := snd (fa_init (mem_ok m) 8 (int (length exprs)) (cs_datums s))\<rparr>;
       (ret, s2) \<leftarrow> for_ret (col_init_expr m len) exprs s1;
       Some (if ret = OB_SUCCESS
             then (ret, s2 \<lparr>cs_length := len, cs_batch_size := batch_size, cs_saved_size := 0,
                            cs_output_idx := 0, cs_inited := True\<rparr>)
             else (ret, s2))
     }"

definition drop_ptr :: "ob_datum \<Rightarrow> ob_datum" where
  "drop_ptr d = d \<lparr>dptr := None\<rparr>"

definition fa_map :: "('a \<Rightarrow> 'a) \<Rightarrow> 'a fixed_array \<Rightarrow> 'a fixed_array" where
  "fa_map f a = a \<lparr>adata := map_option (map (map_option f)) (adata a)\<rparr>"

text \<open>\<^verbatim>\<open>tmp_alloc_.reset()\<close>: the copies are gone.\<close>

definition col_tmp_reset :: "col_store \<Rightarrow> col_store" where
  "col_tmp_reset s = s \<lparr>cs_datums := fa_map (map_option (map drop_ptr)) (cs_datums s)\<rparr>"

definition col_free :: "col_store \<Rightarrow> ob_ret \<times> col_store" where
  "col_free s = (OB_SUCCESS, col_tmp_reset s)"

definition col_reuse :: "col_store \<Rightarrow> ob_ret \<times> col_store" where
  "col_reuse s = (OB_SUCCESS, (col_tmp_reset s) \<lparr>cs_saved_size := 0, cs_output_idx := 0\<rparr>)"

text \<open>The return value of \<open>push_back\<close> and a failed allocation are ignored.\<close>

definition col_reset_push ::
  "mem_env \<Rightarrow> int \<Rightarrow> ob_expr \<Rightarrow> ob_datum list option fixed_array \<Rightarrow> (ob_ret \<times> ob_datum list option fixed_array) option" where
  "col_reset_push m len e ds =
     do { (ret, ds') \<leftarrow> fa_push_back (mem_ok m) 8 (alloc_datums m len) ds; Some (OB_SUCCESS, ds') }"

definition col_reset :: "mem_env \<Rightarrow> int \<Rightarrow> col_store \<Rightarrow> (ob_ret \<times> col_store) option" where
  "col_reset m len s =
     (if len \<le> cs_length s then Some (OB_SUCCESS, snd (col_reuse s))
      else let (ret, s1) = col_free s
           in if ret \<noteq> OB_SUCCESS then Some (OB_ERR_UNEXPECTED, s1)
              else do {
                let ds0 = snd (fa_init (mem_ok m) 8 (int (acount (cs_exprs s1))) (fa_destroy (cs_datums s1)));
                (ret, ds) \<leftarrow> for_ret (col_reset_push m len) (fa_list (cs_exprs s1)) ds0;
                Some (OB_SUCCESS, s1 \<lparr>cs_datums := ds, cs_length := len, cs_saved_size := 0, cs_output_idx := 0\<rparr>)
              })"

definition fa_put :: "nat \<Rightarrow> 'a \<Rightarrow> 'a fixed_array \<Rightarrow> 'a fixed_array" where
  "fa_put i v a = a \<lparr>adata := map_option (\<lambda>d. d[i := Some v]) (adata a)\<rparr>"

definition col_overflow :: "col_store \<Rightarrow> batch_rows \<Rightarrow> bool" where
  "col_overflow s brs \<longleftrightarrow> int (cs_saved_size s + brs_cnt brs) > cs_length s"

text \<open>One row of \<open>save_batch\<close>: the return value of \<open>deep_copy\<close> is ignored.\<close>

definition save_batch_row ::
  "mem_env \<Rightarrow> bool \<Rightarrow> ob_datum list \<Rightarrow> nat \<Rightarrow> nat \<times> ob_datum list \<Rightarrow> (ob_ret \<times> nat \<times> ob_datum list) option" where
  "save_batch_row m is_const src j st =
     (let src_idx = (if is_const then 0 else j)
      in if length src \<le> src_idx then None
         else do { (ret, d) \<leftarrow> datum_deep_copy (mem_ok m) (src ! src_idx);
                   st' \<leftarrow> put_next d st;
                   Some (OB_SUCCESS, st') })"

definition col_save_batch ::
  "mem_env \<Rightarrow> batch_rows \<Rightarrow> frame \<times> col_store \<Rightarrow> (ob_ret \<times> frame \<times> col_store) option" where
  "col_save_batch m brs st0 =
     (let (fr0, s0) = st0
      in if col_overflow s0 brs then Some (OB_ERR_UNEXPECTED, st0)
         else do {
           (ret, fr1, s1) \<leftarrow> for_ret (\<lambda>i (fr, s). do {
               e \<leftarrow> fa_nth (cs_exprs s) i;
               (_, fr') \<leftarrow> cast_to_uniform e (bsize brs) fr;
               bufp \<leftarrow> fa_nth (cs_datums s) i;
               buf \<leftarrow> bufp;
               (ret, _, buf') \<leftarrow> copy_rows brs (save_batch_row m (is_const_expr e) (cells (fr' (expr_id e))))
                                 (cs_saved_size s, buf);
               Some (ret, fr', s \<lparr>cs_datums := fa_put i (Some buf') (cs_datums s)\<rparr>)
             }) [0..<acount (cs_exprs s0)] (fr0, s0);
           Some (if ret = OB_SUCCESS then (ret, fr1, s1 \<lparr>cs_saved_size := cs_saved_size s1 + brs_cnt brs\<rparr>)
                 else (ret, fr1, s1))
         })"

text \<open>One row of \<open>save_vector\<close>: the payload without the null flag. The null flag of the copy is not written.\<close>

definition save_vector_row ::
  "mem_env \<Rightarrow> expr_frame \<Rightarrow> nat \<Rightarrow> nat \<times> ob_datum list \<Rightarrow> (ob_ret \<times> nat \<times> ob_datum list) option" where
  "save_vector_row m x j st =
     do {
       (payload, copy_len) \<leftarrow> get_payload x j;
       (let (i, buf) = st
        in if length buf \<le> i then None
           else if copy_len = 0
           then Some (OB_SUCCESS, i + 1, buf[i := (buf ! i) \<lparr>dptr := None, dlen := 0\<rparr>])
           else if \<not> mem_ok m copy_len then Some (OB_ALLOCATE_MEMORY_FAILED, st)
           else do { bs \<leftarrow> read_bytes payload copy_len;
                     Some (OB_SUCCESS, i + 1, buf[i := (buf ! i) \<lparr>dptr := Some bs, dlen := copy_len\<rparr>]) })
     }"

definition save_vector_col ::
  "mem_env \<Rightarrow> batch_rows \<Rightarrow> frame \<Rightarrow> nat \<Rightarrow> col_store \<Rightarrow> (ob_ret \<times> col_store) option" where
  "save_vector_col m brs fr i s =
     do {
       e \<leftarrow> fa_nth (cs_exprs s) i;
       bufp \<leftarrow> fa_nth (cs_datums s) i;
       buf \<leftarrow> bufp;
       (ret, _, buf') \<leftarrow> copy_rows brs (save_vector_row m (fr (expr_id e))) (cs_saved_size s, buf);
       Some (ret, s \<lparr>cs_datums := fa_put i (Some buf') (cs_datums s)\<rparr>)
     }"

definition col_save_vector ::
  "mem_env \<Rightarrow> batch_rows \<Rightarrow> frame \<Rightarrow> col_store \<Rightarrow> (ob_ret \<times> col_store) option" where
  "col_save_vector m brs fr s =
     (if col_overflow s brs then Some (OB_ERR_UNEXPECTED, s)
      else do {
        (ret, s1) \<leftarrow> for_ret (save_vector_col m brs fr) [0..<acount (cs_exprs s)] s;
        Some (if ret = OB_SUCCESS then (ret, s1 \<lparr>cs_saved_size := cs_saved_size s1 + brs_cnt brs\<rparr>) else (ret, s1))
      })"

text \<open>\<open>load_batch\<close> assigns the datums, pointers included.\<close>

definition load_batch_col :: "nat \<Rightarrow> col_store \<Rightarrow> nat \<Rightarrow> frame \<Rightarrow> (ob_ret \<times> frame) option" where
  "load_batch_col load_size s i fr =
     do {
       e \<leftarrow> fa_nth (cs_exprs s) i;
       bufp \<leftarrow> fa_nth (cs_datums s) i;
       src \<leftarrow> bufp;
       (let x = fr (expr_id e)
        in if cs_output_idx s + load_size > length src \<or> load_size > length (cells x) then None
           else Some (OB_SUCCESS, fr(expr_id e :=
                  x \<lparr>cells := take load_size (drop (cs_output_idx s) src) @ drop load_size (cells x)\<rparr>)))
     }"

definition col_load_batch :: "nat \<Rightarrow> frame \<times> col_store \<Rightarrow> (ob_ret \<times> frame \<times> col_store) option" where
  "col_load_batch load_size st =
     (let (fr, s) = st
      in if cs_output_idx s + load_size > cs_saved_size s then Some (OB_ERR_UNEXPECTED, st)
         else do {
           (ret, fr1) \<leftarrow> for_ret (load_batch_col load_size s) [0..<acount (cs_exprs s)] fr;
           Some (OB_SUCCESS, fr1, s \<lparr>cs_output_idx := cs_output_idx s + load_size\<rparr>)
         })"

definition load_vector_row ::
  "ob_datum list \<Rightarrow> nat \<Rightarrow> nat \<Rightarrow> expr_frame \<Rightarrow> (ob_ret \<times> expr_frame) option" where
  "load_vector_row src output_idx j x =
     (if length src \<le> output_idx + j then None
      else do { x' \<leftarrow> set_payload j (dptr (src ! (output_idx + j))) (dlen (src ! (output_idx + j))) x;
                Some (OB_SUCCESS, x') })"

definition load_vector_col :: "nat \<Rightarrow> col_store \<Rightarrow> nat \<Rightarrow> frame \<Rightarrow> (ob_ret \<times> frame) option" where
  "load_vector_col load_size s i fr =
     do {
       e \<leftarrow> fa_nth (cs_exprs s) i;
       (_, fr1) \<leftarrow> init_vector e (get_default_res_format e) load_size True fr;
       bufp \<leftarrow> fa_nth (cs_datums s) i;
       src \<leftarrow> (if load_size = 0 then Some [] else bufp);
       (_, x) \<leftarrow> for_ret (load_vector_row src (cs_output_idx s)) [0..<load_size] (fr1 (expr_id e));
       Some (OB_SUCCESS, fr1(expr_id e := x))
     }"

definition col_load_vector :: "nat \<Rightarrow> frame \<times> col_store \<Rightarrow> (ob_ret \<times> frame \<times> col_store) option" where
  "col_load_vector load_size st =
     (let (fr, s) = st
      in if cs_output_idx s + load_size > cs_saved_size s then Some (OB_ERR_UNEXPECTED, st)
         else do {
           (ret, fr1) \<leftarrow> for_ret (load_vector_col load_size s) [0..<acount (cs_exprs s)] fr;
           Some (OB_SUCCESS, fr1, s \<lparr>cs_output_idx := cs_output_idx s + load_size\<rparr>)
         })"

section \<open>Rows of a batch\<close>

lemma copy_rows_active: "copy_rows brs f st = for_ret f (active_rows brs) st"
proof -
  have "for_ret (\<lambda>j st. if P j then Some (OB_SUCCESS, st) else f j st) xs st = for_ret f (filter (\<lambda>j. \<not> P j) xs) st"
    for P :: "nat \<Rightarrow> bool" and xs
    by (induction xs arbitrary: st) (auto split: option.splits)
  then show ?thesis by (simp add: copy_rows_def active_rows_def)
qed

lemma length_active_rows: "length (active_rows brs) = brs_cnt brs"
proof -
  have "card {i. i < bsize brs \<and> \<not> bv_at (skip brs) i} + card {i. i < bsize brs \<and> bv_at (skip brs) i} = bsize brs"
    by (subst card_Un_disjoint [symmetric]) (auto simp: Collect_disj_eq [symmetric] conj_disj_distribL [symmetric])
  moreover have "length (active_rows brs) = card {i. i < bsize brs \<and> \<not> bv_at (skip brs) i}"
    by (simp add: active_rows_def length_filter_conv_card cong: conj_cong)
  ultimately show ?thesis by (simp add: brs_cnt_def skip_cnt_def accumulate_bit_cnt_card)
qed

section \<open>Payloads\<close>

definition payload :: "ob_datum \<Rightarrow> byte list" where
  "payload d = (if dlen d = 0 then [] else case dptr d of None \<Rightarrow> [] | Some mem \<Rightarrow> take (dlen d) mem)"

definition readable :: "ob_datum \<Rightarrow> bool" where
  "readable d \<longleftrightarrow> dlen d = 0 \<or> (\<exists>mem. dptr d = Some mem \<and> dlen d \<le> length mem)"

definition cell_at :: "expr_frame \<Rightarrow> nat \<Rightarrow> ob_datum" where
  "cell_at x j = cells x ! (if vformat x = VEC_UNIFORM_CONST then 0 else j)"

definition rows_readable :: "expr_frame \<Rightarrow> nat list \<Rightarrow> bool" where
  "rows_readable x js \<longleftrightarrow> vformat x \<noteq> VEC_INVALID \<and>
     (\<forall>j \<in> set js. (if vformat x = VEC_UNIFORM_CONST then 0 else j) < length (cells x) \<and> readable (cell_at x j))"

lemma length_payload: "readable d \<Longrightarrow> length (payload d) = dlen d"
  by (auto simp: readable_def payload_def)

lemma read_bytes_payload: "readable d \<Longrightarrow> read_bytes (dptr d) (dlen d) = Some (payload d)"
  by (auto simp: readable_def payload_def read_bytes_def)

lemma save_vector_row_ok:
  assumes "rows_readable x [j]" and "i < length buf" and "\<And>n. mem_ok m n"
  shows "\<exists>d. save_vector_row m x j (i, buf) = Some (OB_SUCCESS, i + 1, buf[i := d]) \<and>
             readable d \<and> payload d = payload (cell_at x j)"
proof -
  have r: "readable (cell_at x j)" and g: "get_payload x j = Some (dptr (cell_at x j), dlen (cell_at x j))"
    using assms(1) by (auto simp: rows_readable_def get_payload_def cell_at_def Let_def)
  show ?thesis
  proof (cases "dlen (cell_at x j) = 0")
    case True
    with assms(2) show ?thesis
      by (auto simp: save_vector_row_def g readable_def payload_def
          intro!: exI [of _ "(buf ! i) \<lparr>dptr := None, dlen := 0\<rparr>"])
  next
    case False
    with assms(2,3) r length_payload [OF r] show ?thesis
      by (auto simp: save_vector_row_def g read_bytes_payload readable_def [of "_ \<lparr>dptr := _, dlen := _\<rparr>"]
          payload_def [of "_ \<lparr>dptr := _, dlen := _\<rparr>"]
          intro!: exI [of _ "(buf ! i) \<lparr>dptr := Some (payload (cell_at x j)), dlen := dlen (cell_at x j)\<rparr>"])
  qed
qed

text \<open>The rows of a buffer up to an index: all readable, with given payloads.\<close>

definition holds_rows :: "ob_datum list \<Rightarrow> byte list list \<Rightarrow> bool" where
  "holds_rows buf vs \<longleftrightarrow> length vs \<le> length buf \<and>
     (\<forall>k < length vs. readable (buf ! k) \<and> payload (buf ! k) = vs ! k)"

lemma holds_rows_snoc:
  assumes "holds_rows buf vs" "length vs < length buf" "readable d"
  shows "holds_rows (buf[length vs := d]) (vs @ [payload d])"
  using assms by (auto simp: holds_rows_def nth_append nth_list_update' less_Suc_eq)

lemma save_vector_rows_ok:
  assumes "rows_readable x js" and "holds_rows buf vs" and "length vs + length js \<le> length buf"
    and mem: "\<And>n. mem_ok m n"
  shows "\<exists>buf'. for_ret (save_vector_row m x) js (length vs, buf) = Some (OB_SUCCESS, length vs + length js, buf') \<and>
           length buf' = length buf \<and> holds_rows buf' (vs @ map (\<lambda>j. payload (cell_at x j)) js)"
  using assms(1-3)
proof (induction js arbitrary: vs buf)
  case (Cons j js)
  have r: "rows_readable x [j]" "rows_readable x js" using Cons.prems(1) by (auto simp: rows_readable_def)
  obtain d where d: "save_vector_row m x j (length vs, buf) = Some (OB_SUCCESS, length vs + 1, buf[length vs := d])"
    "readable d" "payload d = payload (cell_at x j)"
    using save_vector_row_ok [OF r(1), of "length vs" buf m] Cons.prems(3) mem by auto
  have "holds_rows (buf[length vs := d]) (vs @ [payload d])"
    using Cons.prems d by (intro holds_rows_snoc) auto
  from Cons.IH [OF r(2) this] Cons.prems(3) d show ?case by auto
qed simp

section \<open>Invariant and contents of the store\<close>

definition col_buf :: "col_store \<Rightarrow> nat \<Rightarrow> ob_datum list" where
  "col_buf s i = the (fa_list (cs_datums s) ! i)"

definition col_inv :: "ob_expr list \<Rightarrow> col_store \<Rightarrow> bool" where
  "col_inv es s \<longleftrightarrow>
     fa_inv (cs_exprs s) \<and> fa_list (cs_exprs s) = es \<and>
     fa_inv (cs_datums s) \<and> ahas_allocator (cs_datums s) \<and> acount (cs_datums s) = length es \<and>
     (\<forall>i < length es. fa_list (cs_datums s) ! i \<noteq> None \<and> int (length (col_buf s i)) = cs_length s) \<and>
     int (cs_saved_size s) \<le> cs_length s \<and> cs_output_idx s \<le> cs_saved_size s"

text \<open>\<open>col_rows s i vs\<close>: column \<open>i\<close> holds the rows \<open>vs\<close>.\<close>

definition col_rows :: "col_store \<Rightarrow> nat \<Rightarrow> byte list list \<Rightarrow> bool" where
  "col_rows s i vs \<longleftrightarrow> length vs = cs_saved_size s \<and> holds_rows (col_buf s i) vs"

lemma fa_put_inv:
  assumes "fa_inv a" "i < acount a"
  shows "fa_inv (fa_put i v a)" "fa_list (fa_put i v a) = (fa_list a)[i := v]" "acount (fa_put i v a) = acount a"
    "ahas_allocator (fa_put i v a) = ahas_allocator a"
proof -
  obtain d where d: "adata a = Some d" "i < length d" using assms by (auto simp: fa_inv_def split: option.splits)
  with assms show "fa_inv (fa_put i v a)"
    by (auto simp: fa_inv_def fa_put_def nth_list_update')
  have "take (acount a) (d[i := Some v]) = (take (acount a) d)[i := Some v]" by (simp add: take_update_swap)
  with d show "fa_list (fa_put i v a) = (fa_list a)[i := v]"
    by (simp add: fa_list_def fa_put_def map_update)
  show "acount (fa_put i v a) = acount a" "ahas_allocator (fa_put i v a) = ahas_allocator a"
    by (simp_all add: fa_put_def)
qed

lemma col_inv_count: "col_inv es s \<Longrightarrow> acount (cs_exprs s) = length es"
  using length_fa_list [of "cs_exprs s"] by (auto simp: col_inv_def)

lemma col_inv_nth:
  assumes "col_inv es s" "i < length es"
  shows "fa_nth (cs_exprs s) i = Some (es ! i)" "fa_nth (cs_datums s) i = Some (Some (col_buf s i))"
proof -
  show "fa_nth (cs_exprs s) i = Some (es ! i)"
    using assms fa_nth_list [of "cs_exprs s" i] col_inv_count [OF assms(1)] by (simp add: col_inv_def)
  show "fa_nth (cs_datums s) i = Some (Some (col_buf s i))"
    using assms fa_nth_list [of "cs_datums s" i] by (auto simp: col_inv_def col_buf_def)
qed

text \<open>Replacing the buffer of one column.\<close>

lemma col_put:
  assumes "col_inv es s" "i < length es" "length buf = length (col_buf s i)"
  defines "s' \<equiv> s \<lparr>cs_datums := fa_put i (Some buf) (cs_datums s)\<rparr>"
  shows "col_inv es s'" "col_buf s' k = (if k = i then buf else col_buf s k)"
proof -
  have a: "fa_inv (cs_datums s)" "i < acount (cs_datums s)" using assms(1,2) by (auto simp: col_inv_def)
  then have "length (fa_list (cs_datums s)) = length es" using assms(1) by (simp add: length_fa_list col_inv_def)
  then show buf: "col_buf s' k = (if k = i then buf else col_buf s k)" for k
    using assms(2) by (simp add: s'_def col_buf_def fa_put_inv [OF a])
  show "col_inv es s'"
    using assms(1-3) \<open>length (fa_list (cs_datums s)) = length es\<close>
    unfolding col_inv_def buf by (auto simp: s'_def fa_put_inv [OF a] nth_list_update')
qed

section \<open>Saving\<close>

lemma save_vector_col_ok:
  assumes inv: "col_inv es s" and i: "i < length es" and rows: "col_rows s i vs"
    and ov: "\<not> col_overflow s brs"
    and rd: "rows_readable (fr (expr_id (es ! i))) (active_rows brs)" and mem: "\<And>n. mem_ok m n"
  shows "\<exists>buf. save_vector_col m brs fr i s = Some (OB_SUCCESS, s \<lparr>cs_datums := fa_put i (Some buf) (cs_datums s)\<rparr>) \<and>
           length buf = length (col_buf s i) \<and>
           holds_rows buf (vs @ map (\<lambda>j. payload (cell_at (fr (expr_id (es ! i))) j)) (active_rows brs))"
proof -
  have "int (length (col_buf s i)) = cs_length s" using inv i by (auto simp: col_inv_def)
  then have "length vs + length (active_rows brs) \<le> length (col_buf s i)"
    using ov rows by (simp add: col_overflow_def col_rows_def length_active_rows)
  with rows mem obtain buf where
    "for_ret (save_vector_row m (fr (expr_id (es ! i)))) (active_rows brs) (length vs, col_buf s i) =
       Some (OB_SUCCESS, length vs + length (active_rows brs), buf)"
    "length buf = length (col_buf s i)"
    "holds_rows buf (vs @ map (\<lambda>j. payload (cell_at (fr (expr_id (es ! i))) j)) (active_rows brs))"
    using save_vector_rows_ok [OF rd, of "col_buf s i" vs m] by (auto simp: col_rows_def)
  with rows show ?thesis
    by (auto simp: save_vector_col_def col_inv_nth [OF inv i] copy_rows_active col_rows_def)
qed

lemma col_save_vector_ok:
  assumes inv: "col_inv es s" and rows: "\<And>i. i < length es \<Longrightarrow> col_rows s i (vs i)"
    and ov: "\<not> col_overflow s brs"
    and rd: "\<And>i. i < length es \<Longrightarrow> rows_readable (fr (expr_id (es ! i))) (active_rows brs)"
    and mem: "\<And>n. mem_ok m n"
  shows "\<exists>s'. col_save_vector m brs fr s = Some (OB_SUCCESS, s') \<and> col_inv es s' \<and>
           cs_length s' = cs_length s \<and> cs_saved_size s' = cs_saved_size s + brs_cnt brs \<and>
           cs_output_idx s' = cs_output_idx s \<and>
           (\<forall>i < length es. col_rows s' i (vs i @ map (\<lambda>j. payload (cell_at (fr (expr_id (es ! i))) j)) (active_rows brs)))"
proof -
  let ?new = "\<lambda>i. vs i @ map (\<lambda>j. payload (cell_at (fr (expr_id (es ! i))) j)) (active_rows brs)"
  define I where "I = (\<lambda>dn t. col_inv es t \<and> cs_length t = cs_length s \<and> cs_saved_size t = cs_saved_size s \<and>
      cs_output_idx t = cs_output_idx s \<and>
      (\<forall>i < length es. holds_rows (col_buf t i) (if i \<in> set dn then ?new i else vs i)))"
  have "\<exists>s1. for_ret (save_vector_col m brs fr) [0..<length es] s = Some (OB_SUCCESS, s1) \<and> I [0..<length es] s1"
  proof (rule for_ret_success)
    show "I [] s" using inv rows by (auto simp: I_def col_rows_def)
  next
    fix dn i rest t
    assume eq: "[0..<length es] = dn @ i # rest" and I: "I dn t"
    have i: "i < length es" and dn: "i \<notin> set dn" using upt_eq_append [OF eq] by auto
    have "col_rows t i (vs i)" using I i dn rows [OF i] by (auto simp: I_def col_rows_def)
    moreover have "\<not> col_overflow t brs" using I ov by (simp add: I_def col_overflow_def)
    ultimately obtain buf where
      b: "save_vector_col m brs fr i t = Some (OB_SUCCESS, t \<lparr>cs_datums := fa_put i (Some buf) (cs_datums t)\<rparr>)"
      "length buf = length (col_buf t i)" "holds_rows buf (?new i)"
      using save_vector_col_ok [of es t i "vs i" brs fr m] I i rd [OF i] mem by (auto simp: I_def)
    have "I (dn @ [i]) (t \<lparr>cs_datums := fa_put i (Some buf) (cs_datums t)\<rparr>)"
      using I b i col_put [of es t i buf] by (auto simp: I_def)
    with b show "\<exists>t'. save_vector_col m brs fr i t = Some (OB_SUCCESS, t') \<and> I (dn @ [i]) t'" by blast
  qed
  then obtain s1 where s1: "for_ret (save_vector_col m brs fr) [0..<length es] s = Some (OB_SUCCESS, s1)"
    "I [0..<length es] s1" by blast
  let ?s = "s1 \<lparr>cs_saved_size := cs_saved_size s1 + brs_cnt brs\<rparr>"
  have "col_save_vector m brs fr s = Some (OB_SUCCESS, ?s)"
    using s1 ov by (simp add: col_save_vector_def col_inv_count [OF inv])
  moreover have "col_inv es ?s"
    using s1 ov by (auto simp: I_def col_inv_def col_overflow_def col_buf_def)
  moreover have "\<forall>i < length es. col_rows ?s i (?new i)"
    using s1 rows by (auto simp: I_def col_rows_def length_active_rows col_buf_def)
  ultimately show ?thesis using s1 by (auto simp: I_def)
qed

section \<open>Loading\<close>

text \<open>
  \<open>frame_ok e x n\<close>: the frame of the expression has room for \<open>n\<close> rows. \<open>fits e v\<close>: the payload \<open>v\<close> goes into a
  cell of the expression: it has the length of the type, or it is not longer than the reserved buffer.
\<close>

definition frame_ok :: "ob_expr \<Rightarrow> expr_frame \<Rightarrow> nat \<Rightarrow> bool" where
  "frame_ok e x n \<longleftrightarrow> batch_result e \<and> datum_type e \<noteq> ObNullType \<and> n \<le> length (cells x) \<and> n \<le> length (reserve x) \<and>
     (\<forall>j < n. length (reserve x ! j) = res_buf_len e)"

definition fits :: "ob_expr \<Rightarrow> byte list \<Rightarrow> bool" where
  "fits e v \<longleftrightarrow> (if is_fixed_length_data e then length v = res_buf_len e else length v \<le> res_buf_len e)"

text \<open>A cell that is ready to take a payload, and one that holds it.\<close>

definition cell_ready :: "ob_expr \<Rightarrow> ob_datum \<Rightarrow> bool" where
  "cell_ready e d \<longleftrightarrow> (\<exists>mem. dptr d = Some mem \<and> length mem = res_buf_len e) \<and>
     (is_fixed_length_data e \<longrightarrow> dlen d = res_buf_len e)"

definition cell_holds :: "ob_datum \<Rightarrow> byte list \<Rightarrow> bool" where
  "cell_holds d v \<longleftrightarrow> readable d \<and> payload d = v \<and> \<not> dnull d"

lemma frame_ok_format: "frame_ok e x n \<Longrightarrow>
    get_default_res_format e = (if is_fixed_length_data e then VEC_FIXED else VEC_DISCRETE)"
  by (simp add: frame_ok_def get_default_res_format_def)

lemma fun_upd_eq [simp]: "(f(a := x) = f(a := y)) \<longleftrightarrow> x = y"
  by (metis fun_upd_same)

lemma init_vector_ok:
  assumes "frame_ok e (fr (expr_id e)) n"
  shows "\<exists>x. init_vector e (get_default_res_format e) n True fr = Some (OB_SUCCESS, fr(expr_id e := x)) \<and>
           vformat x = get_default_res_format e \<and> length (cells x) = length (cells (fr (expr_id e))) \<and>
           reserve x = reserve (fr (expr_id e)) \<and> projected x = projected (fr (expr_id e)) \<and>
           (\<forall>j < n. cell_ready e (cells x ! j))"
  using assms unfolding frame_ok_format [OF assms]
  by (auto simp: init_vector_def frame_ok_def map_cells_def to_reserve_def cell_ready_def Let_def)

lemma set_payload_ok:
  assumes "vformat x \<in> {VEC_FIXED, VEC_DISCRETE}" "(vformat x = VEC_FIXED) = is_fixed_length_data e"
    and "j < length (cells x)" "cell_ready e (cells x ! j)" and "readable d" "fits e (payload d)"
  shows "\<exists>d'. set_payload j (dptr d) (dlen d) x = Some (x \<lparr>cells := (cells x)[j := d']\<rparr>) \<and> cell_holds d' (payload d)"
proof -
  obtain mem where mem: "dptr (cells x ! j) = Some mem" "length mem = res_buf_len e"
    using assms(4) by (auto simp: cell_ready_def)
  have len: "length (payload d) = dlen d" and rb: "read_bytes (dptr d) (dlen d) = Some (payload d)"
    using assms(5) by (simp_all add: length_payload read_bytes_payload)
  show ?thesis
  proof (cases "dlen d = 0")
    case True
    then show ?thesis using assms mem rb len
      by (auto simp: set_payload_def Let_def cell_ready_def fits_def cell_holds_def readable_def payload_def)
  next
    case False
    let ?d = "(cells x ! j) \<lparr>dptr := Some (payload d @ drop (dlen d) mem), dlen := dlen d, dnull := False\<rparr>"
    have "dlen d \<le> length mem" using assms(6) mem len by (auto simp: fits_def split: if_splits)
    then have "set_payload j (dptr d) (dlen d) x = Some (x \<lparr>cells := (cells x)[j := ?d]\<rparr>)"
      using assms(1-4,6) mem rb len False by (auto simp: set_payload_def Let_def cell_ready_def fits_def)
    moreover have "cell_holds ?d (payload d)"
      using False len mem \<open>dlen d \<le> length mem\<close>
      by (auto simp: cell_holds_def readable_def payload_def [of ?d])
    ultimately show ?thesis by blast
  qed
qed

lemma load_vector_rows_ok:
  assumes fmt: "vformat x \<in> {VEC_FIXED, VEC_DISCRETE}" "(vformat x = VEC_FIXED) = is_fixed_length_data e"
    and n: "n \<le> length (cells x)" "\<forall>j < n. cell_ready e (cells x ! j)"
    and src: "holds_rows src vs" "idx + n \<le> length vs" "\<forall>j < n. fits e (vs ! (idx + j))"
  shows "\<exists>x'. for_ret (load_vector_row src idx) [0..<n] x = Some (OB_SUCCESS, x') \<and>
           vformat x' = vformat x \<and> length (cells x') = length (cells x) \<and> reserve x' = reserve x \<and>
           evaluated x' = evaluated x \<and> projected x' = projected x \<and>
           (\<forall>j < n. cell_holds (cells x' ! j) (vs ! (idx + j)))"
proof -
  define I where "I = (\<lambda>dn (y :: expr_frame). vformat y = vformat x \<and> length (cells y) = length (cells x) \<and> reserve y = reserve x \<and>
      evaluated y = evaluated x \<and> projected y = projected x \<and>
      (\<forall>j < n. if j \<in> set dn then cell_holds (cells y ! j) (vs ! (idx + j)) else cell_ready e (cells y ! j)))"
  have "\<exists>x'. for_ret (load_vector_row src idx) [0..<n] x = Some (OB_SUCCESS, x') \<and> I [0..<n] x'"
  proof (rule for_ret_success)
    show "I [] x" using n by (simp add: I_def)
  next
    fix dn j rest y
    assume eq: "[0..<n] = dn @ j # rest" and I: "I dn y"
    have j: "j < n" and dn: "j \<notin> set dn" using upt_eq_append [OF eq] by auto
    let ?d = "src ! (idx + j)"
    have d: "readable ?d" "payload ?d = vs ! (idx + j)" "idx + j < length src"
      using src j by (auto simp: holds_rows_def)
    have ready: "cell_ready e (cells y ! j)" using I j dn by (auto simp: I_def)
    obtain d' where "set_payload j (dptr ?d) (dlen ?d) y = Some (y \<lparr>cells := (cells y)[j := d']\<rparr>)"
      "cell_holds d' (vs ! (idx + j))"
      using set_payload_ok [of y e j ?d] fmt n j I d ready src by (auto simp: I_def)
    moreover from this I j n have "I (dn @ [j]) (y \<lparr>cells := (cells y)[j := d']\<rparr>)"
      by (auto simp: I_def nth_list_update')
    ultimately show "\<exists>y'. load_vector_row src idx j y = Some (OB_SUCCESS, y') \<and> I (dn @ [j]) y'"
      using d by (auto simp: load_vector_row_def)
  qed
  then show ?thesis by (auto simp: I_def)
qed

lemma load_vector_col_ok:
  assumes inv: "col_inv es s" and i: "i < length es" and rows: "col_rows s i vs"
    and n: "cs_output_idx s + n \<le> cs_saved_size s" and fr: "frame_ok (es ! i) (fr (expr_id (es ! i))) n"
    and fits: "\<forall>j < n. fits (es ! i) (vs ! (cs_output_idx s + j))"
  shows "\<exists>x. load_vector_col n s i fr = Some (OB_SUCCESS, fr(expr_id (es ! i) := x)) \<and>
           vformat x = get_default_res_format (es ! i) \<and>
           length (cells x) = length (cells (fr (expr_id (es ! i)))) \<and> reserve x = reserve (fr (expr_id (es ! i))) \<and>
      projected x = projected (fr (expr_id (es ! i))) \<and>
           projected x = projected (fr (expr_id (es ! i))) \<and>
           (\<forall>j < n. cell_holds (cells x ! j) (vs ! (cs_output_idx s + j)))"
proof -
  let ?e = "es ! i"
  obtain x where x: "init_vector ?e (get_default_res_format ?e) n True fr = Some (OB_SUCCESS, fr(expr_id ?e := x))"
    "vformat x = get_default_res_format ?e" "length (cells x) = length (cells (fr (expr_id ?e)))"
    "reserve x = reserve (fr (expr_id ?e))" "projected x = projected (fr (expr_id ?e))"
    "\<forall>j < n. cell_ready ?e (cells x ! j)"
    using init_vector_ok [of ?e fr n] fr by blast
  have fmt: "vformat x \<in> {VEC_FIXED, VEC_DISCRETE}" "(vformat x = VEC_FIXED) = is_fixed_length_data ?e"
    using x(2) frame_ok_format [OF fr] by auto
  have "n \<le> length (cells x)" using fr x by (simp add: frame_ok_def)
  with x(6) fits rows n obtain x' where
    "for_ret (load_vector_row (col_buf s i) (cs_output_idx s)) [0..<n] x = Some (OB_SUCCESS, x')"
    "vformat x' = vformat x" "length (cells x') = length (cells x)" "reserve x' = reserve x" "projected x' = projected x"
    "\<forall>j < n. cell_holds (cells x' ! j) (vs ! (cs_output_idx s + j))"
    using load_vector_rows_ok [OF fmt, of n "col_buf s i" vs "cs_output_idx s"] by (auto simp: col_rows_def)
  with x show ?thesis
    by (cases "n = 0") (auto simp: load_vector_col_def col_inv_nth [OF inv i])
qed

lemma col_load_vector_ok:
  assumes inv: "col_inv es s" and dist: "distinct (map expr_id es)"
    and rows: "\<And>i. i < length es \<Longrightarrow> col_rows s i (vs i)" and n: "cs_output_idx s + n \<le> cs_saved_size s"
    and fr: "\<And>i. i < length es \<Longrightarrow> frame_ok (es ! i) (fr (expr_id (es ! i))) n"
    and fits: "\<And>i j. i < length es \<Longrightarrow> j < n \<Longrightarrow> fits (es ! i) (vs i ! (cs_output_idx s + j))"
  shows "\<exists>fr'. col_load_vector n (fr, s) = Some (OB_SUCCESS, fr', s \<lparr>cs_output_idx := cs_output_idx s + n\<rparr>) \<and>
           (\<forall>k. k \<notin> expr_id ` set es \<longrightarrow> fr' k = fr k) \<and>
           (\<forall>i < length es. let x = fr' (expr_id (es ! i)) in
              vformat x = get_default_res_format (es ! i) \<and>
              length (cells x) = length (cells (fr (expr_id (es ! i)))) \<and>
              reserve x = reserve (fr (expr_id (es ! i))) \<and> projected x = projected (fr (expr_id (es ! i))) \<and>
              (\<forall>j < n. cell_holds (cells x ! j) (vs i ! (cs_output_idx s + j))))"
proof -
  define okc where "okc = (\<lambda>i (x :: expr_frame). vformat x = get_default_res_format (es ! i) \<and>
      length (cells x) = length (cells (fr (expr_id (es ! i)))) \<and> reserve x = reserve (fr (expr_id (es ! i))) \<and>
      projected x = projected (fr (expr_id (es ! i))) \<and>
      (\<forall>j < n. cell_holds (cells x ! j) (vs i ! (cs_output_idx s + j))))"
  define I where "I = (\<lambda>dn g. (\<forall>k. k \<notin> expr_id ` set es \<longrightarrow> g k = fr k) \<and>
      (\<forall>i < length es. if i \<in> set dn then okc i (g (expr_id (es ! i)))
                       else g (expr_id (es ! i)) = fr (expr_id (es ! i))))"
  have "\<exists>fr'. for_ret (load_vector_col n s) [0..<length es] fr = Some (OB_SUCCESS, fr') \<and> I [0..<length es] fr'"
  proof (rule for_ret_success)
    show "I [] fr" by (simp add: I_def)
  next
    fix dn i rest g
    assume eq: "[0..<length es] = dn @ i # rest" and I: "I dn g"
    have i: "i < length es" and dn: "i \<notin> set dn" using upt_eq_append [OF eq] by auto
    have g: "g (expr_id (es ! i)) = fr (expr_id (es ! i))" using I i dn by (auto simp: I_def)
    obtain x where x: "load_vector_col n s i g = Some (OB_SUCCESS, g(expr_id (es ! i) := x))" "okc i x"
      using load_vector_col_ok [OF inv i rows [OF i] n, of g] fr [OF i] fits [OF i] g
      by (auto simp: okc_def)
    have "expr_id (es ! a) = expr_id (es ! i) \<longleftrightarrow> a = i" if "a < length es" for a
      using nth_eq_iff_index_eq [OF dist, of a i] that i by simp
    then have "I (dn @ [i]) (g(expr_id (es ! i) := x))"
      using I x(2) i by (auto simp: I_def)
    with x(1) show "\<exists>g'. load_vector_col n s i g = Some (OB_SUCCESS, g') \<and> I (dn @ [i]) g'" by blast
  qed
  then obtain fr' where "for_ret (load_vector_col n s) [0..<length es] fr = Some (OB_SUCCESS, fr')"
    "I [0..<length es] fr'" by blast
  with n show ?thesis
    by (auto simp: col_load_vector_def col_inv_count [OF inv] I_def okc_def Let_def)
qed

section \<open>Life cycle\<close>

lemma col_init_expr_ok:
  assumes "fa_inv (cs_exprs s)" "adata (cs_exprs s) \<noteq> None" "acount (cs_exprs s) < acapacity (cs_exprs s)"
    and "fa_inv (cs_datums s)" "adata (cs_datums s) \<noteq> None" "acount (cs_datums s) < acapacity (cs_datums s)"
    and mem: "\<And>n. mem_ok m n"
  shows "\<exists>ex ds. col_init_expr m len e s = Some (OB_SUCCESS, s \<lparr>cs_exprs := ex, cs_datums := ds\<rparr>) \<and>
    fa_inv ex \<and> adata ex \<noteq> None \<and> acapacity ex = acapacity (cs_exprs s) \<and> fa_list ex = fa_list (cs_exprs s) @ [e] \<and>
    fa_inv ds \<and> adata ds \<noteq> None \<and> acapacity ds = acapacity (cs_datums s) \<and>
    ahas_allocator ds = ahas_allocator (cs_datums s) \<and> fa_list ds = fa_list (cs_datums s) @ [Some (replicate (nat len) (fresh_datum m))]"
proof -
  obtain ex where ex: "fa_push_back (mem_ok m) 8 e (cs_exprs s) = Some (OB_SUCCESS, ex)" "fa_inv ex" "adata ex \<noteq> None"
    "acapacity ex = acapacity (cs_exprs s)" "fa_list ex = fa_list (cs_exprs s) @ [e]"
    using fa_push_back_step [OF assms(1-3)] by blast
  let ?b = "Some (replicate (nat len) (fresh_datum m))"
  obtain ds where ds: "fa_push_back (mem_ok m) 8 ?b (cs_datums s) = Some (OB_SUCCESS, ds)" "fa_inv ds" "adata ds \<noteq> None"
    "acapacity ds = acapacity (cs_datums s)" "ahas_allocator ds = ahas_allocator (cs_datums s)" "fa_list ds = fa_list (cs_datums s) @ [?b]"
    using fa_push_back_step [OF assms(4-6)] by blast
  from ex ds mem show ?thesis
    by (intro exI [of _ ex] exI [of _ ds]) (simp add: col_init_expr_def alloc_datums_def)
qed

lemma fa_init_fresh:
  assumes "\<And>n. ok n" "0 < k" "k \<le> 4294967295"
  shows "fa_init ok esz (int k) (fa_empty 0) =
           (OB_SUCCESS, (fa_empty 0) \<lparr>adata := Some (replicate k None), acapacity := k\<rparr>)"
  using assms by (simp add: fa_init_def fa_empty_def)

text \<open>A new store, initialised: empty columns of the given capacity.\<close>

lemma col_init_ok:
  assumes mem: "\<And>n. mem_ok m n" and k: "length es \<le> 4294967295" and len: "0 \<le> len"
  shows "\<exists>s. col_init m es b len col_store_new = Some (OB_SUCCESS, s) \<and> col_inv es s \<and> cs_length s = len \<and>
           cs_saved_size s = 0 \<and> cs_output_idx s = 0 \<and> (\<forall>i < length es. col_rows s i []) \<and>
           (es \<noteq> [] \<longrightarrow> adata (cs_exprs s) \<noteq> None \<and> acapacity (cs_exprs s) = length es)"
proof (cases "es = []")
  case True
  then show ?thesis
    using len by (auto simp: col_init_def col_store_new_def col_inv_def fa_inv_empty fa_init_def)
      (auto simp: fa_empty_def)
next
  case False
  let ?k = "length es"
  let ?arr = "(fa_empty 0) \<lparr>adata := Some (replicate ?k None), acapacity := ?k\<rparr>"
  let ?s1 = "col_store_new \<lparr>cs_exprs := ?arr, cs_datums := ?arr\<rparr>"
  define buf where "buf = Some (replicate (nat len) (fresh_datum m))"
  define I where "I = (\<lambda>dn (s :: col_store).
      fa_inv (cs_exprs s) \<and> adata (cs_exprs s) \<noteq> None \<and> acapacity (cs_exprs s) = ?k \<and> fa_list (cs_exprs s) = dn \<and>
      fa_inv (cs_datums s) \<and> adata (cs_datums s) \<noteq> None \<and> acapacity (cs_datums s) = ?k \<and>
      ahas_allocator (cs_datums s) \<and> fa_list (cs_datums s) = replicate (length dn) buf)"
  have "\<exists>s. for_ret (col_init_expr m len) es ?s1 = Some (OB_SUCCESS, s) \<and> I es s"
  proof (rule for_ret_success)
    show "I [] ?s1" by (auto simp: I_def fa_inv_def fa_empty_def fa_list_def)
  next
    fix dn e rest t
    assume eq: "es = dn @ e # rest" and I: "I dn t"
    then have "acount (cs_exprs t) < ?k" "acount (cs_datums t) < ?k"
      using length_fa_list [of "cs_exprs t"] length_fa_list [of "cs_datums t"] by (auto simp: I_def)
    then obtain ex ds where "col_init_expr m len e t = Some (OB_SUCCESS, t \<lparr>cs_exprs := ex, cs_datums := ds\<rparr>)"
      "I (dn @ [e]) (t \<lparr>cs_exprs := ex, cs_datums := ds\<rparr>)"
      using col_init_expr_ok [of t m len e] I mem by (auto simp: I_def buf_def replicate_append_same [symmetric])
    then show "\<exists>t'. col_init_expr m len e t = Some (OB_SUCCESS, t') \<and> I (dn @ [e]) t'" by blast
  qed
  then obtain s where s: "for_ret (col_init_expr m len) es ?s1 = Some (OB_SUCCESS, s)" "I es s" by blast
  let ?s = "s \<lparr>cs_length := len, cs_batch_size := b, cs_saved_size := 0, cs_output_idx := 0, cs_inited := True\<rparr>"
  have "col_init m es b len col_store_new = Some (OB_SUCCESS, ?s)"
    using s(1) False mem k by (simp add: col_init_def col_store_new_def fa_init_fresh)
  moreover have "col_inv es ?s" "\<forall>i < ?k. col_rows ?s i []"
    using s(2) len by (auto simp: I_def col_inv_def col_buf_def buf_def col_rows_def holds_rows_def
        length_fa_list [symmetric])
  moreover have "adata (cs_exprs ?s) \<noteq> None" "acapacity (cs_exprs ?s) = ?k" using s(2) by (auto simp: I_def)
  ultimately show ?thesis by auto
qed

lemma fa_map_inv:
  assumes "fa_inv a"
  shows "fa_inv (fa_map f a)" "fa_list (fa_map f a) = map f (fa_list a)"
proof -
  show "fa_inv (fa_map f a)" using assms by (auto simp: fa_inv_def fa_map_def split: option.splits)
  show "fa_list (fa_map f a) = map f (fa_list a)"
  proof (cases "adata a")
    case (Some d)
    then have "the (map_option f (d ! i)) = f (the (d ! i))" if "i < acount a" for i
      using assms that by (intro option.map_sel) (simp add: fa_inv_def)
    with Some assms show ?thesis
      by (auto simp: fa_inv_def fa_map_def fa_list_def intro!: nth_equalityI)
  qed (simp add: fa_map_def fa_list_def)
qed

lemma col_tmp_reset_inv:
  assumes "col_inv es s"
  shows "col_inv es (col_tmp_reset s)"
proof -
  have "length (fa_list (cs_datums s)) = length es" using assms by (simp add: col_inv_def length_fa_list)
  moreover have "fa_inv (cs_datums s)" using assms by (simp add: col_inv_def)
  ultimately show ?thesis
    using assms by (auto simp: col_inv_def col_tmp_reset_def fa_map_inv col_buf_def)
      (auto simp: fa_map_def)
qed

lemma col_reuse_ok:
  assumes "col_inv es s"
  shows "col_inv es (snd (col_reuse s))" "cs_length (snd (col_reuse s)) = cs_length s"
    "cs_saved_size (snd (col_reuse s)) = 0" "cs_output_idx (snd (col_reuse s)) = 0"
    "col_rows (snd (col_reuse s)) i []"
proof -
  show "col_inv es (snd (col_reuse s))"
    using col_tmp_reset_inv [OF assms] by (auto simp: col_reuse_def col_inv_def col_buf_def)
qed (simp_all add: col_reuse_def col_tmp_reset_def col_rows_def holds_rows_def)

lemma fa_reinit:
  fixes esz :: nat
  assumes "ahas_allocator a" "\<And>n. ok n" "k \<le> 4294967295"
  defines "b \<equiv> snd (fa_init ok esz (int k) (fa_destroy a))"
  shows "fa_inv b" "ahas_allocator b" "fa_list b = []" "acount b = 0"
    "k > 0 \<Longrightarrow> adata b \<noteq> None \<and> acapacity b = k"
  using assms by (auto simp: b_def fa_destroy_def fa_init_def fa_inv_def fa_list_def Let_def)

text \<open>\<open>reset\<close> empties the store and never shrinks it.\<close>

lemma col_reset_ok:
  assumes inv: "col_inv es s" and mem: "\<And>n. mem_ok m n" and k: "length es \<le> 4294967295" and "0 \<le> len"
  shows "\<exists>s'. col_reset m len s = Some (OB_SUCCESS, s') \<and> col_inv es s' \<and> cs_length s' = max len (cs_length s) \<and>
           cs_saved_size s' = 0 \<and> cs_output_idx s' = 0 \<and> (\<forall>i < length es. col_rows s' i [])"
proof (cases "len \<le> cs_length s")
  case True
  then show ?thesis using col_reuse_ok [OF inv] by (auto simp: col_reset_def)
next
  case False
  let ?s1 = "col_tmp_reset s"
  let ?k = "length es"
  define ds0 where "ds0 = snd (fa_init (mem_ok m) 8 (int ?k) (fa_destroy (cs_datums ?s1)))"
  define buf where "buf = Some (replicate (nat len) (fresh_datum m))"
  have inv1: "col_inv es ?s1" by (rule col_tmp_reset_inv [OF inv])
  have ds0: "fa_inv ds0" "ahas_allocator ds0" "fa_list ds0 = []" "acount ds0 = 0"
    "?k > 0 \<Longrightarrow> adata ds0 \<noteq> None \<and> acapacity ds0 = ?k"
    using fa_reinit [of "cs_datums ?s1" "mem_ok m" ?k 8] inv1 mem k by (auto simp: ds0_def col_inv_def)
  define I where "I = (\<lambda>(dn :: ob_expr list) (a :: ob_datum list option fixed_array). fa_inv a \<and> ahas_allocator a \<and>
      (?k > 0 \<longrightarrow> adata a \<noteq> None \<and> acapacity a = ?k) \<and> fa_list a = replicate (length dn) buf)"
  have "\<exists>ds. for_ret (col_reset_push m len) es ds0 = Some (OB_SUCCESS, ds) \<and> I es ds"
  proof (rule for_ret_success)
    show "I [] ds0" using ds0 by (simp add: I_def)
  next
    fix dn e rest a
    assume eq: "es = dn @ e # rest" and I: "I dn a"
    have "?k > 0" using eq by simp
    moreover have "acount a < ?k" using I eq length_fa_list [of a] by (auto simp: I_def)
    ultimately show "\<exists>a'. col_reset_push m len e a = Some (OB_SUCCESS, a') \<and> I (dn @ [e]) a'"
      using fa_push_back_step [of a "mem_ok m" 8 buf] I mem
      by (auto simp: I_def col_reset_push_def alloc_datums_def buf_def replicate_append_same [symmetric])
  qed
  then obtain ds where ds: "for_ret (col_reset_push m len) es ds0 = Some (OB_SUCCESS, ds)" "I es ds" by blast
  let ?s = "?s1 \<lparr>cs_datums := ds, cs_length := len, cs_saved_size := 0, cs_output_idx := 0\<rparr>"
  have "col_reset m len s = Some (OB_SUCCESS, ?s)"
    using False ds(1) inv1 col_inv_count [OF inv1]
    by (simp add: col_reset_def col_free_def ds0_def [symmetric] col_inv_def)
  moreover have "acount ds = ?k" using ds(2) length_fa_list [of ds] by (simp add: I_def)
  then have "col_inv es ?s" "\<forall>i < ?k. col_rows ?s i []"
    using ds(2) inv1 assms(4) by (auto simp: I_def col_inv_def col_buf_def buf_def col_rows_def holds_rows_def)
  ultimately show ?thesis using False by auto
qed

end
