(* ===== verification/Python_UDF_Arg_Store.thy ===== *)
theory Python_UDF_Arg_Store
  imports Python_UDF_Col_Store
begin

text \<open>
  \<open>ObPUInputStore\<close> of \<^verbatim>\<open>src/sql/engine/python_udf_engine/ob_python_udf_op.cpp\<close>: the arguments of one
  python UDF, one typed array per argument: datums for strings, 32-bit integers for every integer type and doubles.

  The lemmas show that saving a batch appends, for every argument, the values of the active rows in order; integers are
  truncated to 32 bits by the assignment to \<^verbatim>\<open>int\<close>.
\<close>

section \<open>The store\<close>

datatype pu_buf = BufNull | BufDatum "ob_datum list" | BufInt "32 word list" | BufDouble "64 word list"

record pu_store =
  pu_buf_alloc :: bool
  pu_expr :: "ob_expr option"
  pu_length :: int
  pu_data :: "pu_buf list option"
  pu_saved_size :: nat
  pu_inited :: bool

definition pu_store_new :: pu_store where
  "pu_store_new = \<lparr>pu_buf_alloc = False, pu_expr = None, pu_length = 0, pu_data = None,
                   pu_saved_size = 0, pu_inited = False\<rparr>"

definition pu_alloc_buf :: "mem_env \<Rightarrow> ob_obj_type \<Rightarrow> nat \<Rightarrow> pu_buf" where
  "pu_alloc_buf m t n =
     (case arg_kind t of
        KString \<Rightarrow> if mem_ok m (n * sizeof_datum) then BufDatum (replicate n (fresh_datum m)) else BufNull
      | KInt \<Rightarrow> if mem_ok m (n * 4) then BufInt (replicate n (fresh_int m)) else BufNull
      | KDouble \<Rightarrow> if mem_ok m (n * 8) then BufDouble (replicate n (fresh_double m)) else BufNull
      | KUnsupported \<Rightarrow> BufNull)"

definition pu_alloc_arg :: "mem_env \<Rightarrow> nat \<Rightarrow> ob_expr \<Rightarrow> pu_buf list \<Rightarrow> (ob_ret \<times> pu_buf list) option" where
  "pu_alloc_arg m n e bufs =
     (let b = pu_alloc_buf m (datum_type e) n
      in Some (if b = BufNull then OB_ALLOCATE_MEMORY_FAILED else OB_SUCCESS, bufs @ [b]))"

definition pu_alloc_data_ptrs :: "mem_env \<Rightarrow> int \<Rightarrow> pu_store \<Rightarrow> (ob_ret \<times> pu_store) option" where
  "pu_alloc_data_ptrs m len s =
     (if pu_inited s then Some (OB_INIT_TWICE, s)
      else case pu_expr s of
          None \<Rightarrow> Some (OB_NOT_INIT, s)
        | Some e \<Rightarrow>
            if \<not> pu_buf_alloc s \<or> arg_cnt e = 0 \<or> len \<le> 0 then Some (OB_NOT_INIT, s)
            else if \<not> mem_ok m (arg_cnt e * 8) then Some (OB_ALLOCATE_MEMORY_FAILED, s \<lparr>pu_data := None\<rparr>)
            else do {
              (ret, bufs) \<leftarrow> for_ret (pu_alloc_arg m (nat len)) (expr_args e) [];
              Some (ret, if ret = OB_SUCCESS then s \<lparr>pu_data := Some bufs, pu_length := len\<rparr>
                         else s \<lparr>pu_data := Some bufs\<rparr>)
            })"

definition pu_init :: "mem_env \<Rightarrow> bool \<Rightarrow> ob_expr option \<Rightarrow> int \<Rightarrow> pu_store \<Rightarrow> (ob_ret \<times> pu_store) option" where
  "pu_init m alloc expr len s =
     (if pu_inited s then Some (OB_INIT_TWICE, s)
      else case expr of
          None \<Rightarrow> Some (OB_NOT_INIT, s)
        | Some e \<Rightarrow>
            if \<not> alloc \<or> len \<le> 0 then Some (OB_NOT_INIT, s)
            else if expr_type e \<noteq> T_FUN_PYTHON_UDF then Some (OB_NOT_SUPPORTED, s)
            else do {
              (ret, s1) \<leftarrow> pu_alloc_data_ptrs m len (s \<lparr>pu_buf_alloc := True, pu_expr := Some e\<rparr>);
              Some (if ret \<noteq> OB_SUCCESS \<or> pu_data s1 = None then (OB_INIT_FAIL, s1)
                    else (OB_SUCCESS, s1 \<lparr>pu_inited := True, pu_saved_size := 0\<rparr>))
            })"

fun buf_drop_ptrs :: "pu_buf \<Rightarrow> pu_buf" where
  "buf_drop_ptrs (BufDatum ds) = BufDatum (map drop_ptr ds)"
| "buf_drop_ptrs b = b"

definition pu_tmp_reset :: "pu_store \<Rightarrow> pu_store" where
  "pu_tmp_reset s = s \<lparr>pu_data := map_option (map buf_drop_ptrs) (pu_data s)\<rparr>"

definition pu_reuse :: "pu_store \<Rightarrow> ob_ret \<times> pu_store" where
  "pu_reuse s = (OB_SUCCESS, (pu_tmp_reset s) \<lparr>pu_saved_size := 0\<rparr>)"

definition pu_free :: "pu_store \<Rightarrow> ob_ret \<times> pu_store" where
  "pu_free s = (OB_SUCCESS, (pu_tmp_reset s) \<lparr>pu_length := 0, pu_saved_size := 0, pu_inited := False\<rparr>)"

definition pu_reset :: "mem_env \<Rightarrow> int \<Rightarrow> pu_store \<Rightarrow> (ob_ret \<times> pu_store) option" where
  "pu_reset m len s =
     (if len \<le> pu_length s then Some (pu_reuse s)
      else let (ret, s1) = pu_free s
           in if ret \<noteq> OB_SUCCESS then Some (OB_ERR_UNEXPECTED, s1)
              else do {
                (ret, s2) \<leftarrow> pu_alloc_data_ptrs m len s1;
                Some (if ret \<noteq> OB_SUCCESS then (OB_INIT_FAIL, s2)
                      else (OB_SUCCESS, s2 \<lparr>pu_saved_size := 0, pu_inited := True\<rparr>))
              })"

text \<open>\<^verbatim>\<open>dst[dst_idx++] = src_datum.get_int()\<close> with an \<^verbatim>\<open>int *dst\<close>, and the same for doubles.\<close>

definition save_int_row ::
  "bool \<Rightarrow> ob_datum list \<Rightarrow> nat \<Rightarrow> nat \<times> 32 word list \<Rightarrow> (ob_ret \<times> nat \<times> 32 word list) option" where
  "save_int_row is_const src j st =
     (let src_idx = (if is_const then 0 else j)
      in if length src \<le> src_idx then None
         else do { v \<leftarrow> get_int (src ! src_idx); st' \<leftarrow> put_next (ucast v) st; Some (OB_SUCCESS, st') })"

definition save_double_row ::
  "bool \<Rightarrow> ob_datum list \<Rightarrow> nat \<Rightarrow> nat \<times> 64 word list \<Rightarrow> (ob_ret \<times> nat \<times> 64 word list) option" where
  "save_double_row is_const src j st =
     (let src_idx = (if is_const then 0 else j)
      in if length src \<le> src_idx then None
         else do { v \<leftarrow> get_double (src ! src_idx); st' \<leftarrow> put_next v st; Some (OB_SUCCESS, st') })"

text \<open>
  The switch of \<open>save_batch\<close> for one argument. A null buffer is only reported after the rows have been written
  through it.
\<close>

definition pu_save_arg ::
  "mem_env \<Rightarrow> batch_rows \<Rightarrow> ob_expr \<Rightarrow> expr_frame \<Rightarrow> nat \<Rightarrow> pu_buf \<Rightarrow> (ob_ret \<times> pu_buf) option" where
  "pu_save_arg m brs e x start buf =
     (case (arg_kind (datum_type e), buf) of
        (KString, BufDatum d) \<Rightarrow> do {
          (_, _, d') \<leftarrow> copy_rows brs (save_batch_row m (is_const_expr e) (cells x)) (start, d);
          Some (OB_SUCCESS, BufDatum d') }
      | (KInt, BufInt d) \<Rightarrow> do {
          (_, _, d') \<leftarrow> copy_rows brs (save_int_row (is_const_expr e) (cells x)) (start, d);
          Some (OB_SUCCESS, BufInt d') }
      | (KDouble, BufDouble d) \<Rightarrow> do {
          (_, _, d') \<leftarrow> copy_rows brs (save_double_row (is_const_expr e) (cells x)) (start, d);
          Some (OB_SUCCESS, BufDouble d') }
      | (KUnsupported, b) \<Rightarrow> Some (if b = BufNull then OB_ALLOCATE_MEMORY_FAILED else OB_NOT_SUPPORTED, b)
      | (_, BufNull) \<Rightarrow> if active_rows brs = [] then Some (OB_ALLOCATE_MEMORY_FAILED, BufNull) else None
      | _ \<Rightarrow> None)"

text \<open>The loop over the arguments goes on after an error; the last error is returned.\<close>

fun pu_save_args ::
  "mem_env \<Rightarrow> batch_rows \<Rightarrow> frame \<Rightarrow> nat \<Rightarrow> ob_expr list \<Rightarrow> pu_buf list \<Rightarrow> ob_ret \<Rightarrow> (ob_ret \<times> pu_buf list) option" where
  "pu_save_args m brs fr start [] bufs ret = Some (ret, bufs)"
| "pu_save_args m brs fr start (e # es) [] ret = None"
| "pu_save_args m brs fr start (e # es) (b # bs) ret =
     do {
       (r, b') \<leftarrow> pu_save_arg m brs e (fr (expr_id e)) start b;
       (ret', bs') \<leftarrow> pu_save_args m brs fr start es bs (if r = OB_SUCCESS then ret else r);
       Some (ret', b' # bs')
     }"

definition pu_save_batch :: "mem_env \<Rightarrow> batch_rows \<Rightarrow> frame \<Rightarrow> pu_store \<Rightarrow> (ob_ret \<times> pu_store) option" where
  "pu_save_batch m brs fr s =
     (case pu_expr s of
        None \<Rightarrow> Some (OB_SUCCESS, s)
      | Some e \<Rightarrow>
          if arg_cnt e = 0 then Some (OB_SUCCESS, s)
          else case pu_data s of
              None \<Rightarrow> Some (OB_NOT_INIT, s)
            | Some bufs \<Rightarrow>
                if \<not> pu_inited s then Some (OB_NOT_INIT, s)
                else if int (pu_saved_size s + brs_cnt brs) \<le> pu_length s
                then do {
                  (ret, bufs') \<leftarrow> pu_save_args m brs fr (pu_saved_size s) (expr_args e) bufs OB_SUCCESS;
                  Some (ret, s \<lparr>pu_data := Some bufs', pu_saved_size := pu_saved_size s + brs_cnt brs\<rparr>)
                }
                else Some (OB_ERR_UNEXPECTED, s))"

text \<open>\<open>save_vector\<close> is not implemented.\<close>

definition pu_save_vector :: "batch_rows \<Rightarrow> frame \<Rightarrow> pu_store \<Rightarrow> ob_ret \<times> pu_store" where
  "pu_save_vector brs fr s = (OB_NOT_SUPPORTED, s)"

definition get_data_ptr_at :: "pu_store \<Rightarrow> int \<Rightarrow> pu_buf option" where
  "get_data_ptr_at s i =
     (case pu_expr s of
        None \<Rightarrow> Some BufNull
      | Some e \<Rightarrow>
          if 0 \<le> i \<and> i < int (arg_cnt e)
          then case pu_data s of None \<Rightarrow> None | Some bufs \<Rightarrow> if nat i < length bufs then Some (bufs ! nat i) else None
          else Some BufNull)"

section \<open>Values of the arguments\<close>

datatype py_val = VStr "byte list" | VInt "32 word" | VDouble "64 word"

text \<open>The value of an argument in row \<open>j\<close> of the frame, as it is passed to python.\<close>

definition arg_cell :: "ob_expr \<Rightarrow> expr_frame \<Rightarrow> nat \<Rightarrow> ob_datum" where
  "arg_cell e x j = cells x ! (if is_const_expr e then 0 else j)"

definition arg_value :: "ob_expr \<Rightarrow> expr_frame \<Rightarrow> nat \<Rightarrow> py_val" where
  "arg_value e x j =
     (case arg_kind (datum_type e) of
        KString \<Rightarrow> VStr (payload (arg_cell e x j))
      | KInt \<Rightarrow> VInt (ucast (the (get_int (arg_cell e x j))))
      | _ \<Rightarrow> VDouble (the (get_double (arg_cell e x j))))"

definition arg_readable :: "ob_expr \<Rightarrow> expr_frame \<Rightarrow> nat \<Rightarrow> bool" where
  "arg_readable e x j \<longleftrightarrow> (if is_const_expr e then 0 else j) < length (cells x) \<and>
     (case arg_kind (datum_type e) of
        KString \<Rightarrow> readable (arg_cell e x j)
      | KInt \<Rightarrow> get_int (arg_cell e x j) \<noteq> None
      | KDouble \<Rightarrow> get_double (arg_cell e x j) \<noteq> None
      | KUnsupported \<Rightarrow> False)"

text \<open>A buffer whose first rows hold given values.\<close>

fun buf_rows :: "pu_buf \<Rightarrow> py_val list \<Rightarrow> bool" where
  "buf_rows BufNull vs = False"
| "buf_rows (BufDatum d) vs \<longleftrightarrow> length vs \<le> length d \<and>
     (\<forall>k < length vs. readable (d ! k) \<and> vs ! k = VStr (payload (d ! k)))"
| "buf_rows (BufInt d) vs \<longleftrightarrow> length vs \<le> length d \<and> (\<forall>k < length vs. vs ! k = VInt (d ! k))"
| "buf_rows (BufDouble d) vs \<longleftrightarrow> length vs \<le> length d \<and> (\<forall>k < length vs. vs ! k = VDouble (d ! k))"

fun buf_kind :: "pu_buf \<Rightarrow> arg_kind" where
  "buf_kind BufNull = KUnsupported"
| "buf_kind (BufDatum d) = KString"
| "buf_kind (BufInt d) = KInt"
| "buf_kind (BufDouble d) = KDouble"

fun buf_len :: "pu_buf \<Rightarrow> nat" where
  "buf_len BufNull = 0"
| "buf_len (BufDatum d) = length d"
| "buf_len (BufInt d) = length d"
| "buf_len (BufDouble d) = length d"

definition supported :: "ob_expr \<Rightarrow> bool" where
  "supported e \<longleftrightarrow> arg_kind (datum_type e) \<noteq> KUnsupported"

definition pu_inv :: "ob_expr \<Rightarrow> pu_store \<Rightarrow> bool" where
  "pu_inv e s \<longleftrightarrow>
     pu_expr s = Some e \<and> pu_buf_alloc s \<and> pu_inited s \<and> 0 < arg_cnt e \<and> 0 < pu_length s \<and>
     int (pu_saved_size s) \<le> pu_length s \<and>
     (\<exists>bufs. pu_data s = Some bufs \<and> length bufs = arg_cnt e \<and>
        (\<forall>i < arg_cnt e. supported (expr_args e ! i) \<and>
           buf_kind (bufs ! i) = arg_kind (datum_type (expr_args e ! i)) \<and> int (buf_len (bufs ! i)) = pu_length s))"

text \<open>\<open>pu_rows s vss\<close>: argument \<open>i\<close> holds the rows \<open>vss ! i\<close>.\<close>

definition pu_rows :: "pu_store \<Rightarrow> py_val list list \<Rightarrow> bool" where
  "pu_rows s vss \<longleftrightarrow>
     (case pu_data s of None \<Rightarrow> False
      | Some bufs \<Rightarrow> length vss = length bufs \<and>
          (\<forall>i < length bufs. length (vss ! i) = pu_saved_size s \<and> buf_rows (bufs ! i) (vss ! i)))"

section \<open>Saving\<close>

lemma put_rows:
  assumes "\<And>j st. j \<in> set js \<Longrightarrow> f j st = do { st' \<leftarrow> put_next (h j) st; Some (OB_SUCCESS, st') }"
    and "i + length js \<le> length buf"
  shows "for_ret f js (i, buf) =
           Some (OB_SUCCESS, i + length js, take i buf @ map h js @ drop (i + length js) buf)"
  using assms
proof (induction js arbitrary: i buf)
  case (Cons j js)
  have "f j (i, buf) = Some (OB_SUCCESS, Suc i, buf[i := h j])"
    using Cons.prems by (simp add: put_next_def)
  moreover have "take (Suc i) (buf[i := h j]) = take i buf @ [h j]" using Cons.prems(2)
    by (simp add: take_Suc_conv_app_nth)
  ultimately show ?case using Cons.IH [of "Suc i" "buf[i := h j]"] Cons.prems by simp
qed simp

lemma deep_copy_readable:
  assumes "readable d" "\<And>n. ok n"
  shows "\<exists>d'. datum_deep_copy ok d = Some (OB_SUCCESS, d') \<and> readable d' \<and> payload d' = payload d"
  using assms length_payload [of d] read_bytes_payload [of d]
  by (auto simp: datum_deep_copy_def Let_def readable_def [of "_ \<lparr>dptr := _\<rparr>"] payload_def [of "_ \<lparr>dptr := _\<rparr>"])

lemma pu_save_string_ok:
  assumes "arg_kind (datum_type e) = KString" "buf_rows (BufDatum d) vs"
    and rd: "\<forall>j \<in> set js. arg_readable e x j" and len: "length vs + length js \<le> length d" and mem: "\<And>n. mem_ok m n"
  shows "\<exists>d'. for_ret (save_batch_row m (is_const_expr e) (cells x)) js (length vs, d) =
             Some (OB_SUCCESS, length vs + length js, d') \<and>
           length d' = length d \<and> buf_rows (BufDatum d') (vs @ map (arg_value e x) js)"
proof -
  define h where "h j = snd (the (datum_deep_copy (mem_ok m) (arg_cell e x j)))" for j
  have h: "datum_deep_copy (mem_ok m) (arg_cell e x j) = Some (OB_SUCCESS, h j)" "readable (h j)"
    "payload (h j) = payload (arg_cell e x j)" if "j \<in> set js" for j
    using deep_copy_readable [of "arg_cell e x j" "mem_ok m"] rd that assms(1) mem
    by (auto simp: h_def arg_readable_def)
  let ?d = "take (length vs) d @ map h js @ drop (length vs + length js) d"
  have "for_ret (save_batch_row m (is_const_expr e) (cells x)) js (length vs, d) =
        Some (OB_SUCCESS, length vs + length js, ?d)"
  proof (rule put_rows [OF _ len])
    fix j st
    assume j: "j \<in> set js"
    then show "save_batch_row m (is_const_expr e) (cells x) j st = do { st' \<leftarrow> put_next (h j) st; Some (OB_SUCCESS, st') }"
      using rd h(1) [OF j] by (auto simp: save_batch_row_def arg_readable_def arg_cell_def Let_def split: if_splits)
  qed
  moreover have "buf_rows (BufDatum ?d) (vs @ map (arg_value e x) js)"
    using assms(1,2) len h by (auto simp: nth_append min_def arg_value_def)
  ultimately show ?thesis using len by auto
qed

lemma pu_save_int_ok:
  assumes "arg_kind (datum_type e) = KInt" "buf_rows (BufInt d) vs"
    and rd: "\<forall>j \<in> set js. arg_readable e x j" and len: "length vs + length js \<le> length d"
  shows "\<exists>d'. for_ret (save_int_row (is_const_expr e) (cells x)) js (length vs, d) =
             Some (OB_SUCCESS, length vs + length js, d') \<and>
           length d' = length d \<and> buf_rows (BufInt d') (vs @ map (arg_value e x) js)"
proof -
  define h where "h j = (ucast (the (get_int (arg_cell e x j))) :: 32 word)" for j
  let ?d = "take (length vs) d @ map h js @ drop (length vs + length js) d"
  have "for_ret (save_int_row (is_const_expr e) (cells x)) js (length vs, d) =
        Some (OB_SUCCESS, length vs + length js, ?d)"
    using rd assms(1)
    by (intro put_rows [OF _ len]) (auto simp: save_int_row_def arg_readable_def arg_cell_def h_def Let_def split: if_splits)
  moreover have "buf_rows (BufInt ?d) (vs @ map (arg_value e x) js)"
    using assms(1,2) len by (auto simp: nth_append min_def arg_value_def h_def)
  ultimately show ?thesis using len by auto
qed

lemma pu_save_double_ok:
  assumes "arg_kind (datum_type e) = KDouble" "buf_rows (BufDouble d) vs"
    and rd: "\<forall>j \<in> set js. arg_readable e x j" and len: "length vs + length js \<le> length d"
  shows "\<exists>d'. for_ret (save_double_row (is_const_expr e) (cells x)) js (length vs, d) =
             Some (OB_SUCCESS, length vs + length js, d') \<and>
           length d' = length d \<and> buf_rows (BufDouble d') (vs @ map (arg_value e x) js)"
proof -
  define h where "h j = the (get_double (arg_cell e x j))" for j
  let ?d = "take (length vs) d @ map h js @ drop (length vs + length js) d"
  have "for_ret (save_double_row (is_const_expr e) (cells x)) js (length vs, d) =
        Some (OB_SUCCESS, length vs + length js, ?d)"
    using rd assms(1)
    by (intro put_rows [OF _ len]) (auto simp: save_double_row_def arg_readable_def arg_cell_def h_def Let_def split: if_splits)
  moreover have "buf_rows (BufDouble ?d) (vs @ map (arg_value e x) js)"
    using assms(1,2) len by (auto simp: nth_append min_def arg_value_def h_def)
  ultimately show ?thesis using len by auto
qed

lemma pu_save_arg_ok:
  assumes k: "buf_kind b = arg_kind (datum_type e)" "supported e" and rows: "buf_rows b vs"
    and rd: "\<forall>j \<in> set (active_rows brs). arg_readable e x j"
    and len: "length vs + brs_cnt brs \<le> buf_len b" and mem: "\<And>n. mem_ok m n"
  shows "\<exists>b'. pu_save_arg m brs e x (length vs) b = Some (OB_SUCCESS, b') \<and> buf_kind b' = buf_kind b \<and>
           buf_len b' = buf_len b \<and> buf_rows b' (vs @ map (arg_value e x) (active_rows brs))"
proof (cases b)
  case BufNull
  with k show ?thesis by (simp add: supported_def)
next
  case (BufDatum d)
  with k have kind: "arg_kind (datum_type e) = KString" by simp
  from pu_save_string_ok [OF kind, of d vs "active_rows brs" x m] rows rd len mem BufDatum length_active_rows [of brs]
  show ?thesis by (auto simp: pu_save_arg_def kind copy_rows_active)
next
  case (BufInt d)
  with k have kind: "arg_kind (datum_type e) = KInt" by simp
  from pu_save_int_ok [OF kind, of d vs "active_rows brs" x] rows rd len BufInt length_active_rows [of brs]
  show ?thesis by (auto simp: pu_save_arg_def kind copy_rows_active)
next
  case (BufDouble d)
  with k have kind: "arg_kind (datum_type e) = KDouble" by simp
  from pu_save_double_ok [OF kind, of d vs "active_rows brs" x] rows rd len BufDouble length_active_rows [of brs]
  show ?thesis by (auto simp: pu_save_arg_def kind copy_rows_active)
qed

lemma pu_save_args_ok:
  assumes "length bufs = length es" "length vss = length es"
    and "\<And>i. i < length es \<Longrightarrow> buf_kind (bufs ! i) = arg_kind (datum_type (es ! i)) \<and> supported (es ! i) \<and>
           length (vss ! i) = start \<and> buf_rows (bufs ! i) (vss ! i) \<and> start + brs_cnt brs \<le> buf_len (bufs ! i) \<and>
           (\<forall>j \<in> set (active_rows brs). arg_readable (es ! i) (fr (expr_id (es ! i))) j)"
    and mem: "\<And>n. mem_ok m n"
  shows "\<exists>bufs'. pu_save_args m brs fr start es bufs OB_SUCCESS = Some (OB_SUCCESS, bufs') \<and> length bufs' = length es \<and>
           (\<forall>i < length es. buf_kind (bufs' ! i) = buf_kind (bufs ! i) \<and> buf_len (bufs' ! i) = buf_len (bufs ! i) \<and>
              buf_rows (bufs' ! i) (vss ! i @ map (arg_value (es ! i) (fr (expr_id (es ! i)))) (active_rows brs)))"
  using assms(1-3)
proof (induction es arbitrary: bufs vss)
  case (Cons e es)
  obtain b bs vs vss' where eq: "bufs = b # bs" "vss = vs # vss'"
    using Cons.prems(1,2) by (metis length_Suc_conv list.size(4) add.right_neutral add_Suc_right)
  obtain b' where b': "pu_save_arg m brs e (fr (expr_id e)) start b = Some (OB_SUCCESS, b')" "buf_kind b' = buf_kind b"
    "buf_len b' = buf_len b" "buf_rows b' (vs @ map (arg_value e (fr (expr_id e))) (active_rows brs))"
    using pu_save_arg_ok [of b e vs brs "fr (expr_id e)" m] Cons.prems(3) [of 0] mem eq by auto
  have "\<exists>bs'. pu_save_args m brs fr start es bs OB_SUCCESS = Some (OB_SUCCESS, bs') \<and> length bs' = length es \<and>
           (\<forall>i < length es. buf_kind (bs' ! i) = buf_kind (bs ! i) \<and> buf_len (bs' ! i) = buf_len (bs ! i) \<and>
              buf_rows (bs' ! i) (vss' ! i @ map (arg_value (es ! i) (fr (expr_id (es ! i)))) (active_rows brs)))"
    using Cons.prems eq Cons.prems(3) [of "Suc _"] by (intro Cons.IH) auto
  then obtain bs' where bs': "pu_save_args m brs fr start es bs OB_SUCCESS = Some (OB_SUCCESS, bs')"
    "length bs' = length es"
    "\<forall>i < length es. buf_kind (bs' ! i) = buf_kind (bs ! i) \<and> buf_len (bs' ! i) = buf_len (bs ! i) \<and>
       buf_rows (bs' ! i) (vss' ! i @ map (arg_value (es ! i) (fr (expr_id (es ! i)))) (active_rows brs))"
    by blast
  with b' eq show ?case by (auto simp: less_Suc_eq_0_disj)
qed simp

text \<open>The values of the arguments of an expression in the active rows of a batch, per argument.\<close>

definition batch_args :: "ob_expr \<Rightarrow> batch_rows \<Rightarrow> frame \<Rightarrow> py_val list list" where
  "batch_args e brs fr = map (\<lambda>a. map (arg_value a (fr (expr_id a))) (active_rows brs)) (expr_args e)"

definition args_readable :: "ob_expr \<Rightarrow> batch_rows \<Rightarrow> frame \<Rightarrow> bool" where
  "args_readable e brs fr \<longleftrightarrow>
     (\<forall>a \<in> set (expr_args e). \<forall>j \<in> set (active_rows brs). arg_readable a (fr (expr_id a)) j)"

lemma pu_save_batch_ok:
  assumes inv: "pu_inv e s" and rows: "pu_rows s vss" and rd: "args_readable e brs fr"
    and len: "int (pu_saved_size s + brs_cnt brs) \<le> pu_length s" and mem: "\<And>n. mem_ok m n"
  shows "\<exists>s'. pu_save_batch m brs fr s = Some (OB_SUCCESS, s') \<and> pu_inv e s' \<and> pu_length s' = pu_length s \<and>
           pu_saved_size s' = pu_saved_size s + brs_cnt brs \<and>
           pu_rows s' (map2 (@) vss (batch_args e brs fr))"
proof -
  let ?es = "expr_args e"
  obtain bufs where bufs: "pu_data s = Some bufs" "length bufs = length ?es"
    "\<And>i. i < length ?es \<Longrightarrow> supported (?es ! i) \<and> buf_kind (bufs ! i) = arg_kind (datum_type (?es ! i)) \<and>
       int (buf_len (bufs ! i)) = pu_length s"
    using inv by (auto simp: pu_inv_def arg_cnt_def)
  have vss: "length vss = length ?es" using rows bufs by (simp add: pu_rows_def)
  have room: "pu_saved_size s + brs_cnt brs \<le> buf_len (bufs ! i)" if "i < length ?es" for i
    using bufs(3) [OF that] len by linarith
  obtain bufs' where bufs': "pu_save_args m brs fr (pu_saved_size s) ?es bufs OB_SUCCESS = Some (OB_SUCCESS, bufs')"
    "length bufs' = length ?es"
    "\<forall>i < length ?es. buf_kind (bufs' ! i) = buf_kind (bufs ! i) \<and> buf_len (bufs' ! i) = buf_len (bufs ! i) \<and>
       buf_rows (bufs' ! i) (vss ! i @ map (arg_value (?es ! i) (fr (expr_id (?es ! i)))) (active_rows brs))"
    using pu_save_args_ok [of bufs ?es vss "pu_saved_size s" brs fr m] bufs vss rows rd room mem
    by (auto simp: pu_rows_def args_readable_def)
  let ?s = "s \<lparr>pu_data := Some bufs', pu_saved_size := pu_saved_size s + brs_cnt brs\<rparr>"
  have "pu_save_batch m brs fr s = Some (OB_SUCCESS, ?s)"
    using inv bufs bufs' len by (simp add: pu_save_batch_def pu_inv_def)
  moreover have "pu_inv e ?s"
    using inv bufs bufs' len by (auto simp: pu_inv_def arg_cnt_def)
  moreover have "pu_rows ?s (map2 (@) vss (batch_args e brs fr))"
    using bufs' vss rows bufs by (auto simp: pu_rows_def batch_args_def length_active_rows)
  ultimately show ?thesis by auto
qed

section \<open>Life cycle\<close>

lemma pu_alloc_buf_ok:
  assumes "supported e" "\<And>n. mem_ok m n"
  shows "pu_alloc_buf m (datum_type e) n \<noteq> BufNull"
    "buf_kind (pu_alloc_buf m (datum_type e) n) = arg_kind (datum_type e)"
    "buf_len (pu_alloc_buf m (datum_type e) n) = n"
  using assms by (auto simp: pu_alloc_buf_def supported_def split: arg_kind.splits)

lemma pu_alloc_args_ok:
  assumes "\<forall>a \<in> set es. supported a" "\<And>n. mem_ok m n"
  shows "for_ret (pu_alloc_arg m n) es bufs =
           Some (OB_SUCCESS, bufs @ map (\<lambda>a. pu_alloc_buf m (datum_type a) n) es)"
  using assms by (induction es arbitrary: bufs) (auto simp: pu_alloc_arg_def pu_alloc_buf_ok Let_def)

text \<open>The expressions the store accepts: python UDFs with at least one argument, all of supported types.\<close>

definition udf_expr_ok :: "ob_expr \<Rightarrow> bool" where
  "udf_expr_ok e \<longleftrightarrow> expr_type e = T_FUN_PYTHON_UDF \<and> expr_args e \<noteq> [] \<and> (\<forall>a \<in> set (expr_args e). supported a)"

lemma pu_alloc_data_ptrs_ok:
  assumes e: "udf_expr_ok e" and s: "\<not> pu_inited s" "pu_buf_alloc s" "pu_expr s = Some e"
    and len: "0 < len" and mem: "\<And>n. mem_ok m n"
  shows "\<exists>bufs. pu_alloc_data_ptrs m len s = Some (OB_SUCCESS, s \<lparr>pu_data := Some bufs, pu_length := len\<rparr>) \<and>
           length bufs = arg_cnt e \<and>
           (\<forall>i < arg_cnt e. supported (expr_args e ! i) \<and>
              buf_kind (bufs ! i) = arg_kind (datum_type (expr_args e ! i)) \<and> int (buf_len (bufs ! i)) = len)"
  using assms pu_alloc_args_ok [of "expr_args e" m "nat len" "[]"]
  by (auto simp: pu_alloc_data_ptrs_def udf_expr_ok_def arg_cnt_def pu_alloc_buf_ok)

lemma pu_rows_empty:
  "pu_inv e s \<Longrightarrow> pu_saved_size s = 0 \<Longrightarrow> pu_rows s (replicate (arg_cnt e) [])"
proof -
  have "buf_kind b \<noteq> KUnsupported \<Longrightarrow> buf_rows b []" for b by (cases b) auto
  then show "pu_inv e s \<Longrightarrow> pu_saved_size s = 0 \<Longrightarrow> ?thesis"
    by (auto simp: pu_inv_def pu_rows_def supported_def)
qed

lemma pu_init_ok:
  assumes "udf_expr_ok e" "0 < len" "\<And>n. mem_ok m n"
  shows "\<exists>s. pu_init m True (Some e) len pu_store_new = Some (OB_SUCCESS, s) \<and> pu_inv e s \<and>
           pu_length s = len \<and> pu_saved_size s = 0"
proof -
  let ?s = "pu_store_new \<lparr>pu_buf_alloc := True, pu_expr := Some e\<rparr>"
  obtain bufs where "pu_alloc_data_ptrs m len ?s = Some (OB_SUCCESS, ?s \<lparr>pu_data := Some bufs, pu_length := len\<rparr>)"
    "length bufs = arg_cnt e"
    "\<forall>i < arg_cnt e. supported (expr_args e ! i) \<and>
       buf_kind (bufs ! i) = arg_kind (datum_type (expr_args e ! i)) \<and> int (buf_len (bufs ! i)) = len"
    using pu_alloc_data_ptrs_ok [OF assms(1), of ?s len m] assms by (auto simp: pu_store_new_def)
  with assms show ?thesis
    by (auto simp: pu_init_def pu_inv_def pu_store_new_def udf_expr_ok_def arg_cnt_def)
qed

lemma buf_drop_ptrs_shape [simp]: "buf_kind (buf_drop_ptrs b) = buf_kind b" "buf_len (buf_drop_ptrs b) = buf_len b"
  by (cases b; simp)+

lemma pu_reuse_ok:
  "pu_inv e s \<Longrightarrow> pu_inv e (snd (pu_reuse s)) \<and> pu_length (snd (pu_reuse s)) = pu_length s \<and>
     pu_saved_size (snd (pu_reuse s)) = 0"
  by (auto simp: pu_reuse_def pu_tmp_reset_def pu_inv_def)

text \<open>\<open>reset\<close> empties the store and never shrinks it.\<close>

lemma pu_reset_ok:
  assumes inv: "pu_inv e s" and e: "udf_expr_ok e" and mem: "\<And>n. mem_ok m n"
  shows "\<exists>s'. pu_reset m len s = Some (OB_SUCCESS, s') \<and> pu_inv e s' \<and> pu_length s' = max len (pu_length s) \<and>
           pu_saved_size s' = 0"
proof (cases "len \<le> pu_length s")
  case True
  with pu_reuse_ok [OF inv] show ?thesis by (auto simp: pu_reset_def pu_reuse_def)
next
  case False
  let ?s = "snd (pu_free s)"
  have "0 < len" using False inv by (simp add: pu_inv_def)
  moreover have "\<not> pu_inited ?s" "pu_buf_alloc ?s" "pu_expr ?s = Some e"
    using inv by (simp_all add: pu_free_def pu_tmp_reset_def pu_inv_def)
  ultimately obtain bufs where
    "pu_alloc_data_ptrs m len ?s = Some (OB_SUCCESS, ?s \<lparr>pu_data := Some bufs, pu_length := len\<rparr>)"
    "length bufs = arg_cnt e"
    "\<forall>i < arg_cnt e. supported (expr_args e ! i) \<and>
       buf_kind (bufs ! i) = arg_kind (datum_type (expr_args e ! i)) \<and> int (buf_len (bufs ! i)) = len"
    using pu_alloc_data_ptrs_ok [OF e, of ?s len m] mem by blast
  with False inv \<open>0 < len\<close> show ?thesis
    by (auto simp: pu_reset_def pu_free_def pu_tmp_reset_def pu_inv_def)
qed

end
