(* ===== verification/Python_UDF_Cell.thy ===== *)
theory Python_UDF_Cell
  imports Python_UDF_Arg_Store Python_UDF_Schema
begin

text \<open>
  \<open>ObPythonUDFCell\<close> of \<^verbatim>\<open>src/sql/engine/python_udf_engine/ob_python_udf_op.cpp\<close>: one python UDF with its
  argument buffer, the evaluation in batches of the desirable size, the adaptive control of that size and the
  projection of results into the frame.

  The python interpreter with numpy and the clock are not part of the repository. They are the parameter \<open>py_env\<close>:
  a world \<open>'w\<close> that a call or a reading of the clock may change, arrays \<open>'r\<close> and their elements \<open>'o\<close>. The
  arithmetic of \<^verbatim>\<open>double\<close> is the parameter \<open>dbl_ops\<close>, so that what is proved of the control of
  the batch size holds for every rounding.
\<close>

section \<open>The interpreter and the clock\<close>

datatype npy_array = NpyObject "byte list list" | NpyInt32 "32 word list" | NpyFloat64 "64 word list"

record ('w, 'r, 'o) py_env =
  gettimeofday :: "'w \<Rightarrow> (int \<times> int) \<times> 'w"
  main_module :: "'w \<Rightarrow> bool"
  callable :: "string \<Rightarrow> 'w \<Rightarrow> bool"
  call_object :: "string \<Rightarrow> npy_array list \<Rightarrow> 'w \<Rightarrow> 'r option \<times> 'w"
  concatenate :: "'r \<Rightarrow> 'r \<Rightarrow> 'r option"
  items :: "'r \<Rightarrow> 'o list"
  as_utf8 :: "'o \<Rightarrow> byte list option"
  as_long :: "'o \<Rightarrow> 64 word"
  as_double :: "'o \<Rightarrow> 64 word"

record 'd dbl_ops =
  d_of_int :: "int \<Rightarrow> 'd"
  d_add :: "'d \<Rightarrow> 'd \<Rightarrow> 'd"
  d_sub :: "'d \<Rightarrow> 'd \<Rightarrow> 'd"
  d_mul :: "'d \<Rightarrow> 'd \<Rightarrow> 'd"
  d_div :: "'d \<Rightarrow> 'd \<Rightarrow> 'd"
  d_less :: "'d \<Rightarrow> 'd \<Rightarrow> bool"
  d_eq :: "'d \<Rightarrow> 'd \<Rightarrow> bool"

section \<open>State\<close>

text \<open>\<open>ObPythonUdfInfo\<close>, reached through the pointer \<^verbatim>\<open>extra_info_\<close> of the expression.\<close>

record 'd udf_info =
  udf_meta :: python_udf_meta
  predict_size :: int
  tps_s :: 'd
  lambda_threshold :: 'd
  alpha :: 'd
  round_cnt :: int
  round_limit :: int
  delta :: int

record 'r udf_cell =
  cell_expr :: "ob_expr option"
  input_store :: pu_store
  cell_batch_size :: int
  cell_desirable :: int
  result_size :: int
  result_store :: "'r option"

text \<open>What the cells share: the information of every UDF expression and the outside world.\<close>

record ('w, 'd) udf_rt =
  infos :: "nat \<Rightarrow> 'd udf_info"
  world :: 'w

definition in_int32 :: "int \<Rightarrow> bool" where
  "in_int32 x \<longleftrightarrow> - 2147483648 \<le> x \<and> x < 2147483648"

text \<open>A fresh cell: the constructor initialises only the input store, \<open>raw\<close> stands for the other members.\<close>

definition cell_new :: "'r udf_cell \<Rightarrow> 'r udf_cell" where
  "cell_new raw = raw \<lparr>input_store := pu_store_new\<rparr>"

definition cell_init ::
  "mem_env \<Rightarrow> (nat \<Rightarrow> 'd udf_info) \<Rightarrow> ob_expr option \<Rightarrow> int \<Rightarrow> int \<Rightarrow> 'r udf_cell \<Rightarrow> (ob_ret \<times> 'r udf_cell) option" where
  "cell_init m infs expr batch_size len c =
     do {
       (ret, st) \<leftarrow> pu_init m True expr len (input_store c);
       (if ret \<noteq> OB_SUCCESS then Some (OB_NOT_INIT, c \<lparr>input_store := st\<rparr>)
        else do {
          e \<leftarrow> expr;
          Some (OB_SUCCESS, c \<lparr>input_store := st, cell_expr := expr,
                               cell_desirable := predict_size (infs (expr_id e)), cell_batch_size := batch_size\<rparr>)
        })
     }"

text \<open>The memory behind the buffers is given back by \<^verbatim>\<open>alloc_.reset()\<close>; that the pointers still held are dangling is not tracked.\<close>

definition cell_free :: "'r udf_cell \<Rightarrow> ob_ret \<times> 'r udf_cell" where
  "cell_free c =
     (let (ret, st) = pu_free (input_store c)
      in if ret \<noteq> OB_SUCCESS then (OB_ERR_UNEXPECTED, c \<lparr>input_store := st\<rparr>)
         else (OB_SUCCESS, c \<lparr>input_store := st, result_size := 0, result_store := None\<rparr>))"

definition cell_reset :: "mem_env \<Rightarrow> int \<Rightarrow> 'r udf_cell \<Rightarrow> (ob_ret \<times> 'r udf_cell) option" where
  "cell_reset m sz c = do { (ret, st) \<leftarrow> pu_reset m sz (input_store c); Some (ret, c \<lparr>input_store := st\<rparr>) }"

text \<open>\<open>reset_input_store\<close>: \<open>reset\<close> with the default length 0.\<close>

definition reset_input_store :: "mem_env \<Rightarrow> 'r udf_cell \<Rightarrow> (ob_ret \<times> 'r udf_cell) option" where
  "reset_input_store m c = cell_reset m 0 c"

text \<open>The getters return \<^verbatim>\<open>int\<close>.\<close>

definition get_desirable :: "'r udf_cell \<Rightarrow> int" where
  "get_desirable c = to_i32 (cell_desirable c)"

definition get_store_size :: "'r udf_cell \<Rightarrow> int" where
  "get_store_size c = to_i32 (int (pu_saved_size (input_store c)))"

definition get_result_size :: "'r udf_cell \<Rightarrow> int" where
  "get_result_size c = result_size c"

section \<open>Storing\<close>

definition store_arg :: "expr_env \<Rightarrow> batch_rows \<Rightarrow> ob_expr \<Rightarrow> frame \<Rightarrow> (ob_ret \<times> frame) option" where
  "store_arg env brs e fr =
     do {
       (ret, fr1) \<leftarrow> eval_vector env e brs fr;
       (if ret \<noteq> OB_SUCCESS then Some (OB_ERR_UNEXPECTED, fr1)
        else do {
          (ret, fr2) \<leftarrow> cast_to_uniform e (bsize brs) fr1;
          Some (if ret \<noteq> OB_SUCCESS then OB_ERR_UNEXPECTED else OB_SUCCESS, fr2)
        })
     }"

definition do_store ::
  "expr_env \<Rightarrow> mem_env \<Rightarrow> batch_rows \<Rightarrow> frame \<times> 'r udf_cell \<Rightarrow> (ob_ret \<times> frame \<times> 'r udf_cell) option" where
  "do_store env m brs st =
     (let (fr, c) = st
      in case cell_expr c of
          None \<Rightarrow> Some (OB_NOT_INIT, st)
        | Some e \<Rightarrow> do {
            (ret, fr1) \<leftarrow> for_ret (store_arg env brs) (expr_args e) fr;
            (if ret \<noteq> OB_SUCCESS then Some (OB_ERR_UNEXPECTED, fr1, c)
             else do {
               (ret, is) \<leftarrow> pu_save_batch m brs fr1 (input_store c);
               Some (if ret \<noteq> OB_SUCCESS then OB_ERR_UNEXPECTED else OB_SUCCESS, fr1, c \<lparr>input_store := is\<rparr>)
             })
          })"

section \<open>Wrapping the arguments\<close>

definition slice :: "nat \<Rightarrow> nat \<Rightarrow> 'a list \<Rightarrow> 'a list option" where
  "slice i n xs = (if i + n \<le> length xs then Some (take n (drop i xs)) else None)"

text \<open>
  The numpy array of one argument: the elements \<open>[idx, idx + n)\<close> of its buffer. A string object is built from every datum.
\<close>

definition wrap_arg :: "ob_obj_type \<Rightarrow> pu_buf \<Rightarrow> nat \<Rightarrow> nat \<Rightarrow> (ob_ret \<times> npy_array option) option" where
  "wrap_arg t buf idx n =
     (case (arg_kind t, buf) of
        (KString, BufDatum d) \<Rightarrow> do {
          ds \<leftarrow> slice idx n d;
          (if list_all (\<lambda>x. read_bytes (dptr x) (dlen x) \<noteq> None) ds
           then Some (OB_SUCCESS, Some (NpyObject (map (\<lambda>x. the (read_bytes (dptr x) (dlen x))) ds)))
           else None) }
      | (KInt, BufInt d) \<Rightarrow> do { xs \<leftarrow> slice idx n d; Some (OB_SUCCESS, Some (NpyInt32 xs)) }
      | (KDouble, BufDouble d) \<Rightarrow> do { xs \<leftarrow> slice idx n d; Some (OB_SUCCESS, Some (NpyFloat64 xs)) }
      | (KUnsupported, _) \<Rightarrow> Some (OB_NOT_SUPPORTED, None)
      | _ \<Rightarrow> None)"

fun wrap_args ::
  "pu_store \<Rightarrow> nat \<Rightarrow> nat \<Rightarrow> nat \<Rightarrow> ob_expr list \<Rightarrow> ob_ret \<times> npy_array option list \<Rightarrow>
     (ob_ret \<times> npy_array option list) option" where
  "wrap_args s idx n i [] acc = Some acc"
| "wrap_args s idx n i (e # es) acc =
     do {
       buf \<leftarrow> get_data_ptr_at s (int i);
       (r, a) \<leftarrow> wrap_arg (datum_type e) buf idx n;
       wrap_args s idx n (i + 1) es (if r = OB_SUCCESS then fst acc else r, snd acc @ [a])
     }"

text \<open>The result: the return code, the arguments and \<open>eval_size\<close>.\<close>

definition wrap_input_numpy ::
  "'r udf_cell \<Rightarrow> int \<Rightarrow> int \<Rightarrow> (ob_ret \<times> npy_array option list \<times> int) option" where
  "wrap_input_numpy c idx psize =
     (case cell_expr c of
        None \<Rightarrow> None
      | Some e \<Rightarrow>
          let saved_size = int (pu_saved_size (input_store c));
              eval_size = (if idx + psize < saved_size then psize else saved_size - idx)
          in if eval_size < 0 \<or> idx < 0 then None
             else do {
               (ret, args) \<leftarrow> wrap_args (input_store c) (nat idx) (nat eval_size) 0 (expr_args e) (OB_SUCCESS, []);
               Some (ret, args, eval_size)
             })"

definition wrap_input_numpy_all :: "'r udf_cell \<Rightarrow> (ob_ret \<times> npy_array option list \<times> int) option" where
  "wrap_input_numpy_all c = wrap_input_numpy c 0 (int (pu_saved_size (input_store c)))"

section \<open>Evaluation\<close>

definition pyfun_handler :: "string \<Rightarrow> string" where
  "pyfun_handler nm = c_str nm @ ''_pyfun''"

definition cell_eval ::
  "('w, 'r, 'o) py_env \<Rightarrow> npy_array option list \<Rightarrow> int \<Rightarrow> 'r udf_cell \<times> ('w, 'd) udf_rt \<Rightarrow>
     (ob_ret \<times> 'r udf_cell \<times> ('w, 'd) udf_rt) option" where
  "cell_eval pe args eval_size st =
     (let (c, rt) = st
      in case cell_expr c of
          None \<Rightarrow> None
        | Some e \<Rightarrow>
            let h = pyfun_handler (meta_name (udf_meta (infos rt (expr_id e)))); w = world rt
            in if \<not> main_module pe w then Some (OB_ERR_UNEXPECTED, st)
               else if \<not> callable pe h w then Some (OB_ERR_UNEXPECTED, st)
               else if None \<in> set args then None
               else case call_object pe h (map the args) w of
                   (None, w') \<Rightarrow> Some (OB_ERR_UNEXPECTED, c, rt \<lparr>world := w'\<rparr>)
                 | (Some r, w') \<Rightarrow>
                     let res = (case result_store c of None \<Rightarrow> Some r | Some r0 \<Rightarrow> concatenate pe r0 r)
                     in Some (OB_SUCCESS,
                              c \<lparr>result_store := res, result_size := to_i32 (result_size c + eval_size)\<rparr>,
                              rt \<lparr>world := w'\<rparr>))"

section \<open>Control of the batch size\<close>

definition timeuse :: "'d dbl_ops \<Rightarrow> int \<times> int \<Rightarrow> int \<times> int \<Rightarrow> 'd" where
  "timeuse D start fin =
     d_add D (d_of_int D ((fst fin - fst start) * 1000000)) (d_of_int D (snd fin - snd start))"

definition tps_of :: "'d dbl_ops \<Rightarrow> int \<times> int \<Rightarrow> int \<times> int \<Rightarrow> int \<Rightarrow> 'd" where
  "tps_of D start fin eval_size = d_div D (d_of_int D (eval_size * 1000000)) (timeuse D start fin)"

definition grow :: "'d udf_info \<Rightarrow> 'd udf_info option" where
  "grow info = (if in_int32 (predict_size info + delta info)
               then Some (info \<lparr>predict_size := predict_size info + delta info\<rparr>) else None)"

text \<open>\<open>modify_desirable\<close> on the shared information. A signed overflow of \<open>predict_size\<close> is \<open>None\<close>.\<close>

definition modify_info :: "'d dbl_ops \<Rightarrow> 'd \<Rightarrow> int \<Rightarrow> 'd udf_info \<Rightarrow> 'd udf_info option" where
  "modify_info D tps eval_size info =
     (if d_eq D (tps_s info) (d_of_int D 0) then grow (info \<lparr>tps_s := tps\<rparr>)
      else if round_cnt info > round_limit info \<or> eval_size \<noteq> predict_size info then Some info
      else if d_less D (tps_s info) tps then
        let info1 = (if d_less D tps (d_mul D (d_add D (d_of_int D 1) (lambda_threshold info)) (tps_s info))
                    then info \<lparr>round_cnt := round_cnt info + 1\<rparr> else info)
        in grow (info1 \<lparr>tps_s := tps\<rparr>)
      else
        let info1 = info \<lparr>tps_s := d_add D (d_mul D (d_sub D (d_of_int D 1) (alpha info)) (tps_s info))
                                         (d_mul D (alpha info) tps)\<rparr>
        in Some (if d_less D (d_mul D (d_sub D (d_of_int D 1) (lambda_threshold info1)) (tps_s info1)) tps
                 then info1 \<lparr>round_cnt := round_cnt info1 + 1\<rparr> else info1))"

definition modify_desirable ::
  "'d dbl_ops \<Rightarrow> int \<times> int \<Rightarrow> int \<times> int \<Rightarrow> int \<Rightarrow> 'r udf_cell \<times> ('w, 'd) udf_rt \<Rightarrow>
     ('r udf_cell \<times> ('w, 'd) udf_rt) option" where
  "modify_desirable D start fin eval_size st =
     (let (c, rt) = st
      in case cell_expr c of
          None \<Rightarrow> None
        | Some e \<Rightarrow> do {
            info \<leftarrow> modify_info D (tps_of D start fin eval_size) eval_size (infos rt (expr_id e));
            Some (c \<lparr>cell_desirable := predict_size info\<rparr>, rt \<lparr>infos := (infos rt)(expr_id e := info)\<rparr>)
          })"

definition clock :: "('w, 'r, 'o) py_env \<Rightarrow> ('w, 'd) udf_rt \<Rightarrow> (int \<times> int) \<times> ('w, 'd) udf_rt" where
  "clock pe rt = (let (t, w) = gettimeofday pe (world rt) in (t, rt \<lparr>world := w\<rparr>))"

section \<open>Processing\<close>

text \<open>One iteration of the loop of \<open>do_process\<close>: also returns \<open>eval_size\<close>.\<close>

definition process_step ::
  "('w, 'r, 'o) py_env \<Rightarrow> 'd dbl_ops \<Rightarrow> int \<Rightarrow> 'r udf_cell \<times> ('w, 'd) udf_rt \<Rightarrow>
     (ob_ret \<times> int \<times> 'r udf_cell \<times> ('w, 'd) udf_rt) option" where
  "process_step pe D idx st =
     (let (c, rt) = st; (t1, rt1) = clock pe rt
      in do {
        (ret, args, eval_size) \<leftarrow> wrap_input_numpy c idx (cell_desirable c);
        (if ret \<noteq> OB_SUCCESS then Some (OB_ERR_UNEXPECTED, eval_size, c, rt1)
         else do {
           (ret, c2, rt2) \<leftarrow> cell_eval pe args eval_size (c, rt1);
           (if ret \<noteq> OB_SUCCESS then Some (OB_ERR_UNEXPECTED, eval_size, c2, rt2)
            else let (t2, rt3) = clock pe rt2
                 in do { st' \<leftarrow> modify_desirable D t1 t2 eval_size (c2, rt3); Some (OB_SUCCESS, eval_size, st') })
         })
      })"

text \<open>The loop ends when all saved rows are processed; \<open>None\<close> is also a loop that does not end.\<close>

partial_function (option) process_loop ::
  "('w, 'r, 'o) py_env \<Rightarrow> 'd dbl_ops \<Rightarrow> int \<Rightarrow> 'r udf_cell \<times> ('w, 'd) udf_rt \<Rightarrow>
     (ob_ret \<times> 'r udf_cell \<times> ('w, 'd) udf_rt) option" where
  "process_loop pe D idx st =
     (if idx < int (pu_saved_size (input_store (fst st)))
      then do {
        r \<leftarrow> process_step pe D idx st;
        (if fst r \<noteq> OB_SUCCESS then Some (fst r, snd (snd r))
         else process_loop pe D (idx + fst (snd r)) (snd (snd r)))
      }
      else Some (OB_SUCCESS, st))"

definition do_process ::
  "('w, 'r, 'o) py_env \<Rightarrow> 'd dbl_ops \<Rightarrow> 'r udf_cell \<times> ('w, 'd) udf_rt \<Rightarrow>
     (ob_ret \<times> 'r udf_cell \<times> ('w, 'd) udf_rt) option" where
  "do_process pe D st =
     (let (c, rt) = st in process_loop pe D 0 (c \<lparr>result_store := None, result_size := 0\<rparr>, rt))"

text \<open>\<open>do_process_all\<close> (not used with batch control): one call with all saved rows.\<close>

definition do_process_all ::
  "('w, 'r, 'o) py_env \<Rightarrow> 'r udf_cell \<times> ('w, 'd) udf_rt \<Rightarrow> (ob_ret \<times> 'r udf_cell \<times> ('w, 'd) udf_rt) option" where
  "do_process_all pe st =
     (let (c, rt) = st; c = c \<lparr>result_store := None, result_size := 0\<rparr>
      in do {
        (ret, args, eval_size) \<leftarrow> wrap_input_numpy_all c;
        (if ret \<noteq> OB_SUCCESS then Some (OB_ERR_UNEXPECTED, c, rt)
         else do {
           (ret, c2, rt2) \<leftarrow> cell_eval pe args eval_size (c, rt);
           Some (if ret \<noteq> OB_SUCCESS then OB_ERR_UNEXPECTED else OB_SUCCESS, c2, rt2)
         })
      })"

section \<open>Restoring\<close>

text \<open>\<^verbatim>\<open>PyArray_GETITEM(result_store, PyArray_GETPTR1(result_store, i))\<close>\<close>

definition get_item :: "('w, 'r, 'o) py_env \<Rightarrow> 'r option \<Rightarrow> nat \<Rightarrow> 'o option" where
  "get_item pe r i = do { a \<leftarrow> r; (if i < length (items pe a) then Some (items pe a ! i) else None) }"

definition restore_vector_row ::
  "('w, 'r, 'o) py_env \<Rightarrow> ob_obj_type \<Rightarrow> 'r option \<Rightarrow> nat \<Rightarrow> nat \<Rightarrow> expr_frame \<Rightarrow> (ob_ret \<times> expr_frame) option" where
  "restore_vector_row pe t r output_idx i x =
     do {
       o' \<leftarrow> get_item pe r (output_idx + i);
       x' \<leftarrow> (case arg_kind t of
               KString \<Rightarrow> set_payload_shallow i (as_utf8 pe o') (case as_utf8 pe o' of None \<Rightarrow> 0 | Some bs \<Rightarrow> length bs) x
             | KInt \<Rightarrow> set_payload i (Some (le_bytes (as_long pe o'))) 8 x
             | _ \<Rightarrow> set_payload i (Some (le_bytes (as_double pe o'))) 8 x);
       Some (OB_SUCCESS, x')
     }"

text \<open>
  \<open>do_restore_vector\<close>. With a return type that is not supported the code still writes through the vector that was
  last there, which is modelled as \<open>None\<close>.
\<close>

definition do_restore_vector ::
  "('w, 'r, 'o) py_env \<Rightarrow> 'd udf_info \<Rightarrow> ob_expr \<Rightarrow> 'r udf_cell \<Rightarrow> nat \<Rightarrow> nat \<Rightarrow> frame \<Rightarrow> (ob_ret \<times> frame) option" where
  "do_restore_vector pe info e c output_idx output_size fr =
     (let fmt = (case meta_ret (udf_meta info) of
                   STRING \<Rightarrow> VEC_DISCRETE | INTEGER \<Rightarrow> VEC_FIXED | REAL \<Rightarrow> VEC_FIXED | _ \<Rightarrow> VEC_INVALID)
      in if fmt = VEC_INVALID then None
         else do {
           (_, fr1) \<leftarrow> init_vector e fmt (nat (cell_batch_size c)) True fr;
           (if arg_kind (datum_type e) = KUnsupported then Some (OB_NOT_SUPPORTED, fr1)
            else do {
              (_, x) \<leftarrow> for_ret (restore_vector_row pe (datum_type e) (result_store c) output_idx)
                         [0..<output_size] (fr1 (expr_id e));
              Some (OB_SUCCESS, fr1(expr_id e := x))
            })
         })"

definition restore_batch_row ::
  "('w, 'r, 'o) py_env \<Rightarrow> ob_obj_type \<Rightarrow> 'r option \<Rightarrow> nat \<Rightarrow> nat \<Rightarrow> expr_frame \<Rightarrow> (ob_ret \<times> expr_frame) option" where
  "restore_batch_row pe t r output_idx i x =
     (if length (cells x) \<le> i then None
      else do {
        o' \<leftarrow> get_item pe r (output_idx + i);
        d' \<leftarrow> (case arg_kind t of
                KString \<Rightarrow> Some (datum_set_string (as_utf8 pe o') (to_reserve x i (cells x ! i)))
              | KInt \<Rightarrow> datum_set_word (as_long pe o') (to_reserve x i (cells x ! i))
              | _ \<Rightarrow> datum_set_word (as_double pe o') (to_reserve x i (cells x ! i)));
        Some (OB_SUCCESS, x \<lparr>cells := (cells x)[i := d']\<rparr>)
      })"

definition do_restore_batch ::
  "('w, 'r, 'o) py_env \<Rightarrow> ob_expr \<Rightarrow> 'r udf_cell \<Rightarrow> nat \<Rightarrow> nat \<Rightarrow> frame \<Rightarrow> (ob_ret \<times> frame) option" where
  "do_restore_batch pe e c output_idx output_size fr =
     (if arg_kind (datum_type e) = KUnsupported then Some (OB_NOT_SUPPORTED, fr)
      else do {
        (_, x) \<leftarrow> for_ret (restore_batch_row pe (datum_type e) (result_store c) output_idx)
                   [0..<output_size] (fr (expr_id e));
        Some (OB_SUCCESS, fr(expr_id e := x))
      })"

text \<open>\<open>rich\<close> is \<^verbatim>\<open>expr_->enable_rich_format()\<close>.\<close>

definition do_restore ::
  "('w, 'r, 'o) py_env \<Rightarrow> bool \<Rightarrow> (nat \<Rightarrow> 'd udf_info) \<Rightarrow> 'r udf_cell \<Rightarrow> nat \<Rightarrow> nat \<Rightarrow> frame \<Rightarrow> (ob_ret \<times> frame) option" where
  "do_restore pe rich infs c output_idx output_size fr =
     (if int (output_idx + output_size) > result_size c then Some (OB_ERR_UNEXPECTED, fr)
      else case cell_expr c of
          None \<Rightarrow> Some (OB_ERR_UNEXPECTED, fr)
        | Some e \<Rightarrow> do {
            (ret, fr1) \<leftarrow> (if rich then do_restore_vector pe (infs (expr_id e)) e c output_idx output_size fr
                          else do_restore_batch pe e c output_idx output_size fr);
            Some (if ret \<noteq> OB_SUCCESS then (OB_NOT_SUPPORTED, fr1)
                  else (OB_SUCCESS, fr1(expr_id e := (fr1 (expr_id e)) \<lparr>evaluated := True, projected := True\<rparr>)))
          })"

section \<open>What python sees\<close>

fun npy_vals :: "npy_array \<Rightarrow> py_val list" where
  "npy_vals (NpyObject bs) = map VStr bs"
| "npy_vals (NpyInt32 ws) = map VInt ws"
| "npy_vals (NpyFloat64 ws) = map VDouble ws"

text \<open>The rows \<open>[i, j)\<close> of columns of values.\<close>

definition val_rows :: "py_val list list \<Rightarrow> nat \<Rightarrow> nat \<Rightarrow> py_val list list" where
  "val_rows cols i j = map (\<lambda>k. map (\<lambda>col. col ! k) cols) [i..<j]"

lemma val_rows_append: "i \<le> j \<Longrightarrow> j \<le> k \<Longrightarrow> val_rows cols i j @ val_rows cols j k = val_rows cols i k"
  by (simp add: val_rows_def) (metis map_append upt_add_eq_append le_add_diff_inverse)

lemma length_val_rows [simp]: "length (val_rows cols i j) = j - i"
  by (simp add: val_rows_def)

text \<open>
  The documented behaviour of a python UDF and of numpy the operator relies on: the handler exists and maps every row
  of its arguments to one element of the result, and \<^verbatim>\<open>PyArray_Concatenate\<close> concatenates.
\<close>

definition udf_rowwise :: "('w, 'r, 'o) py_env \<Rightarrow> string \<Rightarrow> (py_val list \<Rightarrow> 'o) \<Rightarrow> bool" where
  "udf_rowwise pe h f \<longleftrightarrow>
     (\<forall>w. main_module pe w \<and> callable pe h w) \<and>
     (\<forall>args n w. args \<noteq> [] \<and> 0 < n \<and> (\<forall>a \<in> set args. length (npy_vals a) = n) \<longrightarrow>
        (\<exists>r w'. call_object pe h args w = (Some r, w') \<and> items pe r = map f (val_rows (map npy_vals args) 0 n)))"

definition concat_ok :: "('w, 'r, 'o) py_env \<Rightarrow> bool" where
  "concat_ok pe \<longleftrightarrow> (\<forall>a b. \<exists>c. concatenate pe a b = Some c \<and> items pe c = items pe a @ items pe b)"

section \<open>Wrapping is a slice\<close>

lemma wrap_arg_ok:
  assumes "buf_kind b = arg_kind t" "buf_rows b vs" "idx + n \<le> length vs"
  shows "\<exists>a. wrap_arg t b idx n = Some (OB_SUCCESS, Some a) \<and> npy_vals a = take n (drop idx vs)"
proof (cases b)
  case BufNull
  with assms show ?thesis by simp
next
  case (BufDatum d)
  let ?ds = "take n (drop idx d)"
  have d: "idx + n \<le> length d" and rd: "\<forall>k < length vs. readable (d ! k) \<and> vs ! k = VStr (payload (d ! k))"
    using assms BufDatum by auto
  have "read_bytes (dptr x) (dlen x) = Some (payload x)" if "x \<in> set ?ds" for x
  proof -
    from that obtain k where "k < n" "x = d ! (idx + k)" using d by (auto simp: in_set_conv_nth)
    with rd assms(3) show ?thesis by (simp add: read_bytes_payload)
  qed
  then have "wrap_arg t b idx n = Some (OB_SUCCESS, Some (NpyObject (map payload ?ds)))"
    using assms(1) BufDatum d by (auto simp: wrap_arg_def slice_def list_all_iff split: arg_kind.splits)
  moreover have "npy_vals (NpyObject (map payload ?ds)) = take n (drop idx vs)"
    using rd d assms(3) by (auto intro!: nth_equalityI)
  ultimately show ?thesis by blast
next
  case (BufInt d)
  with assms have "wrap_arg t b idx n = Some (OB_SUCCESS, Some (NpyInt32 (take n (drop idx d))))"
    by (auto simp: wrap_arg_def slice_def split: arg_kind.splits)
  moreover have "npy_vals (NpyInt32 (take n (drop idx d))) = take n (drop idx vs)"
    using assms BufInt by (auto intro!: nth_equalityI)
  ultimately show ?thesis by blast
next
  case (BufDouble d)
  with assms have "wrap_arg t b idx n = Some (OB_SUCCESS, Some (NpyFloat64 (take n (drop idx d))))"
    by (auto simp: wrap_arg_def slice_def split: arg_kind.splits)
  moreover have "npy_vals (NpyFloat64 (take n (drop idx d))) = take n (drop idx vs)"
    using assms BufDouble by (auto intro!: nth_equalityI)
  ultimately show ?thesis by blast
qed

lemma wrap_args_ok:
  assumes "\<And>k. k < length es \<Longrightarrow> \<exists>b. get_data_ptr_at s (int (i + k)) = Some b \<and>
             buf_kind b = arg_kind (datum_type (es ! k)) \<and> buf_rows b (vs k)"
    and "\<And>k. k < length es \<Longrightarrow> idx + n \<le> length (vs k)"
  shows "\<exists>as. wrap_args s idx n i es (OB_SUCCESS, acc) = Some (OB_SUCCESS, acc @ map Some as) \<and> length as = length es \<and>
           (\<forall>k < length es. npy_vals (as ! k) = take n (drop idx (vs k)))"
  using assms
proof (induction es arbitrary: i acc vs)
  case (Cons e es)
  obtain b where b: "get_data_ptr_at s (int i) = Some b" "buf_kind b = arg_kind (datum_type e)" "buf_rows b (vs 0)"
    using Cons.prems(1) [of 0] by auto
  obtain a where a: "wrap_arg (datum_type e) b idx n = Some (OB_SUCCESS, Some a)" "npy_vals a = take n (drop idx (vs 0))"
    using wrap_arg_ok [OF b(2,3)] Cons.prems(2) [of 0] by auto
  have "\<exists>as. wrap_args s idx n (Suc i) es (OB_SUCCESS, acc @ [Some a]) =
             Some (OB_SUCCESS, (acc @ [Some a]) @ map Some as) \<and> length as = length es \<and>
           (\<forall>k < length es. npy_vals (as ! k) = take n (drop idx ((\<lambda>k. vs (Suc k)) k)))"
  proof (rule Cons.IH)
    fix k assume "k < length es"
    then show "\<exists>b. get_data_ptr_at s (int (Suc i + k)) = Some b \<and> buf_kind b = arg_kind (datum_type (es ! k)) \<and>
        buf_rows b (vs (Suc k))" "idx + n \<le> length (vs (Suc k))"
      using Cons.prems(1) [of "Suc k"] Cons.prems(2) [of "Suc k"] by auto
  qed
  then obtain as where as: "wrap_args s idx n (Suc i) es (OB_SUCCESS, acc @ [Some a]) =
      Some (OB_SUCCESS, (acc @ [Some a]) @ map Some as)" "length as = length es"
    "\<forall>k < length es. npy_vals (as ! k) = take n (drop idx (vs (Suc k)))" by blast
  from as a b show ?case
    by (intro exI [of _ "a # as"]) (auto simp: less_Suc_eq_0_disj)
qed simp

lemma wrap_input_numpy_ok:
  assumes inv: "pu_inv e (input_store c)" and rows: "pu_rows (input_store c) vss" and e: "cell_expr c = Some e"
    and idx: "idx < pu_saved_size (input_store c)" and p: "0 < psize"
  defines "n \<equiv> min (nat psize) (pu_saved_size (input_store c) - idx)"
  shows "\<exists>as. wrap_input_numpy c (int idx) psize = Some (OB_SUCCESS, map Some as, int n) \<and> as \<noteq> [] \<and>
           (\<forall>a \<in> set as. length (npy_vals a) = n) \<and>
           val_rows (map npy_vals as) 0 n = val_rows vss idx (idx + n)"
proof -
  let ?s = "input_store c"
  obtain bufs where bufs: "pu_data ?s = Some bufs" "length bufs = arg_cnt e"
    "\<forall>i < arg_cnt e. buf_kind (bufs ! i) = arg_kind (datum_type (expr_args e ! i))"
    using inv by (auto simp: pu_inv_def)
  have vss: "length vss = arg_cnt e" "\<forall>i < arg_cnt e. length (vss ! i) = pu_saved_size ?s \<and> buf_rows (bufs ! i) (vss ! i)"
    using rows bufs by (auto simp: pu_rows_def)
  have n: "idx + n \<le> pu_saved_size ?s" using idx by (simp add: n_def)
  have size: "(if int idx + psize < int (pu_saved_size ?s) then psize else int (pu_saved_size ?s) - int idx) = int n"
    using idx p by (auto simp: n_def min_def of_nat_diff)
  have "\<exists>as. wrap_args ?s idx n 0 (expr_args e) (OB_SUCCESS, []) = Some (OB_SUCCESS, [] @ map Some as) \<and>
      length as = length (expr_args e) \<and> (\<forall>k < length (expr_args e). npy_vals (as ! k) = take n (drop idx (vss ! k)))"
    using bufs vss n inv
    by (intro wrap_args_ok) (auto simp: get_data_ptr_at_def pu_inv_def arg_cnt_def)
  then obtain as where as: "wrap_args ?s idx n 0 (expr_args e) (OB_SUCCESS, []) = Some (OB_SUCCESS, map Some as)"
    "length as = arg_cnt e" "\<forall>k < arg_cnt e. npy_vals (as ! k) = take n (drop idx (vss ! k))"
    by (auto simp: arg_cnt_def)
  have "wrap_input_numpy c (int idx) psize = Some (OB_SUCCESS, map Some as, int n)"
    using as(1) e size by (simp add: wrap_input_numpy_def Let_def)
  moreover have "as \<noteq> []" using as(2) inv by (auto simp: pu_inv_def)
  moreover have "\<forall>a \<in> set as. length (npy_vals a) = n"
    using as(2,3) vss n by (auto simp: in_set_conv_nth)
  moreover have "val_rows (map npy_vals as) 0 n = val_rows vss idx (idx + n)"
    using as(2,3) vss n by (auto simp: val_rows_def intro!: nth_equalityI)
  ultimately show ?thesis by blast
qed

section \<open>The batch size only grows\<close>

lemma modify_info_frame:
  assumes "modify_info D tps n info = Some info'" "0 \<le> delta info"
  shows "udf_meta info' = udf_meta info" "delta info' = delta info" "round_limit info' = round_limit info"
    "lambda_threshold info' = lambda_threshold info" "alpha info' = alpha info"
    "predict_size info \<le> predict_size info'" "predict_size info' \<le> predict_size info + delta info"
    "round_cnt info \<le> round_cnt info'" "round_cnt info' \<le> round_cnt info + 1"
  using assms by (auto simp: modify_info_def grow_def Let_def split: if_splits)

lemma modify_info_defined:
  "in_int32 (predict_size info + delta info) \<Longrightarrow> \<exists>info'. modify_info D tps n info = Some info'"
  by (auto simp: modify_info_def grow_def Let_def)

section \<open>Processing computes the UDF on every row\<close>

definition result_items :: "('w, 'r, 'o) py_env \<Rightarrow> 'r udf_cell \<Rightarrow> 'o list" where
  "result_items pe c = (case result_store c of None \<Rightarrow> [] | Some r \<Rightarrow> items pe r)"

definition cell_ok :: "ob_expr \<Rightarrow> 'd udf_info \<Rightarrow> 'r udf_cell \<Rightarrow> bool" where
  "cell_ok e info c \<longleftrightarrow> cell_expr c = Some e \<and> pu_inv e (input_store c) \<and>
     cell_desirable c = predict_size info \<and> 0 < predict_size info \<and> 0 \<le> delta info"

text \<open>\<open>grows rows info\<close>: after \<open>rows\<close> rows the batch size still fits an \<^verbatim>\<open>int\<close>.\<close>

definition grows :: "nat \<Rightarrow> 'd udf_info \<Rightarrow> bool" where
  "grows k info \<longleftrightarrow> predict_size info + delta info * int k < 2147483648"

text \<open>What processing keeps of the shared information of the expression and of the cell.\<close>

definition same_info :: "'d udf_info \<Rightarrow> 'd udf_info \<Rightarrow> bool" where
  "same_info i i' \<longleftrightarrow> udf_meta i' = udf_meta i \<and> delta i' = delta i \<and> round_limit i' = round_limit i \<and>
     predict_size i \<le> predict_size i'"

definition same_cell :: "'r udf_cell \<Rightarrow> 'r udf_cell \<Rightarrow> bool" where
  "same_cell c c' \<longleftrightarrow> cell_expr c' = cell_expr c \<and> input_store c' = input_store c \<and>
     cell_batch_size c' = cell_batch_size c"

lemma same_info_refl [simp]: "same_info i i" and same_cell_refl [simp]: "same_cell c c"
  by (simp_all add: same_info_def same_cell_def)

lemma same_info_trans: "same_info i j \<Longrightarrow> same_info j k \<Longrightarrow> same_info i k"
  and same_cell_trans: "same_cell c d \<Longrightarrow> same_cell d x \<Longrightarrow> same_cell c x"
  by (simp_all add: same_info_def same_cell_def)

text \<open>What an iteration does to the state, \<open>e\<close> being the expression of the cell.\<close>

definition step_frame :: "ob_expr \<Rightarrow> nat \<Rightarrow> 'r udf_cell \<times> ('w, 'd) udf_rt \<Rightarrow> 'r udf_cell \<times> ('w, 'd) udf_rt \<Rightarrow> bool" where
  "step_frame e k st st' \<longleftrightarrow>
     same_cell (fst st) (fst st') \<and> same_info (infos (snd st) (expr_id e)) (infos (snd st') (expr_id e)) \<and>
     (\<forall>i. i \<noteq> expr_id e \<longrightarrow> infos (snd st') i = infos (snd st) i) \<and>
     cell_desirable (fst st') = predict_size (infos (snd st') (expr_id e)) \<and>
     predict_size (infos (snd st') (expr_id e)) \<le>
       predict_size (infos (snd st) (expr_id e)) + delta (infos (snd st) (expr_id e)) * int k"

lemma cell_eval_ok:
  assumes e: "cell_expr c = Some e"
    and udf: "udf_rowwise pe (pyfun_handler (meta_name (udf_meta (infos rt (expr_id e))))) f" and cat: "concat_ok pe"
    and as: "as \<noteq> []" "\<forall>a \<in> set as. length (npy_vals a) = n" "0 < n"
  shows "\<exists>r w. cell_eval pe (map Some as) (int n) (c, rt) =
           Some (OB_SUCCESS, c \<lparr>result_store := Some r, result_size := to_i32 (result_size c + int n)\<rparr>, rt \<lparr>world := w\<rparr>) \<and>
           items pe r = result_items pe c @ map f (val_rows (map npy_vals as) 0 n)"
proof -
  let ?h = "pyfun_handler (meta_name (udf_meta (infos rt (expr_id e))))"
  obtain r w' where call: "call_object pe ?h as (world rt) = (Some r, w')"
    "items pe r = map f (val_rows (map npy_vals as) 0 n)"
    using udf as unfolding udf_rowwise_def by meson
  obtain r' where r': "(case result_store c of None \<Rightarrow> Some r | Some r0 \<Rightarrow> concatenate pe r0 r) = Some r'"
    "items pe r' = result_items pe c @ items pe r"
    using cat by (cases "result_store c") (auto simp: concat_ok_def result_items_def)
  from udf e call r' show ?thesis
    by (intro exI [of _ r'] exI [of _ w']) (auto simp: cell_eval_def udf_rowwise_def Let_def comp_def)
qed

lemma process_step_ok:
  assumes ok: "cell_ok e (infos rt (expr_id e)) c" and rows: "pu_rows (input_store c) vss"
    and udf: "udf_rowwise pe (pyfun_handler (meta_name (udf_meta (infos rt (expr_id e))))) f" and cat: "concat_ok pe"
    and idx: "idx < pu_saved_size (input_store c)" and gr: "grows 1 (infos rt (expr_id e))"
    and size: "result_size c = int idx" "int (pu_saved_size (input_store c)) < 2147483648"
  shows "\<exists>n c' rt'. process_step pe D (int idx) (c, rt) = Some (OB_SUCCESS, int n, c', rt') \<and>
           0 < n \<and> idx + n \<le> pu_saved_size (input_store c) \<and> step_frame e 1 (c, rt) (c', rt') \<and>
           result_items pe c' = result_items pe c @ map f (val_rows vss idx (idx + n)) \<and>
           result_size c' = int (idx + n)"
proof -
  let ?i = "infos rt (expr_id e)"
  define n where "n = min (nat (cell_desirable c)) (pu_saved_size (input_store c) - idx)"
  have n: "0 < n" "idx + n \<le> pu_saved_size (input_store c)" using idx ok by (auto simp: n_def cell_ok_def)
  obtain as where as: "wrap_input_numpy c (int idx) (cell_desirable c) = Some (OB_SUCCESS, map Some as, int n)"
    "as \<noteq> []" "\<forall>a \<in> set as. length (npy_vals a) = n"
    "val_rows (map npy_vals as) 0 n = val_rows vss idx (idx + n)"
    using wrap_input_numpy_ok [of e c vss idx "cell_desirable c"] ok rows idx by (auto simp: cell_ok_def n_def)
  obtain t1 w1 where t1: "gettimeofday pe (world rt) = (t1, w1)" by fastforce
  let ?rt1 = "rt \<lparr>world := w1\<rparr>"
  obtain r w2 where ev: "cell_eval pe (map Some as) (int n) (c, ?rt1) =
      Some (OB_SUCCESS, c \<lparr>result_store := Some r, result_size := to_i32 (result_size c + int n)\<rparr>, ?rt1 \<lparr>world := w2\<rparr>)"
    "items pe r = result_items pe c @ map f (val_rows vss idx (idx + n))"
    using cell_eval_ok [of c e pe ?rt1 f as n] ok udf cat as n by (auto simp: cell_ok_def)
  obtain t2 w3 where t2: "gettimeofday pe w2 = (t2, w3)" by fastforce
  have range: "in_int32 (predict_size ?i + delta ?i)"
    using ok gr by (auto simp: cell_ok_def grows_def in_int32_def)
  obtain i' where i': "modify_info D (tps_of D t1 t2 (int n)) (int n) ?i = Some i'"
    using modify_info_defined [OF range] by blast
  have fr: "same_info ?i i'" "predict_size i' \<le> predict_size ?i + delta ?i"
    using modify_info_frame [OF i'] ok by (auto simp: cell_ok_def same_info_def)
  let ?c' = "c \<lparr>result_store := Some r, result_size := to_i32 (result_size c + int n), cell_desirable := predict_size i'\<rparr>"
  let ?rt' = "rt \<lparr>world := w3, infos := (infos rt)(expr_id e := i')\<rparr>"
  have "process_step pe D (int idx) (c, rt) = Some (OB_SUCCESS, int n, ?c', ?rt')"
    using as(1) ev(1) t1 t2 i' ok by (simp add: process_step_def clock_def modify_desirable_def cell_ok_def)
  moreover have "result_size ?c' = int (idx + n)" using size n by simp
  moreover have "step_frame e 1 (c, rt) (?c', ?rt')" using fr by (auto simp: step_frame_def same_cell_def)
  moreover have "result_items pe ?c' = result_items pe c @ map f (val_rows vss idx (idx + n))"
    using ev(2) by (simp add: result_items_def)
  ultimately show ?thesis using n by blast
qed

lemma step_frame_trans:
  "step_frame e j st st1 \<Longrightarrow> step_frame e k st1 st2 \<Longrightarrow> step_frame e (j + k) st st2"
  unfolding step_frame_def
  by (auto intro: same_cell_trans same_info_trans simp: same_info_def distrib_left)

lemma step_frame_mono: "step_frame e j st st' \<Longrightarrow> j \<le> k \<Longrightarrow> 0 \<le> delta (infos (snd st) (expr_id e)) \<Longrightarrow> step_frame e k st st'"
  using mult_left_mono [of "int j" "int k" "delta (infos (snd st) (expr_id e))"] unfolding step_frame_def by auto

text \<open>The loop ends, whatever the clock says, and evaluates every saved row exactly once and in order.\<close>

lemma process_loop_ok:
  assumes "cell_ok e (infos rt (expr_id e)) c" and "pu_rows (input_store c) vss"
    and "udf_rowwise pe (pyfun_handler (meta_name (udf_meta (infos rt (expr_id e))))) f" and cat: "concat_ok pe"
    and "idx \<le> pu_saved_size (input_store c)" and "grows (pu_saved_size (input_store c) - idx) (infos rt (expr_id e))"
    and "result_size c = int idx" "int (pu_saved_size (input_store c)) < 2147483648"
    and "result_items pe c = map f (val_rows vss 0 idx)"
  shows "\<exists>c' rt'. process_loop pe D (int idx) (c, rt) = Some (OB_SUCCESS, c', rt') \<and>
           step_frame e (pu_saved_size (input_store c) - idx) (c, rt) (c', rt') \<and>
           result_items pe c' = map f (val_rows vss 0 (pu_saved_size (input_store c))) \<and>
           result_size c' = int (pu_saved_size (input_store c))"
  using assms(1-3,5-)
proof (induction "pu_saved_size (input_store c) - idx" arbitrary: idx c rt rule: less_induct)
  case less
  let ?i = "infos rt (expr_id e)"
  let ?saved = "pu_saved_size (input_store c)"
  show ?case
  proof (cases "idx < ?saved")
    case False
    with less.prems show ?thesis
      by (subst process_loop.simps) (auto simp: step_frame_def cell_ok_def)
  next
    case True
    have one: "delta ?i * 1 \<le> delta ?i * int (?saved - idx)"
      using True less.prems(1) by (intro mult_left_mono) (auto simp: cell_ok_def)
    then have "grows 1 ?i" using less.prems(5) by (simp add: grows_def)
    with process_step_ok [OF less.prems(1-3) cat True _ less.prems(6,7), of D]
    obtain n c1 rt1 where st: "process_step pe D (int idx) (c, rt) = Some (OB_SUCCESS, int n, c1, rt1)"
      "0 < n" "idx + n \<le> ?saved" "step_frame e 1 (c, rt) (c1, rt1)"
      "result_items pe c1 = result_items pe c @ map f (val_rows vss idx (idx + n))" "result_size c1 = int (idx + n)"
      by auto
    let ?i1 = "infos rt1 (expr_id e)"
    have ist: "input_store c1 = input_store c" and ok1: "cell_ok e ?i1 c1"
      using st(4) less.prems(1) by (auto simp: step_frame_def same_cell_def same_info_def cell_ok_def)
    have meta: "udf_meta ?i1 = udf_meta ?i" and del: "delta ?i1 = delta ?i" and d0: "0 \<le> delta ?i"
      and pred: "predict_size ?i1 \<le> predict_size ?i + delta ?i"
      using st(4) less.prems(1) by (auto simp: step_frame_def same_info_def cell_ok_def)
    have bound: "delta ?i * int (1 + (?saved - (idx + n))) \<le> delta ?i * int (?saved - idx)"
      using st(2,3) d0 by (intro mult_left_mono) auto
    then have "grows (?saved - (idx + n)) ?i1"
      using pred del less.prems(5) by (simp add: grows_def distrib_left)
    moreover have "result_items pe c1 = map f (val_rows vss 0 (idx + n))"
      using st(5) less.prems(8) val_rows_append [of 0 idx "idx + n" vss] by (simp flip: map_append)
    moreover have "?saved - (idx + n) < ?saved - idx" using st(2) True by linarith
    ultimately obtain c' rt' where ind: "process_loop pe D (int (idx + n)) (c1, rt1) = Some (OB_SUCCESS, c', rt')"
      "step_frame e (?saved - (idx + n)) (c1, rt1) (c', rt')"
      "result_items pe c' = map f (val_rows vss 0 ?saved)" "result_size c' = int ?saved"
      using less.hyps [of c1 "idx + n" rt1] ok1 less.prems(2,3,7) st(3,6) ist meta by auto
    have "step_frame e (1 + (?saved - (idx + n))) (c, rt) (c', rt')"
      by (rule step_frame_trans [OF st(4) ind(2)])
    then have "step_frame e (?saved - idx) (c, rt) (c', rt')"
      by (rule step_frame_mono) (use st(2,3) d0 in auto)
    moreover have "process_loop pe D (int idx) (c, rt) = Some (OB_SUCCESS, c', rt')"
      using True st(1) ind(1) by (subst process_loop.simps) simp
    ultimately show ?thesis using ind by blast
  qed
qed

lemma do_process_ok:
  assumes ok: "cell_ok e (infos rt (expr_id e)) c" and rows: "pu_rows (input_store c) vss"
    and udf: "udf_rowwise pe (pyfun_handler (meta_name (udf_meta (infos rt (expr_id e))))) f" and cat: "concat_ok pe"
    and gr: "grows (pu_saved_size (input_store c)) (infos rt (expr_id e))"
    and size: "int (pu_saved_size (input_store c)) < 2147483648"
  shows "\<exists>c' rt'. do_process pe D (c, rt) = Some (OB_SUCCESS, c', rt') \<and>
           step_frame e (pu_saved_size (input_store c)) (c, rt) (c', rt') \<and>
           result_items pe c' = map f (val_rows vss 0 (pu_saved_size (input_store c))) \<and>
           result_size c' = int (pu_saved_size (input_store c))"
proof -
  let ?c = "c \<lparr>result_store := None, result_size := 0\<rparr>"
  have "\<exists>c' rt'. process_loop pe D (int 0) (?c, rt) = Some (OB_SUCCESS, c', rt') \<and>
           step_frame e (pu_saved_size (input_store ?c) - 0) (?c, rt) (c', rt') \<and>
           result_items pe c' = map f (val_rows vss 0 (pu_saved_size (input_store ?c))) \<and>
           result_size c' = int (pu_saved_size (input_store ?c))"
    using assms by (intro process_loop_ok) (auto simp: cell_ok_def result_items_def val_rows_def)
  then show ?thesis by (auto simp: do_process_def step_frame_def same_cell_def)
qed

section \<open>Restoring writes the results into the frame\<close>

text \<open>The bytes of the column value an element of the result becomes.\<close>

definition udf_out :: "('w, 'r, 'o) py_env \<Rightarrow> ob_expr \<Rightarrow> 'o \<Rightarrow> byte list" where
  "udf_out pe e x =
     (case arg_kind (datum_type e) of
        KString \<Rightarrow> (case as_utf8 pe x of None \<Rightarrow> [] | Some bs \<Rightarrow> bs)
      | KInt \<Rightarrow> le_bytes (as_long pe x)
      | _ \<Rightarrow> le_bytes (as_double pe x))"

text \<open>The declared return type of the UDF and the type of its expression agree.\<close>

definition ret_matches :: "'d udf_info \<Rightarrow> ob_expr \<Rightarrow> bool" where
  "ret_matches info e \<longleftrightarrow>
     (case meta_ret (udf_meta info) of
        STRING \<Rightarrow> arg_kind (datum_type e) = KString \<and> \<not> is_fixed_length_data e
      | INTEGER \<Rightarrow> arg_kind (datum_type e) = KInt \<and> is_fixed_length_data e \<and> res_buf_len e = 8
      | REAL \<Rightarrow> arg_kind (datum_type e) = KDouble \<and> is_fixed_length_data e \<and> res_buf_len e = 8
      | _ \<Rightarrow> False)"

lemma length_le_bytes [simp]: "length (le_bytes v) = 8"
  by (simp add: le_bytes_def)

lemma set_bytes_ok:
  assumes "vformat x = VEC_FIXED" "is_fixed_length_data e" "res_buf_len e = 8"
    and "i < length (cells x)" "cell_ready e (cells x ! i)"
  shows "\<exists>d. set_payload i (Some (le_bytes v)) 8 x = Some (x \<lparr>cells := (cells x)[i := d]\<rparr>) \<and> cell_holds d (le_bytes v)"
proof -
  let ?d = "\<lparr>dptr = Some (le_bytes v), dlen = 8, dnull = False\<rparr>"
  have "payload ?d = le_bytes v" "readable ?d" by (simp_all add: payload_def readable_def)
  then show ?thesis using set_payload_ok [of x e i ?d] assms by (simp add: fits_def)
qed

lemma restore_vector_row_ok:
  assumes fmt: "vformat x = get_default_res_format e" "ret_matches info e" "batch_result e" "datum_type e \<noteq> ObNullType"
    and i: "i < length (cells x)" "cell_ready e (cells x ! i)" and item: "get_item pe r (k + i) = Some it"
  shows "\<exists>d. restore_vector_row pe (datum_type e) r k i x = Some (OB_SUCCESS, x \<lparr>cells := (cells x)[i := d]\<rparr>) \<and>
           cell_holds d (udf_out pe e it)"
proof (cases "arg_kind (datum_type e)")
  case KString
  then have "\<not> is_fixed_length_data e" using fmt(2) by (auto simp: ret_matches_def split: py_udf_ret_type.splits)
  then have "vformat x = VEC_DISCRETE" using fmt by (simp add: get_default_res_format_def)
  with KString i item show ?thesis
    by (auto simp: restore_vector_row_def set_payload_shallow_def udf_out_def cell_holds_def readable_def payload_def
        split: option.splits)
next
  case KUnsupported
  then show ?thesis using fmt(2) by (auto simp: ret_matches_def split: py_udf_ret_type.splits)
next
  case KInt
  then have f: "is_fixed_length_data e" "res_buf_len e = 8"
    using fmt(2) by (auto simp: ret_matches_def split: py_udf_ret_type.splits)
  then have "vformat x = VEC_FIXED" using fmt by (simp add: get_default_res_format_def)
  from set_bytes_ok [OF this f i, of "as_long pe it"] show ?thesis
    using KInt item by (auto simp: restore_vector_row_def udf_out_def)
next
  case KDouble
  then have f: "is_fixed_length_data e" "res_buf_len e = 8"
    using fmt(2) by (auto simp: ret_matches_def split: py_udf_ret_type.splits)
  then have "vformat x = VEC_FIXED" using fmt by (simp add: get_default_res_format_def)
  from set_bytes_ok [OF this f i, of "as_double pe it"] show ?thesis
    using KDouble item by (auto simp: restore_vector_row_def udf_out_def)
qed

lemma restore_vector_rows_ok:
  assumes fmt: "vformat x = get_default_res_format e" "ret_matches info e" "batch_result e" "datum_type e \<noteq> ObNullType"
    and n: "n \<le> length (cells x)" "\<forall>j < n. cell_ready e (cells x ! j)"
    and items: "\<And>j. j < n \<Longrightarrow> get_item pe r (k + j) = Some (its j)"
  shows "\<exists>x'. for_ret (restore_vector_row pe (datum_type e) r k) [0..<n] x = Some (OB_SUCCESS, x') \<and>
           vformat x' = vformat x \<and> length (cells x') = length (cells x) \<and> reserve x' = reserve x \<and>
           (\<forall>j < n. cell_holds (cells x' ! j) (udf_out pe e (its j)))"
proof -
  define I where "I = (\<lambda>dn (y :: expr_frame). vformat y = vformat x \<and> length (cells y) = length (cells x) \<and>
      reserve y = reserve x \<and>
      (\<forall>j < n. if j \<in> set dn then cell_holds (cells y ! j) (udf_out pe e (its j)) else cell_ready e (cells y ! j)))"
  have "\<exists>x'. for_ret (restore_vector_row pe (datum_type e) r k) [0..<n] x = Some (OB_SUCCESS, x') \<and> I [0..<n] x'"
  proof (rule for_ret_success)
    show "I [] x" using n by (simp add: I_def)
  next
    fix dn j rest y
    assume eq: "[0..<n] = dn @ j # rest" and I: "I dn y"
    have j: "j < n" and dn: "j \<notin> set dn" using upt_eq_append [OF eq] by auto
    obtain d where "restore_vector_row pe (datum_type e) r k j y = Some (OB_SUCCESS, y \<lparr>cells := (cells y)[j := d]\<rparr>)"
      "cell_holds d (udf_out pe e (its j))"
      using restore_vector_row_ok [of y e info j pe r k "its j"] fmt n j dn I items [OF j] by (auto simp: I_def)
    moreover from this I j n have "I (dn @ [j]) (y \<lparr>cells := (cells y)[j := d]\<rparr>)"
      by (auto simp: I_def nth_list_update')
    ultimately show "\<exists>y'. restore_vector_row pe (datum_type e) r k j y = Some (OB_SUCCESS, y') \<and> I (dn @ [j]) y'"
      by blast
  qed
  then show ?thesis by (auto simp: I_def)
qed

lemma do_restore_ok:
  assumes e: "cell_expr c = Some e" and ret: "ret_matches (infs (expr_id e)) e"
    and res: "result_items pe c = rs" "result_size c = int (length rs)" and win: "k + n \<le> length rs" "0 < n"
    and fr: "frame_ok e (fr (expr_id e)) (nat (cell_batch_size c))" and n: "n \<le> nat (cell_batch_size c)"
  shows "\<exists>x. do_restore pe True infs c k n fr = Some (OB_SUCCESS, fr(expr_id e := x)) \<and>
           length (cells x) = length (cells (fr (expr_id e))) \<and> reserve x = reserve (fr (expr_id e)) \<and>
           vformat x = get_default_res_format e \<and> projected x \<and>
           (\<forall>j < n. cell_holds (cells x ! j) (udf_out pe e (rs ! (k + j))))"
proof -
  let ?b = "nat (cell_batch_size c)"
  have fmt: "(case meta_ret (udf_meta (infs (expr_id e))) of
      STRING \<Rightarrow> VEC_DISCRETE | INTEGER \<Rightarrow> VEC_FIXED | REAL \<Rightarrow> VEC_FIXED | _ \<Rightarrow> VEC_INVALID) = get_default_res_format e"
    and kind: "arg_kind (datum_type e) \<noteq> KUnsupported" and valid: "get_default_res_format e \<noteq> VEC_INVALID"
    using ret frame_ok_format [OF fr] by (auto simp: ret_matches_def split: py_udf_ret_type.splits)
  obtain x where x: "init_vector e (get_default_res_format e) ?b True fr = Some (OB_SUCCESS, fr(expr_id e := x))"
    "vformat x = get_default_res_format e" "length (cells x) = length (cells (fr (expr_id e)))"
    "reserve x = reserve (fr (expr_id e))" "\<forall>j < ?b. cell_ready e (cells x ! j)"
    using init_vector_ok [of e fr ?b] fr by blast
  have "rs \<noteq> []" using win by auto
  then obtain r where r: "result_store c = Some r" "items pe r = rs"
    using res(1) by (auto simp: result_items_def split: option.splits)
  have "get_item pe (result_store c) (k + j) = Some (rs ! (k + j))" if "j < n" for j
    using that win r by (simp add: get_item_def)
  moreover have "n \<le> length (cells x)" "\<forall>j < n. cell_ready e (cells x ! j)" using x(3,5) n fr by (auto simp: frame_ok_def)
  moreover have "batch_result e" "datum_type e \<noteq> ObNullType" using fr by (auto simp: frame_ok_def)
  ultimately obtain x' where
    "for_ret (restore_vector_row pe (datum_type e) (result_store c) k) [0..<n] x = Some (OB_SUCCESS, x')"
    "vformat x' = vformat x" "length (cells x') = length (cells x)" "reserve x' = reserve x"
    "\<forall>j < n. cell_holds (cells x' ! j) (udf_out pe e (rs ! (k + j)))"
    using restore_vector_rows_ok [OF x(2) ret, of n pe "result_store c" k "\<lambda>j. rs ! (k + j)"] by auto
  with x e kind valid win res(2) show ?thesis
    by (auto simp: do_restore_def do_restore_vector_def fmt Let_def)
qed

end
