(* ===== verification/Python_UDF_Controller.thy ===== *)
theory Python_UDF_Controller
  imports Python_UDF_Cell
begin

text \<open>
  \<open>ObPUStoreController\<close> of \<^verbatim>\<open>src/sql/engine/python_udf_engine/ob_python_udf_op.h\<close> and
  \<^verbatim>\<open>ob_python_udf_op.cpp\<close>: the cells of all UDFs of the operator and the store of the other columns, filled
  together, processed together and read out in windows. The list of cells (\<open>ObDList\<close>) is a list.

  The lemmas give the contract of a round: after \<open>resize\<close> everything is empty and large enough, every \<open>store\<close> appends
  the active rows of a batch, \<open>process\<close> computes all UDFs, and \<open>restore\<close> hands out the next window.
\<close>

definition DEFAULT_PU_LENGTH :: int where
  "DEFAULT_PU_LENGTH = 8192"

definition BUFFER_MAG :: int where
  "BUFFER_MAG = 2"

text \<open>\<^verbatim>\<open>static bool with_batch_control_ = true\<close>\<close>

definition with_batch_control :: bool where
  "with_batch_control = True"

record 'r controller =
  cells_list :: "'r udf_cell list"
  other_store :: col_store
  ctl_capacity :: int
  ctl_desirable :: int
  stored_input_cnt :: nat
  stored_output_cnt :: nat
  output_idx :: nat
  ctl_batch_size :: int
  ctl_tenant_id :: "64 word"

definition controller_new :: "'r controller" where
  "controller_new =
     \<lparr>cells_list = [], other_store = col_store_new, ctl_capacity = DEFAULT_PU_LENGTH, ctl_desirable = 0,
      stored_input_cnt = 0, stored_output_cnt = 0, output_idx = 0, ctl_batch_size = 256, ctl_tenant_id = 500\<rparr>"

text \<open>A loop over the list of cells that may change each cell and a common state and stops at the first error.\<close>

fun for_cells ::
  "('c \<Rightarrow> 's \<Rightarrow> (ob_ret \<times> 'c \<times> 's) option) \<Rightarrow> 'c list \<Rightarrow> 's \<Rightarrow> (ob_ret \<times> 'c list \<times> 's) option" where
  "for_cells f [] s = Some (OB_SUCCESS, [], s)"
| "for_cells f (c # cs) s =
     do {
       (ret, c', s') \<leftarrow> f c s;
       (if ret \<noteq> OB_SUCCESS then Some (ret, c' # cs, s')
        else do { (ret, cs', s'') \<leftarrow> for_cells f cs s'; Some (ret, c' # cs', s'') })
     }"

text \<open>
  The body of the loop in \<open>init\<close>. The cell is constructed in the memory before the pointer is tested: a failed
  allocation is undefined.
\<close>

definition init_cell ::
  "mem_env \<Rightarrow> 'r udf_cell \<Rightarrow> (nat \<Rightarrow> 'd udf_info) \<Rightarrow> int \<Rightarrow> int \<Rightarrow> ob_expr \<Rightarrow> 'r controller \<Rightarrow>
     (ob_ret \<times> 'r controller) option" where
  "init_cell m raw infs batch_size cap e k =
     (if \<not> mem_ok m (sizeof_cell m) then None
      else do {
        (ret, c) \<leftarrow> cell_init m infs (Some e) batch_size cap (cell_new raw);
        Some (if ret \<noteq> OB_SUCCESS then (OB_INIT_FAIL, k)
              else (OB_SUCCESS, k \<lparr>cells_list := cells_list k @ [c]\<rparr>))
      })"

text \<open>\<open>init\<close> appends the cells to the list and initialises the other store; \<open>raw\<close> is the fresh memory of a cell.\<close>

definition ctl_init ::
  "mem_env \<Rightarrow> 'r udf_cell \<Rightarrow> (nat \<Rightarrow> 'd udf_info) \<Rightarrow> int \<Rightarrow> ob_expr list \<Rightarrow> ob_expr list \<Rightarrow> 64 word \<Rightarrow> 'r controller \<Rightarrow>
     (ob_ret \<times> 'r controller) option" where
  "ctl_init m raw infs batch_size udf_exprs input_exprs tenant k =
     do {
       (ret, k1) \<leftarrow> for_ret (init_cell m raw infs batch_size (ctl_capacity k)) udf_exprs k;
       (if ret \<noteq> OB_SUCCESS then Some (ret, k1)
        else do {
          (ret, st) \<leftarrow> col_init m input_exprs batch_size (ctl_capacity k1) (other_store k1);
          Some (if ret \<noteq> OB_SUCCESS then (OB_INIT_FAIL, k1 \<lparr>other_store := st\<rparr>)
                else (OB_SUCCESS, k1 \<lparr>other_store := st, stored_input_cnt := 0, stored_output_cnt := 0,
                                      output_idx := 0, ctl_batch_size := batch_size, ctl_tenant_id := tenant\<rparr>))
        })
     }"

definition ctl_free :: "'r controller \<Rightarrow> (ob_ret \<times> 'r controller) option" where
  "ctl_free k =
     do {
       (ret, cs, _) \<leftarrow> for_cells (\<lambda>c s. let (r, c') = cell_free c
                                     in Some (if r \<noteq> OB_SUCCESS then OB_NOT_SUPPORTED else OB_SUCCESS, c', s))
                                 (cells_list k) ();
       (if ret \<noteq> OB_SUCCESS then Some (ret, k \<lparr>cells_list := cs\<rparr>)
        else let (r, st) = col_free (other_store k)
             in Some (if r \<noteq> OB_SUCCESS then (OB_NOT_SUPPORTED, k \<lparr>cells_list := cs, other_store := st\<rparr>)
                      else (OB_SUCCESS, k \<lparr>cells_list := cs, other_store := st, stored_input_cnt := 0,
                                           stored_output_cnt := 0, output_idx := 0\<rparr>)))
     }"

definition store_cell ::
  "expr_env \<Rightarrow> mem_env \<Rightarrow> batch_rows \<Rightarrow> 'r udf_cell \<Rightarrow> frame \<Rightarrow> (ob_ret \<times> 'r udf_cell \<times> frame) option" where
  "store_cell env m brs c fr =
     do { (ret, fr', c') \<leftarrow> do_store env m brs (fr, c);
          Some (if ret \<noteq> OB_SUCCESS then OB_ERR_UNEXPECTED else OB_SUCCESS, c', fr') }"

definition ctl_store ::
  "expr_env \<Rightarrow> mem_env \<Rightarrow> batch_rows \<Rightarrow> frame \<times> 'r controller \<Rightarrow> (ob_ret \<times> frame \<times> 'r controller) option" where
  "ctl_store env m brs st =
     (let (fr, k) = st
      in do {
        (ret, cs, fr1) \<leftarrow> for_cells (store_cell env m brs) (cells_list k) fr;
        (if ret \<noteq> OB_SUCCESS then Some (ret, fr1, k \<lparr>cells_list := cs\<rparr>)
         else do {
           (ret, os) \<leftarrow> col_save_vector m brs fr1 (other_store k);
           Some (if ret \<noteq> OB_SUCCESS then (OB_ERR_UNEXPECTED, fr1, k \<lparr>cells_list := cs, other_store := os\<rparr>)
                 else (OB_SUCCESS, fr1, k \<lparr>cells_list := cs, other_store := os,
                                           stored_input_cnt := stored_input_cnt k + brs_cnt brs\<rparr>))
         })
      })"

definition is_full :: "'r controller \<Rightarrow> bool" where
  "is_full k \<longleftrightarrow> int (stored_input_cnt k) > ctl_desirable k * (BUFFER_MAG - 1)"

definition is_empty :: "'r controller \<Rightarrow> bool" where
  "is_empty k \<longleftrightarrow> stored_input_cnt k = 0"

definition can_output :: "'r controller \<Rightarrow> bool" where
  "can_output k \<longleftrightarrow> output_idx k < stored_output_cnt k"

definition end_output :: "'r controller \<Rightarrow> bool" where
  "end_output k \<longleftrightarrow> output_idx k = stored_output_cnt k"

text \<open>\<open>ObPUStoreController::get_desirable\<close>: the largest size any cell asked for so far, returned as \<^verbatim>\<open>int\<close>.\<close>

definition ctl_get_desirable :: "'r controller \<Rightarrow> int \<times> 'r controller" where
  "ctl_get_desirable k =
     (let d = foldl (\<lambda>d c. max d (get_desirable c)) (ctl_desirable k) (cells_list k)
      in (to_i32 d, k \<lparr>ctl_desirable := d\<rparr>))"

definition process_cell ::
  "mem_env \<Rightarrow> ('w, 'r, 'o) py_env \<Rightarrow> 'd dbl_ops \<Rightarrow> nat \<Rightarrow> 'r udf_cell \<Rightarrow> ('w, 'd) udf_rt \<Rightarrow>
     (ob_ret \<times> 'r udf_cell \<times> ('w, 'd) udf_rt) option" where
  "process_cell m pe D cnt c rt =
     (if get_store_size c \<noteq> int cnt then Some (OB_ERR_UNEXPECTED, c, rt)
      else do {
        (ret, c1, rt1) \<leftarrow> (if with_batch_control then do_process pe D (c, rt) else do_process_all pe (c, rt));
        (if ret \<noteq> OB_SUCCESS then Some (OB_ERR_UNEXPECTED, c1, rt1)
         else if get_result_size c1 \<noteq> int cnt then Some (OB_ERR_UNEXPECTED, c1, rt1)
         else do { (_, c2) \<leftarrow> reset_input_store m c1; Some (OB_SUCCESS, c2, rt1) })
      })"

definition ctl_process ::
  "mem_env \<Rightarrow> ('w, 'r, 'o) py_env \<Rightarrow> 'd dbl_ops \<Rightarrow> 'r controller \<times> ('w, 'd) udf_rt \<Rightarrow>
     (ob_ret \<times> 'r controller \<times> ('w, 'd) udf_rt) option" where
  "ctl_process m pe D st =
     (let (k, rt) = st
      in if is_empty k then Some (OB_SUCCESS, st)
         else do {
           (ret, cs, rt1) \<leftarrow> for_cells (process_cell m pe D (stored_input_cnt k)) (cells_list k) rt;
           Some (if ret \<noteq> OB_SUCCESS then (ret, k \<lparr>cells_list := cs\<rparr>, rt1)
                 else (OB_SUCCESS, k \<lparr>cells_list := cs, stored_output_cnt := stored_input_cnt k,
                                      stored_input_cnt := 0, output_idx := 0\<rparr>, rt1))
         })"

definition restore_cell ::
  "('w, 'r, 'o) py_env \<Rightarrow> bool \<Rightarrow> (nat \<Rightarrow> 'd udf_info) \<Rightarrow> nat \<Rightarrow> nat \<Rightarrow> 'r udf_cell \<Rightarrow> frame \<Rightarrow> (ob_ret \<times> frame) option" where
  "restore_cell pe rich infs idx n c fr =
     do { (ret, fr') \<leftarrow> do_restore pe rich infs c idx n fr;
          Some (if ret \<noteq> OB_SUCCESS then OB_ERR_UNEXPECTED else OB_SUCCESS, fr') }"

definition ctl_restore ::
  "('w, 'r, 'o) py_env \<Rightarrow> bool \<Rightarrow> (nat \<Rightarrow> 'd udf_info) \<Rightarrow> nat \<Rightarrow> frame \<times> batch_rows \<times> 'r controller \<Rightarrow>
     (ob_ret \<times> frame \<times> batch_rows \<times> 'r controller) option" where
  "ctl_restore pe rich infs max_row_cnt st =
     (let (fr, brs, k) = st
      in if stored_output_cnt k = 0 \<or> \<not> can_output k then Some (OB_SUCCESS, st)
         else let output_size = min max_row_cnt (stored_output_cnt k - output_idx k)
         in do {
           (ret, fr1) \<leftarrow> for_ret (restore_cell pe rich infs (output_idx k) output_size) (cells_list k) fr;
           (if ret \<noteq> OB_SUCCESS then Some (ret, fr1, brs, k)
            else do {
              (ret, fr2, os) \<leftarrow> col_load_vector output_size (fr1, other_store k);
              (if ret \<noteq> OB_SUCCESS then Some (OB_ERR_UNEXPECTED, fr2, brs, k \<lparr>other_store := os\<rparr>)
               else let k1 = k \<lparr>other_store := os, output_idx := output_idx k + output_size\<rparr>;
                        brs1 = (brs_reset_skip output_size (brs \<lparr>bsize := output_size\<rparr>)) \<lparr>bend := False\<rparr>
                    in Some (OB_SUCCESS, fr2, brs1,
                             if end_output k1 then k1 \<lparr>other_store := snd (col_reuse (other_store k1))\<rparr> else k1))
            })
         })"

definition resize_cell :: "mem_env \<Rightarrow> int \<Rightarrow> 'r udf_cell \<Rightarrow> unit \<Rightarrow> (ob_ret \<times> 'r udf_cell \<times> unit) option" where
  "resize_cell m sz c u =
     do { (ret, c') \<leftarrow> cell_reset m sz c; Some (if ret \<noteq> OB_SUCCESS then OB_ERR_UNEXPECTED else OB_SUCCESS, c', u) }"

definition ctl_resize :: "mem_env \<Rightarrow> int \<Rightarrow> 'r controller \<Rightarrow> (ob_ret \<times> 'r controller) option" where
  "ctl_resize m sz k =
     do {
       (ret, cs, _) \<leftarrow> for_cells (resize_cell m sz) (cells_list k) ();
       (ret, os) \<leftarrow> (if ret = OB_SUCCESS then col_reset m sz (other_store k) else Some (ret, other_store k));
       Some (ret, k \<lparr>cells_list := cs, other_store := os, stored_input_cnt := 0, stored_output_cnt := 0, output_idx := 0\<rparr>)
     }"

section \<open>Loops over cells\<close>

text \<open>The invariant speaks of the cells done so far and the common state.\<close>

lemma for_cells_inv:
  assumes "I [] s"
    and step: "\<And>i cs' s. i < length cs \<Longrightarrow> length cs' = i \<Longrightarrow> I cs' s \<Longrightarrow>
      \<exists>c' s'. f (cs ! i) s = Some (OB_SUCCESS, c', s') \<and> I (cs' @ [c']) s'"
  shows "\<exists>cs' s'. for_cells f cs s = Some (OB_SUCCESS, cs', s') \<and> length cs' = length cs \<and> I cs' s'"
proof -
  have "\<exists>cs' s'. for_cells f (drop (length cs0) cs) s = Some (OB_SUCCESS, cs', s') \<and>
      length (cs0 @ cs') = length cs \<and> I (cs0 @ cs') s'" if "I cs0 s" "length cs0 \<le> length cs" for cs0 s
    using that
  proof (induction "length cs - length cs0" arbitrary: cs0 s)
    case 0
    then show ?case by simp
  next
    case (Suc n)
    then have i: "length cs0 < length cs" by simp
    then have d: "drop (length cs0) cs = cs ! length cs0 # drop (Suc (length cs0)) cs" by (rule Cons_nth_drop_Suc [symmetric])
    obtain c' s' where c: "f (cs ! length cs0) s = Some (OB_SUCCESS, c', s')" "I (cs0 @ [c']) s'"
      using step [OF i refl] Suc.prems by blast
    have "\<exists>cs' s''. for_cells f (drop (length (cs0 @ [c'])) cs) s' = Some (OB_SUCCESS, cs', s'') \<and>
        length ((cs0 @ [c']) @ cs') = length cs \<and> I ((cs0 @ [c']) @ cs') s''"
      using Suc c i by (intro Suc.hyps(1)) auto
    with c(1) d show ?case by auto
  qed
  from this [of "[]" s] assms(1) show ?thesis by simp
qed

lemma for_cells_ok:
  assumes "I 0 s"
    and "\<And>i s. i < length cs \<Longrightarrow> I i s \<Longrightarrow> \<exists>c' s'. f (cs ! i) s = Some (OB_SUCCESS, c', s') \<and> P i c' \<and> I (Suc i) s'"
  shows "\<exists>cs' s'. for_cells f cs s = Some (OB_SUCCESS, cs', s') \<and> length cs' = length cs \<and>
           (\<forall>i < length cs. P i (cs' ! i)) \<and> I (length cs) s'"
proof -
  have "\<exists>cs' s'. for_cells f cs s = Some (OB_SUCCESS, cs', s') \<and> length cs' = length cs \<and>
          (\<lambda>ds t. (\<forall>i < length ds. P i (ds ! i)) \<and> I (length ds) t) cs' s'"
    using assms by (intro for_cells_inv) (fastforce simp: nth_append less_Suc_eq)+
  then show ?thesis by auto
qed

section \<open>Casting to the uniform format\<close>

definition cast_frame :: "nat \<Rightarrow> expr_frame \<Rightarrow> expr_frame" where
  "cast_frame sz x =
     (if vformat x \<in> {VEC_FIXED, VEC_DISCRETE, VEC_CONTINUOUS}
      then x \<lparr>vformat := VEC_UNIFORM,
              cells := map (\<lambda>i. if i < sz then (cells x ! i) \<lparr>dlen := (if dnull (cells x ! i) then 0 else dlen (cells x ! i))\<rparr>
                                else cells x ! i) [0..<length (cells x)]\<rparr>
      else x)"

definition cast_ids :: "nat set \<Rightarrow> nat \<Rightarrow> frame \<Rightarrow> frame" where
  "cast_ids S sz fr = (\<lambda>k. if k \<in> S then cast_frame sz (fr k) else fr k)"

lemma cast_frame_idem [simp]: "cast_frame sz (cast_frame sz x) = cast_frame sz x"
  by (simp add: cast_frame_def)

lemma cast_frame_fields [simp]:
  "projected (cast_frame sz x) = projected x" "evaluated (cast_frame sz x) = evaluated x"
  "reserve (cast_frame sz x) = reserve x" "length (cells (cast_frame sz x)) = length (cells x)"
  "vformat (cast_frame sz x) = VEC_INVALID \<longleftrightarrow> vformat x = VEC_INVALID"
  "vformat (cast_frame sz x) = VEC_UNIFORM_CONST \<longleftrightarrow> vformat x = VEC_UNIFORM_CONST"
  by (auto simp: cast_frame_def)

lemma cast_ids_Un: "cast_ids S sz (cast_ids T sz fr) = cast_ids (S \<union> T) sz fr"
  by (auto simp: cast_ids_def)

lemma cast_ids_empty [simp]: "cast_ids {} sz fr = fr"
  by (simp add: cast_ids_def)

text \<open>A row that is not null is not changed by the cast.\<close>

lemma cell_at_cast: "\<not> dnull (cell_at x j) \<Longrightarrow> (if vformat x = VEC_UNIFORM_CONST then 0 else j) < length (cells x) \<Longrightarrow>
    cell_at (cast_frame sz x) j = cell_at x j"
  by (auto simp: cell_at_def cast_frame_def split: if_splits)

lemma cast_to_uniform_ok:
  assumes "vformat (fr (expr_id e)) \<in> {VEC_FIXED, VEC_DISCRETE, VEC_CONTINUOUS} \<Longrightarrow>
             batch_result e \<and> sz \<le> length (cells (fr (expr_id e)))"
  shows "cast_to_uniform e sz fr = Some (OB_SUCCESS, fr(expr_id e := cast_frame sz (fr (expr_id e))))"
  using assms by (auto simp: cast_to_uniform_def cast_frame_def map_cells_def init_vector_def Let_def)

text \<open>
  An argument whose value is in the frame when the batch is stored: a column of the child (\<open>projected\<close>) or an
  expression without evaluation function, such as a constant.
\<close>

definition arg_direct :: "expr_env \<Rightarrow> frame \<Rightarrow> nat \<Rightarrow> ob_expr \<Rightarrow> bool" where
  "arg_direct env fr sz a \<longleftrightarrow> vformat (fr (expr_id a)) \<noteq> VEC_INVALID \<and>
     (\<not> batch_func env a \<or> projected (fr (expr_id a))) \<and>
     (vformat (fr (expr_id a)) \<in> {VEC_FIXED, VEC_DISCRETE, VEC_CONTINUOUS} \<longrightarrow>
        batch_result a \<and> sz \<le> length (cells (fr (expr_id a))))"

lemma arg_direct_cast: "arg_direct env fr sz a \<Longrightarrow> arg_direct env (cast_ids S sz fr) sz a"
  by (auto simp: arg_direct_def cast_ids_def) (auto simp: cast_frame_def split: if_splits)

lemma eval_vector_direct: "arg_direct env fr sz a \<Longrightarrow> eval_vector env a brs fr = Some (OB_SUCCESS, fr)"
  by (auto simp: eval_vector_def arg_direct_def Let_def split: option.splits)

lemma store_arg_direct:
  "arg_direct env fr (bsize brs) a \<Longrightarrow> store_arg env brs a fr = Some (OB_SUCCESS, cast_ids {expr_id a} (bsize brs) fr)"
proof -
  assume a: "arg_direct env fr (bsize brs) a"
  have "cast_ids {expr_id a} (bsize brs) fr = fr(expr_id a := cast_frame (bsize brs) (fr (expr_id a)))"
    by (auto simp: cast_ids_def fun_eq_iff)
  moreover have "cast_to_uniform a (bsize brs) fr =
      Some (OB_SUCCESS, fr(expr_id a := cast_frame (bsize brs) (fr (expr_id a))))"
    by (rule cast_to_uniform_ok) (use a in \<open>auto simp: arg_direct_def\<close>)
  ultimately show ?thesis using eval_vector_direct [OF a] by (simp add: store_arg_def)
qed

lemma store_args_ok:
  "\<forall>a \<in> set es. arg_direct env fr (bsize brs) a \<Longrightarrow>
   for_ret (store_arg env brs) es fr = Some (OB_SUCCESS, cast_ids (expr_id ` set es) (bsize brs) fr)"
proof (induction es arbitrary: fr)
  case (Cons a es)
  have "\<forall>b \<in> set es. arg_direct env (cast_ids {expr_id a} (bsize brs) fr) (bsize brs) b"
    using Cons.prems by (auto intro: arg_direct_cast)
  with Cons show ?case by (simp add: store_arg_direct cast_ids_Un)
qed simp

section \<open>Storing a batch in a cell\<close>

abbreviation cast_all :: "nat \<Rightarrow> frame \<Rightarrow> frame" where
  "cast_all sz fr \<equiv> cast_ids UNIV sz fr"

lemma batch_args_cast:
  "expr_id ` set (expr_args e) \<subseteq> S \<Longrightarrow> batch_args e brs (cast_ids S sz fr) = batch_args e brs (cast_all sz fr)"
  "expr_id ` set (expr_args e) \<subseteq> S \<Longrightarrow> args_readable e brs (cast_ids S sz fr) = args_readable e brs (cast_all sz fr)"
  by (auto simp: batch_args_def args_readable_def cast_ids_def intro!: ball_cong)

definition args_ok :: "expr_env \<Rightarrow> batch_rows \<Rightarrow> frame \<Rightarrow> ob_expr \<Rightarrow> bool" where
  "args_ok env brs fr e \<longleftrightarrow> (\<forall>a \<in> set (expr_args e). arg_direct env fr (bsize brs) a) \<and>
     args_readable e brs (cast_all (bsize brs) fr)"

lemma do_store_ok:
  assumes e: "cell_expr c = Some e" and inv: "pu_inv e (input_store c)" and rows: "pu_rows (input_store c) vss"
    and args: "args_ok env brs fr e" and mem: "\<And>n. mem_ok m n"
    and room: "int (pu_saved_size (input_store c) + brs_cnt brs) \<le> pu_length (input_store c)"
  shows "\<exists>s. do_store env m brs (cast_ids S (bsize brs) fr, c) =
             Some (OB_SUCCESS, cast_ids (expr_id ` set (expr_args e) \<union> S) (bsize brs) fr, c \<lparr>input_store := s\<rparr>) \<and>
           pu_inv e s \<and> pu_length s = pu_length (input_store c) \<and>
           pu_saved_size s = pu_saved_size (input_store c) + brs_cnt brs \<and>
           pu_rows s (map2 (@) vss (batch_args e brs (cast_all (bsize brs) fr)))"
proof -
  let ?ids = "expr_id ` set (expr_args e)"
  let ?fr1 = "cast_ids (?ids \<union> S) (bsize brs) fr"
  have "\<forall>a \<in> set (expr_args e). arg_direct env (cast_ids S (bsize brs) fr) (bsize brs) a"
    using args by (auto simp: args_ok_def intro: arg_direct_cast)
  then have st: "for_ret (store_arg env brs) (expr_args e) (cast_ids S (bsize brs) fr) = Some (OB_SUCCESS, ?fr1)"
    by (simp add: store_args_ok cast_ids_Un)
  have cast: "batch_args e brs ?fr1 = batch_args e brs (cast_all (bsize brs) fr)"
    "args_readable e brs ?fr1 = args_readable e brs (cast_all (bsize brs) fr)"
    by (rule batch_args_cast, blast)+
  then have "args_readable e brs ?fr1" using args by (simp add: args_ok_def)
  with pu_save_batch_ok [OF inv rows _ room mem, of ?fr1] obtain s where
    "pu_save_batch m brs ?fr1 (input_store c) = Some (OB_SUCCESS, s)" "pu_inv e s"
    "pu_length s = pu_length (input_store c)" "pu_saved_size s = pu_saved_size (input_store c) + brs_cnt brs"
    "pu_rows s (map2 (@) vss (batch_args e brs (cast_all (bsize brs) fr)))"
    by (auto simp: cast)
  with st e show ?thesis by (auto simp: do_store_def)
qed

section \<open>The rounds of the controller\<close>

definition cells_ok :: "ob_expr list \<Rightarrow> (nat \<Rightarrow> 'd udf_info) \<Rightarrow> int \<Rightarrow> int \<Rightarrow> 'r udf_cell list \<Rightarrow> bool" where
  "cells_ok es infs B L cs \<longleftrightarrow> length cs = length es \<and>
     (\<forall>i < length es. cell_ok (es ! i) (infs (expr_id (es ! i))) (cs ! i) \<and> cell_batch_size (cs ! i) = B \<and>
        L \<le> pu_length (input_store (cs ! i)))"

text \<open>\<open>ctl_base\<close>: what holds between rounds.\<close>

definition ctl_base ::
  "ob_expr list \<Rightarrow> ob_expr list \<Rightarrow> (nat \<Rightarrow> 'd udf_info) \<Rightarrow> int \<Rightarrow> int \<Rightarrow> 'r controller \<Rightarrow> bool" where
  "ctl_base es ins infs B L k \<longleftrightarrow> cells_ok es infs B L (cells_list k) \<and>
     col_inv ins (other_store k) \<and> L \<le> cs_length (other_store k)"

text \<open>
  \<open>ctl_filling\<close>: a round is being filled. \<open>vss i\<close> are the argument columns of cell \<open>i\<close>, \<open>cols i\<close> is column \<open>i\<close> of
  the other store, all of \<open>stored_input_cnt\<close> rows.
\<close>

definition ctl_filling ::
  "ob_expr list \<Rightarrow> ob_expr list \<Rightarrow> (nat \<Rightarrow> 'd udf_info) \<Rightarrow> int \<Rightarrow> int \<Rightarrow> 'r controller \<Rightarrow>
     (nat \<Rightarrow> py_val list list) \<Rightarrow> (nat \<Rightarrow> byte list list) \<Rightarrow> bool" where
  "ctl_filling es ins infs B L k vss cols \<longleftrightarrow> ctl_base es ins infs B L k \<and>
     (\<forall>i < length es. pu_saved_size (input_store (cells_list k ! i)) = stored_input_cnt k \<and>
        pu_rows (input_store (cells_list k ! i)) (vss i)) \<and>
     cs_saved_size (other_store k) = stored_input_cnt k \<and> cs_output_idx (other_store k) = 0 \<and>
     (\<forall>i < length ins. col_rows (other_store k) i (cols i)) \<and>
     stored_output_cnt k = 0 \<and> output_idx k = 0"

lemma resize_cell_ok:
  assumes "cell_ok e info c" "udf_expr_ok e" "\<And>n. mem_ok m n"
  shows "\<exists>c'. resize_cell m sz c () = Some (OB_SUCCESS, c', ()) \<and> cell_ok e info c' \<and>
           cell_batch_size c' = cell_batch_size c \<and> pu_length (input_store c') = max sz (pu_length (input_store c)) \<and>
           pu_saved_size (input_store c') = 0 \<and> pu_rows (input_store c') (replicate (arg_cnt e) [])"
proof -
  obtain s where s: "pu_reset m sz (input_store c) = Some (OB_SUCCESS, s)" "pu_inv e s"
    "pu_length s = max sz (pu_length (input_store c))" "pu_saved_size s = 0"
    using pu_reset_ok [of e "input_store c" m sz] assms by (auto simp: cell_ok_def)
  with pu_rows_empty [OF s(2,4)] assms(1) show ?thesis
    by (auto simp: resize_cell_def cell_reset_def cell_ok_def)
qed

lemma ctl_resize_ok:
  fixes k :: "'r controller"
  assumes base: "ctl_base es ins infs B L k" and es: "\<forall>e \<in> set es. udf_expr_ok e" and mem: "\<And>n. mem_ok m n"
    and ins: "length ins \<le> 4294967295" and sz: "0 \<le> sz"
  shows "\<exists>k'. ctl_resize m sz k = Some (OB_SUCCESS, k') \<and>
           ctl_filling es ins infs B (max sz L) k' (\<lambda>i. replicate (arg_cnt (es ! i)) []) (\<lambda>i. []) \<and>
           stored_input_cnt k' = 0 \<and> ctl_desirable k' = ctl_desirable k \<and> ctl_capacity k' = ctl_capacity k"
proof -
  have len: "length (cells_list k) = length es" using base by (simp add: ctl_base_def cells_ok_def)
  define P where "P = (\<lambda>i (c :: 'r udf_cell). cell_ok (es ! i) (infs (expr_id (es ! i))) c \<and> cell_batch_size c = B \<and>
      max sz L \<le> pu_length (input_store c) \<and> pu_saved_size (input_store c) = 0 \<and>
      pu_rows (input_store c) (replicate (arg_cnt (es ! i)) []))"
  have "\<exists>cs u. for_cells (resize_cell m sz) (cells_list k) () = Some (OB_SUCCESS, cs, u) \<and>
      length cs = length (cells_list k) \<and> (\<forall>i < length (cells_list k). P i (cs ! i)) \<and> (\<lambda>i u. True) (length (cells_list k)) u"
  proof (rule for_cells_ok)
    fix i and u :: unit
    assume i: "i < length (cells_list k)"
    with base len have c: "cell_ok (es ! i) (infs (expr_id (es ! i))) (cells_list k ! i)"
      "cell_batch_size (cells_list k ! i) = B" "L \<le> pu_length (input_store (cells_list k ! i))"
      by (auto simp: ctl_base_def cells_ok_def)
    have e: "udf_expr_ok (es ! i)" using es len i by simp
    obtain c' where "resize_cell m sz (cells_list k ! i) () = Some (OB_SUCCESS, c', ())" "P i c'"
      using resize_cell_ok [OF c(1) e mem, of sz] c(2,3) by (auto simp: P_def)
    then show "\<exists>c' s'. resize_cell m sz (cells_list k ! i) u = Some (OB_SUCCESS, c', s') \<and> P i c' \<and> True"
      by (cases u) simp
  qed simp
  then obtain cs where cs: "for_cells (resize_cell m sz) (cells_list k) () = Some (OB_SUCCESS, cs, ())"
    "length cs = length es" "\<forall>i < length es. P i (cs ! i)" using len by auto
  obtain os where os: "col_reset m sz (other_store k) = Some (OB_SUCCESS, os)" "col_inv ins os"
    "cs_length os = max sz (cs_length (other_store k))" "cs_saved_size os = 0" "cs_output_idx os = 0"
    "\<forall>i < length ins. col_rows os i []"
    using col_reset_ok [of ins "other_store k" m sz] base mem ins sz by (auto simp: ctl_base_def)
  from cs os base show ?thesis
    by (auto simp: ctl_resize_def ctl_filling_def ctl_base_def cells_ok_def P_def)
qed

section \<open>Storing a batch\<close>

definition arg_ids :: "ob_expr list \<Rightarrow> nat set" where
  "arg_ids es = (\<Union>e \<in> set es. expr_id ` set (expr_args e))"

text \<open>The columns of the batch can be copied and have no null in an active row.\<close>

definition cols_ok :: "batch_rows \<Rightarrow> frame \<Rightarrow> ob_expr list \<Rightarrow> bool" where
  "cols_ok brs fr ins \<longleftrightarrow> (\<forall>e \<in> set ins. rows_readable (fr (expr_id e)) (active_rows brs) \<and>
     (\<forall>j \<in> set (active_rows brs). \<not> dnull (cell_at (fr (expr_id e)) j)))"

definition batch_col :: "batch_rows \<Rightarrow> frame \<Rightarrow> ob_expr \<Rightarrow> byte list list" where
  "batch_col brs fr e = map (\<lambda>j. payload (cell_at (fr (expr_id e)) j)) (active_rows brs)"

lemma cols_ok_cast:
  assumes "cols_ok brs fr ins" "e \<in> set ins"
  shows "rows_readable (cast_ids S sz fr (expr_id e)) (active_rows brs)"
    "batch_col brs (cast_ids S sz fr) e = batch_col brs fr e"
proof -
  have "\<forall>j \<in> set (active_rows brs). cell_at (cast_frame sz (fr (expr_id e))) j = cell_at (fr (expr_id e)) j"
    using assms by (auto simp: cols_ok_def rows_readable_def intro!: cell_at_cast)
  then show "rows_readable (cast_ids S sz fr (expr_id e)) (active_rows brs)"
    "batch_col brs (cast_ids S sz fr) e = batch_col brs fr e"
    using assms by (auto simp: cols_ok_def rows_readable_def cast_ids_def batch_col_def)
qed

lemma arg_ids_take_Suc:
  "i < length es \<Longrightarrow> arg_ids (take (Suc i) es) = expr_id ` set (expr_args (es ! i)) \<union> arg_ids (take i es)"
  by (auto simp: arg_ids_def take_Suc_conv_app_nth)

lemma store_cells_ok:
  fixes k :: "'r controller"
  assumes fill: "ctl_filling es ins infs B L k vss cols"
    and args: "\<forall>e \<in> set es. args_ok env brs fr e"
    and room: "int (stored_input_cnt k + brs_cnt brs) \<le> L" and mem: "\<And>n. mem_ok m n"
  shows "\<exists>cs. for_cells (store_cell env m brs) (cells_list k) fr =
             Some (OB_SUCCESS, cs, cast_ids (arg_ids es) (bsize brs) fr) \<and> cells_ok es infs B L cs \<and>
           (\<forall>i < length es. pu_saved_size (input_store (cs ! i)) = stored_input_cnt k + brs_cnt brs \<and>
              pu_rows (input_store (cs ! i)) (map2 (@) (vss i) (batch_args (es ! i) brs (cast_all (bsize brs) fr))))"
proof -
  let ?vs = "\<lambda>i. map2 (@) (vss i) (batch_args (es ! i) brs (cast_all (bsize brs) fr))"
  have len: "length (cells_list k) = length es" using fill by (simp add: ctl_filling_def ctl_base_def cells_ok_def)
  define P where "P = (\<lambda>i (c :: 'r udf_cell). cell_ok (es ! i) (infs (expr_id (es ! i))) c \<and> cell_batch_size c = B \<and>
      L \<le> pu_length (input_store c) \<and> pu_saved_size (input_store c) = stored_input_cnt k + brs_cnt brs \<and>
      pu_rows (input_store c) (?vs i))"
  define I where "I = (\<lambda>i fr1. fr1 = cast_ids (arg_ids (take i es)) (bsize brs) fr)"
  have "\<exists>cs fr1. for_cells (store_cell env m brs) (cells_list k) fr = Some (OB_SUCCESS, cs, fr1) \<and>
      length cs = length (cells_list k) \<and> (\<forall>i < length (cells_list k). P i (cs ! i)) \<and> I (length (cells_list k)) fr1"
  proof (rule for_cells_ok)
    show "I 0 fr" by (simp add: I_def arg_ids_def)
  next
    fix i fr1
    assume i: "i < length (cells_list k)" and I: "I i fr1"
    let ?c = "cells_list k ! i"
    have c: "cell_ok (es ! i) (infs (expr_id (es ! i))) ?c" "cell_batch_size ?c = B" "L \<le> pu_length (input_store ?c)"
      "pu_saved_size (input_store ?c) = stored_input_cnt k" "pu_rows (input_store ?c) (vss i)"
      using fill len i by (auto simp: ctl_filling_def ctl_base_def cells_ok_def)
    have a: "args_ok env brs fr (es ! i)" using args len i by simp
    have r: "int (pu_saved_size (input_store ?c) + brs_cnt brs) \<le> pu_length (input_store ?c)"
      using room c(3,4) by simp
    have e: "cell_expr ?c = Some (es ! i)" "pu_inv (es ! i) (input_store ?c)" using c(1) by (auto simp: cell_ok_def)
    from do_store_ok [OF e c(5) a mem r, of "arg_ids (take i es)"] c I i len
    show "\<exists>c' s'. store_cell env m brs ?c fr1 = Some (OB_SUCCESS, c', s') \<and> P i c' \<and> I (Suc i) s'"
      by (auto simp: store_cell_def P_def I_def cell_ok_def arg_ids_take_Suc)
  qed
  with len show ?thesis by (auto simp: I_def P_def cells_ok_def)
qed

lemma ctl_store_ok:
  assumes fill: "ctl_filling es ins infs B L k vss cols"
    and args: "\<forall>e \<in> set es. args_ok env brs fr e" and cls: "cols_ok brs fr ins"
    and room: "int (stored_input_cnt k + brs_cnt brs) \<le> L" and mem: "\<And>n. mem_ok m n"
  shows "\<exists>k'. ctl_store env m brs (fr, k) = Some (OB_SUCCESS, cast_ids (arg_ids es) (bsize brs) fr, k') \<and>
           ctl_filling es ins infs B L k' (\<lambda>i. map2 (@) (vss i) (batch_args (es ! i) brs (cast_all (bsize brs) fr)))
             (\<lambda>i. cols i @ batch_col brs fr (ins ! i)) \<and>
           stored_input_cnt k' = stored_input_cnt k + brs_cnt brs \<and> ctl_desirable k' = ctl_desirable k \<and>
           ctl_capacity k' = ctl_capacity k"
proof -
  let ?fr = "cast_ids (arg_ids es) (bsize brs) fr"
  have "\<exists>s'. col_save_vector m brs ?fr (other_store k) = Some (OB_SUCCESS, s') \<and> col_inv ins s' \<and>
           cs_length s' = cs_length (other_store k) \<and> cs_saved_size s' = cs_saved_size (other_store k) + brs_cnt brs \<and>
           cs_output_idx s' = cs_output_idx (other_store k) \<and>
           (\<forall>i < length ins. col_rows s' i (cols i @ map (\<lambda>j. payload (cell_at (?fr (expr_id (ins ! i))) j)) (active_rows brs)))"
    using fill room by (intro col_save_vector_ok mem)
      (auto simp: ctl_filling_def ctl_base_def col_overflow_def intro!: cols_ok_cast(1) [OF cls])
  then obtain os where os: "col_save_vector m brs ?fr (other_store k) = Some (OB_SUCCESS, os)" "col_inv ins os"
    "cs_length os = cs_length (other_store k)" "cs_saved_size os = cs_saved_size (other_store k) + brs_cnt brs"
    "cs_output_idx os = cs_output_idx (other_store k)"
    "\<forall>i < length ins. col_rows os i (cols i @ batch_col brs ?fr (ins ! i))"
    by (auto simp: batch_col_def)
  have "\<forall>i < length ins. col_rows os i (cols i @ batch_col brs fr (ins ! i))"
    using os(6) by (simp add: cols_ok_cast(2) [OF cls])
  with store_cells_ok [OF fill args room mem] os fill show ?thesis
    by (auto simp: ctl_store_def ctl_filling_def ctl_base_def)
qed

section \<open>Processing\<close>

text \<open>
  \<open>ctl_ready\<close>: the results of a round are there; \<open>rs i\<close> are the values of UDF \<open>i\<close>, \<open>cols i\<close> is column \<open>i\<close> of the
  other store, and the rows before \<open>output_idx\<close> have been handed out.
\<close>

definition ctl_ready ::
  "('w, 'r, 'o) py_env \<Rightarrow> ob_expr list \<Rightarrow> ob_expr list \<Rightarrow> (nat \<Rightarrow> 'd udf_info) \<Rightarrow> int \<Rightarrow> int \<Rightarrow> 'r controller \<Rightarrow>
     (nat \<Rightarrow> 'o list) \<Rightarrow> (nat \<Rightarrow> byte list list) \<Rightarrow> bool" where
  "ctl_ready pe es ins infs B L k rs cols \<longleftrightarrow> ctl_base es ins infs B L k \<and>
     (\<forall>i < length es. result_items pe (cells_list k ! i) = rs i \<and> length (rs i) = stored_output_cnt k \<and>
        result_size (cells_list k ! i) = int (stored_output_cnt k)) \<and>
     cs_saved_size (other_store k) = stored_output_cnt k \<and> cs_output_idx (other_store k) = output_idx k \<and>
     output_idx k \<le> stored_output_cnt k \<and> stored_input_cnt k = 0 \<and>
     (\<forall>i < length ins. col_rows (other_store k) i (cols i))"

text \<open>What processing \<open>n\<close> rows may do to the information kept with a UDF.\<close>

definition info_step :: "nat \<Rightarrow> 'd udf_info \<Rightarrow> 'd udf_info \<Rightarrow> bool" where
  "info_step n i i' \<longleftrightarrow> same_info i i' \<and> predict_size i' \<le> predict_size i + delta i * int n"

lemma process_cell_ok:
  assumes ok: "cell_ok e (infos rt (expr_id e)) c" and rows: "pu_rows (input_store c) vss" and e: "udf_expr_ok e"
    and udf: "udf_rowwise pe (pyfun_handler (meta_name (udf_meta (infos rt (expr_id e))))) f" and cat: "concat_ok pe"
    and gr: "grows n (infos rt (expr_id e))" and n: "pu_saved_size (input_store c) = n" "int n < 2147483648"
    and mem: "\<And>n. mem_ok m n"
  shows "\<exists>c' rt'. process_cell m pe D n c rt = Some (OB_SUCCESS, c', rt') \<and>
           cell_ok e (infos rt' (expr_id e)) c' \<and> cell_batch_size c' = cell_batch_size c \<and>
           pu_length (input_store c') \<ge> pu_length (input_store c) \<and>
           result_items pe c' = map f (val_rows vss 0 n) \<and> result_size c' = int n \<and>
           info_step n (infos rt (expr_id e)) (infos rt' (expr_id e)) \<and>
           (\<forall>i. i \<noteq> expr_id e \<longrightarrow> infos rt' i = infos rt i)"
proof -
  obtain c1 rt1 where p: "do_process pe D (c, rt) = Some (OB_SUCCESS, c1, rt1)" "step_frame e n (c, rt) (c1, rt1)"
    "result_items pe c1 = map f (val_rows vss 0 n)" "result_size c1 = int n"
    using do_process_ok [OF ok rows udf cat, of D] gr n by auto
  have inv: "pu_inv e (input_store c1)" using ok p(2) by (simp add: cell_ok_def step_frame_def same_cell_def)
  obtain s where s: "pu_reset m 0 (input_store c1) = Some (OB_SUCCESS, s)" "pu_inv e s"
    "pu_length s = max 0 (pu_length (input_store c1))"
    using pu_reset_ok [OF inv e mem, of 0] by auto
  have sz: "get_store_size c = int n" using n by (simp add: get_store_size_def to_i32_id)
  from p s sz ok show ?thesis
    by (auto simp: process_cell_def with_batch_control_def reset_input_store_def cell_reset_def get_result_size_def
        cell_ok_def step_frame_def same_cell_def same_info_def info_step_def result_items_def)
qed

text \<open>All cells: cell \<open>i\<close> computes the function \<open>f i\<close> on its rows.\<close>

lemma process_cells_ok:
  fixes k :: "'r controller" and rt :: "('w, 'd) udf_rt"
  assumes fill: "ctl_filling es ins (infos rt) B L k vss cols" and es: "\<forall>e \<in> set es. udf_expr_ok e"
    and dist: "distinct (map expr_id es)"
    and udf: "\<forall>i < length es. udf_rowwise pe (pyfun_handler (meta_name (udf_meta (infos rt (expr_id (es ! i)))))) (f i)"
    and cat: "concat_ok pe" and gr: "\<forall>e \<in> set es. grows (stored_input_cnt k) (infos rt (expr_id e))"
    and n: "int (stored_input_cnt k) < 2147483648" and mem: "\<And>n. mem_ok m n"
  shows "\<exists>cs rt'. for_cells (process_cell m pe D (stored_input_cnt k)) (cells_list k) rt = Some (OB_SUCCESS, cs, rt') \<and>
           cells_ok es (infos rt') B L cs \<and>
           (\<forall>i < length es. result_items pe (cs ! i) = map (f i) (val_rows (vss i) 0 (stored_input_cnt k)) \<and>
              result_size (cs ! i) = int (stored_input_cnt k)) \<and>
           (\<forall>e \<in> set es. info_step (stored_input_cnt k) (infos rt (expr_id e)) (infos rt' (expr_id e)))"
proof -
  let ?n = "stored_input_cnt k" and ?id = "\<lambda>i. expr_id (es ! i)"
  have len: "length (cells_list k) = length es" using fill by (simp add: ctl_filling_def ctl_base_def cells_ok_def)
  have neq: "?id i \<noteq> ?id j" if "i < length es" "j < length es" "i \<noteq> j" for i j
    using dist that by (metis distinct_conv_nth length_map nth_map)
  define ok where "ok = (\<lambda>i (c :: 'r udf_cell) inf. cell_ok (es ! i) inf c \<and> cell_batch_size c = B \<and>
      L \<le> pu_length (input_store c) \<and> result_items pe c = map (f i) (val_rows (vss i) 0 ?n) \<and> result_size c = int ?n \<and>
      info_step ?n (infos rt (?id i)) inf)"
  define I where "I = (\<lambda>cs (rt' :: ('w, 'd) udf_rt). (\<forall>i < length es. if i < length cs then ok i (cs ! i) (infos rt' (?id i))
      else infos rt' (?id i) = infos rt (?id i)))"
  have "\<exists>cs rt'. for_cells (process_cell m pe D ?n) (cells_list k) rt = Some (OB_SUCCESS, cs, rt') \<and>
      length cs = length (cells_list k) \<and> I cs rt'"
  proof (rule for_cells_inv)
    show "I [] rt" by (simp add: I_def)
  next
    fix i cs and s :: "('w, 'd) udf_rt"
    assume i: "i < length (cells_list k)" "length cs = i" and I: "I cs s"
    let ?c = "cells_list k ! i"
    have c: "cell_ok (es ! i) (infos rt (?id i)) ?c" "cell_batch_size ?c = B" "L \<le> pu_length (input_store ?c)"
      "pu_saved_size (input_store ?c) = ?n" "pu_rows (input_store ?c) (vss i)"
      using fill len i by (auto simp: ctl_filling_def ctl_base_def cells_ok_def)
    have s: "infos s (?id i) = infos rt (?id i)" using I i len by (auto simp: I_def)
    have e: "udf_expr_ok (es ! i)" "grows ?n (infos rt (?id i))" using es gr i len by auto
    from process_cell_ok [of "es ! i" s ?c "vss i" pe "f i" ?n m D] c s e udf cat n mem i len obtain c' s' where
      p: "process_cell m pe D ?n ?c s = Some (OB_SUCCESS, c', s')" "ok i c' (infos s' (?id i))"
        "\<forall>j. j \<noteq> ?id i \<longrightarrow> infos s' j = infos s j" by (auto simp: ok_def)
    have "I (cs @ [c']) s'" unfolding I_def
    proof (intro allI impI)
      fix j assume j: "j < length es"
      show "if j < length (cs @ [c']) then ok j ((cs @ [c']) ! j) (infos s' (?id j)) else infos s' (?id j) = infos rt (?id j)"
        using I [unfolded I_def, rule_format, OF j] p neq [of j i] i len j by (auto simp: nth_append less_Suc_eq split: if_splits)
    qed
    with p(1) show "\<exists>c' s'. process_cell m pe D ?n ?c s = Some (OB_SUCCESS, c', s') \<and> I (cs @ [c']) s'" by blast
  qed
  then show ?thesis using len by (force simp: I_def ok_def cells_ok_def in_set_conv_nth)
qed

lemma ctl_process_ok:
  assumes fill: "ctl_filling es ins (infos rt) B L k vss cols" and es: "\<forall>e \<in> set es. udf_expr_ok e"
    and dist: "distinct (map expr_id es)"
    and udf: "\<forall>i < length es. udf_rowwise pe (pyfun_handler (meta_name (udf_meta (infos rt (expr_id (es ! i)))))) (f i)"
    and cat: "concat_ok pe" and gr: "\<forall>e \<in> set es. grows (stored_input_cnt k) (infos rt (expr_id e))"
    and n: "int (stored_input_cnt k) < 2147483648" and mem: "\<And>n. mem_ok m n" and pos: "0 < stored_input_cnt k"
  shows "\<exists>k' rt'. ctl_process m pe D (k, rt) = Some (OB_SUCCESS, k', rt') \<and>
           ctl_ready pe es ins (infos rt') B L k' (\<lambda>i. map (f i) (val_rows (vss i) 0 (stored_input_cnt k))) cols \<and>
           stored_output_cnt k' = stored_input_cnt k \<and> output_idx k' = 0 \<and> ctl_desirable k' = ctl_desirable k \<and>
           ctl_capacity k' = ctl_capacity k \<and>
           (\<forall>e \<in> set es. info_step (stored_input_cnt k) (infos rt (expr_id e)) (infos rt' (expr_id e)))"
proof -
  obtain cs rt' where "for_cells (process_cell m pe D (stored_input_cnt k)) (cells_list k) rt = Some (OB_SUCCESS, cs, rt')"
    "cells_ok es (infos rt') B L cs"
    "\<forall>i < length es. result_items pe (cs ! i) = map (f i) (val_rows (vss i) 0 (stored_input_cnt k)) \<and>
       result_size (cs ! i) = int (stored_input_cnt k)"
    "\<forall>e \<in> set es. info_step (stored_input_cnt k) (infos rt (expr_id e)) (infos rt' (expr_id e))"
    using process_cells_ok [OF assms(1-8), of D] by auto
  with fill pos show ?thesis
    by (auto simp: ctl_process_def is_empty_def ctl_ready_def ctl_filling_def ctl_base_def val_rows_def)
qed

section \<open>Restoring a window\<close>

text \<open>The operator never changes the number of cells or the reserved buffer of an expression.\<close>

definition same_shape :: "frame \<Rightarrow> frame \<Rightarrow> bool" where
  "same_shape fr fr' \<longleftrightarrow> (\<forall>k. length (cells (fr' k)) = length (cells (fr k)) \<and> reserve (fr' k) = reserve (fr k))"

lemma same_shape_refl: "same_shape fr fr"
  by (simp add: same_shape_def)

lemma same_shape_trans: "same_shape fr fr1 \<Longrightarrow> same_shape fr1 fr2 \<Longrightarrow> same_shape fr fr2"
  by (simp add: same_shape_def)

lemma same_shape_cast: "same_shape fr (cast_ids S sz fr)"
  by (simp add: same_shape_def cast_ids_def)

lemma same_shape_frame_ok: "same_shape fr fr' \<Longrightarrow> frame_ok e (fr' k) n = frame_ok e (fr k) n"
  by (simp add: same_shape_def frame_ok_def)

lemma frame_ok_mono: "frame_ok e x n \<Longrightarrow> i \<le> n \<Longrightarrow> frame_ok e x i"
  by (auto simp: frame_ok_def)

text \<open>The vector of a UDF holds the \<open>n\<close> values from position \<open>idx\<close> on.\<close>

definition out_ok :: "('w, 'r, 'o) py_env \<Rightarrow> ob_expr \<Rightarrow> 'o list \<Rightarrow> nat \<Rightarrow> nat \<Rightarrow> expr_frame \<Rightarrow> bool" where
  "out_ok pe e rs idx n x \<longleftrightarrow> vformat x = get_default_res_format e \<and> projected x \<and>
     (\<forall>j < n. cell_holds (cells x ! j) (udf_out pe e (rs ! (idx + j))))"

definition col_ok :: "ob_expr \<Rightarrow> byte list list \<Rightarrow> nat \<Rightarrow> nat \<Rightarrow> expr_frame \<Rightarrow> bool" where
  "col_ok e vs idx n x \<longleftrightarrow> vformat x = get_default_res_format e \<and> (\<forall>j < n. cell_holds (cells x ! j) (vs ! (idx + j)))"

lemma restore_cells_ok:
  fixes k :: "'r controller"
  assumes ready: "ctl_ready pe es ins infs B L k rs cols" and dist: "distinct (map expr_id es)"
    and ret: "\<forall>e \<in> set es. ret_matches (infs (expr_id e)) e"
    and fr: "\<forall>e \<in> set es. frame_ok e (fr (expr_id e)) (nat B)"
    and n: "0 < n" "output_idx k + n \<le> stored_output_cnt k" "n \<le> nat B"
  shows "\<exists>fr'. for_ret (restore_cell pe True infs (output_idx k) n) (cells_list k) fr = Some (OB_SUCCESS, fr') \<and>
           same_shape fr fr' \<and> (\<forall>j. j \<notin> expr_id ` set es \<longrightarrow> fr' j = fr j) \<and>
           (\<forall>i < length es. out_ok pe (es ! i) (rs i) (output_idx k) n (fr' (expr_id (es ! i))))"
proof -
  let ?id = "\<lambda>i. expr_id (es ! i)"
  have len: "length (cells_list k) = length es" using ready by (simp add: ctl_ready_def ctl_base_def cells_ok_def)
  define I where "I = (\<lambda>(dn :: 'r udf_cell list) fr'. same_shape fr fr' \<and> (\<forall>j. j \<notin> expr_id ` set es \<longrightarrow> fr' j = fr j) \<and>
      (\<forall>i < length dn. out_ok pe (es ! i) (rs i) (output_idx k) n (fr' (?id i))))"
  have "\<exists>fr'. for_ret (restore_cell pe True infs (output_idx k) n) (cells_list k) fr = Some (OB_SUCCESS, fr') \<and>
      I (cells_list k) fr'"
  proof (rule for_ret_success)
    show "I [] fr" by (simp add: I_def same_shape_refl)
  next
    fix dn c rest fr1
    assume eq: "cells_list k = dn @ c # rest" and I: "I dn fr1"
    let ?i = "length dn"
    have i: "?i < length es" and c: "cells_list k ! ?i = c" using eq len by auto
    have ck: "cell_expr c = Some (es ! ?i)" "cell_batch_size c = B" "result_items pe c = rs ?i"
      "length (rs ?i) = stored_output_cnt k" "result_size c = int (length (rs ?i))"
      using ready i c by (auto simp: ctl_ready_def ctl_base_def cells_ok_def cell_ok_def)
    have "frame_ok (es ! ?i) (fr1 (?id ?i)) (nat (cell_batch_size c))"
      using I fr i ck by (auto simp: I_def same_shape_frame_ok)
    moreover have "ret_matches (infs (?id ?i)) (es ! ?i)" using ret i by simp
    moreover have "output_idx k + n \<le> length (rs ?i)" "n \<le> nat (cell_batch_size c)" using n ck by simp_all
    ultimately have "\<exists>x. do_restore pe True infs c (output_idx k) n fr1 = Some (OB_SUCCESS, fr1(?id ?i := x)) \<and>
           length (cells x) = length (cells (fr1 (?id ?i))) \<and> reserve x = reserve (fr1 (?id ?i)) \<and>
           vformat x = get_default_res_format (es ! ?i) \<and> projected x \<and>
           (\<forall>j < n. cell_holds (cells x ! j) (udf_out pe (es ! ?i) (rs ?i ! (output_idx k + j))))"
      using n(1) by (intro do_restore_ok [OF ck(1) _ ck(3) ck(5)])
    then obtain x where
      x: "do_restore pe True infs c (output_idx k) n fr1 = Some (OB_SUCCESS, fr1(?id ?i := x))"
        "length (cells x) = length (cells (fr1 (?id ?i)))" "reserve x = reserve (fr1 (?id ?i))"
        "out_ok pe (es ! ?i) (rs ?i) (output_idx k) n x"
      unfolding out_ok_def by blast
    have "?id j \<noteq> ?id ?i" if "j < ?i" for j
      using nth_eq_iff_index_eq [OF dist, of j ?i] that i by simp
    then have "I (dn @ [c]) (fr1(?id ?i := x))"
      using I x i by (auto simp: I_def same_shape_def less_Suc_eq)
    with x(1) show "\<exists>s'. restore_cell pe True infs (output_idx k) n c fr1 = Some (OB_SUCCESS, s') \<and> I (dn @ [c]) s'"
      by (auto simp: restore_cell_def)
  qed
  with len show ?thesis by (auto simp: I_def)
qed

lemma ctl_restore_ok:
  assumes ready: "ctl_ready pe es ins infs B L k rs cols" and dist: "distinct (map expr_id (es @ ins))"
    and ret: "\<forall>e \<in> set es. ret_matches (infs (expr_id e)) e"
    and fr: "\<forall>e \<in> set (es @ ins). frame_ok e (fr (expr_id e)) (nat B)"
    and mx: "0 < mx" "mx \<le> nat B" and out: "can_output k"
    and fits: "\<forall>i < length ins. \<forall>v \<in> set (cols i). fits (ins ! i) v"
  defines "n \<equiv> min mx (stored_output_cnt k - output_idx k)"
  shows "\<exists>fr' k'. ctl_restore pe True infs mx (fr, brs, k) =
             Some (OB_SUCCESS, fr', (brs_reset_skip n (brs \<lparr>bsize := n\<rparr>)) \<lparr>bend := False\<rparr>, k') \<and>
           same_shape fr fr' \<and> (\<forall>j. j \<notin> expr_id ` set (es @ ins) \<longrightarrow> fr' j = fr j) \<and>
           (\<forall>i < length es. out_ok pe (es ! i) (rs i) (output_idx k) n (fr' (expr_id (es ! i)))) \<and>
           (\<forall>i < length ins. col_ok (ins ! i) (cols i) (output_idx k) n (fr' (expr_id (ins ! i))) \<and>
              projected (fr' (expr_id (ins ! i))) = projected (fr (expr_id (ins ! i)))) \<and>
           ctl_base es ins infs B L k' \<and> output_idx k' = output_idx k + n \<and> stored_output_cnt k' = stored_output_cnt k \<and>
           stored_input_cnt k' = 0 \<and> ctl_desirable k' = ctl_desirable k \<and> ctl_capacity k' = ctl_capacity k \<and>
           (can_output k' \<longrightarrow> ctl_ready pe es ins infs B L k' rs cols)"
proof -
  have n: "0 < n" "output_idx k + n \<le> stored_output_cnt k" "n \<le> nat B"
    using mx out by (auto simp: n_def can_output_def)
  obtain fr1 where r: "for_ret (restore_cell pe True infs (output_idx k) n) (cells_list k) fr = Some (OB_SUCCESS, fr1)"
    "same_shape fr fr1" "\<forall>j. j \<notin> expr_id ` set es \<longrightarrow> fr1 j = fr j"
    "\<forall>i < length es. out_ok pe (es ! i) (rs i) (output_idx k) n (fr1 (expr_id (es ! i)))"
    using restore_cells_ok [OF ready _ ret _ n, of fr] dist fr by auto
  have st: "col_inv ins (other_store k)" "\<And>i. i < length ins \<Longrightarrow> col_rows (other_store k) i (cols i)"
    "cs_saved_size (other_store k) = stored_output_cnt k" "cs_output_idx (other_store k) = output_idx k"
    using ready by (auto simp: ctl_ready_def ctl_base_def)
  have len: "length (cols i) = stored_output_cnt k" if "i < length ins" for i
    using st(2) [OF that] st(3) by (simp add: col_rows_def)
  have fr1: "frame_ok (ins ! i) (fr1 (expr_id (ins ! i))) n" if "i < length ins" for i
    unfolding same_shape_frame_ok [OF r(2)] using fr that by (intro frame_ok_mono [OF _ n(3)]) simp
  have fit: "fits (ins ! i) (cols i ! (cs_output_idx (other_store k) + j))" if "i < length ins" "j < n" for i j
    using fits that len [of i] n st(4) by simp
  obtain fr2 where c: "col_load_vector n (fr1, other_store k) =
      Some (OB_SUCCESS, fr2, other_store k \<lparr>cs_output_idx := output_idx k + n\<rparr>)"
    "\<forall>j. j \<notin> expr_id ` set ins \<longrightarrow> fr2 j = fr1 j"
    "\<forall>i < length ins. col_ok (ins ! i) (cols i) (output_idx k) n (fr2 (expr_id (ins ! i))) \<and>
       length (cells (fr2 (expr_id (ins ! i)))) = length (cells (fr1 (expr_id (ins ! i)))) \<and>
       reserve (fr2 (expr_id (ins ! i))) = reserve (fr1 (expr_id (ins ! i))) \<and>
       projected (fr2 (expr_id (ins ! i))) = projected (fr1 (expr_id (ins ! i)))"
    using col_load_vector_ok [OF st(1) _ st(2) _ fr1 fit] dist n st(3,4) by (auto simp: Let_def col_ok_def)
  have disj: "expr_id ` set es \<inter> expr_id ` set ins = {}" using dist by auto
  have out: "fr2 (expr_id (es ! i)) = fr1 (expr_id (es ! i))" if "i < length es" for i
    using c(2) disj nth_mem [OF that] by (metis disjoint_iff imageI)
  have inp: "fr1 (expr_id (ins ! i)) = fr (expr_id (ins ! i))" if "i < length ins" for i
    using r(3) disj nth_mem [OF that] by (metis disjoint_iff imageI)
  have rest: "\<forall>j. j \<notin> expr_id ` set (es @ ins) \<longrightarrow> fr2 j = fr j" using c(2) r(3) by (simp add: image_Un)
  have "length (cells (fr2 j)) = length (cells (fr1 j)) \<and> reserve (fr2 j) = reserve (fr1 j)" for j
    using c(2,3) by (cases "j \<in> expr_id ` set ins") (auto simp: in_set_conv_nth)
  then have shape: "same_shape fr fr2" using r(2) by (simp add: same_shape_def)
  define k1 where "k1 = k \<lparr>other_store := other_store k \<lparr>cs_output_idx := output_idx k + n\<rparr>, output_idx := output_idx k + n\<rparr>"
  define k2 where "k2 = (if end_output k1 then k1 \<lparr>other_store := snd (col_reuse (other_store k1))\<rparr> else k1)"
  have inv1: "col_inv ins (other_store k1)" using st n by (simp add: k1_def col_inv_def col_buf_def)
  have f: "output_idx k2 = output_idx k + n" "stored_output_cnt k2 = stored_output_cnt k" "stored_input_cnt k2 = 0"
    "ctl_desirable k2 = ctl_desirable k" "ctl_capacity k2 = ctl_capacity k"
    using ready by (auto simp: k1_def k2_def ctl_ready_def)
  have base: "ctl_base es ins infs B L k2"
    using ready col_reuse_ok [OF inv1] inv1 by (auto simp: ctl_ready_def ctl_base_def k1_def k2_def)
  have again: "can_output k2 \<longrightarrow> ctl_ready pe es ins infs B L k2 rs cols"
    using ready n base
    by (auto simp: ctl_ready_def can_output_def end_output_def col_rows_def col_buf_def k1_def k2_def)
  have "ctl_restore pe True infs mx (fr, brs, k) =
      Some (OB_SUCCESS, fr2, (brs_reset_skip n (brs \<lparr>bsize := n\<rparr>)) \<lparr>bend := False\<rparr>, k2)"
    using assms(7) n r(1) c(1) by (simp add: ctl_restore_def Let_def k1_def k2_def flip: n_def)
  moreover have "\<forall>i < length es. out_ok pe (es ! i) (rs i) (output_idx k) n (fr2 (expr_id (es ! i)))"
    using r(4) out by simp
  moreover have "\<forall>i < length ins. col_ok (ins ! i) (cols i) (output_idx k) n (fr2 (expr_id (ins ! i))) \<and>
      projected (fr2 (expr_id (ins ! i))) = projected (fr (expr_id (ins ! i)))"
    using c(3) inp by simp
  ultimately show ?thesis
    using shape rest base again f by (intro exI [of _ fr2] exI [of _ k2] conjI) blast+
qed

section \<open>Initialisation and the size of a round\<close>

lemma init_cell_ok:
  assumes "udf_expr_ok e" "0 < predict_size (infs (expr_id e))" "0 \<le> delta (infs (expr_id e))" "0 < cap" "\<And>n. mem_ok m n"
  shows "\<exists>c. init_cell m raw infs B cap e k = Some (OB_SUCCESS, k \<lparr>cells_list := cells_list k @ [c]\<rparr>) \<and>
           cell_ok e (infs (expr_id e)) c \<and> cell_batch_size c = B \<and> pu_length (input_store c) = cap"
proof -
  obtain s where "pu_init m True (Some e) cap pu_store_new = Some (OB_SUCCESS, s)" "pu_inv e s" "pu_length s = cap"
    using pu_init_ok [OF assms(1,4,5)] by blast
  with assms show ?thesis by (auto simp: init_cell_def cell_init_def cell_new_def cell_ok_def)
qed

lemma init_cells_ok:
  assumes "\<forall>e \<in> set es. udf_expr_ok e \<and> 0 < predict_size (infs (expr_id e)) \<and> 0 \<le> delta (infs (expr_id e))"
    and "0 < cap" "\<And>n. mem_ok m n"
  shows "\<exists>cs. for_ret (init_cell m raw infs B cap) es k = Some (OB_SUCCESS, k \<lparr>cells_list := cells_list k @ cs\<rparr>) \<and>
           cells_ok es infs B cap cs"
  using assms(1)
proof (induction es arbitrary: k)
  case Nil
  show ?case by (intro exI [of _ "[]"]) (simp add: cells_ok_def)
next
  case (Cons e es)
  obtain c where c: "init_cell m raw infs B cap e k = Some (OB_SUCCESS, k \<lparr>cells_list := cells_list k @ [c]\<rparr>)"
    "cell_ok e (infs (expr_id e)) c" "cell_batch_size c = B" "pu_length (input_store c) = cap"
    using init_cell_ok [of e infs cap m raw B k] Cons.prems assms by auto
  obtain cs where "for_ret (init_cell m raw infs B cap) es (k \<lparr>cells_list := cells_list k @ [c]\<rparr>) =
      Some (OB_SUCCESS, k \<lparr>cells_list := cells_list k @ c # cs\<rparr>)" "cells_ok es infs B cap cs"
    using Cons.IH [of "k \<lparr>cells_list := cells_list k @ [c]\<rparr>"] Cons.prems by auto
  with c show ?case
    by (intro exI [of _ "c # cs"]) (auto simp: cells_ok_def less_Suc_eq_0_disj)
qed

lemma ctl_init_ok:
  assumes "\<forall>e \<in> set es. udf_expr_ok e \<and> 0 < predict_size (infs (expr_id e)) \<and> 0 \<le> delta (infs (expr_id e))"
    and "\<And>n. mem_ok m n" and "length ins \<le> 4294967295"
  shows "\<exists>k. ctl_init m raw infs B es ins tenant controller_new = Some (OB_SUCCESS, k) \<and>
           ctl_base es ins infs B 8192 k \<and> ctl_desirable k = 0 \<and> ctl_capacity k = 8192 \<and> \<not> can_output k"
proof -
  obtain cs where "for_ret (init_cell m raw infs B 8192) es controller_new =
      Some (OB_SUCCESS, controller_new \<lparr>cells_list := cs\<rparr>)" "cells_ok es infs B 8192 cs"
    using init_cells_ok [OF assms(1), of 8192 m raw B controller_new] assms(2) by (auto simp: controller_new_def)
  moreover obtain s where "col_init m ins B 8192 col_store_new = Some (OB_SUCCESS, s)" "col_inv ins s" "cs_length s = 8192"
    using col_init_ok [of m ins 8192 B] assms(2,3) by auto
  ultimately show ?thesis
    by (auto simp: ctl_init_def controller_new_def DEFAULT_PU_LENGTH_def ctl_base_def can_output_def)
qed

lemma foldl_max: "d \<le> foldl (\<lambda>d c. max d (g c)) d cs \<and> (\<forall>c \<in> set cs. g c \<le> foldl (\<lambda>d c. max d (g c)) d cs) \<and>
    (foldl (\<lambda>d c. max d (g c)) d cs = d \<or> (\<exists>c \<in> set cs. foldl (\<lambda>d c. max d (g c)) d cs = g c))" for d :: int
proof (induction cs arbitrary: d)
  case (Cons c cs)
  from Cons.IH [of "max d (g c)"] show ?case by (auto simp: max_def split: if_splits)
qed simp

lemma ctl_get_desirable_ok:
  assumes base: "ctl_base es ins infs B L k" and d0: "0 \<le> ctl_desirable k" "ctl_desirable k \<le> M"
    and pr: "\<forall>e \<in> set es. predict_size (infs (expr_id e)) \<le> M" and M: "M < 2147483648"
  shows "\<exists>d. ctl_get_desirable k = (d, k \<lparr>ctl_desirable := d\<rparr>) \<and> 0 \<le> d \<and> d \<le> M \<and> ctl_desirable k \<le> d \<and>
           (\<forall>e \<in> set es. predict_size (infs (expr_id e)) \<le> d)"
proof -
  have cells: "length (cells_list k) = length es" using base by (simp add: ctl_base_def cells_ok_def)
  have des: "get_desirable (cells_list k ! i) = predict_size (infs (expr_id (es ! i)))" if "i < length es" for i
  proof -
    have "cell_ok (es ! i) (infs (expr_id (es ! i))) (cells_list k ! i)" "predict_size (infs (expr_id (es ! i))) \<le> M"
      using base pr that by (auto simp: ctl_base_def cells_ok_def)
    then show ?thesis using M by (simp add: cell_ok_def get_desirable_def)
  qed
  define d where "d = foldl (\<lambda>d c. max d (get_desirable c)) (ctl_desirable k) (cells_list k)"
  have d: "ctl_desirable k \<le> d" "\<forall>c \<in> set (cells_list k). get_desirable c \<le> d"
    "d = ctl_desirable k \<or> (\<exists>c \<in> set (cells_list k). d = get_desirable c)"
    using foldl_max [of "ctl_desirable k" get_desirable "cells_list k"] by (auto simp: d_def)
  have "get_desirable c \<le> M" if c: "c \<in> set (cells_list k)" for c
    using c cells des pr by (metis in_set_conv_nth nth_mem)
  then have "d \<le> M" using d(3) d0 by auto
  moreover have "\<forall>e \<in> set es. predict_size (infs (expr_id e)) \<le> d"
    using d(2) cells des by (metis in_set_conv_nth nth_mem)
  ultimately show ?thesis
    using d(1) d0 M by (intro exI [of _ d]) (auto simp: ctl_get_desirable_def Let_def d_def [symmetric])
qed

end
