(* ===== verification/Python_UDF_Op.thy ===== *)
theory Python_UDF_Op
  imports Python_UDF_Controller
begin

text \<open>
  \<open>ObPythonUDFOp\<close> of \<^verbatim>\<open>src/sql/engine/python_udf_engine/ob_python_udf_op.cpp\<close>, and
  \<open>ObOperator::get_next_batch\<close> of \<^verbatim>\<open>src/sql/engine/ob_operator.cpp\<close>, which drives it.

  The child operator is a list of answers: an error or a batch together with the vectors it writes into the frame.
  When the list is exhausted the child reports its end with an empty batch, as \<open>ObOperator::get_next_batch\<close> does.
  Filters of the operator are a parameter. Startup filters, statistics, the stack check, the check of the session
  status and draining of exchanges are not modelled.
\<close>

section \<open>State\<close>

datatype child_answer = ChildFail ob_ret | ChildBatch batch_rows "(nat \<times> expr_frame) list"

record op_spec =
  udf_exprs :: "ob_expr list"
  input_exprs :: "ob_expr list"
  max_batch_size :: nat
  filters :: "ob_expr list"
  output_exprs :: "ob_expr list"
  calc_exprs :: "ob_expr list"
  cast_output :: bool

record ('w, 'r, 'd) op_state =
  op_ctl :: "'r controller"
  op_brs :: batch_rows
  op_frame :: frame
  op_child :: "child_answer list"
  op_rt :: "('w, 'd) udf_rt"
  batch_reach_end :: bool
  batch_idx :: nat
  gil_held :: bool

definition brs_end :: batch_rows where
  "brs_end = \<lparr>skip = [], bsize = 0, bend = True, all_rows_active = False\<rparr>"

definition apply_writes :: "(nat \<times> expr_frame) list \<Rightarrow> frame \<Rightarrow> frame" where
  "apply_writes ws fr = (\<lambda>k. case map_of ws k of None \<Rightarrow> fr k | Some x \<Rightarrow> x)"

section \<open>Open, close and rescan\<close>

definition inner_open ::
  "mem_env \<Rightarrow> 'r udf_cell \<Rightarrow> op_spec \<Rightarrow> 64 word \<Rightarrow> ('w, 'r, 'd) op_state \<Rightarrow> (ob_ret \<times> ('w, 'r, 'd) op_state) option" where
  "inner_open m raw sp tenant st =
     do {
       (ret, k) \<leftarrow> ctl_init m raw (infos (op_rt st)) (int (max_batch_size sp)) (udf_exprs sp) (input_exprs sp) tenant (op_ctl st);
       Some (if ret \<noteq> OB_SUCCESS then OB_INIT_FAIL else OB_SUCCESS, st \<lparr>op_ctl := k\<rparr>)
     }"

definition inner_close :: "('w, 'r, 'd) op_state \<Rightarrow> (ob_ret \<times> ('w, 'r, 'd) op_state) option" where
  "inner_close st =
     do {
       (ret, k) \<leftarrow> ctl_free (op_ctl st);
       Some (if ret \<noteq> OB_SUCCESS then OB_ERR_UNEXPECTED else OB_SUCCESS, st \<lparr>op_ctl := k\<rparr>)
     }"

text \<open>\<open>ObOperator::inner_rescan\<close>, as far as it concerns the state modelled here.\<close>

definition base_rescan :: "('w, 'r, 'd) op_state \<Rightarrow> ('w, 'r, 'd) op_state" where
  "base_rescan st = st \<lparr>batch_reach_end := False, op_brs := (op_brs st) \<lparr>bend := False\<rparr>\<rparr>"

definition inner_rescan ::
  "mem_env \<Rightarrow> 'r udf_cell \<Rightarrow> op_spec \<Rightarrow> 64 word \<Rightarrow> ('w, 'r, 'd) op_state \<Rightarrow> (ob_ret \<times> ('w, 'r, 'd) op_state) option" where
  "inner_rescan m raw sp tenant st =
     do {
       (ret, k) \<leftarrow> ctl_free (op_ctl st);
       (if ret \<noteq> OB_SUCCESS then Some (OB_ERR_UNEXPECTED, st \<lparr>op_ctl := k\<rparr>)
        else do {
          (ret, k') \<leftarrow> ctl_init m raw (infos (op_rt st)) (int (max_batch_size sp)) (udf_exprs sp) (input_exprs sp) tenant k;
          Some (if ret \<noteq> OB_SUCCESS then (OB_ERR_UNEXPECTED, st \<lparr>op_ctl := k'\<rparr>)
                else (OB_SUCCESS, base_rescan (st \<lparr>op_ctl := k'\<rparr>)))
        })
     }"

section \<open>The next batch\<close>

text \<open>\<open>ObOperator::clear_evaluated_flag\<close>: the evaluation infos are those of the calculated expressions.\<close>

definition clear_flags :: "ob_expr list \<Rightarrow> frame \<Rightarrow> frame" where
  "clear_flags es fr = (\<lambda>k. if k \<in> expr_id ` set es then eval_info_clear (fr k) else fr k)"

definition clear_calc_exprs_evaluated_flags :: "op_spec \<Rightarrow> ('w, 'r, 'd) op_state \<Rightarrow> ob_ret \<times> ('w, 'r, 'd) op_state" where
  "clear_calc_exprs_evaluated_flags sp st = (OB_SUCCESS, st \<lparr>op_frame := clear_flags (calc_exprs sp) (op_frame st)\<rparr>)"

text \<open>
  The child's \<open>get_next_batch\<close>: it writes its output into the frame. At its end it sets the vectors of its output
  expressions, which are the input expressions of the operator, to the uniform format.
\<close>

definition end_formats :: "ob_expr list \<Rightarrow> frame \<Rightarrow> frame" where
  "end_formats es fr =
     fold (\<lambda>e fr. fr(expr_id e := (fr (expr_id e)) \<lparr>vformat := (if batch_result e then VEC_UNIFORM else VEC_UNIFORM_CONST)\<rparr>)) es fr"

fun child_get_next ::
  "op_spec \<Rightarrow> ('w, 'r, 'd) op_state \<Rightarrow> child_answer list \<Rightarrow> ob_ret \<times> batch_rows \<times> ('w, 'r, 'd) op_state" where
  "child_get_next sp st [] = (OB_SUCCESS, brs_end, st \<lparr>op_frame := end_formats (input_exprs sp) (op_frame st)\<rparr>)"
| "child_get_next sp st (ChildFail ret # cs) = (ret, brs_end, st \<lparr>op_child := cs\<rparr>)"
| "child_get_next sp st (ChildBatch brs ws # cs) =
     (OB_SUCCESS, brs, st \<lparr>op_child := cs, op_frame := apply_writes ws (op_frame st)\<rparr>)"

text \<open>Row by row the operator only passes on what the child answers; \<open>child_row\<close> is the child's \<open>get_next_row\<close>.\<close>

definition inner_get_next_row ::
  "(('w, 'r, 'd) op_state \<Rightarrow> (ob_ret \<times> ('w, 'r, 'd) op_state) option) \<Rightarrow> op_spec \<Rightarrow> ('w, 'r, 'd) op_state \<Rightarrow>
     (ob_ret \<times> ('w, 'r, 'd) op_state) option" where
  "inner_get_next_row child_row sp st = child_row (st \<lparr>op_frame := clear_flags (calc_exprs sp) (op_frame st)\<rparr>)"

text \<open>One iteration of the loop that fills the buffers.\<close>

definition fill_step ::
  "expr_env \<Rightarrow> mem_env \<Rightarrow> op_spec \<Rightarrow> ('w, 'r, 'd) op_state \<Rightarrow> (ob_ret \<times> ('w, 'r, 'd) op_state) option" where
  "fill_step env m sp st =
     (let (ret, child_brs, st1) = child_get_next sp st (op_child st)
      in if ret \<noteq> OB_SUCCESS then Some (OB_ERR_UNEXPECTED, st1)
         else let brs = brs_copy (op_brs st1) child_brs
         in do {
           (ret, fr, k) \<leftarrow> ctl_store env m brs (op_frame st1, op_ctl st1);
           Some (if ret \<noteq> OB_SUCCESS then OB_ERR_UNEXPECTED else OB_SUCCESS,
                 st1 \<lparr>op_brs := brs, op_frame := fr, op_ctl := k\<rparr>)
         })"

partial_function (option) fill_loop ::
  "expr_env \<Rightarrow> mem_env \<Rightarrow> op_spec \<Rightarrow> ('w, 'r, 'd) op_state \<Rightarrow> (ob_ret \<times> ('w, 'r, 'd) op_state) option" where
  "fill_loop env m sp st =
     (if bend (op_brs st) \<or> is_full (op_ctl st) then Some (OB_SUCCESS, st)
      else do {
        (ret, st') \<leftarrow> fill_step env m sp st;
        (if ret \<noteq> OB_SUCCESS then Some (ret, st') else fill_loop env m sp st')
      })"

definition process_round ::
  "mem_env \<Rightarrow> ('w, 'r, 'o) py_env \<Rightarrow> 'd dbl_ops \<Rightarrow> ob_ret \<times> ('w, 'r, 'd) op_state \<Rightarrow> (ob_ret \<times> ('w, 'r, 'd) op_state) option" where
  "process_round m pe D rs =
     (let (ret, st) = rs
      in if ret \<noteq> OB_SUCCESS then Some (OB_ERR_UNEXPECTED, st)
         else do {
           (ret, k, rt) \<leftarrow> ctl_process m pe D (op_ctl st, op_rt st);
           Some (if ret \<noteq> OB_SUCCESS then OB_ERR_UNEXPECTED else OB_SUCCESS, st \<lparr>op_ctl := k, op_rt := rt\<rparr>)
         })"

text \<open>
  The start of a round: the flags are cleared and the buffers resized to \<^verbatim>\<open>get_desirable() * BUFFER_MAG\<close>, a product of
  two \<^verbatim>\<open>int\<close> (an overflow is undefined). The result of \<open>resize\<close> is ignored.
\<close>

definition begin_round :: "mem_env \<Rightarrow> op_spec \<Rightarrow> ('w, 'r, 'd) op_state \<Rightarrow> ('w, 'r, 'd) op_state option" where
  "begin_round m sp st =
     (let fr = clear_flags (calc_exprs sp) (op_frame st); (d, k1) = ctl_get_desirable (op_ctl st)
      in if \<not> in_int32 (d * BUFFER_MAG) then None
         else do { (_, k2) \<leftarrow> ctl_resize m (d * BUFFER_MAG) k1; Some (st \<lparr>op_frame := fr, op_ctl := k2\<rparr>) })"

definition next_round ::
  "expr_env \<Rightarrow> mem_env \<Rightarrow> ('w, 'r, 'o) py_env \<Rightarrow> 'd dbl_ops \<Rightarrow> op_spec \<Rightarrow> ('w, 'r, 'd) op_state \<Rightarrow>
     (ob_ret \<times> ('w, 'r, 'd) op_state) option" where
  "next_round env m pe D sp st =
     (if with_batch_control
      then (if can_output (op_ctl st) then Some (OB_SUCCESS, st)
            else do { st1 \<leftarrow> begin_round m sp st; r \<leftarrow> fill_loop env m sp st1; process_round m pe D r })
      else do { st1 \<leftarrow> begin_round m sp st; r \<leftarrow> fill_step env m sp st1; process_round m pe D r })"

definition clear_filter :: "nat \<Rightarrow> ob_expr \<Rightarrow> frame \<Rightarrow> frame" where
  "clear_filter idx e fr =
     (let x = fr (expr_id e);
          x1 = (if batch_result e then x \<lparr>evaluated_flags := bv_unset (evaluated_flags x) idx\<rparr> else eval_info_clear x)
      in fr(expr_id e := eval_info_clear x1))"

text \<open>
  \<open>inner_get_next_batch\<close>. When the thread already holds the interpreter lock, \<^verbatim>\<open>gstate\<close> is never initialised and
  \<^verbatim>\<open>PyGILState_Release(gstate)\<close> at the end reads it: undefined.
\<close>

definition inner_get_next_batch ::
  "expr_env \<Rightarrow> mem_env \<Rightarrow> ('w, 'r, 'o) py_env \<Rightarrow> 'd dbl_ops \<Rightarrow> op_spec \<Rightarrow> nat \<Rightarrow> ('w, 'r, 'd) op_state \<Rightarrow>
     (ob_ret \<times> ('w, 'r, 'd) op_state) option" where
  "inner_get_next_batch env m pe D sp max_row_cnt st =
     do {
       (ret, st1) \<leftarrow> next_round env m pe D sp st;
       (ret, st2) \<leftarrow>
         (if ret \<noteq> OB_SUCCESS then Some (OB_ERR_UNEXPECTED, st1)
          else do {
            (ret, fr, brs, k) \<leftarrow> ctl_restore pe True (infos (op_rt st1)) max_row_cnt (op_frame st1, op_brs st1, op_ctl st1);
            Some (if ret \<noteq> OB_SUCCESS then (OB_ERR_UNEXPECTED, st1 \<lparr>op_frame := fr, op_brs := brs, op_ctl := k\<rparr>)
                  else (OB_SUCCESS, st1 \<lparr>op_frame := fold (clear_filter (batch_idx st1)) (filters sp) fr, op_brs := brs, op_ctl := k\<rparr>))
          });
       (if gil_held st then None else Some (ret, st2))
     }"

section \<open>Driving the operator\<close>

definition reset_batchrows :: "batch_rows \<Rightarrow> batch_rows" where
  "reset_batchrows brs =
     (if bsize brs > 0 then (brs_reset_skip (bsize brs) brs) \<lparr>bsize := 0\<rparr> else brs) \<lparr>all_rows_active := False\<rparr>"

text \<open>The result of the filters: return code, whether all rows are filtered, the skip vector and the active flag.\<close>

type_synonym row_filter = "frame \<Rightarrow> batch_rows \<Rightarrow> ob_ret \<times> bool \<times> batch_rows"

partial_function (option) batch_loop ::
  "(('w, 'r, 'd) op_state \<Rightarrow> (ob_ret \<times> ('w, 'r, 'd) op_state) option) \<Rightarrow> row_filter option \<Rightarrow> ('w, 'r, 'd) op_state \<Rightarrow>
     (ob_ret \<times> ('w, 'r, 'd) op_state) option" where
  "batch_loop inner flt st =
     (if bend (op_brs st) then Some (OB_SUCCESS, st)
      else do {
        (ret, st1) \<leftarrow> inner st;
        (if ret \<noteq> OB_SUCCESS then Some (ret, st1)
         else if bsize (op_brs st1) = accumulate_bit_cnt (skip (op_brs st1)) (bsize (op_brs st1))
              then batch_loop inner flt (st1 \<lparr>op_brs := reset_batchrows (op_brs st1)\<rparr>)
         else case flt of
             None \<Rightarrow> Some (OB_SUCCESS, st1)
           | Some g \<Rightarrow>
               let (ret, all_filtered, brs) = g (op_frame st1) (op_brs st1)
               in if ret \<noteq> OB_SUCCESS then Some (ret, st1 \<lparr>op_brs := brs\<rparr>)
                  else if all_filtered
                       then batch_loop inner flt
                              (st1 \<lparr>op_brs := brs \<lparr>skip := bv_reset (skip brs) (bsize brs), bsize := 0\<rparr>\<rparr>)
                  else Some (OB_SUCCESS, st1 \<lparr>op_brs := brs\<rparr>))
      })"

definition project_expr :: "expr_env \<Rightarrow> batch_rows \<Rightarrow> ob_expr \<Rightarrow> frame \<Rightarrow> (ob_ret \<times> frame) option" where
  "project_expr env brs e fr =
     do { (ret, fr1) \<leftarrow> eval_vector env e brs fr;
          Some (ret, fr1(expr_id e := (fr1 (expr_id e)) \<lparr>projected := True\<rparr>)) }"

definition end_vector :: "ob_expr \<Rightarrow> frame \<Rightarrow> (ob_ret \<times> frame) option" where
  "end_vector e fr = init_vector e (if batch_result e then VEC_UNIFORM else VEC_UNIFORM_CONST) 0 False fr"

definition finish_batch ::
  "expr_env \<Rightarrow> op_spec \<Rightarrow> ('w, 'r, 'd) op_state \<Rightarrow> (ob_ret \<times> ('w, 'r, 'd) op_state) option" where
  "finish_batch env sp st =
     do {
       (ret, fr) \<leftarrow> (if bsize (op_brs st) > 0 then for_ret (project_expr env (op_brs st)) (output_exprs sp) (op_frame st)
                    else Some (OB_SUCCESS, op_frame st));
       (ret, fr) \<leftarrow> (if ret = OB_SUCCESS \<and> bend (op_brs st) \<and> bsize (op_brs st) = 0
                    then for_ret end_vector (output_exprs sp) fr else Some (ret, fr));
       let st1 = st \<lparr>op_frame := fr\<rparr>;
       let st2 = (if ret = OB_SUCCESS \<and> bend (op_brs st)
                  then st1 \<lparr>batch_reach_end := True, op_brs := (op_brs st1) \<lparr>bend := (bsize (op_brs st1) = 0)\<rparr>\<rparr> else st1);
       (ret, fr) \<leftarrow> (if ret = OB_SUCCESS \<and> cast_output sp
                    then for_ret (\<lambda>e. cast_to_uniform e (bsize (op_brs st2))) (output_exprs sp) (op_frame st2)
                    else Some (ret, op_frame st2));
       Some (ret, st2 \<lparr>op_frame := fr\<rparr>)
     }"

definition get_next_batch ::
  "expr_env \<Rightarrow> mem_env \<Rightarrow> ('w, 'r, 'o) py_env \<Rightarrow> 'd dbl_ops \<Rightarrow> op_spec \<Rightarrow> row_filter option \<Rightarrow> nat \<Rightarrow> ('w, 'r, 'd) op_state \<Rightarrow>
     (ob_ret \<times> ('w, 'r, 'd) op_state) option" where
  "get_next_batch env m pe D sp flt max_row_cnt st =
     (let brs0 = reset_batchrows (op_brs st);
          brs = (if batch_reach_end st then brs0 \<lparr>bend := True, bsize := 0\<rparr> else brs0)
      in do {
        (ret, st1) \<leftarrow> batch_loop (inner_get_next_batch env m pe D sp (min max_row_cnt (max_batch_size sp)))
                       (if filters sp = [] then None else flt) (st \<lparr>op_brs := brs\<rparr>);
        (if ret \<noteq> OB_SUCCESS then Some (ret, st1) else finish_batch env sp st1)
      })"

text \<open>The parent calls \<open>get_next_batch\<close> until the end; the batches it sees, with the frame at that moment.\<close>

partial_function (option) drain ::
  "(('w, 'r, 'd) op_state \<Rightarrow> (ob_ret \<times> ('w, 'r, 'd) op_state) option) \<Rightarrow> ('w, 'r, 'd) op_state \<Rightarrow>
     (ob_ret \<times> (frame \<times> batch_rows) list \<times> ('w, 'r, 'd) op_state) option" where
  "drain nxt st =
     do {
       (ret, st1) \<leftarrow> nxt st;
       (if ret \<noteq> OB_SUCCESS then Some (ret, [], st1)
        else if bend (op_brs st1) then Some (OB_SUCCESS, [], st1)
        else do { (ret, outs, st2) \<leftarrow> drain nxt st1; Some (ret, (op_frame st1, op_brs st1) # outs, st2) })
     }"

text \<open>The end of the child sets the formats as its own \<open>get_next_batch\<close> does.\<close>

lemma end_formats_vectors: "for_ret end_vector es fr = Some (OB_SUCCESS, end_formats es fr)"
  unfolding end_formats_def
  by (induction es arbitrary: fr) (simp_all add: end_vector_def init_vector_def Let_def)

end
