(* ===== verification/Python_UDF_Round.thy ===== *)
theory Python_UDF_Round
  imports Python_UDF_Op
begin

text \<open>
  A round of the operator in terms of rows: filling the buffers from the child, processing them, and handing out a
  window of the results. The hypotheses on the plan, the child and the functions are collected here.
\<close>

section \<open>Rows\<close>

text \<open>A row of the child: the arguments of every UDF and the columns that are passed through.\<close>

type_synonym in_row = "py_val list list \<times> byte list list"

definition in_row :: "op_spec \<Rightarrow> frame \<Rightarrow> nat \<Rightarrow> nat \<Rightarrow> in_row" where
  "in_row sp fr sz j =
     (map (\<lambda>e. map (\<lambda>a. arg_value a (cast_all sz fr (expr_id a)) j) (expr_args e)) (udf_exprs sp),
      map (\<lambda>e. payload (cell_at (fr (expr_id e)) j)) (input_exprs sp))"

fun batch_in :: "op_spec \<Rightarrow> frame \<Rightarrow> batch_rows \<times> (nat \<times> expr_frame) list \<Rightarrow> in_row list" where
  "batch_in sp fr0 (brs, ws) = map (in_row sp (apply_writes ws fr0) (bsize brs)) (active_rows brs)"

abbreviation all_in :: "op_spec \<Rightarrow> frame \<Rightarrow> (batch_rows \<times> (nat \<times> expr_frame) list) list \<Rightarrow> in_row list" where
  "all_in sp fr0 bs \<equiv> concat (map (batch_in sp fr0) bs)"

text \<open>The row it becomes: the value of every UDF and the columns.\<close>

definition out_row ::
  "('w, 'r, 'o) py_env \<Rightarrow> (nat \<Rightarrow> py_val list \<Rightarrow> 'o) \<Rightarrow> op_spec \<Rightarrow> in_row \<Rightarrow> byte list list \<times> byte list list" where
  "out_row pe f sp r = (map (\<lambda>i. udf_out pe (udf_exprs sp ! i) (f i (fst r ! i))) [0..<length (udf_exprs sp)], snd r)"

fun batch_out :: "op_spec \<Rightarrow> frame \<times> batch_rows \<Rightarrow> (byte list list \<times> byte list list) list" where
  "batch_out sp (fr, brs) =
     map (\<lambda>j. (map (\<lambda>e. payload (cell_at (fr (expr_id e)) j)) (udf_exprs sp),
               map (\<lambda>e. payload (cell_at (fr (expr_id e)) j)) (input_exprs sp))) (active_rows brs)"

section \<open>What the theorem assumes\<close>

text \<open>
  \<open>plan_ok\<close>: the plan. The arguments of the UDFs are columns of the child or constants (with the frame positions \<open>K\<close>),
  the output are UDFs and columns, there are no filters, and a batch has at most 4096 rows: a round stops to fill its buffers,
  which hold at least 8192 rows, when they are more than half full, so that one more batch of this size always fits. The source
  accepts larger batches, and then reports an error when the buffers overflow. It accepts computed arguments too, but clears their
  evaluation flags only once per round.
\<close>

definition plan_ok :: "expr_env \<Rightarrow> op_spec \<Rightarrow> nat \<Rightarrow> nat set \<Rightarrow> frame \<Rightarrow> bool" where
  "plan_ok env sp mx K fr0 \<longleftrightarrow>
     (\<forall>e \<in> set (udf_exprs sp). udf_expr_ok e \<and>
        (\<forall>a \<in> set (expr_args e). a \<in> set (input_exprs sp) \<or> expr_id a \<in> K \<and> arg_direct env fr0 0 a)) \<and>
     distinct (map expr_id (udf_exprs sp @ input_exprs sp)) \<and>
     0 < mx \<and> mx \<le> max_batch_size sp \<and> mx \<le> 4096 \<and> length (input_exprs sp) \<le> 4294967295 \<and>
     filters sp = [] \<and> \<not> cast_output sp \<and> set (output_exprs sp) \<subseteq> set (udf_exprs sp @ input_exprs sp) \<and>
     expr_id ` set (calc_exprs sp) \<inter> expr_id ` set (input_exprs sp) = {} \<and>
     K \<inter> expr_id ` set (udf_exprs sp @ input_exprs sp @ calc_exprs sp) = {} \<and>
     (\<forall>k \<in> K. vformat (fr0 k) \<notin> {VEC_FIXED, VEC_DISCRETE, VEC_CONTINUOUS})"

text \<open>\<open>frame_inv\<close>: the frame between two steps.\<close>

definition frame_inv :: "expr_env \<Rightarrow> op_spec \<Rightarrow> nat set \<Rightarrow> frame \<Rightarrow> frame \<Rightarrow> bool" where
  "frame_inv env sp K fr0 fr \<longleftrightarrow> (\<forall>k \<in> K. fr k = fr0 k) \<and>
     (\<forall>e \<in> set (udf_exprs sp @ input_exprs sp). frame_ok e (fr (expr_id e)) (max_batch_size sp)) \<and>
     (\<forall>e \<in> set (input_exprs sp). \<not> batch_func env e \<or> projected (fr (expr_id e)))"

text \<open>
  \<open>batch_good\<close>: a batch of the child. It fits, it writes every column and no UDF or constant, the arguments can be read,
  the columns are not null and their values fit into the reserved buffers.
\<close>

fun batch_good :: "expr_env \<Rightarrow> op_spec \<Rightarrow> nat \<Rightarrow> nat set \<Rightarrow> frame \<Rightarrow> batch_rows \<times> (nat \<times> expr_frame) list \<Rightarrow> bool" where
  "batch_good env sp mx K fr0 (brs, ws) \<longleftrightarrow>
     \<not> bend brs \<and> bsize brs \<le> mx \<and> bsize brs \<le> 64 * length (skip brs) \<and>
     expr_id ` set (input_exprs sp) \<subseteq> fst ` set ws \<and>
     (expr_id ` set (udf_exprs sp) \<union> K) \<inter> fst ` set ws = {} \<and>
     (\<forall>e \<in> set (udf_exprs sp). args_ok env brs (apply_writes ws fr0) e) \<and>
     cols_ok brs (apply_writes ws fr0) (input_exprs sp) \<and>
     (\<forall>e \<in> set (input_exprs sp). frame_ok e (apply_writes ws fr0 (expr_id e)) (max_batch_size sp) \<and>
        (\<not> batch_func env e \<or> projected (apply_writes ws fr0 (expr_id e))) \<and>
        (\<forall>v \<in> set (batch_col brs (apply_writes ws fr0) e). fits e v))"

lemma plan_okD:
  assumes "plan_ok env sp mx K fr0"
  shows "\<forall>e \<in> set (udf_exprs sp). udf_expr_ok e"
    "e \<in> set (udf_exprs sp) \<Longrightarrow> a \<in> set (expr_args e) \<Longrightarrow> a \<in> set (input_exprs sp) \<or> expr_id a \<in> K \<and> arg_direct env fr0 0 a"
    "distinct (map expr_id (udf_exprs sp @ input_exprs sp))" "distinct (map expr_id (udf_exprs sp))"
    "distinct (map expr_id (input_exprs sp))" "expr_id ` set (udf_exprs sp) \<inter> expr_id ` set (input_exprs sp) = {}"
    "0 < mx" "mx \<le> max_batch_size sp" "mx \<le> 4096" "length (input_exprs sp) \<le> 4294967295"
    "filters sp = []" "\<not> cast_output sp" "set (output_exprs sp) \<subseteq> set (udf_exprs sp @ input_exprs sp)"
    "expr_id ` set (calc_exprs sp) \<inter> expr_id ` set (input_exprs sp) = {}"
    "k \<in> K \<Longrightarrow> k \<notin> expr_id ` set (udf_exprs sp)" "k \<in> K \<Longrightarrow> k \<notin> expr_id ` set (input_exprs sp)"
    "k \<in> K \<Longrightarrow> k \<notin> expr_id ` set (calc_exprs sp)"
    "k \<in> K \<Longrightarrow> vformat (fr0 k) \<notin> {VEC_FIXED, VEC_DISCRETE, VEC_CONTINUOUS}"
  using assms unfolding plan_ok_def by (simp_all add: image_Un Int_Un_distrib disjoint_iff)

section \<open>Frames\<close>

lemma apply_writes_same:
  "k \<in> fst ` set ws \<Longrightarrow> apply_writes ws fr k = apply_writes ws fr' k"
  "k \<notin> fst ` set ws \<Longrightarrow> apply_writes ws fr k = fr k"
  using map_of_eq_None_iff [of ws k] by (auto simp: apply_writes_def split: option.split)

lemma args_ok_cong:
  "\<forall>a \<in> set (expr_args e). fr (expr_id a) = fr' (expr_id a) \<Longrightarrow> args_ok env brs fr e = args_ok env brs fr' e"
  by (auto simp: args_ok_def arg_direct_def args_readable_def cast_ids_def)

lemma batch_args_cong:
  "\<forall>a \<in> set (expr_args e). fr (expr_id a) = fr' (expr_id a) \<Longrightarrow>
     batch_args e brs (cast_all sz fr) = batch_args e brs (cast_all sz fr')"
  by (auto simp: batch_args_def cast_ids_def)

lemma cols_ok_cong:
  "\<forall>e \<in> set ins. fr (expr_id e) = fr' (expr_id e) \<Longrightarrow> cols_ok brs fr ins = cols_ok brs fr' ins"
  by (auto simp: cols_ok_def)

lemma batch_col_cong: "fr (expr_id e) = fr' (expr_id e) \<Longrightarrow> batch_col brs fr e = batch_col brs fr' e"
  by (simp add: batch_col_def)

text \<open>The frame after the writes of a batch agrees with the view of the batch on everything that is read.\<close>

lemma writes_view:
  assumes plan: "plan_ok env sp mx K fr0" and inv: "frame_inv env sp K fr0 fr" and b: "batch_good env sp mx K fr0 (brs, ws)"
  shows "e \<in> set (input_exprs sp) \<Longrightarrow> apply_writes ws fr (expr_id e) = apply_writes ws fr0 (expr_id e)"
    "e \<in> set (udf_exprs sp) \<Longrightarrow> a \<in> set (expr_args e) \<Longrightarrow> apply_writes ws fr (expr_id a) = apply_writes ws fr0 (expr_id a)"
    "frame_inv env sp K fr0 (apply_writes ws fr)"
proof -
  have ins: "apply_writes ws fr (expr_id e) = apply_writes ws fr0 (expr_id e)" if "e \<in> set (input_exprs sp)" for e
    using b that by (intro apply_writes_same) auto
  then show "e \<in> set (input_exprs sp) \<Longrightarrow> apply_writes ws fr (expr_id e) = apply_writes ws fr0 (expr_id e)" .
  have K: "k \<notin> fst ` set ws" if "k \<in> K" for k using b that by auto
  then have Kfr: "apply_writes ws fr k = fr0 k" "apply_writes ws fr0 k = fr0 k" if "k \<in> K" for k
    using inv that by (simp_all add: apply_writes_same(2) frame_inv_def)
  show "apply_writes ws fr (expr_id a) = apply_writes ws fr0 (expr_id a)"
    if "e \<in> set (udf_exprs sp)" "a \<in> set (expr_args e)"
  proof -
    have "a \<in> set (input_exprs sp) \<or> expr_id a \<in> K" using plan_okD(2) [OF plan that] by blast
    then show ?thesis using ins [of a] Kfr [of "expr_id a"] by auto
  qed
  have es: "apply_writes ws fr (expr_id e) = fr (expr_id e)" if "e \<in> set (udf_exprs sp)" for e
    using b that by (intro apply_writes_same) auto
  have bi: "\<forall>e \<in> set (input_exprs sp). frame_ok e (apply_writes ws fr0 (expr_id e)) (max_batch_size sp) \<and>
      (\<not> batch_func env e \<or> projected (apply_writes ws fr0 (expr_id e)))"
    using b by simp
  have fe: "\<forall>e \<in> set (udf_exprs sp). frame_ok e (fr (expr_id e)) (max_batch_size sp)" using inv by (simp add: frame_inv_def)
  show "frame_inv env sp K fr0 (apply_writes ws fr)"
    unfolding frame_inv_def using bi fe ins es Kfr(1) by (simp add: ball_Un)
qed

lemma frame_inv_cast:
  assumes "plan_ok env sp mx K fr0" "frame_inv env sp K fr0 fr"
  shows "frame_inv env sp K fr0 (cast_ids S sz fr)"
proof -
  have "cast_ids S sz fr k = fr0 k" if "k \<in> K" for k
    using plan_okD(18) [OF assms(1) that] assms(2) that by (simp add: frame_inv_def cast_ids_def cast_frame_def)
  moreover have "projected (cast_ids S sz fr k) = projected (fr k)" for k by (simp add: cast_ids_def)
  ultimately show ?thesis
    using assms(2) by (simp add: frame_inv_def same_shape_frame_ok [OF same_shape_cast])
qed

lemma frame_inv_clear:
  assumes plan: "plan_ok env sp mx K fr0" and inv: "frame_inv env sp K fr0 fr"
  shows "frame_inv env sp K fr0 (clear_flags (calc_exprs sp) fr)"
proof -
  have "clear_flags (calc_exprs sp) fr k = fr k" if "k \<in> K \<or> k \<in> expr_id ` set (input_exprs sp)" for k
    using plan_okD(14,17) [OF plan] that by (auto simp: clear_flags_def disjoint_iff)
  moreover have "same_shape fr (clear_flags (calc_exprs sp) fr)"
    by (simp add: same_shape_def clear_flags_def eval_info_clear_def)
  ultimately show ?thesis
    using inv by (simp add: frame_inv_def same_shape_frame_ok)
qed

text \<open>At the end of the child: columns are uniform and empty.\<close>

lemma end_formats_other: "k \<notin> expr_id ` set es \<Longrightarrow> end_formats es fr k = fr k"
  by (induction es arbitrary: fr) (simp_all add: end_formats_def)

lemma end_formats_at:
  "distinct (map expr_id es) \<Longrightarrow> e \<in> set es \<Longrightarrow>
     end_formats es fr (expr_id e) = (fr (expr_id e)) \<lparr>vformat := (if batch_result e then VEC_UNIFORM else VEC_UNIFORM_CONST)\<rparr>"
proof (induction es arbitrary: fr)
  case (Cons a es)
  let ?fr = "fr(expr_id a := (fr (expr_id a)) \<lparr>vformat := (if batch_result a then VEC_UNIFORM else VEC_UNIFORM_CONST)\<rparr>)"
  have step: "end_formats (a # es) fr = end_formats es ?fr" by (simp add: end_formats_def)
  show ?case
  proof (cases "e \<in> set es")
    case True
    then have "expr_id e \<noteq> expr_id a" using Cons.prems(1) imageI [OF True, of expr_id] by (metis distinct.simps(2) list.simps(9) set_map)
    with Cons True show ?thesis by (simp add: step)
  next
    case False
    with Cons.prems have "e = a" "expr_id e \<notin> expr_id ` set es" by auto
    then show ?thesis by (simp add: step end_formats_other)
  qed
qed simp

lemma frame_ok_vformat [simp]: "frame_ok e (x \<lparr>vformat := v\<rparr>) n = frame_ok e x n"
  by (simp add: frame_ok_def)

lemma end_formats_inv:
  assumes plan: "plan_ok env sp mx K fr0" and inv: "frame_inv env sp K fr0 fr"
  defines "fr' \<equiv> end_formats (input_exprs sp) fr"
  shows "frame_inv env sp K fr0 fr'" "e \<in> set (input_exprs sp) \<Longrightarrow> vformat (fr' (expr_id e)) = VEC_UNIFORM"
    "e \<in> set (udf_exprs sp) \<Longrightarrow> a \<in> set (expr_args e) \<Longrightarrow> arg_direct env fr' 0 a"
proof -
  have dist: "distinct (map expr_id (input_exprs sp))" by (rule plan_okD(5) [OF plan])
  have br: "batch_result e" if "e \<in> set (input_exprs sp)" for e using inv that by (auto simp: frame_inv_def frame_ok_def)
  have at: "fr' (expr_id e) = (fr (expr_id e)) \<lparr>vformat := VEC_UNIFORM\<rparr>" if "e \<in> set (input_exprs sp)" for e
    using end_formats_at [OF dist that] br [OF that] by (simp add: fr'_def)
  then show "e \<in> set (input_exprs sp) \<Longrightarrow> vformat (fr' (expr_id e)) = VEC_UNIFORM" by simp
  have K: "fr' k = fr0 k" if "k \<in> K" for k
    using end_formats_other [OF plan_okD(16) [OF plan that], of fr] inv that by (simp add: frame_inv_def fr'_def)
  have es: "fr' (expr_id e) = fr (expr_id e)" if "e \<in> set (udf_exprs sp)" for e
    using plan_okD(6) [OF plan] that unfolding fr'_def by (intro end_formats_other) (auto simp: disjoint_iff)
  show "frame_inv env sp K fr0 fr'"
    using inv at K es by (simp add: frame_inv_def ball_Un)
  show "arg_direct env fr' 0 a" if "e \<in> set (udf_exprs sp)" "a \<in> set (expr_args e)"
  proof -
    have "a \<in> set (input_exprs sp) \<or> expr_id a \<in> K \<and> arg_direct env fr0 0 a" by (rule plan_okD(2) [OF plan that])
    then show ?thesis
    proof
      assume "a \<in> set (input_exprs sp)"
      with at [of a] inv show ?thesis by (auto simp: arg_direct_def frame_inv_def)
    next
      assume "expr_id a \<in> K \<and> arg_direct env fr0 0 a"
      with K [of "expr_id a"] show ?thesis by (simp add: arg_direct_def)
    qed
  qed
qed

section \<open>Batches\<close>

lemma brs_copy_fields:
  assumes "bsize src \<le> 64 * length (skip brs)" "bsize src \<le> 64 * length (skip src)"
  shows "active_rows (brs_copy brs src) = active_rows src" "bsize (brs_copy brs src) = bsize src"
    "bend (brs_copy brs src) = bend src" "length (skip (brs_copy brs src)) = length (skip brs)"
proof -
  have "filter (\<lambda>j. \<not> bv_at (deep_copy (skip brs) (skip src) (bsize src)) j) [0..<bsize src] =
      filter (\<lambda>j. \<not> bv_at (skip src) j) [0..<bsize src]"
    by (rule filter_cong) (auto simp: bv_at_deep_copy assms)
  then show "active_rows (brs_copy brs src) = active_rows src" by (simp add: active_rows_def brs_copy_def)
qed (simp_all add: brs_copy_def length_deep_copy assms)

lemma same_rows:
  assumes "active_rows b = active_rows b'" "bsize b = bsize b'"
  shows "args_ok env b fr e = args_ok env b' fr e" "cols_ok b fr ins = cols_ok b' fr ins"
    "batch_args e b fr = batch_args e b' fr" "batch_col b fr x = batch_col b' fr x" "brs_cnt b = brs_cnt b'"
  using assms length_active_rows [of b] length_active_rows [of b']
  by (simp_all add: args_ok_def args_readable_def cols_ok_def batch_args_def batch_col_def)

lemma brs_cnt_le: "brs_cnt b \<le> bsize b"
  unfolding length_active_rows [symmetric] active_rows_def using length_filter_le [of _ "[0..<bsize b]"] by simp

text \<open>The rows of columns that are appended.\<close>

lemma val_rows_parts:
  assumes "length ws = length vss" "\<forall>v \<in> set vss. length v = n" "\<forall>w \<in> set ws. length w = k"
  shows "val_rows (map2 (@) vss ws) 0 (n + k) = val_rows vss 0 n @ val_rows ws 0 k"
proof -
  have len: "length (vss ! i) = n" if "i < length vss" for i using assms(2) that by simp
  have left: "map (\<lambda>col. col ! j) (map2 (@) vss ws) = map (\<lambda>col. col ! j) vss" if "j < n" for j
    using assms(1) that by (intro nth_equalityI) (simp_all add: nth_append len)
  have lefts: "map (\<lambda>j. map (\<lambda>col. col ! j) (map2 (@) vss ws)) [0..<n] = map (\<lambda>j. map (\<lambda>col. col ! j) vss) [0..<n]"
    by (rule map_cong [OF refl]) (simp only: left set_upt atLeastLessThan_iff)
  have right: "map (\<lambda>col. col ! (n + j)) (map2 (@) vss ws) = map (\<lambda>col. col ! j) ws" for j
    using assms(1) by (intro nth_equalityI) (simp_all add: nth_append len)
  have "map (\<lambda>j. n + j) [0..<k] = [n..<n + k]" by (intro nth_equalityI) simp_all
  then have "[0..<n + k] = [0..<n] @ map (\<lambda>j. n + j) [0..<k]" using upt_add_eq_append [of 0 n k] by simp
  then have "val_rows (map2 (@) vss ws) 0 (n + k) =
      map (\<lambda>j. map (\<lambda>col. col ! j) (map2 (@) vss ws)) [0..<n] @
      map (\<lambda>j. map (\<lambda>col. col ! (n + j)) (map2 (@) vss ws)) [0..<k]"
    unfolding val_rows_def by (simp only: map_append map_map comp_def)
  also have "\<dots> = val_rows vss 0 n @ val_rows ws 0 k"
    unfolding lefts right val_rows_def by (rule refl)
  finally show ?thesis .
qed

lemma val_rows_batch:
  "val_rows (batch_args e brs fr) 0 (brs_cnt brs) =
   map (\<lambda>j. map (\<lambda>a. arg_value a (fr (expr_id a)) j) (expr_args e)) (active_rows brs)"
  unfolding length_active_rows [symmetric] val_rows_def batch_args_def
  by (intro nth_equalityI) simp_all

section \<open>Filling a round\<close>

text \<open>\<open>filled st R\<close>: the buffers hold the rows \<open>R\<close>.\<close>

definition filled ::
  "expr_env \<Rightarrow> op_spec \<Rightarrow> nat \<Rightarrow> nat set \<Rightarrow> frame \<Rightarrow> int \<Rightarrow> ('w, 'r, 'd) op_state \<Rightarrow> in_row list \<Rightarrow> bool" where
  "filled env sp mx K fr0 L st R \<longleftrightarrow> (\<exists>vss cols.
     ctl_filling (udf_exprs sp) (input_exprs sp) (infos (op_rt st)) (int (max_batch_size sp)) L (op_ctl st) vss cols \<and>
     stored_input_cnt (op_ctl st) = length R \<and>
     (\<forall>i < length (udf_exprs sp). val_rows (vss i) 0 (length R) = map (\<lambda>r. fst r ! i) R) \<and>
     (\<forall>i < length (input_exprs sp). cols i = map (\<lambda>r. snd r ! i) R)) \<and>
   (\<forall>r \<in> set R. length (snd r) = length (input_exprs sp) \<and> (\<forall>i < length (input_exprs sp). fits (input_exprs sp ! i) (snd r ! i))) \<and>
   frame_inv env sp K fr0 (op_frame st) \<and> mx \<le> 64 * length (skip (op_brs st))"

text \<open>What storing a batch with the rows \<open>Q\<close> does, whatever the batch is.\<close>

lemma store_filled:
  assumes fill: "filled env sp mx K fr0 L st R"
    and args: "\<forall>e \<in> set (udf_exprs sp). args_ok env brs fr e" and cls: "cols_ok brs fr (input_exprs sp)"
    and room: "int (length R + brs_cnt brs) \<le> L" and mem: "\<And>n. mem_ok m n"
    and Q: "Q = map (in_row sp fr (bsize brs)) (active_rows brs)"
    and fits: "\<forall>e \<in> set (input_exprs sp). \<forall>v \<in> set (batch_col brs fr e). fits e v"
    and plan: "plan_ok env sp mx K fr0" and inv: "frame_inv env sp K fr0 fr" and len: "mx \<le> 64 * length (skip brs)"
  shows "\<exists>k fr'. ctl_store env m brs (fr, op_ctl st) = Some (OB_SUCCESS, fr', k) \<and>
           filled env sp mx K fr0 L (st \<lparr>op_brs := brs, op_frame := fr', op_ctl := k\<rparr>) (R @ Q) \<and>
           ctl_desirable k = ctl_desirable (op_ctl st)"
proof -
  let ?es = "udf_exprs sp" and ?ins = "input_exprs sp" and ?cfr = "cast_all (bsize brs) fr"
  obtain vss cols where f: "ctl_filling ?es ?ins (infos (op_rt st)) (int (max_batch_size sp)) L (op_ctl st) vss cols"
    "stored_input_cnt (op_ctl st) = length R" "\<forall>i < length ?es. val_rows (vss i) 0 (length R) = map (\<lambda>r. fst r ! i) R"
    "\<forall>i < length ?ins. cols i = map (\<lambda>r. snd r ! i) R"
    using fill by (auto simp: filled_def)
  let ?vss = "\<lambda>i. map2 (@) (vss i) (batch_args (?es ! i) brs ?cfr)"
  obtain k where k: "ctl_store env m brs (fr, op_ctl st) = Some (OB_SUCCESS, cast_ids (arg_ids ?es) (bsize brs) fr, k)"
    "ctl_filling ?es ?ins (infos (op_rt st)) (int (max_batch_size sp)) L k ?vss (\<lambda>i. cols i @ batch_col brs fr (?ins ! i))"
    "stored_input_cnt k = length R + brs_cnt brs" "ctl_desirable k = ctl_desirable (op_ctl st)"
    using ctl_store_ok [OF f(1) args cls _ mem] room f(2) by auto
  have "val_rows (?vss i) 0 (length (R @ Q)) = map (\<lambda>r. fst r ! i) (R @ Q)" if i: "i < length ?es" for i
  proof -
    have rows: "pu_rows (input_store (cells_list (op_ctl st) ! i)) (vss i)"
      "pu_saved_size (input_store (cells_list (op_ctl st) ! i)) = length R"
      "pu_inv (?es ! i) (input_store (cells_list (op_ctl st) ! i))"
      using f(1,2) i by (auto simp: ctl_filling_def ctl_base_def cells_ok_def cell_ok_def)
    then have "length (vss i) = arg_cnt (?es ! i)" "\<forall>v \<in> set (vss i). length v = length R"
      by (auto simp: pu_rows_def pu_inv_def in_set_conv_nth split: option.splits)
    then have "val_rows (?vss i) 0 (length R + brs_cnt brs) =
        val_rows (vss i) 0 (length R) @ val_rows (batch_args (?es ! i) brs ?cfr) 0 (brs_cnt brs)"
      by (intro val_rows_parts) (auto simp: batch_args_def arg_cnt_def length_active_rows)
    then show ?thesis using f(3) i by (simp add: Q val_rows_batch length_active_rows in_row_def)
  qed
  moreover have "cols i @ batch_col brs fr (?ins ! i) = map (\<lambda>r. snd r ! i) (R @ Q)" if "i < length ?ins" for i
    using f(4) that by (simp add: Q batch_col_def in_row_def)
  moreover have "\<forall>r \<in> set Q. length (snd r) = length ?ins \<and> (\<forall>i < length ?ins. fits (?ins ! i) (snd r ! i))"
    using fits by (auto simp: Q in_row_def batch_col_def)
  moreover have "\<forall>r \<in> set R. length (snd r) = length ?ins \<and> (\<forall>i < length ?ins. fits (?ins ! i) (snd r ! i))"
    using fill unfolding filled_def by blast
  moreover have "stored_input_cnt k = length (R @ Q)" using k(3) by (simp add: Q length_active_rows)
  ultimately have "filled env sp mx K fr0 L
      (st \<lparr>op_brs := brs, op_frame := cast_ids (arg_ids ?es) (bsize brs) fr, op_ctl := k\<rparr>) (R @ Q)"
    using k(2) len frame_inv_cast [OF plan inv, of "arg_ids ?es" "bsize brs"] unfolding filled_def
    by (intro conjI exI [of _ ?vss] exI [of _ "\<lambda>i. cols i @ batch_col brs fr (?ins ! i)"])
      (simp_all add: ball_Un)
  with k show ?thesis by blast
qed

lemma in_row_cong:
  assumes "\<And>e. e \<in> set (input_exprs sp) \<Longrightarrow> fr (expr_id e) = fr' (expr_id e)"
    and "\<And>e a. e \<in> set (udf_exprs sp) \<Longrightarrow> a \<in> set (expr_args e) \<Longrightarrow> fr (expr_id a) = fr' (expr_id a)"
  shows "in_row sp fr = in_row sp fr'"
  using assms by (intro ext) (simp add: in_row_def cast_ids_def cong: map_cong)

text \<open>The fields a fill step does not touch.\<close>

definition keeps :: "('w, 'r, 'd) op_state \<Rightarrow> ('w, 'r, 'd) op_state \<Rightarrow> bool" where
  "keeps st st' \<longleftrightarrow> op_rt st' = op_rt st \<and> batch_reach_end st' = batch_reach_end st \<and> gil_held st' = gil_held st \<and>
     batch_idx st' = batch_idx st \<and> ctl_desirable (op_ctl st') = ctl_desirable (op_ctl st)"

abbreviation child_of :: "(batch_rows \<times> (nat \<times> expr_frame) list) list \<Rightarrow> child_answer list" where
  "child_of bs \<equiv> map (\<lambda>(brs, ws). ChildBatch brs ws) bs"

lemma fill_step_batch:
  assumes plan: "plan_ok env sp mx K fr0" and fill: "filled env sp mx K fr0 L st R"
    and b: "batch_good env sp mx K fr0 (brs, ws)" and c: "op_child st = ChildBatch brs ws # cs"
    and L: "8192 \<le> L" "2 * ctl_desirable (op_ctl st) \<le> L" and nf: "int (length R) \<le> ctl_desirable (op_ctl st)"
    and mem: "\<And>n. mem_ok m n"
  shows "\<exists>st'. fill_step env m sp st = Some (OB_SUCCESS, st') \<and>
           filled env sp mx K fr0 L st' (R @ batch_in sp fr0 (brs, ws)) \<and> op_child st' = cs \<and> \<not> bend (op_brs st') \<and> keeps st st'"
proof -
  let ?fr = "apply_writes ws (op_frame st)" and ?v = "apply_writes ws fr0" and ?brs = "brs_copy (op_brs st) brs"
  have inv: "frame_inv env sp K fr0 (op_frame st)" and sk: "mx \<le> 64 * length (skip (op_brs st))"
    using fill unfolding filled_def by blast+
  note view = writes_view [OF plan inv b]
  have sz: "bsize brs \<le> mx" "bsize brs \<le> 64 * length (skip brs)" "\<not> bend brs" using b by simp_all
  have cp: "active_rows ?brs = active_rows brs" "bsize ?brs = bsize brs" "bend ?brs = bend brs"
    "length (skip ?brs) = length (skip (op_brs st))"
    using brs_copy_fields [of brs "op_brs st"] sz sk by simp_all
  note same = same_rows [OF cp(1,2)]
  have args: "\<forall>e \<in> set (udf_exprs sp). args_ok env ?brs ?fr e"
  proof
    fix e assume e: "e \<in> set (udf_exprs sp)"
    have "args_ok env ?brs ?fr e = args_ok env ?brs ?v e" by (rule args_ok_cong) (use view(2) e in blast)
    then show "args_ok env ?brs ?fr e" using b e by (simp add: same)
  qed
  have "cols_ok ?brs ?fr (input_exprs sp) = cols_ok ?brs ?v (input_exprs sp)"
    by (rule cols_ok_cong) (use view(1) in blast)
  then have cls: "cols_ok ?brs ?fr (input_exprs sp)" using b by (simp add: same)
  have bc: "batch_col ?brs ?fr e = batch_col brs ?v e" if "e \<in> set (input_exprs sp)" for e
    using batch_col_cong [of ?fr e ?v brs] view(1) [OF that] by (simp add: same)
  have ft: "\<forall>e \<in> set (input_exprs sp). \<forall>v \<in> set (batch_col ?brs ?fr e). fits e v" using b by (simp add: bc)
  have "in_row sp ?fr = in_row sp ?v" using view(1,2) by (rule in_row_cong)
  then have Q: "batch_in sp fr0 (brs, ws) = map (in_row sp ?fr (bsize ?brs)) (active_rows ?brs)" by (simp add: cp)
  have room: "int (length R + brs_cnt ?brs) \<le> L"
    using brs_cnt_le [of ?brs] cp(2) sz(1) plan_okD(9) [OF plan] L nf by linarith
  have len: "mx \<le> 64 * length (skip ?brs)" using sk cp by simp
  from store_filled [OF fill args cls room mem Q ft plan view(3) len] obtain k fr' where
    "ctl_store env m ?brs (?fr, op_ctl st) = Some (OB_SUCCESS, fr', k)"
    "filled env sp mx K fr0 L (st \<lparr>op_brs := ?brs, op_frame := fr', op_ctl := k\<rparr>) (R @ batch_in sp fr0 (brs, ws))"
    "ctl_desirable k = ctl_desirable (op_ctl st)" by blast
  then show ?thesis
    using c cp sz by (intro exI [of _ "st \<lparr>op_child := cs, op_brs := ?brs, op_frame := fr', op_ctl := k\<rparr>"])
      (simp add: fill_step_def Let_def keeps_def filled_def)
qed

lemma fill_step_end:
  assumes plan: "plan_ok env sp mx K fr0" and fill: "filled env sp mx K fr0 L st R" and c: "op_child st = []"
    and L: "int (length R) \<le> L" and mem: "\<And>n. mem_ok m n"
  shows "\<exists>st'. fill_step env m sp st = Some (OB_SUCCESS, st') \<and> filled env sp mx K fr0 L st' R \<and>
           op_child st' = [] \<and> bend (op_brs st') \<and> bsize (op_brs st') = 0 \<and> keeps st st'"
proof -
  let ?fr = "end_formats (input_exprs sp) (op_frame st)" and ?brs = "brs_copy (op_brs st) brs_end"
  have inv: "frame_inv env sp K fr0 (op_frame st)" and sk: "mx \<le> 64 * length (skip (op_brs st))"
    using fill unfolding filled_def by blast+
  note e = end_formats_inv [OF plan inv]
  have brs: "active_rows ?brs = []" "bsize ?brs = 0" "bend ?brs" "length (skip ?brs) = length (skip (op_brs st))"
    by (simp_all add: active_rows_def brs_copy_def brs_end_def length_deep_copy)
  have args: "\<forall>e \<in> set (udf_exprs sp). args_ok env ?brs ?fr e"
    using e(3) brs by (simp add: args_ok_def args_readable_def)
  have cls: "cols_ok ?brs ?fr (input_exprs sp)" using e(2) brs by (simp add: cols_ok_def rows_readable_def)
  have ft: "\<forall>e \<in> set (input_exprs sp). \<forall>v \<in> set (batch_col ?brs ?fr e). fits e v" using brs by (simp add: batch_col_def)
  have Q: "[] = map (in_row sp ?fr (bsize ?brs)) (active_rows ?brs)" using brs by simp
  have room: "int (length R + brs_cnt ?brs) \<le> L" using brs_cnt_le [of ?brs] brs L by simp
  have len: "mx \<le> 64 * length (skip ?brs)" using sk brs by simp
  from store_filled [OF fill args cls room mem Q ft plan e(1) len] obtain k fr' where
    "ctl_store env m ?brs (?fr, op_ctl st) = Some (OB_SUCCESS, fr', k)"
    "filled env sp mx K fr0 L (st \<lparr>op_brs := ?brs, op_frame := fr', op_ctl := k\<rparr>) R"
    "ctl_desirable k = ctl_desirable (op_ctl st)" by auto
  then show ?thesis
    using c brs by (intro exI [of _ "st \<lparr>op_brs := ?brs, op_frame := fr', op_ctl := k\<rparr>"])
      (simp add: fill_step_def Let_def keeps_def filled_def)
qed

lemma fill_loop_ok:
  assumes plan: "plan_ok env sp mx K fr0" and "filled env sp mx K fr0 L st R"
    and "op_child st = child_of bs" "\<forall>b \<in> set bs. batch_good env sp mx K fr0 b" "\<not> bend (op_brs st)"
    and "8192 \<le> L" "2 * ctl_desirable (op_ctl st) \<le> L" and "int (length R) \<le> L" "0 \<le> ctl_desirable (op_ctl st)"
    and mem: "\<And>n. mem_ok m n"
  shows "\<exists>bs1 bs2 st'. bs = bs1 @ bs2 \<and> fill_loop env m sp st = Some (OB_SUCCESS, st') \<and>
           filled env sp mx K fr0 L st' (R @ all_in sp fr0 bs1) \<and> op_child st' = child_of bs2 \<and> keeps st st' \<and>
           int (length (R @ all_in sp fr0 bs1)) \<le> L \<and>
           (if bend (op_brs st') then bs2 = [] \<and> bsize (op_brs st') = 0 else R @ all_in sp fr0 bs1 \<noteq> [])"
  using assms(2-9)
proof (induction bs arbitrary: st R)
  case Nil
  have full: "is_full (op_ctl st) \<longleftrightarrow> int (length R) > ctl_desirable (op_ctl st)"
    using Nil.prems(1) by (auto simp: filled_def is_full_def BUFFER_MAG_def)
  show ?case
  proof (cases "is_full (op_ctl st)")
    case True
    then have "R \<noteq> []" using full Nil.prems by auto
    with True Nil.prems show ?thesis by (intro exI [of _ "[]"] exI [of _ st]) (simp add: fill_loop.simps keeps_def)
  next
    case False
    obtain st' where "fill_step env m sp st = Some (OB_SUCCESS, st')" "filled env sp mx K fr0 L st' R" "op_child st' = []"
      "bend (op_brs st')" "bsize (op_brs st') = 0" "keeps st st'"
      using fill_step_end [OF plan Nil.prems(1) _ Nil.prems(7) mem] Nil.prems(2) by auto
    with False Nil.prems show ?thesis
      by (intro exI [of _ "[]"] exI [of _ st']) (simp add: fill_loop.simps [of env m sp st] fill_loop.simps [of env m sp st'])
  qed
next
  case (Cons b bs)
  have full: "is_full (op_ctl st) \<longleftrightarrow> int (length R) > ctl_desirable (op_ctl st)"
    using Cons.prems(1) by (auto simp: filled_def is_full_def BUFFER_MAG_def)
  show ?case
  proof (cases "is_full (op_ctl st)")
    case True
    then have "R \<noteq> []" using full Cons.prems by auto
    with True Cons.prems show ?thesis
      by - (rule exI [of _ "[]"], rule exI [of _ "b # bs"], rule exI [of _ st], simp add: fill_loop.simps keeps_def)
  next
    case False
    obtain brs ws where b: "b = (brs, ws)" by (cases b)
    have c: "op_child st = ChildBatch brs ws # child_of bs" using Cons.prems(2) b by simp
    have good: "batch_good env sp mx K fr0 (brs, ws)" using Cons.prems(3) b by simp
    obtain st1 where st1: "fill_step env m sp st = Some (OB_SUCCESS, st1)"
      "filled env sp mx K fr0 L st1 (R @ batch_in sp fr0 b)" "op_child st1 = child_of bs" "\<not> bend (op_brs st1)" "keeps st st1"
      using fill_step_batch [OF plan Cons.prems(1) good c Cons.prems(5,6) _ mem] False full b by auto
    have len: "int (length (R @ batch_in sp fr0 b)) \<le> L"
    proof -
      have "length (batch_in sp fr0 b) \<le> 4096"
        using good plan_okD(9) [OF plan] brs_cnt_le [of brs] b by (simp add: length_active_rows)
      then show ?thesis using Cons.prems(5,6) False full by (simp; linarith)
    qed
    have d: "ctl_desirable (op_ctl st1) = ctl_desirable (op_ctl st)" using st1(5) by (simp add: keeps_def)
    from Cons.IH [OF st1(2,3) _ st1(4) Cons.prems(5) _ len] Cons.prems(3,6,8) d obtain bs1 bs2 st' where
      "bs = bs1 @ bs2" "fill_loop env m sp st1 = Some (OB_SUCCESS, st')"
      "filled env sp mx K fr0 L st' ((R @ batch_in sp fr0 b) @ all_in sp fr0 bs1)" "op_child st' = child_of bs2" "keeps st1 st'"
      "int (length ((R @ batch_in sp fr0 b) @ all_in sp fr0 bs1)) \<le> L"
      "if bend (op_brs st') then bs2 = [] \<and> bsize (op_brs st') = 0 else (R @ batch_in sp fr0 b) @ all_in sp fr0 bs1 \<noteq> []" by auto
    with st1 Cons.prems(4) False show ?thesis
      by - (rule exI [of _ "b # bs1"], rule exI [of _ bs2], rule exI [of _ st'],
          simp add: fill_loop.simps [of env m sp st] keeps_def split: if_splits)
  qed
qed

section \<open>A round\<close>

text \<open>What is known of the functions: they work row by row, and their batch sizes stay small enough.\<close>

definition udfs_ok ::
  "('w, 'r, 'o) py_env \<Rightarrow> (nat \<Rightarrow> py_val list \<Rightarrow> 'o) \<Rightarrow> op_spec \<Rightarrow> nat \<Rightarrow> (nat \<Rightarrow> 'd udf_info) \<Rightarrow> bool" where
  "udfs_ok pe f sp rest infs \<longleftrightarrow> concat_ok pe \<and>
     (\<forall>i < length (udf_exprs sp).
        udf_rowwise pe (pyfun_handler (meta_name (udf_meta (infs (expr_id (udf_exprs sp ! i)))))) (f i)) \<and>
     (\<forall>e \<in> set (udf_exprs sp). ret_matches (infs (expr_id e)) e \<and> 0 < predict_size (infs (expr_id e)) \<and>
        0 \<le> delta (infs (expr_id e)) \<and>
        predict_size (infs (expr_id e)) + delta (infs (expr_id e)) * int rest \<le> 1073741823)"

text \<open>\<open>pending st P\<close>: the results of the rows \<open>P\<close> are there and not yet handed out.\<close>

definition pending ::
  "('w, 'r, 'o) py_env \<Rightarrow> (nat \<Rightarrow> py_val list \<Rightarrow> 'o) \<Rightarrow> op_spec \<Rightarrow> int \<Rightarrow> ('w, 'r, 'd) op_state \<Rightarrow> in_row list \<Rightarrow> bool" where
  "pending pe f sp L st P \<longleftrightarrow>
     (if P = [] then \<not> can_output (op_ctl st) \<and>
        ctl_base (udf_exprs sp) (input_exprs sp) (infos (op_rt st)) (int (max_batch_size sp)) L (op_ctl st)
      else can_output (op_ctl st) \<and> (\<exists>rs cols.
        ctl_ready pe (udf_exprs sp) (input_exprs sp) (infos (op_rt st)) (int (max_batch_size sp)) L (op_ctl st) rs cols \<and>
        length P = stored_output_cnt (op_ctl st) - output_idx (op_ctl st) \<and>
        (\<forall>i < length (udf_exprs sp). drop (output_idx (op_ctl st)) (rs i) = map (\<lambda>r. f i (fst r ! i)) P) \<and>
        (\<forall>i < length (input_exprs sp). drop (output_idx (op_ctl st)) (cols i) = map (\<lambda>r. snd r ! i) P \<and>
           (\<forall>v \<in> set (cols i). fits (input_exprs sp ! i) v)))) \<and>
     (\<forall>r \<in> set P. length (snd r) = length (input_exprs sp))"

lemma udfs_ok_step:
  assumes "udfs_ok pe f sp (n + rest) infs" "\<forall>e \<in> set (udf_exprs sp). info_step n (infs (expr_id e)) (infs' (expr_id e))"
  shows "udfs_ok pe f sp rest infs'"
proof -
  have meta: "udf_meta (infs' (expr_id e)) = udf_meta (infs (expr_id e))" "delta (infs' (expr_id e)) = delta (infs (expr_id e))"
    "predict_size (infs (expr_id e)) \<le> predict_size (infs' (expr_id e))"
    "predict_size (infs' (expr_id e)) \<le> predict_size (infs (expr_id e)) + delta (infs (expr_id e)) * int n"
    if "e \<in> set (udf_exprs sp)" for e
    using assms(2) that by (auto simp: info_step_def same_info_def)
  have "predict_size (infs' (expr_id e)) + delta (infs' (expr_id e)) * int rest \<le> 1073741823"
    if "e \<in> set (udf_exprs sp)" for e
    using assms(1) meta [OF that] that by (auto simp: udfs_ok_def distrib_left)
  with assms(1) meta show ?thesis
    by (fastforce simp: udfs_ok_def ret_matches_def)
qed

lemma udfs_ok_mono: "udfs_ok pe f sp rest infs \<Longrightarrow> n \<le> rest \<Longrightarrow> udfs_ok pe f sp n infs"
proof -
  assume ok: "udfs_ok pe f sp rest infs" and n: "n \<le> rest"
  have "delta (infs (expr_id e)) * int n \<le> delta (infs (expr_id e)) * int rest" if "e \<in> set (udf_exprs sp)" for e
    using ok n that by (intro mult_left_mono) (auto simp: udfs_ok_def)
  with ok show ?thesis by (fastforce simp: udfs_ok_def)
qed

lemma process_filled:
  assumes plan: "plan_ok env sp mx K fr0" and fill: "filled env sp mx K fr0 L st R"
    and udfs: "udfs_ok pe f sp (length R + rest) (infos (op_rt st))" and n: "int (length R) < 2147483648"
    and mem: "\<And>n. mem_ok m n"
  shows "\<exists>k rt. process_round m pe D (OB_SUCCESS, st) = Some (OB_SUCCESS, st \<lparr>op_ctl := k, op_rt := rt\<rparr>) \<and>
           pending pe f sp L (st \<lparr>op_ctl := k, op_rt := rt\<rparr>) R \<and> udfs_ok pe f sp rest (infos rt) \<and>
           ctl_desirable k = ctl_desirable (op_ctl st)"
proof -
  let ?es = "udf_exprs sp" and ?ins = "input_exprs sp" and ?k = "op_ctl st" and ?B = "int (max_batch_size sp)"
  obtain vss cols where f: "ctl_filling ?es ?ins (infos (op_rt st)) ?B L ?k vss cols" "stored_input_cnt ?k = length R"
    "\<forall>i < length ?es. val_rows (vss i) 0 (length R) = map (\<lambda>r. fst r ! i) R"
    "\<forall>i < length ?ins. cols i = map (\<lambda>r. snd r ! i) R"
    using fill by (auto simp: filled_def)
  have R: "\<forall>r \<in> set R. length (snd r) = length ?ins \<and> (\<forall>i < length ?ins. fits (?ins ! i) (snd r ! i))"
    using fill unfolding filled_def by blast
  show ?thesis
  proof (cases "R = []")
    case True
    then have "process_round m pe D (OB_SUCCESS, st) = Some (OB_SUCCESS, st \<lparr>op_ctl := ?k, op_rt := op_rt st\<rparr>)"
      using f(2) by (simp add: process_round_def ctl_process_def is_empty_def)
    moreover have "pending pe f sp L st R"
      using f(1) True by (simp add: pending_def ctl_filling_def can_output_def)
    moreover have "udfs_ok pe f sp rest (infos (op_rt st))" using udfs True by simp
    ultimately show ?thesis by (intro exI [of _ ?k] exI [of _ "op_rt st"]) simp
  next
    case False
    have udf: "\<forall>i < length ?es. udf_rowwise pe (pyfun_handler (meta_name (udf_meta (infos (op_rt st) (expr_id (?es ! i)))))) (f i)"
      and cat: "concat_ok pe"
      using udfs by (simp_all add: udfs_ok_def)
    have gr: "\<forall>e \<in> set ?es. grows (stored_input_cnt ?k) (infos (op_rt st) (expr_id e))"
      using udfs_ok_mono [OF udfs, of "length R"] f(2) by (fastforce simp: udfs_ok_def grows_def)
    have n': "int (stored_input_cnt ?k) < 2147483648" "0 < stored_input_cnt ?k" using n f(2) False by simp_all
    from ctl_process_ok [OF f(1) plan_okD(1) [OF plan] plan_okD(4) [OF plan] udf cat gr n'(1) mem n'(2), of D]
    obtain k rt where p: "ctl_process m pe D (?k, op_rt st) = Some (OB_SUCCESS, k, rt)"
      "ctl_ready pe ?es ?ins (infos rt) ?B L k (\<lambda>i. map (f i) (val_rows (vss i) 0 (length R))) cols"
      "stored_output_cnt k = length R" "output_idx k = 0" "ctl_desirable k = ctl_desirable ?k"
      "\<forall>e \<in> set ?es. info_step (length R) (infos (op_rt st) (expr_id e)) (infos rt (expr_id e))"
      using f(2) by auto
    have "\<forall>i < length ?ins. \<forall>v \<in> set (cols i). fits (?ins ! i) v" using R f(4) by simp
    then have "pending pe f sp L (st \<lparr>op_ctl := k, op_rt := rt\<rparr>) R"
      unfolding pending_def using p(2,3,4) False R f(3,4)
      by (auto simp: can_output_def comp_def simp del: set_map
          intro!: exI [of _ "\<lambda>i. map (f i) (val_rows (vss i) 0 (length R))"] exI [of _ cols])
    with p udfs_ok_step [OF udfs p(6)] show ?thesis
      by (intro exI [of _ k] exI [of _ rt]) (simp add: process_round_def)
  qed
qed

section \<open>The operator between two calls\<close>

definition op_inv ::
  "expr_env \<Rightarrow> ('w, 'r, 'o) py_env \<Rightarrow> (nat \<Rightarrow> py_val list \<Rightarrow> 'o) \<Rightarrow> op_spec \<Rightarrow> nat \<Rightarrow> nat set \<Rightarrow> frame \<Rightarrow>
     ('w, 'r, 'd) op_state \<Rightarrow> in_row list \<Rightarrow> (batch_rows \<times> (nat \<times> expr_frame) list) list \<Rightarrow> bool" where
  "op_inv env pe f sp mx K fr0 st P bs \<longleftrightarrow>
     (\<exists>L. 8192 \<le> L \<and> L \<le> 2147483646 \<and> pending pe f sp L st P) \<and>
     op_child st = child_of bs \<and> (\<forall>b \<in> set bs. batch_good env sp mx K fr0 b) \<and>
     frame_inv env sp K fr0 (op_frame st) \<and> mx \<le> 64 * length (skip (op_brs st)) \<and>
     0 \<le> ctl_desirable (op_ctl st) \<and> ctl_desirable (op_ctl st) \<le> 1073741823 \<and>
     udfs_ok pe f sp (length (all_in sp fr0 bs)) (infos (op_rt st)) \<and> \<not> gil_held st \<and> \<not> batch_reach_end st"

lemma begin_round_ok:
  assumes plan: "plan_ok env sp mx K fr0" and inv: "op_inv env pe f sp mx K fr0 st [] bs" and mem: "\<And>n. mem_ok m n"
  shows "\<exists>st' L. begin_round m sp st = Some st' \<and> filled env sp mx K fr0 L st' [] \<and> 8192 \<le> L \<and> L \<le> 2147483646 \<and>
           2 * ctl_desirable (op_ctl st') \<le> L \<and> 0 \<le> ctl_desirable (op_ctl st') \<and> ctl_desirable (op_ctl st') \<le> 1073741823 \<and>
           op_child st' = op_child st \<and> op_brs st' = op_brs st \<and> op_rt st' = op_rt st \<and> gil_held st' = gil_held st \<and>
           batch_reach_end st' = batch_reach_end st"
proof -
  let ?es = "udf_exprs sp" and ?ins = "input_exprs sp" and ?k = "op_ctl st" and ?B = "int (max_batch_size sp)"
  obtain L where L: "8192 \<le> L" "L \<le> 2147483646" "ctl_base ?es ?ins (infos (op_rt st)) ?B L ?k"
    using inv by (auto simp: op_inv_def pending_def)
  have "\<forall>e \<in> set ?es. predict_size (infos (op_rt st) (expr_id e)) \<le> 1073741823"
    using udfs_ok_mono [of pe f sp _ "infos (op_rt st)" 0] inv by (fastforce simp: op_inv_def udfs_ok_def)
  then obtain d where d: "ctl_get_desirable ?k = (d, ?k \<lparr>ctl_desirable := d\<rparr>)" "0 \<le> d" "d \<le> 1073741823"
    using ctl_get_desirable_ok [OF L(3), of 1073741823] inv by (auto simp: op_inv_def)
  have base: "ctl_base ?es ?ins (infos (op_rt st)) ?B L (?k \<lparr>ctl_desirable := d\<rparr>)" using L(3) by (simp add: ctl_base_def)
  obtain k' where k': "ctl_resize m (2 * d) (?k \<lparr>ctl_desirable := d\<rparr>) = Some (OB_SUCCESS, k')"
    "ctl_filling ?es ?ins (infos (op_rt st)) ?B (max (2 * d) L) k' (\<lambda>i. replicate (arg_cnt (?es ! i)) []) (\<lambda>i. [])"
    "stored_input_cnt k' = 0" "ctl_desirable k' = d"
    using ctl_resize_ok [OF base plan_okD(1) [OF plan] mem plan_okD(10) [OF plan], of "2 * d"] d by auto
  let ?st = "st \<lparr>op_frame := clear_flags (calc_exprs sp) (op_frame st), op_ctl := k'\<rparr>"
  have "filled env sp mx K fr0 (max (2 * d) L) ?st []"
    using k' inv frame_inv_clear [OF plan, of "op_frame st"] unfolding filled_def op_inv_def
    by (intro conjI exI [of _ "\<lambda>i. replicate (arg_cnt (?es ! i)) []"] exI [of _ "\<lambda>i. []"]) (simp_all add: val_rows_def)
  moreover have "begin_round m sp st = Some ?st"
    using d k'(1) by (simp add: begin_round_def BUFFER_MAG_def in_int32_def mult.commute)
  ultimately show ?thesis
    using L d k'(4) by (intro exI [of _ ?st] exI [of _ "max (2 * d) L"]) simp
qed

lemma next_round_ok:
  assumes plan: "plan_ok env sp mx K fr0" and inv: "op_inv env pe f sp mx K fr0 st P bs" and mem: "\<And>n. mem_ok m n"
    and nend: "\<not> bend (op_brs st)"
  shows "\<exists>st' P' bs'. next_round env m pe D sp st = Some (OB_SUCCESS, st') \<and> op_inv env pe f sp mx K fr0 st' P' bs' \<and>
           P' @ all_in sp fr0 bs' = P @ all_in sp fr0 bs \<and>
           (P' = [] \<longrightarrow> bs' = [] \<and> bend (op_brs st') \<and> bsize (op_brs st') = 0)"
proof (cases "P = []")
  case False
  then have "can_output (op_ctl st)" using inv by (auto simp: op_inv_def pending_def)
  with False inv show ?thesis
    by (intro exI [of _ st] exI [of _ P] exI [of _ bs]) (simp add: next_round_def with_batch_control_def)
next
  case True
  obtain st1 L where st1: "begin_round m sp st = Some st1" "filled env sp mx K fr0 L st1 []" "8192 \<le> L" "L \<le> 2147483646"
    "2 * ctl_desirable (op_ctl st1) \<le> L" "0 \<le> ctl_desirable (op_ctl st1)" "ctl_desirable (op_ctl st1) \<le> 1073741823"
    "op_child st1 = op_child st" "op_brs st1 = op_brs st" "op_rt st1 = op_rt st" "gil_held st1 = gil_held st"
    "batch_reach_end st1 = batch_reach_end st"
    using begin_round_ok [OF plan inv [unfolded True] mem] by blast
  have good: "\<forall>b \<in> set bs. batch_good env sp mx K fr0 b" and child: "op_child st1 = child_of bs"
    and udfs: "udfs_ok pe f sp (length (all_in sp fr0 bs)) (infos (op_rt st))" and flags: "\<not> gil_held st" "\<not> batch_reach_end st"
    using inv st1(8) by (simp_all add: op_inv_def)
  have out: "\<not> can_output (op_ctl st)" using inv True by (auto simp: op_inv_def pending_def)
  have "\<not> bend (op_brs st1)" "int (length ([] :: in_row list)) \<le> L" using nend st1(3,9) by simp_all
  from fill_loop_ok [OF plan st1(2) child good this(1) st1(3,5) this(2) st1(6) mem] obtain bs1 bs2 st2 where
    st2: "bs = bs1 @ bs2" "fill_loop env m sp st1 = Some (OB_SUCCESS, st2)"
      "filled env sp mx K fr0 L st2 (all_in sp fr0 bs1)" "op_child st2 = child_of bs2" "keeps st1 st2"
      "int (length (all_in sp fr0 bs1)) \<le> L"
      "if bend (op_brs st2) then bs2 = [] \<and> bsize (op_brs st2) = 0 else all_in sp fr0 bs1 \<noteq> []"
    unfolding append_Nil by blast
  have rt: "op_rt st2 = op_rt st" using st2(5) st1(10) by (simp add: keeps_def)
  have udfs2: "udfs_ok pe f sp (length (all_in sp fr0 bs1) + length (all_in sp fr0 bs2)) (infos (op_rt st2))"
    using udfs st2(1) rt by simp
  obtain k rt' where p: "process_round m pe D (OB_SUCCESS, st2) = Some (OB_SUCCESS, st2 \<lparr>op_ctl := k, op_rt := rt'\<rparr>)"
    "pending pe f sp L (st2 \<lparr>op_ctl := k, op_rt := rt'\<rparr>) (all_in sp fr0 bs1)"
    "udfs_ok pe f sp (length (all_in sp fr0 bs2)) (infos rt')" "ctl_desirable k = ctl_desirable (op_ctl st2)"
    using process_filled [OF plan st2(3) udfs2 _ mem, of D] st2(6) st1(4) by auto
  let ?st = "st2 \<lparr>op_ctl := k, op_rt := rt'\<rparr>"
  have fr: "frame_inv env sp K fr0 (op_frame st2)" "mx \<le> 64 * length (skip (op_brs st2))"
    using st2(3) unfolding filled_def by blast+
  have "op_inv env pe f sp mx K fr0 ?st (all_in sp fr0 bs1) bs2"
    unfolding op_inv_def using p st1(3,4,6,7,11,12) st2(1,4,5) good fr flags
    by (auto simp: keeps_def intro!: exI [of _ L])
  moreover have "next_round env m pe D sp st = Some (OB_SUCCESS, ?st)"
    using out st1(1) st2(2) p(1) by (simp add: next_round_def with_batch_control_def)
  ultimately show ?thesis
    using st2(1,7) True by (intro exI [of _ ?st] exI [of _ "all_in sp fr0 bs1"] exI [of _ bs2]) (simp split: if_splits)
qed

section \<open>Handing out a window\<close>

lemma reset_rows:
  assumes "n \<le> 64 * length (skip brs)"
  defines "b \<equiv> (brs_reset_skip n (brs \<lparr>bsize := n\<rparr>)) \<lparr>bend := False\<rparr>"
  shows "active_rows b = [0..<n]" "bsize b = n" "\<not> bend b" "length (skip b) = length (skip brs)"
    "accumulate_bit_cnt (skip b) n = 0"
proof -
  show "active_rows b = [0..<n]" by (auto simp: active_rows_def b_def brs_reset_skip_def bv_at_reset intro!: filter_True)
  have "{i. i < n \<and> bv_at (skip b) i} = {}" by (auto simp: b_def brs_reset_skip_def bv_at_reset)
  then show "accumulate_bit_cnt (skip b) n = 0" by (simp only: accumulate_bit_cnt_card card.empty)
qed (simp_all add: b_def brs_reset_skip_def length_bv_reset assms(1))

lemma default_format_not_const: "frame_ok e x n \<Longrightarrow> get_default_res_format e \<notin> {VEC_INVALID, VEC_UNIFORM_CONST}"
  by (simp add: frame_ok_format)

text \<open>The rows read from the restored frame.\<close>

lemma window_rows:
  assumes out: "\<forall>i < length (udf_exprs sp). out_ok pe (udf_exprs sp ! i) (rs i) idx n (fr (expr_id (udf_exprs sp ! i)))"
    and col: "\<forall>i < length (input_exprs sp). col_ok (input_exprs sp ! i) (cols i) idx n (fr (expr_id (input_exprs sp ! i)))"
    and rs: "\<forall>i < length (udf_exprs sp). drop idx (rs i) = map (\<lambda>r. f i (fst r ! i)) P"
    and cols: "\<forall>i < length (input_exprs sp). drop idx (cols i) = map (\<lambda>r. snd r ! i) P"
    and P: "\<forall>r \<in> set P. length (snd r) = length (input_exprs sp)" and n: "n \<le> length P"
    and fmt: "\<forall>e \<in> set (udf_exprs sp @ input_exprs sp). get_default_res_format e \<notin> {VEC_INVALID, VEC_UNIFORM_CONST}"
    and act: "active_rows brs = [0..<n]"
  shows "batch_out sp (fr, brs) = map (out_row pe f sp) (take n P)"
proof (rule nth_equalityI)
  show "length (batch_out sp (fr, brs)) = length (map (out_row pe f sp) (take n P))" using act n by simp
  fix j
  assume "j < length (batch_out sp (fr, brs))"
  then have j: "j < n" "j < length P" using act n by simp_all
  have u: "payload (cell_at (fr (expr_id (udf_exprs sp ! i))) j) = udf_out pe (udf_exprs sp ! i) (f i (fst (P ! j) ! i))"
    if i: "i < length (udf_exprs sp)" for i
  proof -
    have "drop idx (rs i) ! j = f i (fst (P ! j) ! i)" using rs i j by simp
    moreover have "length (drop idx (rs i)) = length P" using rs i by simp
    ultimately have "rs i ! (idx + j) = f i (fst (P ! j) ! i)" using j by simp
    with out i j fmt show ?thesis by (simp add: out_ok_def cell_at_def cell_holds_def)
  qed
  have c: "payload (cell_at (fr (expr_id (input_exprs sp ! i))) j) = snd (P ! j) ! i" if i: "i < length (input_exprs sp)" for i
  proof -
    have "drop idx (cols i) ! j = snd (P ! j) ! i" using cols i j by simp
    moreover have "length (drop idx (cols i)) = length P" using cols i by simp
    ultimately have "cols i ! (idx + j) = snd (P ! j) ! i" using j by simp
    with col i j fmt show ?thesis by (simp add: col_ok_def cell_at_def cell_holds_def)
  qed
  have "map (\<lambda>e. payload (cell_at (fr (expr_id e)) j)) (udf_exprs sp) =
      map (\<lambda>i. udf_out pe (udf_exprs sp ! i) (f i (fst (P ! j) ! i))) [0..<length (udf_exprs sp)]"
    using u by (intro nth_equalityI) simp_all
  moreover have "map (\<lambda>e. payload (cell_at (fr (expr_id e)) j)) (input_exprs sp) = snd (P ! j)"
    using c P j by (intro nth_equalityI) simp_all
  ultimately show "batch_out sp (fr, brs) ! j = map (out_row pe f sp) (take n P) ! j"
    using j act by (simp add: out_row_def)
qed

lemma restore_pending:
  assumes plan: "plan_ok env sp mx K fr0" and pend: "pending pe f sp L st P" and P: "P \<noteq> []"
    and inv: "frame_inv env sp K fr0 (op_frame st)" and sk: "mx \<le> 64 * length (skip (op_brs st))"
    and ret: "\<forall>e \<in> set (udf_exprs sp). ret_matches (infos (op_rt st) (expr_id e)) e"
  defines "n \<equiv> min mx (length P)"
  shows "\<exists>fr brs k. ctl_restore pe True (infos (op_rt st)) mx (op_frame st, op_brs st, op_ctl st) = Some (OB_SUCCESS, fr, brs, k) \<and>
           batch_out sp (fr, brs) = map (out_row pe f sp) (take n P) \<and> bsize brs = n \<and> \<not> bend brs \<and>
           accumulate_bit_cnt (skip brs) n = 0 \<and> active_rows brs = [0..<n] \<and> length (skip brs) = length (skip (op_brs st)) \<and>
           frame_inv env sp K fr0 fr \<and>
           (\<forall>e \<in> set (udf_exprs sp). projected (fr (expr_id e))) \<and>
           (\<forall>e \<in> set (udf_exprs sp @ input_exprs sp). vformat (fr (expr_id e)) = get_default_res_format e) \<and>
           pending pe f sp L (st \<lparr>op_frame := fr, op_brs := brs, op_ctl := k\<rparr>) (drop n P) \<and>
           ctl_desirable k = ctl_desirable (op_ctl st)"
proof -
  let ?es = "udf_exprs sp" and ?ins = "input_exprs sp" and ?k = "op_ctl st" and ?B = "int (max_batch_size sp)"
  let ?infs = "infos (op_rt st)"
  obtain rs cols where r: "can_output ?k" "ctl_ready pe ?es ?ins ?infs ?B L ?k rs cols"
    "length P = stored_output_cnt ?k - output_idx ?k"
    "\<forall>i < length ?es. drop (output_idx ?k) (rs i) = map (\<lambda>r. f i (fst r ! i)) P"
    "\<forall>i < length ?ins. drop (output_idx ?k) (cols i) = map (\<lambda>r. snd r ! i) P \<and> (\<forall>v \<in> set (cols i). fits (?ins ! i) v)"
    and P2: "\<forall>r \<in> set P. length (snd r) = length ?ins"
    using pend P by (auto simp: pending_def)
  have n: "n = min mx (stored_output_cnt ?k - output_idx ?k)" using r(3) by (simp add: n_def)
  have fok: "\<forall>e \<in> set (?es @ ?ins). frame_ok e (op_frame st (expr_id e)) (max_batch_size sp)"
    using inv by (simp add: frame_inv_def)
  have ft: "\<forall>i < length ?ins. \<forall>v \<in> set (cols i). fits (?ins ! i) v" using r(5) by blast
  define brs where "brs = (brs_reset_skip n (op_brs st \<lparr>bsize := n\<rparr>)) \<lparr>bend := False\<rparr>"
  have rr: "active_rows brs = [0..<n]" "bsize brs = n" "\<not> bend brs" "length (skip brs) = length (skip (op_brs st))"
    "accumulate_bit_cnt (skip brs) n = 0"
    using reset_rows [of n "op_brs st"] sk by (simp_all add: brs_def n_def)
  obtain fr k where c: "ctl_restore pe True ?infs mx (op_frame st, op_brs st, ?k) = Some (OB_SUCCESS, fr, brs, k)"
    "same_shape (op_frame st) fr" "\<forall>j. j \<notin> expr_id ` set (?es @ ?ins) \<longrightarrow> fr j = op_frame st j"
    "\<forall>i < length ?es. out_ok pe (?es ! i) (rs i) (output_idx ?k) n (fr (expr_id (?es ! i)))"
    "\<forall>i < length ?ins. col_ok (?ins ! i) (cols i) (output_idx ?k) n (fr (expr_id (?ins ! i))) \<and>
       projected (fr (expr_id (?ins ! i))) = projected (op_frame st (expr_id (?ins ! i)))"
    "ctl_base ?es ?ins ?infs ?B L k" "output_idx k = output_idx ?k + n" "stored_output_cnt k = stored_output_cnt ?k"
    "ctl_desirable k = ctl_desirable ?k" "can_output k \<longrightarrow> ctl_ready pe ?es ?ins ?infs ?B L k rs cols"
    using ctl_restore_ok [OF r(2) plan_okD(3) [OF plan] ret _ plan_okD(7) [OF plan] _ r(1) ft, of "op_frame st" "op_brs st"]
      fok plan_okD(8) [OF plan] unfolding n [symmetric] brs_def [symmetric] by auto
  have fmt: "\<forall>e \<in> set (?es @ ?ins). get_default_res_format e \<notin> {VEC_INVALID, VEC_UNIFORM_CONST}"
    using fok default_format_not_const by blast
  have rows: "batch_out sp (fr, brs) = map (out_row pe f sp) (take n P)"
    by (rule window_rows [OF c(4) _ r(4) _ P2 _ fmt rr(1)]) (use c(5) r(5) in \<open>auto simp: n_def\<close>)
  have pe: "\<forall>e \<in> set ?es. projected (fr (expr_id e)) \<and> vformat (fr (expr_id e)) = get_default_res_format e"
    using c(4) by (simp add: all_set_conv_all_nth out_ok_def)
  have pi: "\<forall>e \<in> set ?ins. projected (fr (expr_id e)) = projected (op_frame st (expr_id e)) \<and>
      vformat (fr (expr_id e)) = get_default_res_format e"
    using c(5) by (simp add: all_set_conv_all_nth col_ok_def)
  have K: "fr j = fr0 j" if "j \<in> K" for j
    using c(3) plan_okD(15,16) [OF plan that] inv that by (simp add: frame_inv_def image_Un)
  have finv: "frame_inv env sp K fr0 fr"
    unfolding frame_inv_def using fok K pi inv by (simp add: same_shape_frame_ok [OF c(2)] frame_inv_def)
  have cond: "can_output k \<longleftrightarrow> drop n P \<noteq> []" using c(7,8) r(1,3) n by (auto simp: can_output_def)
  have "pending pe f sp L (st \<lparr>op_frame := fr, op_brs := brs, op_ctl := k\<rparr>) (drop n P)"
  proof -
    have d: "drop (output_idx ?k + n) xs = drop n ys" if "drop (output_idx ?k) xs = ys" for xs ys :: "'x list"
      using that by (simp add: add.commute flip: drop_drop)
    have "\<forall>i < length ?es. drop (output_idx k) (rs i) = map (\<lambda>r. f i (fst r ! i)) (drop n P)"
      using r(4) by (simp add: c(7) d drop_map)
    moreover have "\<forall>i < length ?ins. drop (output_idx k) (cols i) = map (\<lambda>r. snd r ! i) (drop n P)"
      using r(5) by (simp add: c(7) d drop_map)
    moreover have "\<forall>r \<in> set (drop n P). length (snd r) = length ?ins" using P2 by (meson in_set_dropD)
    ultimately show ?thesis
      unfolding pending_def using cond c(6,8,10) ft r(3) by (auto simp: c(7) intro!: exI [of _ rs] exI [of _ cols])
  qed
  with c(1,9) rows rr finv pe pi show ?thesis
    by (intro exI [of _ fr] exI [of _ brs] exI [of _ k] conjI) (simp_all add: ball_Un)
qed

end
