(* ===== verification/Python_UDF_Op_Correct.thy ===== *)
theory Python_UDF_Op_Correct
  imports Python_UDF_Round
begin

text \<open>
  The operator as a whole: for plans and batches within the limits of \<open>plan_ok\<close> and \<open>batch_good\<close>, and whatever the sizes of the
  adaptive rounds, the rows it delivers are the active rows of the child, in order, each with the values of the UDFs on its arguments.
\<close>

section \<open>One call\<close>

text \<open>
  \<open>delivers st st'\<close>: from \<open>st\<close>, with the rows \<open>T\<close> still to come, the call has produced a batch of rows and left \<open>st'\<close>
  with the remaining ones.
\<close>

definition delivers ::
  "expr_env \<Rightarrow> ('w, 'r, 'o) py_env \<Rightarrow> (nat \<Rightarrow> py_val list \<Rightarrow> 'o) \<Rightarrow> op_spec \<Rightarrow> nat \<Rightarrow> nat set \<Rightarrow> frame \<Rightarrow>
     in_row list \<Rightarrow> ('w, 'r, 'd) op_state \<Rightarrow> bool" where
  "delivers env pe f sp mx K fr0 T st' \<longleftrightarrow> (\<exists>Q P bs. T = Q @ P @ all_in sp fr0 bs \<and> Q \<noteq> [] \<and>
     op_inv env pe f sp mx K fr0 st' P bs \<and> batch_out sp (op_frame st', op_brs st') = map (out_row pe f sp) Q \<and>
     \<not> bend (op_brs st') \<and> 0 < bsize (op_brs st') \<and> bsize (op_brs st') \<le> mx \<and>
     accumulate_bit_cnt (skip (op_brs st')) (bsize (op_brs st')) = 0)"

definition vectors_ok :: "op_spec \<Rightarrow> frame \<Rightarrow> bool" where
  "vectors_ok sp fr \<longleftrightarrow> (\<forall>e \<in> set (udf_exprs sp). projected (fr (expr_id e))) \<and>
     (\<forall>e \<in> set (udf_exprs sp @ input_exprs sp). vformat (fr (expr_id e)) \<noteq> VEC_INVALID)"

lemma inner_get_next_batch_ok:
  assumes plan: "plan_ok env sp mx K fr0" and inv: "op_inv env pe f sp mx K fr0 st P bs" and mem: "\<And>n. mem_ok m n"
    and nend: "\<not> bend (op_brs st)"
  shows "\<exists>st'. inner_get_next_batch env m pe D sp mx st = Some (OB_SUCCESS, st') \<and>
           (if P @ all_in sp fr0 bs = [] then bend (op_brs st') \<and> bsize (op_brs st') = 0
            else delivers env pe f sp mx K fr0 (P @ all_in sp fr0 bs) st' \<and> vectors_ok sp (op_frame st'))"
proof -
  obtain st1 P1 bs1 where r: "next_round env m pe D sp st = Some (OB_SUCCESS, st1)" "op_inv env pe f sp mx K fr0 st1 P1 bs1"
    "P1 @ all_in sp fr0 bs1 = P @ all_in sp fr0 bs" "P1 = [] \<longrightarrow> bs1 = [] \<and> bend (op_brs st1) \<and> bsize (op_brs st1) = 0"
    using next_round_ok [OF plan inv mem nend] by blast
  have gil: "\<not> gil_held st" using inv by (simp add: op_inv_def)
  show ?thesis
  proof (cases "P1 = []")
    case True
    then have "\<not> can_output (op_ctl st1)" using r(2) by (auto simp: op_inv_def pending_def)
    then have "inner_get_next_batch env m pe D sp mx st = Some (OB_SUCCESS, st1)"
      using r(1) gil plan_okD(11) [OF plan] by (simp add: inner_get_next_batch_def ctl_restore_def)
    with True r(3,4) show ?thesis by auto
  next
    case False
    let ?n = "min mx (length P1)"
    obtain L where L: "8192 \<le> L" "L \<le> 2147483646" "pending pe f sp L st1 P1" using r(2) by (auto simp: op_inv_def)
    have i: "frame_inv env sp K fr0 (op_frame st1)" "mx \<le> 64 * length (skip (op_brs st1))"
      "\<forall>e \<in> set (udf_exprs sp). ret_matches (infos (op_rt st1) (expr_id e)) e"
      using r(2) by (auto simp: op_inv_def udfs_ok_def)
    obtain fr brs k where c: "ctl_restore pe True (infos (op_rt st1)) mx (op_frame st1, op_brs st1, op_ctl st1) = Some (OB_SUCCESS, fr, brs, k)"
      "batch_out sp (fr, brs) = map (out_row pe f sp) (take ?n P1)" "bsize brs = ?n" "\<not> bend brs"
      "accumulate_bit_cnt (skip brs) ?n = 0" "length (skip brs) = length (skip (op_brs st1))" "frame_inv env sp K fr0 fr"
      "\<forall>e \<in> set (udf_exprs sp). projected (fr (expr_id e))"
      "\<forall>e \<in> set (udf_exprs sp @ input_exprs sp). vformat (fr (expr_id e)) = get_default_res_format e"
      "pending pe f sp L (st1 \<lparr>op_frame := fr, op_brs := brs, op_ctl := k\<rparr>) (drop ?n P1)" "ctl_desirable k = ctl_desirable (op_ctl st1)"
      using restore_pending [OF plan L(3) False i] by blast
    let ?st = "st1 \<lparr>op_frame := fr, op_brs := brs, op_ctl := k\<rparr>"
    have call: "inner_get_next_batch env m pe D sp mx st = Some (OB_SUCCESS, ?st)"
      using r(1) c(1) gil plan_okD(11) [OF plan] by (simp add: inner_get_next_batch_def)
    have "op_inv env pe f sp mx K fr0 ?st (drop ?n P1) bs1"
      using r(2) L(1,2) c(6,7,10,11) unfolding op_inv_def by auto
    moreover have "P @ all_in sp fr0 bs = take ?n P1 @ drop ?n P1 @ all_in sp fr0 bs1"
      unfolding r(3) [symmetric] by (metis append_assoc append_take_drop_id)
    ultimately have "delivers env pe f sp mx K fr0 (P @ all_in sp fr0 bs) ?st"
      unfolding delivers_def using c(2-5) False plan_okD(7) [OF plan]
      by - (rule exI [of _ "take ?n P1"], rule exI [of _ "drop ?n P1"], rule exI [of _ bs1], simp)
    moreover have "vectors_ok sp fr"
    proof -
      have "get_default_res_format e \<noteq> VEC_INVALID" for e by (simp add: get_default_res_format_def)
      with c(8,9) show ?thesis by (simp add: vectors_ok_def)
    qed
    moreover have "P @ all_in sp fr0 bs \<noteq> []" using False r(3) by (metis append_is_Nil_conv)
    ultimately show ?thesis unfolding if_not_P [OF \<open>P @ all_in sp fr0 bs \<noteq> []\<close>]
      using call by (intro exI [of _ ?st]) simp
  qed
qed

lemma eval_vector_noop:
  "vformat (fr (expr_id e)) \<noteq> VEC_INVALID \<Longrightarrow> \<not> batch_func env e \<or> projected (fr (expr_id e)) \<Longrightarrow>
   eval_vector env e brs fr = Some (OB_SUCCESS, fr)"
  by (auto simp: eval_vector_def Let_def split: option.splits)

text \<open>Projecting vectors that are already there only sets flags.\<close>

definition set_projected :: "nat set \<Rightarrow> frame \<Rightarrow> frame" where
  "set_projected S fr = (\<lambda>k. if k \<in> S then (fr k) \<lparr>projected := True\<rparr> else fr k)"

lemma project_ok:
  assumes "\<forall>e \<in> set es. vformat (fr (expr_id e)) \<noteq> VEC_INVALID \<and> (\<not> batch_func env e \<or> projected (fr (expr_id e)))"
  shows "for_ret (project_expr env brs) es fr = Some (OB_SUCCESS, set_projected (expr_id ` set es) fr)"
  using assms
proof (induction es arbitrary: fr)
  case Nil
  show ?case by (simp add: set_projected_def)
next
  case (Cons e es)
  let ?fr = "fr(expr_id e := (fr (expr_id e)) \<lparr>projected := True\<rparr>)"
  have "for_ret (project_expr env brs) es ?fr = Some (OB_SUCCESS, set_projected (expr_id ` set es) ?fr)"
    using Cons.prems by (intro Cons.IH) auto
  moreover have "set_projected (expr_id ` set es) ?fr = set_projected (expr_id ` set (e # es)) fr"
    by (auto simp: set_projected_def)
  moreover have "project_expr env brs e fr = Some (OB_SUCCESS, ?fr)"
    using Cons.prems by (simp add: project_expr_def eval_vector_noop)
  ultimately show ?case by simp
qed

lemma end_vectors_ok: "\<exists>fr'. for_ret end_vector es fr = Some (OB_SUCCESS, fr')"
  by (simp add: end_formats_vectors)

lemma delivers_project:
  assumes plan: "plan_ok env sp mx K fr0" and del: "delivers env pe f sp mx K fr0 T st"
  shows "delivers env pe f sp mx K fr0 T (st \<lparr>op_frame := set_projected (expr_id ` set (output_exprs sp)) (op_frame st)\<rparr>)"
proof -
  let ?fr = "set_projected (expr_id ` set (output_exprs sp)) (op_frame st)"
  have sh: "same_shape (op_frame st) ?fr" by (simp add: same_shape_def set_projected_def)
  have "cells (?fr k) = cells (op_frame st k)" "vformat (?fr k) = vformat (op_frame st k)" for k
    by (simp_all add: set_projected_def)
  then have out: "batch_out sp (?fr, brs) = batch_out sp (op_frame st, brs)" for brs by (simp add: cell_at_def)
  have "k \<notin> expr_id ` set (output_exprs sp)" if "k \<in> K" for k
    using plan_okD(13) [OF plan] plan_okD(15,16) [OF plan that] by auto
  then have "frame_inv env sp K fr0 ?fr" if "frame_inv env sp K fr0 (op_frame st)"
    using that unfolding frame_inv_def same_shape_frame_ok [OF sh] by (auto simp: set_projected_def)
  moreover have "pending pe f sp L (st \<lparr>op_frame := ?fr\<rparr>) P = pending pe f sp L st P" for L P by (simp add: pending_def)
  ultimately have "op_inv env pe f sp mx K fr0 (st \<lparr>op_frame := ?fr\<rparr>) P bs" if "op_inv env pe f sp mx K fr0 st P bs" for P bs
    using that by (simp add: op_inv_def)
  moreover obtain Q P bs where "T = Q @ P @ all_in sp fr0 bs" "Q \<noteq> []" "op_inv env pe f sp mx K fr0 st P bs"
    "batch_out sp (op_frame st, op_brs st) = map (out_row pe f sp) Q" "\<not> bend (op_brs st)" "0 < bsize (op_brs st)"
    "bsize (op_brs st) \<le> mx" "accumulate_bit_cnt (skip (op_brs st)) (bsize (op_brs st)) = 0"
    using del unfolding delivers_def by blast
  ultimately show ?thesis unfolding delivers_def
    by - (rule exI [of _ Q], rule exI [of _ P], rule exI [of _ bs], simp del: batch_out.simps add: out)
qed

section \<open>All calls\<close>

lemma pending_brs: "pending pe f sp L (st \<lparr>op_brs := b\<rparr>) P = pending pe f sp L st P"
  by (simp add: pending_def)

lemma get_next_batch_ok:
  assumes mx: "mx = min mrc (max_batch_size sp)" and plan: "plan_ok env sp mx K fr0"
    and inv: "op_inv env pe f sp mx K fr0 st P bs" and mem: "\<And>n. mem_ok m n"
    and nend: "\<not> bend (op_brs st)" and sz: "bsize (op_brs st) \<le> mx"
  shows "\<exists>st'. get_next_batch env m pe D sp None mrc st = Some (OB_SUCCESS, st') \<and>
           (if P @ all_in sp fr0 bs = [] then bend (op_brs st') else delivers env pe f sp mx K fr0 (P @ all_in sp fr0 bs) st')"
proof -
  define st0 where "st0 = st \<lparr>op_brs := reset_batchrows (op_brs st)\<rparr>"
  have sk: "mx \<le> 64 * length (skip (op_brs st))" "\<not> batch_reach_end st" using inv by (simp_all add: op_inv_def)
  have "length (skip (reset_batchrows (op_brs st))) = length (skip (op_brs st))" "\<not> bend (reset_batchrows (op_brs st))"
    using sz sk nend by (simp_all add: reset_batchrows_def brs_reset_skip_def length_bv_reset)
  then have st0: "op_inv env pe f sp mx K fr0 st0 P bs" "\<not> bend (op_brs st0)"
    using inv by (simp_all add: op_inv_def st0_def pending_brs)
  let ?inner = "inner_get_next_batch env m pe D sp mx"
  obtain st1 where st1: "?inner st0 = Some (OB_SUCCESS, st1)"
    "if P @ all_in sp fr0 bs = [] then bend (op_brs st1) \<and> bsize (op_brs st1) = 0
     else delivers env pe f sp mx K fr0 (P @ all_in sp fr0 bs) st1 \<and> vectors_ok sp (op_frame st1)"
    using inner_get_next_batch_ok [OF plan st0(1) mem st0(2)] by blast
  have next_eq: "get_next_batch env m pe D sp None mrc st =
      (batch_loop ?inner None st0 \<bind> (\<lambda>(ret, st1). if ret \<noteq> OB_SUCCESS then Some (ret, st1) else finish_batch env sp st1))"
    using plan_okD(11) [OF plan] sk(2) by (simp add: get_next_batch_def st0_def mx)
  show ?thesis
  proof (cases "P @ all_in sp fr0 bs = []")
    case True
    then have e: "bend (op_brs st1)" "bsize (op_brs st1) = 0" using st1(2) by simp_all
    have "accumulate_bit_cnt (skip (op_brs st1)) 0 = 0" by (simp add: accumulate_bit_cnt_card)
    then have "batch_loop ?inner None st0 = Some (OB_SUCCESS, st1 \<lparr>op_brs := reset_batchrows (op_brs st1)\<rparr>)"
      using st0(2) st1(1) e
      by (simp add: batch_loop.simps [of ?inner None st0] batch_loop.simps [of ?inner None "st1 \<lparr>op_brs := _\<rparr>"] reset_batchrows_def)
    moreover obtain fr where "for_ret end_vector (output_exprs sp) (op_frame st1) = Some (OB_SUCCESS, fr)"
      using end_vectors_ok by blast
    ultimately have "\<exists>st'. get_next_batch env m pe D sp None mrc st = Some (OB_SUCCESS, st') \<and> bend (op_brs st')"
      using e plan_okD(12) [OF plan] unfolding next_eq by (simp add: finish_batch_def reset_batchrows_def)
    then show ?thesis unfolding if_P [OF True] .
  next
    case False
    then have d: "delivers env pe f sp mx K fr0 (P @ all_in sp fr0 bs) st1" "vectors_ok sp (op_frame st1)"
      using st1(2) by (simp_all only: if_False)
    then have b: "\<not> bend (op_brs st1)" "0 < bsize (op_brs st1)" "accumulate_bit_cnt (skip (op_brs st1)) (bsize (op_brs st1)) = 0"
      and fi: "frame_inv env sp K fr0 (op_frame st1)"
      unfolding delivers_def op_inv_def by blast+
    have "batch_loop ?inner None st0 = Some (OB_SUCCESS, st1)"
      using st0(2) st1(1) b by (simp add: batch_loop.simps [of ?inner None st0])
    moreover have "\<forall>e \<in> set (output_exprs sp). vformat (op_frame st1 (expr_id e)) \<noteq> VEC_INVALID \<and>
        (\<not> batch_func env e \<or> projected (op_frame st1 (expr_id e)))"
      using plan_okD(13) [OF plan] d(2) fi unfolding vectors_ok_def frame_inv_def by auto
    from project_ok [OF this, of "op_brs st1"]
    have "finish_batch env sp st1 =
        Some (OB_SUCCESS, st1 \<lparr>op_frame := set_projected (expr_id ` set (output_exprs sp)) (op_frame st1)\<rparr>)"
      using b plan_okD(12) [OF plan] by (simp add: finish_batch_def)
    ultimately have "get_next_batch env m pe D sp None mrc st =
        Some (OB_SUCCESS, st1 \<lparr>op_frame := set_projected (expr_id ` set (output_exprs sp)) (op_frame st1)\<rparr>)"
      unfolding next_eq by simp
    then show ?thesis unfolding if_not_P [OF False] using delivers_project [OF plan d(1)] by blast
  qed
qed

lemma drain_ok:
  assumes mx: "mx = min mrc (max_batch_size sp)" and plan: "plan_ok env sp mx K fr0" and mem: "\<And>n. mem_ok m n"
    and "op_inv env pe f sp mx K fr0 st P bs" "\<not> bend (op_brs st)" "bsize (op_brs st) \<le> mx" "T = P @ all_in sp fr0 bs"
  shows "\<exists>outs st'. drain (get_next_batch env m pe D sp None mrc) st = Some (OB_SUCCESS, outs, st') \<and>
           concat (map (batch_out sp) outs) = map (out_row pe f sp) T \<and>
           (\<forall>(fr, brs) \<in> set outs. 0 < bsize brs \<and> bsize brs \<le> mx)"
  using assms(4-7)
proof (induction "length T" arbitrary: T P bs st rule: less_induct)
  case less
  let ?nxt = "get_next_batch env m pe D sp None mrc"
  obtain st1 where st1: "?nxt st = Some (OB_SUCCESS, st1)"
    "if T = [] then bend (op_brs st1) else delivers env pe f sp mx K fr0 T st1"
    using get_next_batch_ok [OF mx plan less.prems(1) mem less.prems(2,3)] less.prems(4) by blast
  show ?case
  proof (cases "T = []")
    case True
    then show ?thesis using st1 by (simp add: drain.simps [of ?nxt st])
  next
    case False
    then obtain Q P' bs' where d: "T = Q @ P' @ all_in sp fr0 bs'" "Q \<noteq> []" "op_inv env pe f sp mx K fr0 st1 P' bs'"
      "batch_out sp (op_frame st1, op_brs st1) = map (out_row pe f sp) Q" "\<not> bend (op_brs st1)" "0 < bsize (op_brs st1)"
      "bsize (op_brs st1) \<le> mx"
      using st1(2) unfolding if_not_P [OF False] delivers_def by blast
    have "length (P' @ all_in sp fr0 bs') < length T" using d(1,2) by simp
    from less.hyps [OF this d(3,5,7) refl] obtain outs st' where
      o: "drain ?nxt st1 = Some (OB_SUCCESS, outs, st')"
        "concat (map (batch_out sp) outs) = map (out_row pe f sp) (P' @ all_in sp fr0 bs')"
        "\<forall>(fr, brs) \<in> set outs. 0 < bsize brs \<and> bsize brs \<le> mx" by blast
    show ?thesis
      using st1(1) d o
      by (intro exI [of _ "(op_frame st1, op_brs st1) # outs"] exI [of _ st'])
        (simp add: drain.simps [of ?nxt st] del: batch_out.simps)
  qed
qed

section \<open>From opening the operator to its end\<close>

definition op_start ::
  "(batch_rows \<times> (nat \<times> expr_frame) list) list \<Rightarrow> frame \<Rightarrow> ('w, 'd) udf_rt \<Rightarrow> bit_vector \<Rightarrow> ('w, 'r, 'd) op_state" where
  "op_start bs fr0 rt sk =
     \<lparr>op_ctl = controller_new, op_brs = \<lparr>skip = sk, bsize = 0, bend = False, all_rows_active = False\<rparr>, op_frame = fr0,
      op_child = child_of bs, op_rt = rt, batch_reach_end = False, batch_idx = 0, gil_held = False\<rparr>"

lemma opened_inv:
  fixes rt :: "('w, 'd) udf_rt" and raw :: "'r udf_cell"
  assumes plan: "plan_ok env sp mx K fr0" and fr0: "frame_inv env sp K fr0 fr0"
    and bs: "\<forall>b \<in> set bs. batch_good env sp mx K fr0 b" and udfs: "udfs_ok pe f sp (length (all_in sp fr0 bs)) (infos rt)"
    and mem: "\<And>n. mem_ok m n" and sk: "mx \<le> 64 * length sk"
  shows "\<exists>k. inner_open m raw sp tenant (op_start bs fr0 rt sk) = Some (OB_SUCCESS, (op_start bs fr0 rt sk) \<lparr>op_ctl := k\<rparr>) \<and>
    op_inv env pe f sp mx K fr0 ((op_start bs fr0 rt sk :: ('w, 'r, 'd) op_state) \<lparr>op_ctl := k\<rparr>) [] bs \<and>
    (\<forall>c. inner_open m raw sp tenant ((op_start bs fr0 rt sk) \<lparr>op_child := c\<rparr>) =
       Some (OB_SUCCESS, (op_start bs fr0 rt sk) \<lparr>op_ctl := k, op_child := c\<rparr>))"
proof -
  have es: "\<forall>e \<in> set (udf_exprs sp). udf_expr_ok e \<and> 0 < predict_size (infos rt (expr_id e)) \<and> 0 \<le> delta (infos rt (expr_id e))"
    using plan_okD(1) [OF plan] udfs by (simp add: udfs_ok_def)
  obtain k where k: "ctl_init m raw (infos rt) (int (max_batch_size sp)) (udf_exprs sp) (input_exprs sp) tenant controller_new =
      Some (OB_SUCCESS, k)" "ctl_base (udf_exprs sp) (input_exprs sp) (infos rt) (int (max_batch_size sp)) 8192 k"
    "ctl_desirable k = 0" "\<not> can_output k"
    using ctl_init_ok [OF es mem plan_okD(10) [OF plan]] by blast
  have "op_inv env pe f sp mx K fr0 ((op_start bs fr0 rt sk :: ('w, 'r, 'd) op_state) \<lparr>op_ctl := k\<rparr>) [] bs"
    unfolding op_inv_def using k bs fr0 udfs sk by (auto simp: op_start_def pending_def)
  then show ?thesis using k(1) by (intro exI [of _ k]) (simp add: inner_open_def op_start_def)
qed

lemma open_drain_ok:
  fixes rt :: "('w, 'd) udf_rt" and raw :: "'r udf_cell"
  assumes mx: "mx = min mrc (max_batch_size sp)" and plan: "plan_ok env sp mx K fr0" and fr0: "frame_inv env sp K fr0 fr0"
    and bs: "\<forall>b \<in> set bs. batch_good env sp mx K fr0 b"
    and udfs: "udfs_ok pe f sp (length (all_in sp fr0 bs)) (infos rt)"
    and mem: "\<And>n. mem_ok m n" and sk: "mx \<le> 64 * length sk"
  shows "\<exists>st1 outs st2. inner_open m raw sp tenant (op_start bs fr0 rt sk) = Some (OB_SUCCESS, st1) \<and>
           drain (get_next_batch env m pe D sp None mrc) st1 = Some (OB_SUCCESS, outs, st2) \<and>
           concat (map (batch_out sp) outs) = map (out_row pe f sp) (all_in sp fr0 bs) \<and>
           (\<forall>(fr, brs) \<in> set outs. 0 < bsize brs \<and> bsize brs \<le> mx)"
proof -
  obtain k where op: "inner_open m raw sp tenant (op_start bs fr0 rt sk) =
      Some (OB_SUCCESS, (op_start bs fr0 rt sk :: ('w, 'r, 'd) op_state) \<lparr>op_ctl := k\<rparr>)"
    and inv: "op_inv env pe f sp mx K fr0 ((op_start bs fr0 rt sk :: ('w, 'r, 'd) op_state) \<lparr>op_ctl := k\<rparr>) [] bs"
    using opened_inv [OF plan fr0 bs udfs mem sk, of raw tenant] by blast
  let ?st1 = "(op_start bs fr0 rt sk :: ('w, 'r, 'd) op_state) \<lparr>op_ctl := k\<rparr>"
  have "\<not> bend (op_brs ?st1)" "bsize (op_brs ?st1) \<le> mx" by (simp_all add: op_start_def)
  from drain_ok [OF mx plan mem inv this, of "all_in sp fr0 bs" D] op show ?thesis by auto
qed

end
