(* ===== verification/Python_UDF_Examples.thy ===== *)
theory Python_UDF_Examples
  imports Python_UDF_Op_Correct
begin

text \<open>
  A concrete instance of everything the model is parametric in: an interpreter, a memory that always allocates, and a
  plan with one UDF \<open>p\<close> that adds one to an integer column, over a child that delivers two rows.
\<close>

definition ex_mem :: mem_env where
  "ex_mem = \<lparr>mem_ok = (\<lambda>n. True), fresh_datum = \<lparr>dptr = None, dlen = 0, dnull = False\<rparr>, fresh_int = 0, fresh_double = 0,
     sizeof_cell = 256\<rparr>"

fun ex_fun :: "py_val list \<Rightarrow> 64 word" where
  "ex_fun [VInt x] = ucast x + 1"
| "ex_fun _ = 0"

definition ex_py :: "(unit, 64 word list, 64 word) py_env" where
  "ex_py = \<lparr>gettimeofday = (\<lambda>w. ((0, 0), w)), main_module = (\<lambda>w. True), callable = (\<lambda>h w. True),
     call_object = (\<lambda>h args w. (Some (map ex_fun (val_rows (map npy_vals args) 0 (length (npy_vals (hd args))))), w)),
     concatenate = (\<lambda>a b. Some (a @ b)), items = (\<lambda>r. r), as_utf8 = (\<lambda>x. None), as_long = (\<lambda>x. x), as_double = (\<lambda>x. x)\<rparr>"

definition ex_info :: "unit udf_info" where
  "ex_info = \<lparr>udf_meta = python_udf_meta_default \<lparr>meta_name := ''p'', meta_ret := INTEGER\<rparr>, predict_size = 256, tps_s = (),
     lambda_threshold = (), alpha = (), round_cnt = 0, round_limit = 10, delta = 256\<rparr>"

definition ex_col :: ob_expr where
  "ex_col = ObExpr 0 T_REF_COLUMN ObIntType False True True 8 []"

definition ex_udf :: ob_expr where
  "ex_udf = ObExpr 1 T_FUN_PYTHON_UDF ObIntType False True True 8 [ex_col]"

definition ex_spec :: op_spec where
  "ex_spec = \<lparr>udf_exprs = [ex_udf], input_exprs = [ex_col], max_batch_size = 2, filters = [], output_exprs = [ex_udf, ex_col],
     calc_exprs = [ex_udf], cast_output = False\<rparr>"

definition ex_env :: expr_env where
  "ex_env = \<lparr>eval_func = (\<lambda>e. None), batch_func = (\<lambda>e. False), default_func = (\<lambda>e. False)\<rparr>"

definition ex_vector :: "64 word \<Rightarrow> 64 word \<Rightarrow> expr_frame" where
  "ex_vector x y =
     \<lparr>vformat = VEC_FIXED, cells = [\<lparr>dptr = Some (le_bytes x), dlen = 8, dnull = False\<rparr>, \<lparr>dptr = Some (le_bytes y), dlen = 8, dnull = False\<rparr>],
      reserve = [replicate 8 0, replicate 8 0], evaluated = True, projected = True, evaluated_flags = [0]\<rparr>"

definition ex_frame :: frame where
  "ex_frame = (\<lambda>k. ex_vector 0 0)"

definition ex_batch :: "batch_rows \<times> (nat \<times> expr_frame) list" where
  "ex_batch = (\<lparr>skip = [0], bsize = 2, bend = False, all_rows_active = True\<rparr>, [(0, ex_vector 5 7)])"

definition ex_rt :: "(unit, unit) udf_rt" where
  "ex_rt = \<lparr>infos = (\<lambda>i. ex_info), world = ()\<rparr>"

definition ex_cell :: "64 word list udf_cell" where
  "ex_cell = \<lparr>cell_expr = None, input_store = pu_store_new, cell_batch_size = 0, cell_desirable = 0, result_size = 0, result_store = None\<rparr>"

definition ex_dbl :: "unit dbl_ops" where
  "ex_dbl = \<lparr>d_of_int = (\<lambda>i. ()), d_add = (\<lambda>x y. ()), d_sub = (\<lambda>x y. ()), d_mul = (\<lambda>x y. ()), d_div = (\<lambda>x y. ()),
     d_less = (\<lambda>x y. False), d_eq = (\<lambda>x y. True)\<rparr>"

lemma ex_mem_ok: "mem_ok ex_mem n"
  by (simp add: ex_mem_def)

lemma ex_udf_rowwise: "udf_rowwise ex_py h ex_fun"
proof -
  have "length (npy_vals (hd args)) = n" if "args \<noteq> []" "\<forall>a \<in> set args. length (npy_vals a) = n" for args n
    using that by (simp add: hd_in_set)
  then show ?thesis by (auto simp: udf_rowwise_def ex_py_def)
qed

lemma ex_concat: "concat_ok ex_py"
  by (simp add: concat_ok_def ex_py_def)

lemma ex_plan: "plan_ok ex_env ex_spec 2 {} ex_frame"
  by (simp add: plan_ok_def ex_spec_def ex_udf_def ex_col_def udf_expr_ok_def supported_def arg_kind_def)

lemma ex_frame_inv: "frame_inv ex_env ex_spec {} ex_frame ex_frame"
  by (simp add: frame_inv_def ex_spec_def ex_udf_def ex_col_def ex_frame_def ex_vector_def frame_ok_def ex_env_def less_Suc_eq numeral_2_eq_2)

lemma ex_active: "active_rows (fst ex_batch) = [0, 1]"
  by (simp add: active_rows_def ex_batch_def bv_at_bit upt_rec)

lemma ex_col_frame:
  "apply_writes (snd ex_batch) ex_frame 0 = ex_vector 5 7" "bsize (fst ex_batch) = 2"
  "cast_frame 2 (ex_vector 5 7) = (ex_vector 5 7) \<lparr>vformat := VEC_UNIFORM\<rparr>"
  by (simp_all add: apply_writes_def ex_batch_def cast_frame_def ex_vector_def upt_rec numeral_2_eq_2)

lemma ex_int_cell [simp]:
  "get_int \<lparr>dptr = Some (le_bytes v), dlen = 8, dnull = False\<rparr> = Some v"
  "payload \<lparr>dptr = Some (le_bytes v), dlen = 8, dnull = False\<rparr> = le_bytes v"
  "readable \<lparr>dptr = Some (le_bytes v), dlen = 8, dnull = False\<rparr>"
  by (simp_all add: get_int_def get_word_def le_word_le_bytes payload_def readable_def)

lemma ex_args_ok: "args_ok ex_env (fst ex_batch) (apply_writes (snd ex_batch) ex_frame) ex_udf"
  unfolding args_ok_def args_readable_def ex_active
  by (simp add: ex_udf_def ex_col_def arg_direct_def cast_ids_def ex_col_frame ex_env_def)
    (simp add: ex_vector_def arg_readable_def arg_cell_def arg_kind_def is_const_expr_def)

lemma ex_batch_good: "batch_good ex_env ex_spec 2 {} ex_frame ex_batch"
proof -
  let ?fr = "apply_writes (snd ex_batch) ex_frame"
  have "cols_ok (fst ex_batch) ?fr [ex_col]"
    by (simp add: cols_ok_def rows_readable_def ex_active) (simp add: ex_col_def ex_col_frame cell_at_def ex_vector_def)
  moreover have "frame_ok ex_col (?fr 0) 2"
    by (simp add: ex_col_frame frame_ok_def ex_col_def ex_vector_def less_Suc_eq numeral_2_eq_2)
  moreover have "\<forall>v \<in> set (batch_col (fst ex_batch) ?fr ex_col). fits ex_col v"
    by (simp add: batch_col_def ex_active) (simp add: ex_col_frame cell_at_def ex_col_def ex_vector_def fits_def is_fixed_length_data_def)
  ultimately show ?thesis using ex_args_ok
    by (simp add: ex_batch_def ex_spec_def ex_env_def) (simp add: ex_col_def ex_udf_def)
qed

lemma ex_udfs_ok: "udfs_ok ex_py (\<lambda>i. ex_fun) ex_spec 4 (infos ex_rt)"
  by (simp add: udfs_ok_def ex_concat ex_udf_rowwise ex_spec_def ex_rt_def ex_info_def ret_matches_def arg_kind_def ex_udf_def
      is_fixed_length_data_def)

lemma ex_rows: "batch_in ex_spec ex_frame ex_batch = [([[VInt 5]], [le_bytes 5]), ([[VInt 7]], [le_bytes 7])]"
proof -
  have b: "batch_in sp fr b = map (in_row sp (apply_writes (snd b) fr) (bsize (fst b))) (active_rows (fst b))" for sp fr b
    by (cases b) simp
  show ?thesis
    unfolding b ex_active
    by (simp add: in_row_def ex_spec_def ex_udf_def ex_col_def cast_ids_def ex_col_frame)
      (simp add: ex_vector_def arg_value_def arg_cell_def arg_kind_def is_const_expr_def cell_at_def)
qed

text \<open>The child delivers the batch twice.\<close>

lemma ex_all_in: "length (all_in ex_spec ex_frame [ex_batch, ex_batch]) = 4"
  by (simp add: ex_rows)

lemma ex_outs:
  "map (out_row ex_py (\<lambda>i. ex_fun) ex_spec) (all_in ex_spec ex_frame [ex_batch, ex_batch]) =
   [([le_bytes 6], [le_bytes 5]), ([le_bytes 8], [le_bytes 7]), ([le_bytes 6], [le_bytes 5]), ([le_bytes 8], [le_bytes 7])]"
  by (simp add: ex_rows) (simp add: out_row_def ex_spec_def ex_udf_def udf_out_def arg_kind_def ex_py_def)

end
