(* ===== verification/Python_UDF_Row_Buffer.thy ===== *)
theory Python_UDF_Row_Buffer
  imports Python_UDF_Examples
begin

text \<open>
  The two stores of a round, \<open>ObColInputStore\<close> and \<open>ObPUInputStore\<close>, have the same contract: a buffer of bounded length
  to which batches of rows are appended and which is emptied, and grown when needed, by \<open>reset\<close>. The contract is the
  locale \<open>row_buffer\<close>; what follows from it for sequences of batches is proved there once and holds for both stores.
\<close>

section \<open>The contract\<close>

text \<open>The batches that are stored before the first one that does not fit, \<open>n\<close> rows being there already.\<close>

fun fitting :: "('b \<Rightarrow> nat) \<Rightarrow> int \<Rightarrow> nat \<Rightarrow> 'b list \<Rightarrow> 'b list" where
  "fitting len c n [] = []"
| "fitting len c n (b # bs) = (if int (n + len b) \<le> c then b # fitting len c (n + len b) bs else [])"

locale row_buffer =
  fixes holds :: "'s \<Rightarrow> 'v list \<Rightarrow> bool"
    and capacity :: "'s \<Rightarrow> int"
    and good :: "'b \<Rightarrow> bool"
    and contents :: "'b \<Rightarrow> 'v list"
    and save :: "'b \<Rightarrow> 's \<Rightarrow> (ob_ret \<times> 's) option"
    and reset :: "int \<Rightarrow> 's \<Rightarrow> (ob_ret \<times> 's) option"
  assumes save_fits: "holds s vs \<Longrightarrow> good b \<Longrightarrow> int (length vs + length (contents b)) \<le> capacity s \<Longrightarrow>
      \<exists>s'. save b s = Some (OB_SUCCESS, s') \<and> holds s' (vs @ contents b) \<and> capacity s' = capacity s"
    and save_overflow: "holds s vs \<Longrightarrow> capacity s < int (length vs + length (contents b)) \<Longrightarrow>
      save b s = Some (OB_ERR_UNEXPECTED, s)"
    and reset_empty: "holds s vs \<Longrightarrow> 0 \<le> n \<Longrightarrow>
      \<exists>s'. reset n s = Some (OB_SUCCESS, s') \<and> holds s' [] \<and> capacity s' = max n (capacity s)"
begin

lemma save_sequence:
  assumes "holds s vs" and "\<forall>b \<in> set bs. good b"
  shows "\<exists>s'. for_ret save bs s =
           Some (if fitting (\<lambda>b. length (contents b)) (capacity s) (length vs) bs = bs then OB_SUCCESS else OB_ERR_UNEXPECTED, s') \<and>
         holds s' (vs @ concat (map contents (fitting (\<lambda>b. length (contents b)) (capacity s) (length vs) bs))) \<and> capacity s' = capacity s"
  using assms
proof (induction bs arbitrary: s vs)
  case (Cons b bs)
  show ?case
  proof (cases "int (length vs + length (contents b)) \<le> capacity s")
    case True
    then obtain s1 where s1: "save b s = Some (OB_SUCCESS, s1)" "holds s1 (vs @ contents b)" "capacity s1 = capacity s"
      using save_fits [OF Cons.prems(1)] Cons.prems(2) by auto
    show ?thesis using Cons.IH [OF s1(2)] Cons.prems(2) True s1 by auto
  next
    case False
    then show ?thesis using save_overflow [OF Cons.prems(1)] Cons.prems(1) by auto
  qed
qed simp

lemma fitting_all: "int (n + length (concat (map contents bs))) \<le> c \<Longrightarrow> fitting (\<lambda>b. length (contents b)) c n bs = bs"
  by (induction bs arbitrary: n) auto

text \<open>A buffer that is reset to the needed length takes the whole sequence.\<close>

lemma reset_save:
  assumes "holds s vs" "\<forall>b \<in> set bs. good b" "int (length (concat (map contents bs))) \<le> n"
  shows "\<exists>s1 s2. reset n s = Some (OB_SUCCESS, s1) \<and> for_ret save bs s1 = Some (OB_SUCCESS, s2) \<and>
    holds s2 (concat (map contents bs))"
proof -
  have n: "0 \<le> n" using assms(3) by linarith
  obtain s1 where s1: "reset n s = Some (OB_SUCCESS, s1)" "holds s1 []" "capacity s1 = max n (capacity s)"
    using reset_empty [OF assms(1) n] by blast
  have "fitting (\<lambda>b. length (contents b)) (capacity s1) (length ([] :: 'v list)) bs = bs"
    using assms(3) s1(3) by (intro fitting_all) auto
  with save_sequence [OF s1(2) assms(2)] s1(1) show ?thesis by auto
qed

end

section \<open>The column store\<close>

text \<open>A row of the column store has a payload for every column.\<close>

definition col_holds :: "mem_env \<Rightarrow> ob_expr list \<Rightarrow> col_store \<Rightarrow> byte list list list \<Rightarrow> bool" where
  "col_holds m es s vs \<longleftrightarrow> (\<forall>n. mem_ok m n) \<and> length es \<le> 4294967295 \<and> col_inv es s \<and> cs_saved_size s = length vs \<and>
     (\<forall>i < length es. col_rows s i (map (\<lambda>r. r ! i) vs)) \<and> (\<forall>r \<in> set vs. length r = length es)"

definition col_good :: "ob_expr list \<Rightarrow> batch_rows \<times> frame \<Rightarrow> bool" where
  "col_good es b \<longleftrightarrow> (\<forall>e \<in> set es. rows_readable (snd b (expr_id e)) (active_rows (fst b)))"

definition col_contents :: "ob_expr list \<Rightarrow> batch_rows \<times> frame \<Rightarrow> byte list list list" where
  "col_contents es b = map (\<lambda>j. map (\<lambda>e. payload (cell_at (snd b (expr_id e)) j)) es) (active_rows (fst b))"

lemma length_col_contents: "length (col_contents es b) = brs_cnt (fst b)"
  by (simp add: col_contents_def length_active_rows)

lemma col_save_holds:
  assumes h: "col_holds m es s vs" and b: "col_good es b" and len: "int (length vs + length (col_contents es b)) \<le> cs_length s"
  shows "\<exists>s'. col_save_vector m (fst b) (snd b) s = Some (OB_SUCCESS, s') \<and> col_holds m es s' (vs @ col_contents es b) \<and>
    cs_length s' = cs_length s"
proof -
  have ov: "\<not> col_overflow s (fst b)" using len h by (simp add: col_overflow_def length_col_contents col_holds_def)
  obtain s' where s': "col_save_vector m (fst b) (snd b) s = Some (OB_SUCCESS, s')" "col_inv es s'" "cs_length s' = cs_length s"
    "cs_saved_size s' = cs_saved_size s + brs_cnt (fst b)"
    "\<forall>i < length es. col_rows s' i (map (\<lambda>r. r ! i) vs @ map (\<lambda>j. payload (cell_at (snd b (expr_id (es ! i))) j)) (active_rows (fst b)))"
    using col_save_vector_ok [of es s "\<lambda>i. map (\<lambda>r. r ! i) vs" "fst b" "snd b" m] h b ov
    by (auto simp: col_holds_def col_good_def)
  moreover have "map (\<lambda>r. r ! i) (col_contents es b) =
      map (\<lambda>j. payload (cell_at (snd b (expr_id (es ! i))) j)) (active_rows (fst b))" if "i < length es" for i
    using that by (simp add: col_contents_def)
  ultimately show ?thesis using h by (auto simp: col_holds_def length_col_contents) (auto simp: col_contents_def)
qed

interpretation col_buffer: row_buffer "col_holds m es" cs_length "col_good es" "col_contents es"
  "\<lambda>b. col_save_vector m (fst b) (snd b)" "col_reset m"
  for m es
proof (unfold_locales, goal_cases)
  case (1 s vs b)
  then show ?case by (rule col_save_holds)
next
  case (2 s vs b)
  then show ?case by (simp add: col_save_vector_def col_overflow_def length_col_contents col_holds_def)
next
  case (3 s vs n)
  then show ?case using col_reset_ok [of es s m n] by (fastforce simp: col_holds_def)
qed

section \<open>The argument store\<close>

text \<open>A row of the argument store has a value for every argument.\<close>

definition arg_holds :: "mem_env \<Rightarrow> ob_expr \<Rightarrow> pu_store \<Rightarrow> py_val list list \<Rightarrow> bool" where
  "arg_holds m e s vs \<longleftrightarrow> (\<forall>n. mem_ok m n) \<and> udf_expr_ok e \<and> pu_inv e s \<and> pu_saved_size s = length vs \<and>
     pu_rows s (map (\<lambda>i. map (\<lambda>r. r ! i) vs) [0..<arg_cnt e]) \<and> (\<forall>r \<in> set vs. length r = arg_cnt e)"

definition arg_contents :: "ob_expr \<Rightarrow> batch_rows \<times> frame \<Rightarrow> py_val list list" where
  "arg_contents e b = map (\<lambda>j. map (\<lambda>a. arg_value a (snd b (expr_id a)) j) (expr_args e)) (active_rows (fst b))"

lemma length_arg_contents: "length (arg_contents e b) = brs_cnt (fst b)"
  by (simp add: arg_contents_def length_active_rows)

lemma arg_save_holds:
  assumes h: "arg_holds m e s vs" and b: "args_readable e (fst b) (snd b)"
    and len: "int (length vs + length (arg_contents e b)) \<le> pu_length s"
  shows "\<exists>s'. pu_save_batch m (fst b) (snd b) s = Some (OB_SUCCESS, s') \<and> arg_holds m e s' (vs @ arg_contents e b) \<and>
    pu_length s' = pu_length s"
proof -
  let ?cols = "map (\<lambda>i. map (\<lambda>r. r ! i) vs) [0..<arg_cnt e]"
  obtain s' where s': "pu_save_batch m (fst b) (snd b) s = Some (OB_SUCCESS, s')" "pu_inv e s'" "pu_length s' = pu_length s"
    "pu_saved_size s' = pu_saved_size s + brs_cnt (fst b)" "pu_rows s' (map2 (@) ?cols (batch_args e (fst b) (snd b)))"
    using pu_save_batch_ok [of e s ?cols "fst b" "snd b" m] h b len by (auto simp: arg_holds_def length_arg_contents)
  moreover have "map2 (@) ?cols (batch_args e (fst b) (snd b)) =
      map (\<lambda>i. map (\<lambda>r. r ! i) (vs @ arg_contents e b)) [0..<arg_cnt e]"
    by (rule nth_equalityI) (auto simp: batch_args_def arg_contents_def arg_cnt_def)
  ultimately show ?thesis using h by (auto simp: arg_holds_def length_arg_contents) (auto simp: arg_contents_def arg_cnt_def)
qed

lemma arg_reset_holds:
  assumes "arg_holds m e s vs"
  shows "\<exists>s'. pu_reset m n s = Some (OB_SUCCESS, s') \<and> arg_holds m e s' [] \<and> pu_length s' = max n (pu_length s)"
proof -
  obtain s' where "pu_reset m n s = Some (OB_SUCCESS, s')" "pu_inv e s'" "pu_length s' = max n (pu_length s)" "pu_saved_size s' = 0"
    using pu_reset_ok [of e s m n] assms by (auto simp: arg_holds_def)
  moreover from this have "pu_rows s' (replicate (arg_cnt e) [])" by (intro pu_rows_empty)
  ultimately show ?thesis using assms by (auto simp: arg_holds_def map_replicate_const)
qed

interpretation arg_buffer: row_buffer "arg_holds m e" pu_length "\<lambda>b. args_readable e (fst b) (snd b)" "arg_contents e"
  "\<lambda>b. pu_save_batch m (fst b) (snd b)" "pu_reset m"
  for m e
proof (unfold_locales, goal_cases)
  case (1 s vs b)
  then show ?case by (rule arg_save_holds)
next
  case (2 s vs b)
  then show ?case
    by (auto simp: pu_save_batch_def arg_holds_def pu_inv_def length_arg_contents split: option.splits)
next
  case (3 s vs n)
  then show ?case using arg_reset_holds by blast
qed

section \<open>Properties\<close>

lemma for_ret_keeps:
  assumes "\<And>x s ret s'. f x s = Some (ret, s') \<Longrightarrow> g s' = g s"
  shows "for_ret f xs s = Some (ret, s') \<Longrightarrow> g s' = g s"
  by (induction xs arbitrary: s) (auto dest: assms split: option.splits if_splits)

lemma col_save_keeps_output_idx:
  assumes "col_save_vector m brs fr s = Some (ret, s')"
  shows "cs_output_idx s' = cs_output_idx s"
proof -
  have col: "save_vector_col m brs fr i s = Some (ret, s') \<Longrightarrow> cs_output_idx s' = cs_output_idx s" for i s ret s'
    by (auto simp: save_vector_col_def bind_eq_Some_conv)
  show ?thesis using assms for_ret_keeps [of "save_vector_col m brs fr" cs_output_idx, OF col]
    by (auto simp: col_save_vector_def bind_eq_Some_conv split: if_splits)
qed

lemma col_reset_output_idx: "col_holds m es s [] \<Longrightarrow> cs_output_idx s = 0"
  by (simp add: col_holds_def col_inv_def)

lemma col_load_holds:
  assumes h: "col_holds m es s vs" and idx: "cs_output_idx s = 0" and k: "k \<le> length vs" and dist: "distinct (map expr_id es)"
    and fr: "\<forall>e \<in> set es. frame_ok e (fr (expr_id e)) k" and fits: "\<forall>r \<in> set vs. \<forall>i < length es. fits (es ! i) (r ! i)"
  shows "\<exists>fr' s'. col_load_vector k (fr, s) = Some (OB_SUCCESS, fr', s') \<and>
    (\<forall>i < length es. \<forall>j < k. cell_holds (cells (fr' (expr_id (es ! i))) ! j) (vs ! j ! i))"
proof -
  have "\<exists>fr'. col_load_vector k (fr, s) = Some (OB_SUCCESS, fr', s \<lparr>cs_output_idx := cs_output_idx s + k\<rparr>) \<and>
      (\<forall>i < length es. let x = fr' (expr_id (es ! i)) in \<forall>j < k. cell_holds (cells x ! j) (map (\<lambda>r. r ! i) vs ! (cs_output_idx s + j)))"
    using col_load_vector_ok [of es s "\<lambda>i. map (\<lambda>r. r ! i) vs" k fr] h k fr fits dist idx
    unfolding col_holds_def by (auto simp: Let_def)
  then show ?thesis using idx k by (auto simp: Let_def)
qed

text \<open>Concrete stores for examples: one column, one UDF, a batch of two rows.\<close>

definition ex_rows_in :: "batch_rows \<times> frame" where
  "ex_rows_in = (fst ex_batch, apply_writes (snd ex_batch) ex_frame)"

lemma ex_col_good: "col_good [ex_col] ex_rows_in" "col_contents [ex_col] ex_rows_in = [[le_bytes 5], [le_bytes 7]]"
  unfolding col_good_def col_contents_def ex_rows_in_def fst_conv snd_conv ex_active
  by (simp_all add: ex_col_def ex_col_frame) (simp_all add: rows_readable_def cell_at_def ex_vector_def)

lemma ex_arg_good: "args_readable ex_udf (fst ex_rows_in) (cast_all 2 (snd ex_rows_in))"
  "arg_contents ex_udf (fst ex_rows_in, cast_all 2 (snd ex_rows_in)) = [[VInt 5], [VInt 7]]"
  unfolding args_readable_def arg_contents_def ex_rows_in_def fst_conv snd_conv ex_active
  by (simp_all add: ex_udf_def ex_col_def cast_ids_def ex_col_frame)
    (simp_all add: ex_vector_def arg_readable_def arg_value_def arg_cell_def arg_kind_def is_const_expr_def)

lemma ex_col_store: "\<exists>s. col_init ex_mem [ex_col] 2 3 col_store_new = Some (OB_SUCCESS, s) \<and> col_holds ex_mem [ex_col] s [] \<and> cs_length s = 3"
  using col_init_ok [of ex_mem "[ex_col]" 3 2] by (auto simp: ex_mem_ok col_holds_def)

lemma ex_arg_store: "\<exists>s. pu_init ex_mem True (Some ex_udf) 3 pu_store_new = Some (OB_SUCCESS, s) \<and> arg_holds ex_mem ex_udf s [] \<and> pu_length s = 3"
proof -
  have e: "udf_expr_ok ex_udf" by (simp add: udf_expr_ok_def ex_udf_def ex_col_def supported_def arg_kind_def)
  then obtain s where s: "pu_init ex_mem True (Some ex_udf) 3 pu_store_new = Some (OB_SUCCESS, s)" "pu_inv ex_udf s"
    "pu_length s = 3" "pu_saved_size s = 0"
    using pu_init_ok [of ex_udf 3 ex_mem] by (auto simp: ex_mem_ok)
  then have "pu_rows s (replicate (arg_cnt ex_udf) [])" by (intro pu_rows_empty)
  with s e show ?thesis by (auto simp: arg_holds_def ex_mem_ok map_replicate_const)
qed

text \<open>C18. What is saved in the column store comes back: after a reset to a sufficient length and any sequence of batches, loading
  a window writes the payloads of the first rows saved, in their order, into the vectors of the columns.\<close>

theorem column_store_roundtrip:
  assumes "col_holds m es s vs" and "\<forall>b \<in> set bs. col_good es b" and "int (length (concat (map (col_contents es) bs))) \<le> n"
    and "k \<le> length (concat (map (col_contents es) bs))" and "distinct (map expr_id es)"
    and "\<forall>e \<in> set es. frame_ok e (fr (expr_id e)) k"
    and "\<forall>r \<in> set (concat (map (col_contents es) bs)). \<forall>i < length es. fits (es ! i) (r ! i)"
  shows "\<exists>s1 s2 fr' s3. col_reset m n s = Some (OB_SUCCESS, s1) \<and>
    for_ret (\<lambda>b. col_save_vector m (fst b) (snd b)) bs s1 = Some (OB_SUCCESS, s2) \<and>
    col_load_vector k (fr, s2) = Some (OB_SUCCESS, fr', s3) \<and>
    (\<forall>i < length es. \<forall>j < k. cell_holds (cells (fr' (expr_id (es ! i))) ! j) (concat (map (col_contents es) bs) ! j ! i))"
proof -
  have n: "0 \<le> n" using assms(3) by linarith
  obtain s1 where s1: "col_reset m n s = Some (OB_SUCCESS, s1)" "col_holds m es s1 []" "cs_length s1 = max n (cs_length s)"
    using col_buffer.reset_empty [OF assms(1) n] by blast
  have "fitting (\<lambda>b. length (col_contents es b)) (cs_length s1) (length ([] :: byte list list list)) bs = bs"
    using assms(3) s1(3) by (intro col_buffer.fitting_all) auto
  then obtain s2 where s2: "for_ret (\<lambda>b. col_save_vector m (fst b) (snd b)) bs s1 = Some (OB_SUCCESS, s2)"
    "col_holds m es s2 (concat (map (col_contents es) bs))"
    using col_buffer.save_sequence [OF s1(2) assms(2)] by auto
  have "cs_output_idx s2 = cs_output_idx s1"
    by (rule for_ret_keeps [OF _ s2(1)]) (rule col_save_keeps_output_idx)
  then have "cs_output_idx s2 = 0" using col_reset_output_idx [OF s1(2)] by simp
  from col_load_holds [OF s2(2) this assms(4-7)] s1(1) s2(1) show ?thesis by blast
qed

theorem column_store_roundtrip_witness:
  "\<exists>s s1 s2 fr' s3. col_init ex_mem [ex_col] 2 3 col_store_new = Some (OB_SUCCESS, s) \<and> col_reset ex_mem 4 s = Some (OB_SUCCESS, s1) \<and>
     for_ret (\<lambda>b. col_save_vector ex_mem (fst b) (snd b)) [ex_rows_in, ex_rows_in] s1 = Some (OB_SUCCESS, s2) \<and>
     col_load_vector 2 (ex_frame, s2) = Some (OB_SUCCESS, fr', s3) \<and> cell_holds (cells (fr' 0) ! 1) (le_bytes 7)"
proof -
  obtain s where s: "col_init ex_mem [ex_col] 2 3 col_store_new = Some (OB_SUCCESS, s)" "col_holds ex_mem [ex_col] s []"
    using ex_col_store by blast
  have b: "\<forall>b \<in> set [ex_rows_in, ex_rows_in]. col_good [ex_col] b" by (simp add: ex_col_good)
  have k: "int (length (concat (map (col_contents [ex_col]) [ex_rows_in, ex_rows_in]))) \<le> 4"
    "2 \<le> length (concat (map (col_contents [ex_col]) [ex_rows_in, ex_rows_in]))" "distinct (map expr_id [ex_col])"
    by (simp_all add: ex_col_good)
  have f: "\<forall>e \<in> set [ex_col]. frame_ok e (ex_frame (expr_id e)) 2"
    by (simp add: frame_ok_def ex_col_def ex_frame_def ex_vector_def less_Suc_eq numeral_2_eq_2)
  have v: "\<forall>r \<in> set (concat (map (col_contents [ex_col]) [ex_rows_in, ex_rows_in])). \<forall>i < length [ex_col]. fits ([ex_col] ! i) (r ! i)"
    by (simp add: ex_col_good) (simp add: fits_def ex_col_def is_fixed_length_data_def)
  obtain s1 s2 fr' s3 where r: "col_reset ex_mem 4 s = Some (OB_SUCCESS, s1)"
    "for_ret (\<lambda>b. col_save_vector ex_mem (fst b) (snd b)) [ex_rows_in, ex_rows_in] s1 = Some (OB_SUCCESS, s2)"
    "col_load_vector 2 (ex_frame, s2) = Some (OB_SUCCESS, fr', s3)"
    "\<forall>i < length [ex_col]. \<forall>j < 2. cell_holds (cells (fr' (expr_id ([ex_col] ! i))) ! j)
       (concat (map (col_contents [ex_col]) [ex_rows_in, ex_rows_in]) ! j ! i)"
    using column_store_roundtrip [OF s(2) b k f v] by blast
  have "cell_holds (cells (fr' (expr_id ex_col)) ! 1) (le_bytes 7)"
    using r(4) [rule_format, of 0 1] by (simp add: ex_col_good)
  then have "cell_holds (cells (fr' 0) ! 1) (le_bytes 7)" by (simp add: ex_col_def)
  with s(1) r(1-3) show ?thesis by blast
qed

text \<open>C19. Both stores refuse a batch that does not fit and keep what they hold: of a sequence of batches exactly those before
  the first one that does not fit are stored, and the call that fails reports \<open>OB_ERR_UNEXPECTED\<close>.\<close>

theorem stores_refuse_overflow:
  assumes "col_holds m es s vs" and "\<forall>b \<in> set bs. col_good es b"
    and "arg_holds m e t ws" and "\<forall>b \<in> set bs. args_readable e (fst b) (snd b)"
  defines "fit \<equiv> fitting (\<lambda>b. length (col_contents es b)) (cs_length s) (length vs) bs"
    and "arg_fit \<equiv> fitting (\<lambda>b. length (arg_contents e b)) (pu_length t) (length ws) bs"
  shows "(\<exists>s'. for_ret (\<lambda>b. col_save_vector m (fst b) (snd b)) bs s =
              Some (if fit = bs then OB_SUCCESS else OB_ERR_UNEXPECTED, s') \<and>
            col_holds m es s' (vs @ concat (map (col_contents es) fit))) \<and>
         (\<exists>t'. for_ret (\<lambda>b. pu_save_batch m (fst b) (snd b)) bs t =
              Some (if arg_fit = bs then OB_SUCCESS else OB_ERR_UNEXPECTED, t') \<and>
            arg_holds m e t' (ws @ concat (map (arg_contents e) arg_fit)))"
  using col_buffer.save_sequence [OF assms(1,2)] arg_buffer.save_sequence [OF assms(3,4)] unfolding fit_def arg_fit_def by blast

text \<open>The argument store sees the frame after the arguments have been cast to the uniform format.\<close>

definition ex_rows_cast :: "batch_rows \<times> frame" where
  "ex_rows_cast = (fst ex_rows_in, cast_all 2 (snd ex_rows_in))"

lemma ex_cast_good: "col_good [ex_col] ex_rows_cast" "col_contents [ex_col] ex_rows_cast = [[le_bytes 5], [le_bytes 7]]"
  "args_readable ex_udf (fst ex_rows_cast) (snd ex_rows_cast)" "arg_contents ex_udf ex_rows_cast = [[VInt 5], [VInt 7]]"
  using ex_arg_good unfolding col_good_def col_contents_def ex_rows_cast_def ex_rows_in_def fst_conv snd_conv ex_active
  by (simp_all add: ex_col_def cast_ids_def ex_col_frame) (simp_all add: rows_readable_def cell_at_def ex_vector_def)

theorem stores_refuse_overflow_witness:
  "\<exists>s t s' t'. col_init ex_mem [ex_col] 2 3 col_store_new = Some (OB_SUCCESS, s) \<and>
     pu_init ex_mem True (Some ex_udf) 3 pu_store_new = Some (OB_SUCCESS, t) \<and>
     for_ret (\<lambda>b. col_save_vector ex_mem (fst b) (snd b)) [ex_rows_cast, ex_rows_cast] s = Some (OB_ERR_UNEXPECTED, s') \<and>
     col_holds ex_mem [ex_col] s' [[le_bytes 5], [le_bytes 7]] \<and>
     for_ret (\<lambda>b. pu_save_batch ex_mem (fst b) (snd b)) [ex_rows_cast, ex_rows_cast] t = Some (OB_ERR_UNEXPECTED, t') \<and>
     arg_holds ex_mem ex_udf t' [[VInt 5], [VInt 7]]"
proof -
  obtain s where s: "col_init ex_mem [ex_col] 2 3 col_store_new = Some (OB_SUCCESS, s)" "col_holds ex_mem [ex_col] s []" "cs_length s = 3"
    using ex_col_store by blast
  obtain t where t: "pu_init ex_mem True (Some ex_udf) 3 pu_store_new = Some (OB_SUCCESS, t)" "arg_holds ex_mem ex_udf t []" "pu_length t = 3"
    using ex_arg_store by blast
  have "\<forall>b \<in> set [ex_rows_cast, ex_rows_cast]. col_good [ex_col] b"
    "\<forall>b \<in> set [ex_rows_cast, ex_rows_cast]. args_readable ex_udf (fst b) (snd b)" by (simp_all add: ex_cast_good)
  from stores_refuse_overflow [OF s(2) this(1) t(2) this(2)] s t show ?thesis
    by (simp add: ex_cast_good del: for_ret.simps)
qed

lemma sint_ucast_exact: "sint (ucast (v :: 64 word) :: 32 word) = sint v \<longleftrightarrow> in_int32 (sint v)"
proof -
  have "sint (ucast v :: 32 word) = signed_take_bit 31 (sint v)"
    by (simp add: sint_uint signed_take_bit_take_bit unsigned_ucast_eq signed_take_bit_signed_take_bit take_bit_signed_take_bit)
  moreover have "signed_take_bit 31 (sint v) = sint v \<longleftrightarrow> in_int32 (sint v)"
    by (simp add: signed_take_bit_int_eq_self_iff in_int32_def)
  ultimately show ?thesis by simp
qed

text \<open>An argument of type \<open>INTEGER\<close> reaches the interpreter as it is exactly when it fits into 32 bits; other values are
  silently cut to their lowest 32 bits.\<close>

lemma integer_argument_exact:
  assumes "j < length src" and "get_int (src ! j) = Some v" and "i < length buf"
  shows "\<exists>buf'. save_int_row False src j (i, buf) = Some (OB_SUCCESS, i + 1, buf') \<and> buf' ! i = ucast v \<and>
    (sint (buf' ! i) = sint v \<longleftrightarrow> in_int32 (sint v))"
  using assms by (simp add: save_int_row_def put_next_def sint_ucast_exact)

end
