(* ===== verification/Python_UDF_Op_Laws.thy ===== *)
theory Python_UDF_Op_Laws
  imports Python_UDF_Row_Buffer
begin

text \<open>
  More about the cells and the operator: evaluation in slices, the control of the slice size as a transition system, and
  what happens on rescan, on null values and when the child fails.
\<close>

section \<open>The control of the slice size\<close>

text \<open>\<open>tuned D i k j\<close>: \<open>k\<close> evaluations, of whatever sizes and speeds, lead from the information \<open>i\<close> to \<open>j\<close>.\<close>

inductive tuned :: "'d dbl_ops \<Rightarrow> 'd udf_info \<Rightarrow> nat \<Rightarrow> 'd udf_info \<Rightarrow> bool" for D i where
  tuned_start: "tuned D i 0 i"
| tuned_step: "tuned D i k j \<Longrightarrow> modify_info D tps n j = Some j' \<Longrightarrow> tuned D i (Suc k) j'"

inductive_cases tuned_SucE: "tuned D i (Suc k) j"

text \<open>The size moves in steps of \<open>delta\<close>.\<close>

lemma modify_info_steps:
  assumes "modify_info D tps n info = Some info'"
  shows "predict_size info' = predict_size info \<or> predict_size info' = predict_size info + delta info"
  using assms by (auto simp: modify_info_def grow_def Let_def split: if_splits)

lemma tuned_sizes:
  assumes "tuned D i k j" "0 \<le> delta i"
  shows "udf_meta j = udf_meta i \<and> delta j = delta i \<and> round_limit j = round_limit i \<and> round_cnt i \<le> round_cnt j \<and>
    round_cnt j \<le> round_cnt i + int k \<and> (\<exists>c \<le> k. predict_size j = predict_size i + delta i * int c)"
  using assms
proof (induction rule: tuned.induct)
  case tuned_start
  show ?case by (intro conjI exI [of _ 0]) simp_all
next
  case (tuned_step k j tps n j')
  then obtain c where IH: "udf_meta j = udf_meta i" "delta j = delta i" "round_limit j = round_limit i" "round_cnt i \<le> round_cnt j"
    "round_cnt j \<le> round_cnt i + int k" "c \<le> k" "predict_size j = predict_size i + delta i * int c" by blast
  note f = modify_info_frame [OF tuned_step.hyps(2)]
  have d: "0 \<le> delta j" using IH(2) tuned_step.prems by simp
  have "\<exists>c \<le> Suc k. predict_size j' = predict_size i + delta i * int c"
    using modify_info_steps [OF tuned_step.hyps(2)] IH(2,6,7)
    by (auto intro: exI [of _ c] exI [of _ "Suc c"] simp: algebra_simps)
  then show ?case using f [OF d] IH by auto
qed

text \<open>After the round limit nothing changes.\<close>

lemma modify_info_frozen:
  "round_limit i < round_cnt i \<Longrightarrow> \<not> d_eq D (tps_s i) (d_of_int D 0) \<Longrightarrow> modify_info D tps n i = Some i"
  by (simp add: modify_info_def)

lemma tuned_frozen:
  assumes "tuned D i k j" "round_limit i < round_cnt i" "\<not> d_eq D (tps_s i) (d_of_int D 0)"
  shows "j = i"
  using assms(1)
proof (induction rule: tuned.induct)
  case (tuned_step k j tps n j')
  then show ?case using modify_info_frozen [OF assms(2,3)] by simp
qed simp

section \<open>Rescan\<close>

lemma ctl_free_keeps:
  fixes k :: "'r controller"
  shows "\<exists>k'. ctl_free k = Some (OB_SUCCESS, k') \<and> cs_exprs (other_store k') = cs_exprs (other_store k) \<and> ctl_capacity k' = ctl_capacity k"
proof -
  have "\<exists>cs'. for_cells (\<lambda>c s. let (r, c') = cell_free c in Some (if r \<noteq> OB_SUCCESS then OB_NOT_SUPPORTED else OB_SUCCESS, c', s))
      cs () = Some (OB_SUCCESS, cs', ())" for cs :: "'r udf_cell list"
    by (induction cs) (auto simp: cell_free_def pu_free_def)
  from this [of "cells_list k"] show ?thesis by (auto simp: ctl_free_def col_free_def col_tmp_reset_def)
qed

lemma col_init_again:
  assumes "fa_inv (cs_exprs s)" "adata (cs_exprs s) \<noteq> None" "acapacity (cs_exprs s) \<le> acount (cs_exprs s)"
    and "es \<noteq> []" and "\<And>n. mem_ok m n"
  shows "\<exists>s'. col_init m es b len s = Some (OB_INIT_FAIL, s')"
proof -
  obtain e es' where es: "es = e # es'" using assms(4) by (cases es) auto
  let ?s1 = "s \<lparr>cs_exprs := snd (fa_init (mem_ok m) 8 (int (length es)) (cs_exprs s)),
                cs_datums := snd (fa_init (mem_ok m) 8 (int (length es)) (cs_datums s))\<rparr>"
  have "snd (fa_init (mem_ok m) 8 (int (length es)) (cs_exprs s)) = cs_exprs s"
    using assms(2) by (auto simp: fa_init_def)
  then have "fa_push_back (mem_ok m) 8 e (cs_exprs ?s1) = Some (OB_SIZE_OVERFLOW, cs_exprs s)"
    using fa_push_back_ready [OF assms(1,2)] assms(3) by simp
  then have "\<exists>s'. col_init_expr m len e ?s1 = Some (OB_INIT_FAIL, s')"
    using assms(5) by (simp add: col_init_expr_def alloc_datums_def)
  then obtain s' where "col_init_expr m len e ?s1 = Some (OB_INIT_FAIL, s')" by blast
  then have "for_ret (col_init_expr m len) es ?s1 = Some (OB_INIT_FAIL, s')" by (simp add: es)
  then show ?thesis by (simp add: col_init_def)
qed

lemma init_cells_other:
  assumes "for_ret (init_cell m raw infs B cap) es k = Some (ret, k')"
  shows "other_store k' = other_store k" "ctl_capacity k' = ctl_capacity k"
proof -
  have step: "init_cell m raw infs B cap e k = Some (ret, k') \<Longrightarrow> other_store k' = other_store k \<and> ctl_capacity k' = ctl_capacity k" for e k ret k'
    by (auto simp: init_cell_def bind_eq_Some_conv split: if_splits)
  show "other_store k' = other_store k" "ctl_capacity k' = ctl_capacity k"
    using for_ret_keeps [OF _ assms, of other_store] for_ret_keeps [OF _ assms, of ctl_capacity] step by blast+
qed

lemma rescan_fails:
  assumes es: "\<forall>e \<in> set (udf_exprs sp). udf_expr_ok e \<and> 0 < predict_size (infos (op_rt st) (expr_id e)) \<and> 0 \<le> delta (infos (op_rt st) (expr_id e))"
    and mem: "\<And>n. mem_ok m n" and ins: "input_exprs sp \<noteq> []" "length (input_exprs sp) \<le> 4294967295" and new: "op_ctl st = controller_new"
  shows "\<exists>st1 st2. inner_open m raw sp tenant st = Some (OB_SUCCESS, st1) \<and> inner_rescan m raw sp tenant st1 = Some (OB_ERR_UNEXPECTED, st2)"
proof -
  let ?ini = "\<lambda>k. ctl_init m raw (infos (op_rt st)) (int (max_batch_size sp)) (udf_exprs sp) (input_exprs sp) tenant k"
  let ?cells = "\<lambda>k. for_ret (init_cell m raw (infos (op_rt st)) (int (max_batch_size sp)) 8192) (udf_exprs sp) k"
  obtain k1 where k1: "?cells controller_new = Some (OB_SUCCESS, k1)"
    using init_cells_ok [OF es _ mem, of 8192 raw "int (max_batch_size sp)" controller_new] by auto
  then have o1: "other_store k1 = col_store_new" "ctl_capacity k1 = 8192"
    using init_cells_other [OF k1] by (simp_all add: controller_new_def DEFAULT_PU_LENGTH_def)
  obtain s where s: "col_init m (input_exprs sp) (int (max_batch_size sp)) 8192 col_store_new = Some (OB_SUCCESS, s)"
    "col_inv (input_exprs sp) s" "adata (cs_exprs s) \<noteq> None" "acapacity (cs_exprs s) = length (input_exprs sp)"
    using col_init_ok [of m "input_exprs sp" 8192 "int (max_batch_size sp)"] mem ins by auto
  have "\<exists>k2. ?ini controller_new = Some (OB_SUCCESS, k2) \<and> other_store k2 = s \<and> ctl_capacity k2 = 8192"
    using k1 o1 s(1) by (simp add: ctl_init_def controller_new_def DEFAULT_PU_LENGTH_def)
  then obtain k2 where k2: "?ini controller_new = Some (OB_SUCCESS, k2)" "other_store k2 = s" "ctl_capacity k2 = 8192" by blast
  obtain k3 where k3: "ctl_free k2 = Some (OB_SUCCESS, k3)" "cs_exprs (other_store k3) = cs_exprs s" "ctl_capacity k3 = 8192"
    using ctl_free_keeps [of k2] k2(2,3) by auto
  obtain k4 where k4: "?cells k3 = Some (OB_SUCCESS, k4)"
    using init_cells_ok [OF es _ mem, of 8192 raw "int (max_batch_size sp)" k3] by auto
  have o4: "cs_exprs (other_store k4) = cs_exprs s" "ctl_capacity k4 = 8192" using init_cells_other [OF k4] k3(2,3) by simp_all
  have "acount (cs_exprs s) = length (input_exprs sp)" using s(2) by (rule col_inv_count)
  then obtain s' where "col_init m (input_exprs sp) (int (max_batch_size sp)) 8192 (other_store k4) = Some (OB_INIT_FAIL, s')"
    using col_init_again [of "other_store k4" "input_exprs sp" m "int (max_batch_size sp)" 8192] s o4 ins mem by (auto simp: col_inv_def)
  then have "\<exists>k5. ?ini k3 = Some (OB_INIT_FAIL, k5)" using k3(3) k4 o4 by (simp add: ctl_init_def)
  then show ?thesis using k2(1) k3(1) new by (auto simp: inner_open_def inner_rescan_def)
qed

section \<open>Failure of the child\<close>

text \<open>
  The operator on a child that fails after its batches is compared with the operator on the child that ends there: \<open>tailed\<close>
  appends further answers of the child to a state. As long as the first run does not see the end of its child, both runs do
  the same.
\<close>

definition tailed :: "child_answer list \<Rightarrow> ('w, 'r, 'd) op_state \<Rightarrow> ('w, 'r, 'd) op_state" where
  "tailed T st = st \<lparr>op_child := op_child st @ T\<rparr>"

abbreviation tailed_res :: "child_answer list \<Rightarrow> (ob_ret \<times> ('w, 'r, 'd) op_state) option \<Rightarrow> (ob_ret \<times> ('w, 'r, 'd) op_state) option" where
  "tailed_res T \<equiv> map_option (map_prod id (tailed T))"

lemma tailed_sel [simp]:
  "op_ctl (tailed T st) = op_ctl st" "op_brs (tailed T st) = op_brs st" "op_frame (tailed T st) = op_frame st"
  "op_rt (tailed T st) = op_rt st" "gil_held (tailed T st) = gil_held st" "batch_reach_end (tailed T st) = batch_reach_end st"
  "batch_idx (tailed T st) = batch_idx st" "op_child (tailed T st) = op_child st @ T"
  by (simp_all add: tailed_def)

lemma tailed_upd [simp]:
  "tailed T st \<lparr>op_brs := b\<rparr> = tailed T (st \<lparr>op_brs := b\<rparr>)" "tailed T st \<lparr>op_frame := fr\<rparr> = tailed T (st \<lparr>op_frame := fr\<rparr>)"
  "tailed T st \<lparr>op_ctl := k\<rparr> = tailed T (st \<lparr>op_ctl := k\<rparr>)" "tailed T st \<lparr>op_rt := rt\<rparr> = tailed T (st \<lparr>op_rt := rt\<rparr>)"
  "tailed T st \<lparr>batch_reach_end := x\<rparr> = tailed T (st \<lparr>batch_reach_end := x\<rparr>)"
  by (simp_all add: tailed_def)

lemma begin_round_tailed: "begin_round m sp (tailed T st) = map_option (tailed T) (begin_round m sp st)"
  by (auto simp: begin_round_def Let_def split: prod.splits bind_splits)

lemma process_round_tailed: "process_round m pe D (r, tailed T st) = tailed_res T (process_round m pe D (r, st))"
  by (auto simp: process_round_def Let_def split: prod.splits bind_splits)

lemma finish_batch_tailed: "finish_batch env sp (tailed T st) = tailed_res T (finish_batch env sp st)"
  by (auto simp: finish_batch_def Let_def split: prod.splits bind_splits)

lemma fill_step_tailed:
  assumes "op_child st = ChildBatch brs ws # cs"
  shows "fill_step env m sp (tailed T st) = tailed_res T (fill_step env m sp st)"
proof -
  let ?st = "st \<lparr>op_child := cs, op_frame := apply_writes ws (op_frame st)\<rparr>"
  have "child_get_next sp (tailed T st) (op_child st @ T) = (OB_SUCCESS, brs, tailed T ?st)"
    "child_get_next sp st (op_child st) = (OB_SUCCESS, brs, ?st)"
    using assms by (simp_all add: tailed_def)
  then show ?thesis by (auto simp: fill_step_def Let_def split: prod.splits bind_splits)
qed

lemma fill_step_brs:
  assumes "op_child st = ChildBatch brs ws # cs" and "fill_step env m sp st = Some (ret, st1)"
  shows "op_child st1 = cs \<and> bend (op_brs st1) = bend brs"
  using assms by (auto simp: fill_step_def Let_def brs_copy_def bind_eq_Some_conv)

text \<open>The loop that fills the buffers: it stops before the end of the batches, or it sees the failure.\<close>

lemma fill_loop_tailed:
  assumes "op_child st = child_of bs" and "\<forall>(brs, ws) \<in> set bs. \<not> bend brs" and "\<not> bend (op_brs st)" and "ret \<noteq> OB_SUCCESS"
    and "fill_loop env m sp st = Some (OB_SUCCESS, st')"
  shows "if bend (op_brs st') then \<exists>s. fill_loop env m sp (tailed (ChildFail ret # cs) st) = Some (OB_ERR_UNEXPECTED, s)
    else fill_loop env m sp (tailed (ChildFail ret # cs) st) = Some (OB_SUCCESS, tailed (ChildFail ret # cs) st')"
  using assms(1-3,5)
proof (induction bs arbitrary: st)
  case Nil
  let ?t = "tailed (ChildFail ret # cs) st"
  show ?case
  proof (cases "is_full (op_ctl st)")
    case True
    then show ?thesis using Nil.prems by (simp add: fill_loop.simps)
  next
    case False
    have "\<exists>s. fill_step env m sp ?t = Some (OB_ERR_UNEXPECTED, s)" using Nil.prems(1) assms(4) by (simp add: fill_step_def)
    then have "\<exists>s. fill_loop env m sp ?t = Some (OB_ERR_UNEXPECTED, s)"
      using False Nil.prems(3) by (auto simp: fill_loop.simps [of env m sp ?t])
    moreover have "bend (op_brs st1)" if "fill_step env m sp st = Some (OB_SUCCESS, st1)" for st1
      using that Nil.prems(1) by (auto simp: fill_step_def Let_def brs_copy_def brs_end_def bind_eq_Some_conv split: if_splits)
    then have "bend (op_brs st')"
      using Nil.prems(3,4) False
      by (auto simp: fill_loop.simps [of env m sp st] bind_eq_Some_conv split: if_splits)
        (metis (no_types, lifting) fill_loop.simps option.sel prod.sel(2))
    ultimately show ?thesis by simp
  qed
next
  case (Cons b bs)
  obtain brs ws where b: "b = (brs, ws)" by (cases b)
  have c: "op_child st = ChildBatch brs ws # child_of bs" using Cons.prems(1) b by simp
  show ?case
  proof (cases "is_full (op_ctl st)")
    case True
    then show ?thesis using Cons.prems by (simp add: fill_loop.simps)
  next
    case False
    obtain st1 where st1: "fill_step env m sp st = Some (OB_SUCCESS, st1)" "fill_loop env m sp st1 = Some (OB_SUCCESS, st')"
      using Cons.prems(3,4) False by (auto simp: fill_loop.simps [of env m sp st] bind_eq_Some_conv split: if_splits)
    have "op_child st1 = child_of bs" "\<not> bend (op_brs st1)" using fill_step_brs [OF c st1(1)] Cons.prems(2) b by simp_all
    moreover have "fill_loop env m sp (tailed (ChildFail ret # cs) st) = fill_loop env m sp (tailed (ChildFail ret # cs) st1)"
      using False Cons.prems(3) st1(1) fill_step_tailed [OF c, of env m sp "ChildFail ret # cs"]
      by (simp add: fill_loop.simps [of env m sp "tailed (ChildFail ret # cs) st"])
    ultimately show ?thesis using Cons.IH [of st1] Cons.prems(2) st1(2) by simp
  qed
qed

text \<open>A round, and the call of the operator. The invariant is that of the run that ends.\<close>

lemma next_round_tailed:
  assumes inv: "op_inv env pe f sp mx K fr0 st P bs" and nend: "\<not> bend (op_brs st)" and ret: "ret \<noteq> OB_SUCCESS"
    and run: "next_round env m pe D sp st = Some (OB_SUCCESS, st')"
  shows "if bend (op_brs st') then \<exists>s. next_round env m pe D sp (tailed (ChildFail ret # cs) st) = Some (OB_ERR_UNEXPECTED, s)
    else next_round env m pe D sp (tailed (ChildFail ret # cs) st) = Some (OB_SUCCESS, tailed (ChildFail ret # cs) st')"
proof (cases "can_output (op_ctl st)")
  case True
  then show ?thesis using run nend by (auto simp: next_round_def with_batch_control_def)
next
  case False
  let ?T = "ChildFail ret # cs"
  obtain st1 r st2 where st1: "begin_round m sp st = Some st1" "fill_loop env m sp st1 = Some (r, st2)"
      "process_round m pe D (r, st2) = Some (OB_SUCCESS, st')"
    using run False by (auto simp: next_round_def with_batch_control_def bind_eq_Some_conv)
  then have r: "r = OB_SUCCESS" and brs: "op_brs st' = op_brs st2"
    by (auto simp: process_round_def bind_eq_Some_conv split: if_splits)
  have "op_child st1 = op_child st" "op_brs st1 = op_brs st"
    using st1(1) by (auto simp: begin_round_def Let_def bind_eq_Some_conv split: prod.splits if_splits)
  then have child: "op_child st1 = child_of bs" "\<not> bend (op_brs st1)" "\<forall>(brs, ws) \<in> set bs. \<not> bend brs"
    using inv nend by (auto simp: op_inv_def)
  have "next_round env m pe D sp (tailed ?T st) = fill_loop env m sp (tailed ?T st1) \<bind> process_round m pe D"
    using False st1(1) by (simp add: next_round_def with_batch_control_def begin_round_tailed)
  then show ?thesis
    using fill_loop_tailed [OF child(1,3,2) ret st1(2) [unfolded r], of cs] st1(3) brs r process_round_tailed [of m pe D r ?T st2]
    by (auto simp: process_round_def [of _ _ _ "(OB_ERR_UNEXPECTED, _)"] split: if_splits)
qed

lemma inner_tailed:
  assumes "op_inv env pe f sp mx K fr0 st P bs" and "\<not> bend (op_brs st)" and "ret \<noteq> OB_SUCCESS"
    and "next_round env m pe D sp st = Some (OB_SUCCESS, st1)"
  shows "(\<exists>s. inner_get_next_batch env m pe D sp n (tailed (ChildFail ret # cs) st) = Some (OB_ERR_UNEXPECTED, s)) \<or>
    \<not> bend (op_brs st1) \<and>
    inner_get_next_batch env m pe D sp n (tailed (ChildFail ret # cs) st) = tailed_res (ChildFail ret # cs) (inner_get_next_batch env m pe D sp n st)"
proof -
  have gil: "\<not> gil_held st" using assms(1) by (simp add: op_inv_def)
  show ?thesis
  proof (cases "bend (op_brs st1)")
    case True
    then obtain s where "next_round env m pe D sp (tailed (ChildFail ret # cs) st) = Some (OB_ERR_UNEXPECTED, s)"
      using next_round_tailed [OF assms, of cs] by auto
    then show ?thesis using gil by (simp add: inner_get_next_batch_def)
  next
    case False
    then have "next_round env m pe D sp (tailed (ChildFail ret # cs) st) = Some (OB_SUCCESS, tailed (ChildFail ret # cs) st1)"
      using next_round_tailed [OF assms, of cs] by simp
    then have "inner_get_next_batch env m pe D sp n (tailed (ChildFail ret # cs) st) =
        tailed_res (ChildFail ret # cs) (inner_get_next_batch env m pe D sp n st)"
      using assms(4) gil by (auto simp: inner_get_next_batch_def split: bind_splits prod.splits)
    with False show ?thesis by blast
  qed
qed

lemma get_next_batch_tailed:
  fixes D :: "'d dbl_ops" and cs :: "child_answer list"
  assumes mx: "mx = min mrc (max_batch_size sp)" and plan: "plan_ok env sp mx K fr0"
    and inv: "op_inv env pe f sp mx K fr0 st P bs" and mem: "\<And>n. mem_ok m n"
    and nend: "\<not> bend (op_brs st)" and sz: "bsize (op_brs st) \<le> mx" and ret: "ret \<noteq> OB_SUCCESS"
  defines "nxt \<equiv> get_next_batch env m pe D sp None mrc" and "T \<equiv> ChildFail ret # cs"
  shows "(\<exists>s. nxt (tailed T st) = Some (OB_ERR_UNEXPECTED, s)) \<or>
    (\<exists>st'. nxt (tailed T st) = Some (OB_SUCCESS, tailed T st') \<and> delivers env pe f sp mx K fr0 (P @ all_in sp fr0 bs) st')"
proof -
  define st0 where "st0 = st \<lparr>op_brs := reset_batchrows (op_brs st)\<rparr>"
  have st0: "op_inv env pe f sp mx K fr0 st0 P bs" "\<not> bend (op_brs st0)"
    using inv nend sz by (simp_all add: op_inv_def st0_def pending_brs reset_batchrows_def brs_reset_skip_def length_bv_reset)
  let ?inner = "inner_get_next_batch env m pe D sp mx"
  have step: "nxt s = batch_loop ?inner None (s \<lparr>op_brs := reset_batchrows (op_brs s)\<rparr>) \<bind>
      (\<lambda>(ret, st1). if ret \<noteq> OB_SUCCESS then Some (ret, st1) else finish_batch env sp st1)" if "\<not> batch_reach_end s" for s
    using plan_okD(11) [OF plan] that by (simp add: nxt_def get_next_batch_def mx)
  have reach: "\<not> batch_reach_end st" using inv by (simp add: op_inv_def)
  obtain st1 P1 bs1 where r: "next_round env m pe D sp st0 = Some (OB_SUCCESS, st1)"
      "P1 @ all_in sp fr0 bs1 = P @ all_in sp fr0 bs" "P1 = [] \<longrightarrow> bs1 = [] \<and> bend (op_brs st1)"
    using next_round_ok [OF plan st0(1) mem st0(2)] by blast
  from inner_tailed [OF st0 ret r(1), of mx cs, folded T_def] show ?thesis
  proof (elim disjE exE conjE)
    fix s assume "?inner (tailed T st0) = Some (OB_ERR_UNEXPECTED, s)"
    then have "batch_loop ?inner None (tailed T st0) = Some (OB_ERR_UNEXPECTED, s)"
      using st0(2) by (simp add: batch_loop.simps [of ?inner None "tailed T st0"])
    then show ?thesis using reach by (simp add: step st0_def)
  next
    assume nb: "\<not> bend (op_brs st1)" and eq: "?inner (tailed T st0) = tailed_res T (?inner st0)"
    then have ne: "P @ all_in sp fr0 bs \<noteq> []" using r(2,3) by (metis append_is_Nil_conv)
    then obtain st2 where st2: "?inner st0 = Some (OB_SUCCESS, st2)" "delivers env pe f sp mx K fr0 (P @ all_in sp fr0 bs) st2"
      using inner_get_next_batch_ok [OF plan st0(1) mem st0(2), of D] unfolding if_not_P [OF ne] by blast
    then have b: "\<not> bend (op_brs st2)" "0 < bsize (op_brs st2)" "accumulate_bit_cnt (skip (op_brs st2)) (bsize (op_brs st2)) = 0"
      unfolding delivers_def by blast+
    have "batch_loop ?inner None (tailed T st0) = Some (OB_SUCCESS, tailed T st2)" "batch_loop ?inner None st0 = Some (OB_SUCCESS, st2)"
      using st0(2) b st2(1) eq by (simp_all add: batch_loop.simps [of ?inner None "tailed T st0"] batch_loop.simps [of ?inner None st0])
    then have "nxt (tailed T st) = tailed_res T (nxt st)"
      using reach by (simp add: step finish_batch_tailed flip: st0_def)
    moreover obtain st' where "nxt st = Some (OB_SUCCESS, st')" "delivers env pe f sp mx K fr0 (P @ all_in sp fr0 bs) st'"
      using get_next_batch_ok [OF mx plan inv mem nend sz, of D] unfolding if_not_P [OF ne] nxt_def by blast
    ultimately show ?thesis by auto
  qed
qed

text \<open>All calls until the failure.\<close>

lemma drain_tailed:
  assumes mx: "mx = min mrc (max_batch_size sp)" and plan: "plan_ok env sp mx K fr0" and mem: "\<And>n. mem_ok m n" and ret: "ret \<noteq> OB_SUCCESS"
    and "op_inv env pe f sp mx K fr0 st P bs" "\<not> bend (op_brs st)" "bsize (op_brs st) \<le> mx" "R = P @ all_in sp fr0 bs"
  shows "\<exists>outs st' n. drain (get_next_batch env m pe D sp None mrc) (tailed (ChildFail ret # cs) st) = Some (OB_ERR_UNEXPECTED, outs, st') \<and>
    concat (map (batch_out sp) outs) = map (out_row pe f sp) (take n R)"
  using assms(5-8)
proof (induction "length R" arbitrary: R P bs st rule: less_induct)
  case less
  let ?nxt = "get_next_batch env m pe D sp None mrc" and ?T = "ChildFail ret # cs"
  from get_next_batch_tailed [OF mx plan less.prems(1) mem less.prems(2,3) ret, of D cs] show ?case
  proof (elim disjE exE conjE)
    fix s assume "?nxt (tailed ?T st) = Some (OB_ERR_UNEXPECTED, s)"
    then show ?thesis by (auto simp: drain.simps [of ?nxt "tailed ?T st"] intro!: exI [of _ 0])
  next
    fix st1 assume st1: "?nxt (tailed ?T st) = Some (OB_SUCCESS, tailed ?T st1)" "delivers env pe f sp mx K fr0 (P @ all_in sp fr0 bs) st1"
    then obtain Q P' bs' where d: "R = Q @ P' @ all_in sp fr0 bs'" "Q \<noteq> []" "op_inv env pe f sp mx K fr0 st1 P' bs'"
      "batch_out sp (op_frame st1, op_brs st1) = map (out_row pe f sp) Q" "\<not> bend (op_brs st1)" "bsize (op_brs st1) \<le> mx"
      using less.prems(4) unfolding delivers_def by blast
    have "length (P' @ all_in sp fr0 bs') < length R" using d(1,2) by simp
    from less.hyps [OF this d(3,5,6) refl] obtain outs st' n where
      o: "drain ?nxt (tailed ?T st1) = Some (OB_ERR_UNEXPECTED, outs, st')"
        "concat (map (batch_out sp) outs) = map (out_row pe f sp) (take n (P' @ all_in sp fr0 bs'))" by blast
    have "take (length Q + n) R = Q @ take n (P' @ all_in sp fr0 bs')" using d(1) by simp
    then show ?thesis using st1(1) d(4,5) o
      by (intro exI [of _ "(op_frame st1, op_brs st1) # outs"] exI [of _ st'] exI [of _ "length Q + n"])
        (simp add: drain.simps [of ?nxt "tailed ?T st"] del: batch_out.simps)
  qed
qed

section \<open>Properties\<close>

text \<open>C24. Whatever speeds are measured, the control of the slice size only ever raises the size, by steps of \<open>delta\<close> and at most one
  step per evaluation, and never lowers the round counter; after the round limit it changes nothing any more.\<close>

theorem slice_size_control:
  assumes "tuned D i k j" and "0 \<le> delta i"
  shows "delta j = delta i \<and> round_limit j = round_limit i \<and> round_cnt i \<le> round_cnt j \<and>
    (\<exists>c \<le> k. predict_size j = predict_size i + delta i * int c) \<and>
    (round_limit i < round_cnt i \<and> \<not> d_eq D (tps_s i) (d_of_int D 0) \<longrightarrow> j = i)"
  using tuned_sizes [OF assms] tuned_frozen [OF assms(1)] by blast

theorem slice_size_control_witness:
  "tuned ex_dbl ex_info 2 (ex_info \<lparr>predict_size := 768\<rparr>) \<and> (\<exists>c \<le> 2. (768 :: int) = 256 + 256 * int c)"
proof -
  have "tuned ex_dbl ex_info (Suc 0) (ex_info \<lparr>predict_size := 512\<rparr>)"
    by (rule tuned_step [OF tuned_start, where tps = "()" and n = 256]) (simp add: modify_info_def grow_def ex_dbl_def ex_info_def in_int32_def)
  then have t: "tuned ex_dbl ex_info (Suc (Suc 0)) (ex_info \<lparr>predict_size := 768\<rparr>)"
    by (rule tuned_step [where tps = "()" and n = 512]) (simp add: modify_info_def grow_def ex_dbl_def ex_info_def in_int32_def)
  from slice_size_control [OF t] t show ?thesis by (simp add: ex_info_def numeral_2_eq_2)
qed

text \<open>C8. Evaluation of a UDF returns, for every slice size, every clock and every rounding: the loop over the slices ends, the result
  array has exactly one value per buffered row, the value of the function on that row's arguments, in the order of the
  rows, and the slice size that it leaves has grown by at most \<open>delta\<close> per row.\<close>

theorem do_process_correct:
  assumes "cell_ok e (infos rt (expr_id e)) c" and "pu_rows (input_store c) vss"
    and "udf_rowwise pe (pyfun_handler (meta_name (udf_meta (infos rt (expr_id e))))) f" and "concat_ok pe"
    and "grows (pu_saved_size (input_store c)) (infos rt (expr_id e))" and "int (pu_saved_size (input_store c)) < 2147483648"
  shows "\<exists>c' rt'. do_process pe D (c, rt) = Some (OB_SUCCESS, c', rt') \<and>
    result_items pe c' = map f (val_rows vss 0 (pu_saved_size (input_store c))) \<and>
    result_size c' = int (pu_saved_size (input_store c)) \<and>
    predict_size (infos rt (expr_id e)) \<le> predict_size (infos rt' (expr_id e)) \<and>
    predict_size (infos rt' (expr_id e)) \<le>
      predict_size (infos rt (expr_id e)) + delta (infos rt (expr_id e)) * int (pu_saved_size (input_store c))"
  using do_process_ok [OF assms, of D] by (auto simp: step_frame_def same_info_def)

theorem do_process_correct_witness:
  "\<exists>t t' c' rt'. pu_init ex_mem True (Some ex_udf) 3 pu_store_new = Some (OB_SUCCESS, t) \<and>
     pu_save_batch ex_mem (fst ex_rows_cast) (snd ex_rows_cast) t = Some (OB_SUCCESS, t') \<and>
     do_process ex_py ex_dbl (ex_cell \<lparr>cell_expr := Some ex_udf, input_store := t', cell_desirable := 256\<rparr>, ex_rt) =
       Some (OB_SUCCESS, c', rt') \<and> result_items ex_py c' = [6, 8]"
proof -
  obtain t where t: "pu_init ex_mem True (Some ex_udf) 3 pu_store_new = Some (OB_SUCCESS, t)" "arg_holds ex_mem ex_udf t []" "pu_length t = 3"
    using ex_arg_store by blast
  then obtain t' where t': "pu_save_batch ex_mem (fst ex_rows_cast) (snd ex_rows_cast) t = Some (OB_SUCCESS, t')"
    "arg_holds ex_mem ex_udf t' [[VInt 5], [VInt 7]]"
    using arg_save_holds [of ex_mem ex_udf t "[]" ex_rows_cast] by (auto simp: ex_cast_good)
  let ?c = "ex_cell \<lparr>cell_expr := Some ex_udf, input_store := t', cell_desirable := 256\<rparr>"
  have n: "arg_cnt ex_udf = 1" "pu_saved_size t' = 2" using t'(2) by (simp_all add: arg_cnt_def ex_udf_def arg_holds_def)
  have ok: "cell_ok ex_udf (infos ex_rt (expr_id ex_udf)) ?c"
    using t'(2) by (simp add: cell_ok_def ex_rt_def ex_info_def arg_holds_def)
  have rows: "pu_rows (input_store ?c) [[VInt 5, VInt 7]]" using t'(2) n by (simp add: arg_holds_def)
  have gr: "grows (pu_saved_size (input_store ?c)) (infos ex_rt (expr_id ex_udf))" "int (pu_saved_size (input_store ?c)) < 2147483648"
    using n by (simp_all add: grows_def ex_rt_def ex_info_def)
  obtain c' rt' where "do_process ex_py ex_dbl (?c, ex_rt) = Some (OB_SUCCESS, c', rt')"
    "result_items ex_py c' = map ex_fun (val_rows [[VInt 5, VInt 7]] 0 (pu_saved_size (input_store ?c)))"
    using do_process_correct [OF ok rows ex_udf_rowwise ex_concat gr, of ex_dbl] by blast
  moreover have "val_rows [[VInt 5, VInt 7]] 0 2 = [[VInt 5], [VInt 7]]" by (simp add: val_rows_def upt_rec)
  ultimately show ?thesis using t(1) t'(1) n(2) by auto
qed

text \<open>C25. A rescan of the operator fails when there are columns to pass through, already right after opening: \<open>free\<close> leaves the fixed
  arrays of the column store full, so that the second \<open>init\<close> cannot append the expressions.\<close>

theorem rescan_reports_error:
  assumes "\<forall>e \<in> set (udf_exprs sp). udf_expr_ok e \<and> 0 < predict_size (infos (op_rt st) (expr_id e)) \<and> 0 \<le> delta (infos (op_rt st) (expr_id e))"
    and "\<And>n. mem_ok m n" and "input_exprs sp \<noteq> []" "length (input_exprs sp) \<le> 4294967295" and "op_ctl st = controller_new"
  shows "\<exists>st1 st2. inner_open m raw sp tenant st = Some (OB_SUCCESS, st1) \<and> inner_rescan m raw sp tenant st1 = Some (OB_ERR_UNEXPECTED, st2)"
  using assms by (rule rescan_fails)

theorem rescan_reports_error_witness:
  "\<exists>st1 st2. inner_open ex_mem ex_cell ex_spec 0 (op_start [ex_batch] ex_frame ex_rt [0]) = Some (OB_SUCCESS, st1) \<and>
     inner_rescan ex_mem ex_cell ex_spec 0 st1 = Some (OB_ERR_UNEXPECTED, st2)"
  by (rule rescan_reports_error)
    (simp_all add: ex_spec_def op_start_def ex_rt_def ex_info_def ex_mem_ok udf_expr_ok_def ex_udf_def ex_col_def supported_def arg_kind_def)

text \<open>C9. A failure of the child is never lost, wherever it happens: when the child fails, with whatever code and after any number of
  batches, calling the operator until it stops ends with \<open>OB_ERR_UNEXPECTED\<close> and not with a normal end. The rows handed out
  before are the first rows of the child with the right values, in their order; rows that were buffered are dropped. The plan and the
  batches are those of \<open>plan_ok\<close> and \<open>batch_good\<close>.\<close>

theorem child_failure_reported:
  assumes "mx = min mrc (max_batch_size sp)" and "plan_ok env sp mx K fr0" and "frame_inv env sp K fr0 fr0"
    and "\<forall>b \<in> set bs. batch_good env sp mx K fr0 b" and "udfs_ok pe f sp (length (all_in sp fr0 bs)) (infos rt)"
    and "\<And>n. mem_ok m n" and "mx \<le> 64 * length sk" and "ret \<noteq> OB_SUCCESS"
  shows "\<exists>st1 outs st2 n.
    inner_open m raw sp tenant ((op_start bs fr0 rt sk) \<lparr>op_child := child_of bs @ ChildFail ret # cs\<rparr>) = Some (OB_SUCCESS, st1) \<and>
    drain (get_next_batch env m pe D sp None mrc) st1 = Some (OB_ERR_UNEXPECTED, outs, st2) \<and>
    concat (map (batch_out sp) outs) = map (out_row pe f sp) (take n (all_in sp fr0 bs))"
proof -
  obtain k where k: "op_inv env pe f sp mx K fr0 ((op_start bs fr0 rt sk) \<lparr>op_ctl := k\<rparr>) [] bs"
    "\<forall>c. inner_open m raw sp tenant ((op_start bs fr0 rt sk) \<lparr>op_child := c\<rparr>) = Some (OB_SUCCESS, (op_start bs fr0 rt sk) \<lparr>op_ctl := k, op_child := c\<rparr>)"
    using opened_inv [OF assms(2-7), of raw tenant] by blast
  let ?st = "(op_start bs fr0 rt sk) \<lparr>op_ctl := k\<rparr>"
  have "\<not> bend (op_brs ?st)" "bsize (op_brs ?st) \<le> mx" by (simp_all add: op_start_def)
  from drain_tailed [OF assms(1,2,6,8) k(1) this, of "all_in sp fr0 bs" D cs]
  show ?thesis using k(2) by (simp add: tailed_def op_start_def)
qed

theorem child_failure_reported_witness:
  "\<exists>st1 outs st2 n.
     inner_open ex_mem ex_cell ex_spec 0 ((op_start [ex_batch, ex_batch] ex_frame ex_rt [0])
         \<lparr>op_child := child_of [ex_batch, ex_batch] @ [ChildFail OB_ALLOCATE_MEMORY_FAILED]\<rparr>) = Some (OB_SUCCESS, st1) \<and>
     drain (get_next_batch ex_env ex_mem ex_py ex_dbl ex_spec None 256) st1 = Some (OB_ERR_UNEXPECTED, outs, st2) \<and>
     concat (map (batch_out ex_spec) outs) =
       map (out_row ex_py (\<lambda>i. ex_fun) ex_spec) (take n (all_in ex_spec ex_frame [ex_batch, ex_batch]))"
proof -
  have mx: "2 = min 256 (max_batch_size ex_spec)" by (simp add: ex_spec_def)
  have bs: "\<forall>b \<in> set [ex_batch, ex_batch]. batch_good ex_env ex_spec 2 {} ex_frame b" by (simp add: ex_batch_good)
  have udfs: "udfs_ok ex_py (\<lambda>i. ex_fun) ex_spec (length (all_in ex_spec ex_frame [ex_batch, ex_batch])) (infos ex_rt)"
    unfolding ex_all_in by (rule ex_udfs_ok)
  show ?thesis by (rule child_failure_reported [OF mx ex_plan ex_frame_inv bs udfs ex_mem_ok]) simp_all
qed

end
