(* ===== verification/Python_UDF_Op_Liveness.thy ===== *)
theory Python_UDF_Op_Liveness
  imports Python_UDF_Op_Laws
begin

text \<open>
  The operator as a transition system. A step is a call of \<open>get_next_batch\<close> that returns rows; the run is over when a call
  reports the end. The main lemma is that from every state the operator can be in, the end is reached: no call fails, no
  call is undefined and the calls do not go on for ever.
\<close>

inductive op_call ::
  "(('w, 'r, 'd) op_state \<Rightarrow> (ob_ret \<times> ('w, 'r, 'd) op_state) option) \<Rightarrow> ('w, 'r, 'd) op_state \<Rightarrow> ('w, 'r, 'd) op_state \<Rightarrow> bool"
  for nxt where
  rows: "nxt st = Some (OB_SUCCESS, st1) \<Longrightarrow> \<not> bend (op_brs st1) \<Longrightarrow> op_call nxt st st1"

inductive op_ends ::
  "(('w, 'r, 'd) op_state \<Rightarrow> (ob_ret \<times> ('w, 'r, 'd) op_state) option) \<Rightarrow> nat \<Rightarrow> ('w, 'r, 'd) op_state \<Rightarrow> bool"
  for nxt where
  now: "nxt st = Some (OB_SUCCESS, st1) \<Longrightarrow> bend (op_brs st1) \<Longrightarrow> op_ends nxt n st"
| later: "op_call nxt st st1 \<Longrightarrow> op_ends nxt n st1 \<Longrightarrow> op_ends nxt (n + 1) st"

inductive_cases op_callE: "op_call nxt st st1"

lemma op_ends_mono: "op_ends nxt n st \<Longrightarrow> n \<le> k \<Longrightarrow> op_ends nxt k st"
proof (induction arbitrary: k rule: op_ends.induct)
  case (now st st1 n)
  then show ?case by (blast intro: op_ends.now)
next
  case (later st st1 n)
  then obtain j where "k = j + 1" "n \<le> j" by (cases k) auto
  then show ?case using later by (blast intro: op_ends.later)
qed

text \<open>The invariant between two calls; \<open>n\<close> rows are still to come.\<close>

definition between_calls where
  "between_calls env pe f sp mx K fr0 n st \<longleftrightarrow>
     (\<exists>P bs. op_inv env pe f sp mx K fr0 st P bs \<and> \<not> bend (op_brs st) \<and> bsize (op_brs st) \<le> mx \<and> n = length (P @ all_in sp fr0 bs))"

lemma call_progress:
  assumes mx: "mx = min mrc (max_batch_size sp)" and plan: "plan_ok env sp mx K fr0" and mem: "\<And>n. mem_ok m n"
    and inv: "between_calls env pe f sp mx K fr0 n st"
  shows "\<exists>st1. get_next_batch env m pe D sp None mrc st = Some (OB_SUCCESS, st1) \<and>
    (if n = 0 then bend (op_brs st1) else \<not> bend (op_brs st1) \<and> (\<exists>k < n. between_calls env pe f sp mx K fr0 k st1))"
proof -
  obtain P bs where I: "op_inv env pe f sp mx K fr0 st P bs" "\<not> bend (op_brs st)" "bsize (op_brs st) \<le> mx"
      "n = length (P @ all_in sp fr0 bs)"
    using inv unfolding between_calls_def by blast
  obtain st1 where st1: "get_next_batch env m pe D sp None mrc st = Some (OB_SUCCESS, st1)"
    "if P @ all_in sp fr0 bs = [] then bend (op_brs st1) else delivers env pe f sp mx K fr0 (P @ all_in sp fr0 bs) st1"
    using get_next_batch_ok [OF mx plan I(1) mem I(2,3)] by blast
  show ?thesis
  proof (cases "n = 0")
    case True
    then show ?thesis using st1 I(4) by auto
  next
    case False
    then have ne: "P @ all_in sp fr0 bs \<noteq> []" using I(4) by auto
    then obtain Q P' bs' where d: "P @ all_in sp fr0 bs = Q @ P' @ all_in sp fr0 bs'" "Q \<noteq> []" "op_inv env pe f sp mx K fr0 st1 P' bs'"
      "\<not> bend (op_brs st1)" "bsize (op_brs st1) \<le> mx"
      using st1(2) unfolding if_not_P [OF ne] delivers_def by blast
    have "length (P' @ all_in sp fr0 bs') < n" using d(1,2) I(4) by simp
    then have "\<exists>k < n. between_calls env pe f sp mx K fr0 k st1" using d(3-5) unfolding between_calls_def by blast
    then show ?thesis using st1(1) d(4) False by auto
  qed
qed

lemma between_calls_ends:
  assumes mx: "mx = min mrc (max_batch_size sp)" and plan: "plan_ok env sp mx K fr0" and mem: "\<And>n. mem_ok m n"
  shows "between_calls env pe f sp mx K fr0 n st \<Longrightarrow> op_ends (get_next_batch env m pe D sp None mrc) n st"
proof (induction n arbitrary: st rule: less_induct)
  case (less n)
  obtain st1 where st1: "get_next_batch env m pe D sp None mrc st = Some (OB_SUCCESS, st1)"
      "if n = 0 then bend (op_brs st1) else \<not> bend (op_brs st1) \<and> (\<exists>k < n. between_calls env pe f sp mx K fr0 k st1)"
    using call_progress [OF mx plan mem less.prems] by blast
  show ?case
  proof (cases "n = 0")
    case True
    then show ?thesis using op_ends.now [where nxt = "get_next_batch env m pe D sp None mrc", OF st1(1)] st1(2) by simp
  next
    case False
    then obtain k where k: "k < n" "between_calls env pe f sp mx K fr0 k st1" "\<not> bend (op_brs st1)" using st1(2) by auto
    have "op_call (get_next_batch env m pe D sp None mrc) st st1" using st1(1) k(3) by (rule op_call.rows)
    from op_ends.later [OF this less.IH [OF k(1,2)]] show ?thesis by (rule op_ends_mono) (use k(1) in simp)
  qed
qed

lemma between_calls_step:
  assumes mx: "mx = min mrc (max_batch_size sp)" and plan: "plan_ok env sp mx K fr0" and mem: "\<And>n. mem_ok m n"
    and "op_call (get_next_batch env m pe D sp None mrc) st st1" and "between_calls env pe f sp mx K fr0 n st"
  shows "\<exists>k \<le> n. between_calls env pe f sp mx K fr0 k st1"
proof -
  have "get_next_batch env m pe D sp None mrc st = Some (OB_SUCCESS, st1)" "\<not> bend (op_brs st1)"
    using assms(4) by (auto elim: op_callE)
  then show ?thesis using call_progress [OF mx plan mem assms(5), of D] by (auto split: if_splits intro: less_imp_le)
qed

lemma between_calls_reachable:
  assumes mx: "mx = min mrc (max_batch_size sp)" and plan: "plan_ok env sp mx K fr0" and mem: "\<And>n. mem_ok m n"
    and "(op_call (get_next_batch env m pe D sp None mrc))\<^sup>*\<^sup>* st st1" and "between_calls env pe f sp mx K fr0 n st"
  shows "\<exists>k \<le> n. between_calls env pe f sp mx K fr0 k st1"
  using assms(4,5)
proof (induction rule: rtranclp_induct)
  case (step st1 st2)
  then obtain k where "k \<le> n" "between_calls env pe f sp mx K fr0 k st1" by blast
  with between_calls_step [OF mx plan mem step(2)] show ?case by (meson order_trans)
qed blast

text \<open>C6. The operator makes progress and ends, on the inputs of \<open>plan_ok\<close> and \<open>batch_good\<close> (no filter of its own, arguments that are
  columns or constants, batches of at most 4096 rows, no null values) and with functions that work row by row. After opening, and after any
  number of calls that returned rows, the next call succeeds and either returns rows or reports the end; the end comes
  after at most as many further calls as the child has active rows.\<close>

theorem operator_reaches_end:
  assumes "mx = min mrc (max_batch_size sp)" and "plan_ok env sp mx K fr0" and "frame_inv env sp K fr0 fr0"
    and "\<forall>b \<in> set bs. batch_good env sp mx K fr0 b"
    and "udfs_ok pe f sp (length (all_in sp fr0 bs)) (infos rt)"
    and "\<And>n. mem_ok m n" and "mx \<le> 64 * length sk"
    and "inner_open m raw sp tenant (op_start bs fr0 rt sk) = Some (OB_SUCCESS, st0)"
    and "(op_call (get_next_batch env m pe D sp None mrc))\<^sup>*\<^sup>* st0 st"
  shows "op_ends (get_next_batch env m pe D sp None mrc) (length (all_in sp fr0 bs)) st"
proof -
  obtain k where "st0 = (op_start bs fr0 rt sk) \<lparr>op_ctl := k\<rparr>" "op_inv env pe f sp mx K fr0 ((op_start bs fr0 rt sk) \<lparr>op_ctl := k\<rparr>) [] bs"
    using opened_inv [OF assms(2-7), of raw tenant] assms(8) by auto
  then have "between_calls env pe f sp mx K fr0 (length (all_in sp fr0 bs)) st0"
    unfolding between_calls_def by (intro exI [of _ "[]"] exI [of _ bs]) (simp add: op_start_def)
  then obtain n where "n \<le> length (all_in sp fr0 bs)" "between_calls env pe f sp mx K fr0 n st"
    using between_calls_reachable [OF assms(1,2,6,9)] by blast
  then show ?thesis using between_calls_ends [OF assms(1,2,6)] op_ends_mono by blast
qed

theorem operator_reaches_end_witness:
  "\<exists>st0. inner_open ex_mem ex_cell ex_spec 0 (op_start [ex_batch, ex_batch] ex_frame ex_rt [0]) = Some (OB_SUCCESS, st0) \<and>
     op_ends (get_next_batch ex_env ex_mem ex_py ex_dbl ex_spec None 256) 4 st0"
proof -
  have mx: "2 = min 256 (max_batch_size ex_spec)" by (simp add: ex_spec_def)
  have bs: "\<forall>b \<in> set [ex_batch, ex_batch]. batch_good ex_env ex_spec 2 {} ex_frame b" by (simp add: ex_batch_good)
  have udfs: "udfs_ok ex_py (\<lambda>i. ex_fun) ex_spec (length (all_in ex_spec ex_frame [ex_batch, ex_batch])) (infos ex_rt)"
    unfolding ex_all_in by (rule ex_udfs_ok)
  have sk: "2 \<le> 64 * length [0 :: 64 word]" by simp
  obtain st0 where st0: "inner_open ex_mem ex_cell ex_spec 0 (op_start [ex_batch, ex_batch] ex_frame ex_rt [0]) = Some (OB_SUCCESS, st0)"
    using opened_inv [OF ex_plan ex_frame_inv bs udfs ex_mem_ok sk, of ex_cell 0] by blast
  have "length (all_in ex_spec ex_frame [ex_batch, ex_batch]) = 4" unfolding ex_all_in by simp
  then show ?thesis
    using operator_reaches_end [OF mx ex_plan ex_frame_inv bs udfs ex_mem_ok sk st0 rtranclp.rtrancl_refl, of ex_dbl] st0 by auto
qed

end
