(* ===== verification/OB_SQL_Text.thy ===== *)
theory OB_SQL_Text
  imports OB_Prelude "HOL-Library.Sublist"
begin

text \<open>
  Statements as texts. The first part is how the code prints them: \<^verbatim>\<open>deps/oblib/src/lib/string/ob_sql_string.cpp\<close> and
  \<open>sql_append_hex_escape_str\<close> of \<^verbatim>\<open>utility/utility.cpp\<close>. The second part says what such a text means: \<open>sql_read\<close> reads the
  fragment of SQL the code uses (\<^verbatim>\<open>INSERT\<close>, \<^verbatim>\<open>DELETE\<close> and \<^verbatim>\<open>SELECT *\<close> with conditions on equality), following the
  lexical rules of the manual for numbers, quoted strings and hexadecimal literals; texts with a backslash are outside of
  the fragment. The lemmas are the round trips between printing and reading.
\<close>

section \<open>Texts\<close>

text \<open>\<open>ObSqlString::append\<close> and \<open>append_fmt\<close>; \<open>mok\<close> is the outcome of \<open>reserve\<close>. Lengths are unbounded: the casts of a
  length to \<^verbatim>\<open>int32_t\<close> for \<^verbatim>\<open>%.*s\<close> are exact below \<open>2\<^sup>3\<^sup>1\<close> bytes.\<close>

definition sql_append :: "(nat \<Rightarrow> bool) \<Rightarrow> string \<Rightarrow> string \<Rightarrow> ob_ret \<times> string" where
  "sql_append mok s t = (if mok (length s + length t + 1) then (OB_SUCCESS, s @ t) else (OB_ALLOCATE_MEMORY_FAILED, s))"

text \<open>\<^verbatim>\<open>%lu\<close>, \<^verbatim>\<open>%ld\<close> and \<^verbatim>\<open>%d\<close>.\<close>

definition digit_char :: "nat \<Rightarrow> char" where
  "digit_char d = char_of (48 + d)"

fun fmt_nat :: "nat \<Rightarrow> string" where
  "fmt_nat n = (if n < 10 then [digit_char n] else fmt_nat (n div 10) @ [digit_char (n mod 10)])"

declare fmt_nat.simps [simp del]

definition fmt_int :: "int \<Rightarrow> string" where
  "fmt_int i = (if i < 0 then CHR ''-'' # fmt_nat (nat (- i)) else fmt_nat (nat i))"

text \<open>\<^verbatim>\<open>%02X\<close> and \<open>sql_append_hex_escape_str\<close>.\<close>

definition hex_char :: "nat \<Rightarrow> char" where
  "hex_char d = (if d < 10 then char_of (48 + d) else char_of (55 + d))"

definition fmt_02X :: "char \<Rightarrow> string" where
  "fmt_02X c = [hex_char (of_char c div 16), hex_char (of_char c mod 16)]"

definition quote :: char where
  "quote = char_of (39 :: nat)"

definition hex_escape :: "string \<Rightarrow> string" where
  "hex_escape s = ''X'' @ [quote] @ concat (map fmt_02X s) @ [quote]"

definition sql_append_hex_escape_str :: "(nat \<Rightarrow> bool) \<Rightarrow> string \<Rightarrow> string \<Rightarrow> ob_ret \<times> string" where
  "sql_append_hex_escape_str mok str sql =
     (if mok (length sql + length str * 2 + 4) then (OB_SUCCESS, sql @ hex_escape str) else (OB_ALLOCATE_MEMORY_FAILED, sql))"

section \<open>The meaning of a text\<close>

datatype sql_val = SInt int | SStr string

type_synonym row = "(string \<times> sql_val) list"

type_synonym udf_tables = "64 word \<Rightarrow> row list"

datatype token = TIdent string | TNum nat | TStr string | TSym char

definition is_digit :: "char \<Rightarrow> bool" where
  "is_digit c \<longleftrightarrow> (let n = of_char c :: nat in 48 \<le> n \<and> n \<le> 57)"

definition is_ident :: "char \<Rightarrow> bool" where
  "is_ident c \<longleftrightarrow> (let n = of_char c :: nat in 48 \<le> n \<and> n \<le> 57 \<or> 65 \<le> n \<and> n \<le> 90 \<or> 97 \<le> n \<and> n \<le> 122 \<or> n = 95)"

definition num_of :: "string \<Rightarrow> nat" where
  "num_of ds = foldl (\<lambda>n d. 10 * n + (of_char d - 48)) 0 ds"

definition hex_val :: "char \<Rightarrow> nat option" where
  "hex_val c =
     (let n = of_char c in if 48 \<le> n \<and> n \<le> 57 then Some (n - 48) else if 65 \<le> n \<and> n \<le> 70 then Some (n - 55) else None)"

fun hex_lit :: "string \<Rightarrow> (string \<times> string) option" where
  "hex_lit [] = None"
| "hex_lit [c] = (if c = quote then Some ([], []) else None)"
| "hex_lit (c # d # s) =
     (if c = quote then Some ([], d # s)
      else case (hex_val c, hex_val d, hex_lit s) of
        (Some a, Some b, Some (x, rest)) \<Rightarrow> Some (char_of (16 * a + b) # x, rest)
      | _ \<Rightarrow> None)"

definition backslash :: char where
  "backslash = char_of (92 :: nat)"

text \<open>A quote inside a string is written twice.\<close>

fun str_lit :: "string \<Rightarrow> (string \<times> string) option" where
  "str_lit [] = None"
| "str_lit [c] = (if c = quote then Some ([], []) else None)"
| "str_lit (c # d # s) =
     (if c = quote
      then if d = quote then map_option (\<lambda>(x, rest). (quote # x, rest)) (str_lit s) else Some ([], d # s)
      else if c = backslash then None
      else map_option (\<lambda>(x, rest). (c # x, rest)) (str_lit (d # s)))"

lemma hex_lit_suffix: "hex_lit s = Some (x, rest) \<Longrightarrow> strict_suffix rest s"
proof (induction s arbitrary: x rest rule: hex_lit.induct)
  case (3 c d s)
  then show ?case
    by (auto split: if_splits option.splits prod.splits simp: strict_suffix_def suffix_def)
qed (auto split: if_splits simp: strict_suffix_def)

lemma str_lit_suffix: "str_lit s = Some (x, rest) \<Longrightarrow> strict_suffix rest s"
proof (induction s arbitrary: x rest rule: str_lit.induct)
  case (3 c d s)
  then show ?case
    by (auto split: if_splits simp: strict_suffix_def suffix_def)
qed (auto split: if_splits simp: strict_suffix_def)

function sql_lex :: "string \<Rightarrow> token list option" where
  "sql_lex [] = Some []"
| "sql_lex (c # s) =
     (if c = CHR '' '' then sql_lex s
      else if is_digit c
      then map_option (\<lambda>ts. TNum (num_of (c # takeWhile is_digit s)) # ts) (sql_lex (dropWhile is_digit s))
      else if c = CHR ''X'' \<and> s \<noteq> [] \<and> hd s = quote
      then (case hex_lit (tl s) of None \<Rightarrow> None | Some (x, rest) \<Rightarrow> map_option (\<lambda>ts. TStr x # ts) (sql_lex rest))
      else if is_ident c
      then map_option (\<lambda>ts. TIdent (c # takeWhile is_ident s) # ts) (sql_lex (dropWhile is_ident s))
      else if c = quote
      then (case str_lit s of None \<Rightarrow> None | Some (x, rest) \<Rightarrow> map_option (\<lambda>ts. TStr x # ts) (sql_lex rest))
      else map_option (\<lambda>ts. TSym c # ts) (sql_lex s))"
  by pat_completeness auto
termination
proof (relation "measure length", goal_cases)
  case (4 c s p x rest)
  then have "hex_lit (tl s) = Some (x, rest)" by simp
  then show ?case using 4 hex_lit_suffix [of "tl s" x rest] suffix_length_less [of rest "tl s"] by (cases s) auto
next
  case (6 c s p x rest)
  then have "str_lit s = Some (x, rest)" by simp
  then show ?case using str_lit_suffix [of s x rest] suffix_length_less [of rest s] by auto
qed (auto simp: le_imp_less_Suc length_dropWhile_le)

declare sql_lex.simps(2) [simp del]

text \<open>A statement: the row of an \<^verbatim>\<open>INSERT\<close>; the condition of a \<^verbatim>\<open>DELETE\<close> or \<^verbatim>\<open>SELECT\<close> in disjunctive form.\<close>

datatype sql_stmt =
    SInsert string row
  | SDelete string "row list"
  | SSelect string "row list"

fun parse_cols :: "token list \<Rightarrow> (string list \<times> token list) option" where
  "parse_cols (TIdent c # TSym s # ts) =
     (if s = CHR '','' then map_option (\<lambda>(cs, r). (c # cs, r)) (parse_cols ts)
      else if s = CHR '')'' then Some ([c], ts) else None)"
| "parse_cols _ = None"

fun parse_val :: "token list \<Rightarrow> (sql_val \<times> token list) option" where
  "parse_val (TNum n # ts) = Some (SInt (int n), ts)"
| "parse_val (TSym s # TNum n # ts) = (if s = CHR ''-'' then Some (SInt (- int n), ts) else None)"
| "parse_val (TStr x # ts) = Some (SStr x, ts)"
| "parse_val _ = None"

fun parse_vals :: "nat \<Rightarrow> token list \<Rightarrow> sql_val list option" where
  "parse_vals 0 ts = None"
| "parse_vals (Suc n) ts =
     (case parse_val ts of
        None \<Rightarrow> None
      | Some (v, r) \<Rightarrow>
          if r = [TSym (CHR '')'')] \<and> n = 0 then Some [v]
          else if r \<noteq> [] \<and> hd r = TSym (CHR '','') then map_option (\<lambda>vs. v # vs) (parse_vals n (tl r))
          else None)"

fun parse_cond :: "nat \<Rightarrow> token list \<Rightarrow> row list option" where
  "parse_cond 0 ts = None"
| "parse_cond (Suc n) (TIdent c # TSym e # ts) =
     (if e \<noteq> CHR ''='' then None
      else case parse_val ts of
        None \<Rightarrow> None
      | Some (v, []) \<Rightarrow> Some [[(c, v)]]
      | Some (v, TIdent k # r) \<Rightarrow>
          (case parse_cond n r of
             Some (con # dis) \<Rightarrow>
               if k = ''AND'' \<or> k = ''and'' then Some (((c, v) # con) # dis)
               else if k = ''OR'' \<or> k = ''or'' then Some ([(c, v)] # con # dis) else None
           | _ \<Rightarrow> None)
      | _ \<Rightarrow> None)"
| "parse_cond (Suc n) _ = None"

definition parse_stmt :: "token list \<Rightarrow> sql_stmt option" where
  "parse_stmt ts =
     (case ts of
        TIdent w # TIdent w2 # TIdent tbl # TSym p # r \<Rightarrow>
          if w = ''INSERT'' \<and> w2 = ''INTO'' \<and> p = CHR ''('' then
            (case parse_cols r of
               Some (cs, TIdent w3 # TSym p2 # r2) \<Rightarrow>
                 if w3 = ''VALUES'' \<and> p2 = CHR ''('' then map_option (\<lambda>vs. SInsert tbl (zip cs vs)) (parse_vals (length cs) r2) else None
             | _ \<Rightarrow> None)
          else None
      | TIdent w # TIdent w2 # TIdent tbl # TIdent w3 # r \<Rightarrow>
          if w = ''DELETE'' \<and> w2 = ''FROM'' \<and> w3 = ''WHERE'' then map_option (SDelete tbl) (parse_cond (length r) r) else None
      | TIdent w # TSym p # TIdent w2 # TIdent tbl # TIdent w3 # r \<Rightarrow>
          if w = ''SELECT'' \<and> p = CHR ''*'' \<and> w2 = ''FROM'' \<and> w3 = ''WHERE''
          then map_option (SSelect tbl) (parse_cond (length r) r) else None
      | _ \<Rightarrow> None)"

definition sql_read :: "string \<Rightarrow> sql_stmt option" where
  "sql_read s = (case sql_lex s of None \<Rightarrow> None | Some ts \<Rightarrow> parse_stmt ts)"

section \<open>Reading what was printed\<close>

definition sep :: "char \<Rightarrow> bool" where
  "sep c \<longleftrightarrow> \<not> is_ident c \<and> c \<noteq> quote"

lemma is_digit_ident: "is_digit c \<Longrightarrow> is_ident c"
  by (simp add: is_digit_def is_ident_def Let_def)

lemma hex_lit_append: "hex_lit s = Some (x, rest) \<Longrightarrow> rest \<noteq> [] \<Longrightarrow> hex_lit (s @ r) = Some (x, rest @ r)"
proof (induction s arbitrary: x rest rule: hex_lit.induct)
  case (3 c d s)
  then show ?case by (auto split: if_splits option.splits prod.splits)
qed (auto split: if_splits)

lemma str_lit_append: "str_lit s = Some (x, rest) \<Longrightarrow> rest \<noteq> [] \<Longrightarrow> str_lit (s @ r) = Some (x, rest @ r)"
proof (induction s arbitrary: x rest rule: str_lit.induct)
  case (3 c d s)
  then show ?case by (auto split: if_splits)
qed (auto split: if_splits)

lemma hex_lit_end: "hex_lit s = Some (x, []) \<Longrightarrow> last s = quote"
proof (induction s arbitrary: x rule: hex_lit.induct)
  case (3 c d s)
  then show ?case by (cases s) (auto split: if_splits option.splits prod.splits)
qed (auto split: if_splits)

lemma str_lit_end: "str_lit s = Some (x, []) \<Longrightarrow> last s = quote"
proof (induction s arbitrary: x rule: str_lit.induct)
  case (3 c d s)
  consider "c = quote" "d = quote" | "c \<noteq> quote" "c \<noteq> backslash" using "3.prems" by (simp split: if_splits)
  then show ?case
  proof cases
    case 1
    then obtain y where y: "str_lit s = Some (y, [])" using "3.prems" by (auto simp del: not_None_eq)
    then have "last s = quote" using "3.IH"(1) [OF 1] by blast
    moreover have "s \<noteq> []" using y by auto
    ultimately show ?thesis by simp
  next
    case 2
    then obtain y where "str_lit (d # s) = Some (y, [])" using "3.prems" by (auto simp del: not_None_eq)
    then have "last (d # s) = quote" using "3.IH"(2) [OF 2] by blast
    then show ?thesis by simp
  qed
qed (simp_all split: if_splits)

lemma last_suffix: "strict_suffix rest s \<Longrightarrow> rest \<noteq> [] \<Longrightarrow> last rest = last s"
  by (auto simp: strict_suffix_def suffix_def)

lemma lit_rest:
  assumes "lit = hex_lit \<or> lit = str_lit" and "lit s = Some (x, rest)" and "last s \<noteq> quote"
  shows "rest \<noteq> []" "last rest = last s" "lit (s @ r) = Some (x, rest @ r)"
proof -
  show ne: "rest \<noteq> []" using assms hex_lit_end str_lit_end by metis
  show "last rest = last s" using assms(1,2) ne hex_lit_suffix str_lit_suffix last_suffix by metis
  show "lit (s @ r) = Some (x, rest @ r)" using assms(1,2) ne hex_lit_append str_lit_append by metis
qed

lemma takeWhile_before_last: "s \<noteq> [] \<Longrightarrow> \<not> P (last s) \<Longrightarrow> takeWhile P (s @ r) = takeWhile P s"
  by (meson last_in_set takeWhile_append1)

lemma dropWhile_before_last:
  assumes "s \<noteq> []" and "\<not> P (last s)"
  shows "dropWhile P (s @ r) = dropWhile P s @ r" "dropWhile P s \<noteq> []" "last (dropWhile P s) = last s"
proof -
  show "dropWhile P (s @ r) = dropWhile P s @ r" using assms by (meson dropWhile_append1 last_in_set)
  show ne: "dropWhile P s \<noteq> []" using assms by auto
  have "last (takeWhile P s @ dropWhile P s) = last (dropWhile P s)" using ne by (rule last_appendR)
  then show "last (dropWhile P s) = last s" by simp
qed

text \<open>A text that ends with a separator can be read on its own.\<close>

lemma sql_lex_append:
  "sql_lex s = Some ts \<Longrightarrow> s \<noteq> [] \<Longrightarrow> sep (last s) \<Longrightarrow> sql_lex (s @ r) = map_option ((@) ts) (sql_lex r)"
proof (induction s arbitrary: ts rule: sql_lex.induct)
  case (2 c s)
  have last_sep: "\<not> is_ident (last (c # s))" "\<not> is_digit (last (c # s))" "last (c # s) \<noteq> quote"
    using "2.prems"(3) is_digit_ident by (auto simp: sep_def)
  show ?case
  proof (cases "s = []")
    case True
    have "is_ident (CHR ''X'')" by (simp add: is_ident_def)
    then have "c \<noteq> CHR ''X''" using last_sep True by auto
    then show ?thesis using "2.prems" last_sep True by (cases "sql_lex r") (auto simp: sql_lex.simps(2) split: if_splits)
  next
    case False
    then have l: "last (c # s) = last s" by simp
    note tw = takeWhile_before_last [OF False] and dw = dropWhile_before_last [OF False]
    note D = tw [where P = is_digit] dw [where P = is_digit] and I = tw [where P = is_ident] dw [where P = is_ident]
    consider "c = CHR '' ''" | "c \<noteq> CHR '' ''" "is_digit c"
      | "c \<noteq> CHR '' ''" "\<not> is_digit c" "c = CHR ''X'' \<and> s \<noteq> [] \<and> hd s = quote"
      | "c \<noteq> CHR '' ''" "\<not> is_digit c" "\<not> (c = CHR ''X'' \<and> s \<noteq> [] \<and> hd s = quote)" "is_ident c"
      | "c \<noteq> CHR '' ''" "\<not> is_digit c" "\<not> (c = CHR ''X'' \<and> s \<noteq> [] \<and> hd s = quote)" "\<not> is_ident c" "c = quote"
      | "c \<noteq> CHR '' ''" "\<not> is_digit c" "\<not> (c = CHR ''X'' \<and> s \<noteq> [] \<and> hd s = quote)" "\<not> is_ident c" "c \<noteq> quote"
      by blast
    then show ?thesis
    proof cases
      case 1
      then show ?thesis using 2 False by (simp add: sql_lex.simps(2))
    next
      case 2: 2
      obtain us where us: "sql_lex (dropWhile is_digit s) = Some us" "ts = TNum (num_of (c # takeWhile is_digit s)) # us"
        using "2.prems"(1) 2 by (auto simp: sql_lex.simps(2))
      have "sql_lex (dropWhile is_digit s @ r) = map_option ((@) us) (sql_lex r)"
        using "2.IH"(2) [OF 2 us(1)] D last_sep l "2.prems"(3) by simp
      then show ?thesis using 2 us D last_sep l by (cases "sql_lex r") (simp_all add: sql_lex.simps(2))
    next
      case 3
      obtain x rest us where x: "hex_lit (tl s) = Some (x, rest)" "sql_lex rest = Some us" "ts = TStr x # us"
        using "2.prems"(1) 3 by (auto simp: sql_lex.simps(2) split: option.splits)
      have "tl s \<noteq> []" using x(1) by auto
      then have "last (tl s) = last s" using False by (cases s) auto
      then have R: "rest \<noteq> []" "last rest = last s" "hex_lit (tl s @ r) = Some (x, rest @ r)"
        using lit_rest [of hex_lit "tl s" x rest] x(1) last_sep l by simp_all
      then have "sql_lex (rest @ r) = map_option ((@) us) (sql_lex r)"
        using "2.IH"(3) [OF 3 x(1) refl x(2)] "2.prems"(3) l by simp
      then show ?thesis using 3 x R False by (cases "sql_lex r") (simp_all add: sql_lex.simps(2))
    next
      case 4
      obtain us where us: "sql_lex (dropWhile is_ident s) = Some us" "ts = TIdent (c # takeWhile is_ident s) # us"
        using "2.prems"(1) 4 by (auto simp: sql_lex.simps(2))
      have "sql_lex (dropWhile is_ident s @ r) = map_option ((@) us) (sql_lex r)"
        using "2.IH"(4) [OF 4 us(1)] I last_sep l "2.prems"(3) by simp
      then show ?thesis using 4 us I last_sep l False by (cases "sql_lex r") (auto simp: sql_lex.simps(2))
    next
      case 5
      obtain x rest us where x: "str_lit s = Some (x, rest)" "sql_lex rest = Some us" "ts = TStr x # us"
        using "2.prems"(1) 5 by (auto simp: sql_lex.simps(2) split: option.splits)
      have R: "rest \<noteq> []" "last rest = last s" "str_lit (s @ r) = Some (x, rest @ r)"
        using lit_rest [of str_lit s x rest] x(1) last_sep l by simp_all
      then have "sql_lex (rest @ r) = map_option ((@) us) (sql_lex r)"
        using "2.IH"(5) [OF 5 x(1) refl x(2)] "2.prems"(3) l by simp
      then show ?thesis using 5 x R False by (cases "sql_lex r") (auto simp: sql_lex.simps(2))
    next
      case 6
      obtain us where us: "sql_lex s = Some us" "ts = TSym c # us"
        using "2.prems"(1) 6 by (auto simp: sql_lex.simps(2))
      have "sql_lex (s @ r) = map_option ((@) us) (sql_lex r)"
        using "2.IH"(6) [OF 6 us(1) False] "2.prems"(3) l by simp
      then show ?thesis using 6 us False by (cases "sql_lex r") (auto simp: sql_lex.simps(2))
    qed
  qed
qed simp

lemma of_char_nat [simp]: "n < 256 \<Longrightarrow> of_char (char_of (n :: nat)) = n"
  by simp

lemma fmt_nat_digits: "list_all is_digit (fmt_nat n) \<and> fmt_nat n \<noteq> []"
proof (induction n rule: fmt_nat.induct)
  case (1 n)
  have "n mod 10 < 10" by simp
  then have "n mod 10 \<le> 9" by linarith
  then show ?case using 1 by (simp add: fmt_nat.simps [of n] is_digit_def digit_char_def Let_def)
qed

lemma num_of_snoc: "num_of (ds @ [d]) = 10 * num_of ds + (of_char d - 48)"
  by (simp add: num_of_def)

lemma num_of_fmt_nat [simp]: "num_of (fmt_nat n) = n"
proof (induction n rule: fmt_nat.induct)
  case (1 n)
  show ?case
  proof (cases "n < 10")
    case True
    then show ?thesis by (simp add: fmt_nat.simps [of n] num_of_def digit_char_def)
  next
    case False
    then show ?thesis using "1.IH" by (simp add: fmt_nat.simps [of n] num_of_snoc) (simp add: digit_char_def)
  qed
qed

lemma sql_lex_fmt_nat:
  assumes "r = [] \<or> sep (hd r)"
  shows "sql_lex (fmt_nat n @ r) = map_option ((#) (TNum n)) (sql_lex r)"
proof -
  obtain d ds where D: "fmt_nat n = d # ds" "is_digit d" "\<forall>x \<in> set ds. is_digit x"
    using fmt_nat_digits [of n] by (cases "fmt_nat n") (auto simp: list_all_iff)
  have "\<not> is_digit c" if "r = c # r'" for c r' using that assms is_digit_ident by (auto simp: sep_def)
  then have "takeWhile is_digit (ds @ r) = ds" "dropWhile is_digit (ds @ r) = r"
    using D(3) by (cases r; simp)+
  moreover have "d \<noteq> CHR '' ''" using D(2) by (auto simp: is_digit_def)
  ultimately show ?thesis using D(1,2) num_of_fmt_nat [of n] by (simp add: sql_lex.simps(2))
qed

lemma quote_props: "\<not> is_digit quote" "\<not> is_ident quote" "quote \<noteq> CHR '' ''" "quote \<noteq> CHR ''X''" "hex_val quote = None"
  by (simp_all add: quote_def is_digit_def is_ident_def hex_val_def Let_def char_of_def)

lemma hex_val_char: "d < 16 \<Longrightarrow> hex_val (hex_char d) = Some d"
  by (auto simp: hex_val_def hex_char_def Let_def)

lemma hex_lit_escape: "hex_lit (concat (map fmt_02X s) @ quote # r) = Some (s, r)"
proof (induction s)
  case Nil
  show ?case by (cases r) simp_all
next
  case (Cons c s)
  have "of_char c < (256 :: nat)" using mod_less_divisor [of 256 "of_char c :: nat"] by simp
  then have "of_char c div 16 < (16 :: nat)" "of_char c mod 16 < (16 :: nat)" by (simp_all add: div_less_iff_less_mult)
  then have "hex_val (hex_char (of_char c div 16)) = Some (of_char c div 16)" "hex_val (hex_char (of_char c mod 16)) = Some (of_char c mod 16)"
    by (simp_all add: hex_val_char)
  moreover from this(1) have "hex_char (of_char c div 16) \<noteq> quote" using quote_props(5) by auto
  ultimately show ?case using Cons.IH by (simp add: fmt_02X_def mult.commute [of 16])
qed

lemma sql_lex_hex: "sql_lex (hex_escape s @ r) = map_option ((#) (TStr s)) (sql_lex r)"
  by (simp add: hex_escape_def sql_lex.simps(2) [of "CHR ''X''"] is_digit_def Let_def hex_lit_escape)

text \<open>A name is safe in a quoted literal when it has no quote, no backslash and no zero byte.\<close>

definition plain_name :: "string \<Rightarrow> bool" where
  "plain_name s \<longleftrightarrow> quote \<notin> set s \<and> backslash \<notin> set s \<and> CHR 0x00 \<notin> set s"

lemma str_lit_plain: "quote \<notin> set s \<Longrightarrow> backslash \<notin> set s \<Longrightarrow> str_lit (s @ [quote]) = Some (s, [])"
proof (induction s)
  case (Cons c s)
  obtain d ds where "s @ [quote] = d # ds" by (cases s) simp_all
  then show ?case using Cons by auto
qed simp

lemma sql_lex_plain: "plain_name s \<Longrightarrow> sql_lex ([quote] @ s @ [quote]) = Some [TStr s]"
  using quote_props by (simp add: sql_lex.simps(2) [of quote] plain_name_def str_lit_plain)

definition int_tokens :: "int \<Rightarrow> token list" where
  "int_tokens i = (if i < 0 then [TSym (CHR ''-''), TNum (nat (- i))] else [TNum (nat i)])"

lemma sql_lex_fmt_int:
  assumes "r = [] \<or> sep (hd r)"
  shows "sql_lex (fmt_int i @ r) = map_option ((@) (int_tokens i)) (sql_lex r)"
proof -
  have "\<not> is_digit (CHR ''-'')" "\<not> is_ident (CHR ''-'')" "CHR ''-'' \<noteq> quote" by (simp_all add: is_digit_def is_ident_def quote_def char_of_def)
  then show ?thesis using sql_lex_fmt_nat [OF assms]
    by (cases "sql_lex r") (simp_all add: fmt_int_def int_tokens_def sql_lex.simps(2) [of "CHR ''-''"])
qed

lemma parse_int_tokens [simp]: "parse_val (int_tokens i @ ts) = Some (SInt i, ts)"
  by (simp add: int_tokens_def)

lemma sep_chars: "sep (CHR '','')" "sep (CHR '')'')" "sep (CHR '' '')" "sep (CHR ''('')" "sep (CHR ''='')"
  by (simp_all add: sep_def is_ident_def quote_def char_of_def)

lemma sql_lex_comma: "sql_lex ('', '' @ r) = map_option ((#) (TSym (CHR '',''))) (sql_lex r)"
  by (simp add: sql_lex.simps(2) is_digit_def is_ident_def quote_def char_of_def)

lemma sql_lex_close: "sql_lex '')'' = Some [TSym (CHR '')'')]"
  by (simp add: sql_lex.simps(2) is_digit_def is_ident_def quote_def char_of_def)

text \<open>A quoted literal in the middle of a text, and a name that ends the literal it is put into.\<close>

lemma str_lit_plain_rest:
  "quote \<notin> set s \<Longrightarrow> backslash \<notin> set s \<Longrightarrow> r \<noteq> [] \<Longrightarrow> hd r \<noteq> quote \<Longrightarrow> str_lit (s @ quote # r) = Some (s, r)"
proof (induction s)
  case Nil
  then show ?case by (cases r) simp_all
next
  case (Cons c s)
  obtain d ds where "s @ quote # r = d # ds" by (cases s) simp_all
  then show ?case using Cons by auto
qed

lemma sql_lex_plain_rest:
  assumes "plain_name s" and "r \<noteq> []" and "hd r \<noteq> quote"
  shows "sql_lex ([quote] @ s @ [quote] @ r) = map_option ((#) (TStr s)) (sql_lex r)"
  using quote_props assms by (simp add: sql_lex.simps(2) [of quote] plain_name_def str_lit_plain_rest)

definition or_name :: string where
  "or_name = '' or name=''"

definition injected_name :: "string \<Rightarrow> string \<Rightarrow> string" where
  "injected_name a b = a @ [quote] @ or_name @ [quote] @ b"

lemma or_name_lex: "sql_lex or_name = Some [TIdent ''or'', TIdent ''name'', TSym (CHR ''='')]"
  by code_simp

lemma sql_lex_injected:
  assumes "plain_name a" and "plain_name b"
  shows "sql_lex ([quote] @ injected_name a b @ [quote]) = Some [TStr a, TIdent ''or'', TIdent ''name'', TSym (CHR ''=''), TStr b]"
proof -
  have "or_name \<noteq> []" "sep (last or_name)" "hd or_name \<noteq> quote" by (simp_all add: or_name_def sep_chars quote_def char_of_def)
  then have "sql_lex (or_name @ [quote] @ b @ [quote]) = Some [TIdent ''or'', TIdent ''name'', TSym (CHR ''=''), TStr b]"
    using sql_lex_append [OF or_name_lex, of "[quote] @ b @ [quote]"] sql_lex_plain [OF assms(2)] by simp
  then show ?thesis
    using sql_lex_plain_rest [OF assms(1), of "or_name @ [quote] @ b @ [quote]"] \<open>or_name \<noteq> []\<close> \<open>hd or_name \<noteq> quote\<close>
    by (simp add: injected_name_def)
qed

end
