(* ===== verification/OB_Serialization.thy ===== *)
theory OB_Serialization
  imports OB_Prelude
begin

text \<open>
  \<^verbatim>\<open>deps/oblib/src/lib/utility/serialization.h\<close> and \<^verbatim>\<open>ob_unify_serialize.h\<close>, \<^verbatim>\<open>string/ob_string.cpp\<close> and
  \<^verbatim>\<open>container/ob_se_array.h\<close>: the binary format in which metadata travel between servers.

  An encoder writes into a buffer of \<open>length buf\<close> bytes from \<open>pos\<close> on. A decoder reads a buffer of which the first
  \<open>data_len\<close> bytes are the message; the memory behind them exists up to \<open>length buf\<close>. \<open>None\<close> is an access outside the
  buffer or a shift by the width of the type. The locale \<open>codec\<close> is the contract of one type: the bytes written are a
  function of the value, as many as announced, a buffer that is too small is refused without a write outside of it, and
  reading the bytes gives the value back. Structures and arrays get the contract from their members.
\<close>

unbundle bit_operations_syntax

section \<open>Integers of variable length\<close>

type_synonym encoder = "byte list \<Rightarrow> nat \<Rightarrow> (ob_ret \<times> byte list \<times> nat) option"

type_synonym 'a decoder = "byte list \<Rightarrow> nat \<Rightarrow> nat \<Rightarrow> 'a \<Rightarrow> (ob_ret \<times> nat \<times> 'a) option"

definition put_byte :: "byte list \<Rightarrow> nat \<Rightarrow> byte \<Rightarrow> byte list option" where
  "put_byte buf pos b = (if pos < length buf then Some (buf[pos := b]) else None)"

definition OB_MAX_V1B :: "'a::len word" where
  "OB_MAX_V1B = 0x7f"

definition encoded_length_vi64 :: "64 word \<Rightarrow> nat" where
  "encoded_length_vi64 v =
     (if v \<le> 2 ^ 7 - 1 then 1 else if v \<le> 2 ^ 14 - 1 then 2 else if v \<le> 2 ^ 21 - 1 then 3
      else if v \<le> 2 ^ 28 - 1 then 4 else if v \<le> 2 ^ 35 - 1 then 5 else if v \<le> 2 ^ 42 - 1 then 6
      else if v \<le> 2 ^ 49 - 1 then 7 else if v \<le> 2 ^ 56 - 1 then 8 else if v \<le> 2 ^ 63 - 1 then 9 else 10)"

definition encoded_length_vi32 :: "32 word \<Rightarrow> nat" where
  "encoded_length_vi32 v =
     (if v \<le> 2 ^ 7 - 1 then 1 else if v \<le> 2 ^ 14 - 1 then 2 else if v \<le> 2 ^ 21 - 1 then 3
      else if v \<le> 2 ^ 28 - 1 then 4 else 5)"

lemma unat_drop_bit_div: "unat (drop_bit n v) = unat v div 2 ^ n"
  by (subst unat_drop_bit_eq) (rule drop_bit_eq_div)

text \<open>The loop of \<open>encode_vi64\<close> and \<open>encode_vi32\<close>: seven bits per byte, the high bit says that more bytes follow.\<close>

function encode_vi_loop :: "'a::len word \<Rightarrow> byte list \<Rightarrow> nat \<Rightarrow> (byte list \<times> nat) option" where
  "encode_vi_loop v buf pos =
     (if v > OB_MAX_V1B
      then do { buf1 \<leftarrow> put_byte buf pos (ucast (v OR 0x80)); encode_vi_loop (drop_bit 7 v) buf1 (pos + 1) }
      else do { buf1 \<leftarrow> put_byte buf pos (ucast (v AND 0x7f)); Some (buf1, pos + 1) })"
  by pat_completeness auto
termination
proof (relation "measure (\<lambda>(v, _, _). unat v)", goal_cases)
  case (2 v buf pos x)
  then have "0 < unat v" by (metis OB_MAX_V1B_def gr_zeroI unat_eq_zero word_not_simps(1))
  then show ?case by (simp add: unat_drop_bit_div)
qed simp

declare encode_vi_loop.simps [simp del]

definition encode_vi64 :: "64 word \<Rightarrow> encoder" where
  "encode_vi64 v buf pos =
     (if pos + encoded_length_vi64 v \<le> length buf
      then do { (buf1, pos1) \<leftarrow> encode_vi_loop v buf pos; Some (OB_SUCCESS, buf1, pos1) }
      else Some (OB_SIZE_OVERFLOW, buf, pos))"

definition encode_vi32 :: "32 word \<Rightarrow> encoder" where
  "encode_vi32 v buf pos =
     (if pos + encoded_length_vi32 v \<le> length buf
      then do { (buf1, pos1) \<leftarrow> encode_vi_loop v buf pos; Some (OB_SUCCESS, buf1, pos1) }
      else Some (OB_SIZE_OVERFLOW, buf, pos))"

definition OB_SERIALIZE_SIZE_NEED_BYTES :: nat where
  "OB_SERIALIZE_SIZE_NEED_BYTES = 5"

text \<open>\<open>encode_fixed_bytes_i64\<close>: always five bytes, in the format \<open>decode_vi64\<close> reads.\<close>

fun fixed_bytes_loop :: "nat \<Rightarrow> 64 word \<Rightarrow> byte list \<Rightarrow> nat \<Rightarrow> (byte list \<times> nat) option" where
  "fixed_bytes_loop 0 v buf pos = Some (buf, pos)"
| "fixed_bytes_loop (Suc n) v buf pos =
     (if 0 < n
      then do { buf1 \<leftarrow> put_byte buf pos (ucast (v OR 0x80)); fixed_bytes_loop n (drop_bit 7 v) buf1 (pos + 1) }
      else do { buf1 \<leftarrow> put_byte buf pos (ucast (v AND 0x7f)); fixed_bytes_loop n v buf1 (pos + 1) })"

text \<open>The two parameters of the source are the address of the field and its length, five bytes.\<close>

definition encode_fixed_bytes_i64 :: "byte list \<Rightarrow> nat \<Rightarrow> 64 word \<Rightarrow> byte list option" where
  "encode_fixed_bytes_i64 buf at v = map_option fst (fixed_bytes_loop OB_SERIALIZE_SIZE_NEED_BYTES v buf at)"

text \<open>
  The loop of \<open>decode_vi64\<close> and \<open>decode_vi32\<close>. The byte at the position is read before the position is compared with the
  length of the message.
\<close>

function decode_vi_loop ::
  "byte list \<Rightarrow> nat \<Rightarrow> nat \<Rightarrow> 'a::len word \<Rightarrow> nat \<Rightarrow> (ob_ret \<times> nat \<times> 'a word) option" where
  "decode_vi_loop buf data_len tmp_pos v shift =
     (if length buf \<le> tmp_pos then None
      else if bit (buf ! tmp_pos) 7
      then if data_len < tmp_pos + 1 then Some (OB_DESERIALIZE_ERROR, tmp_pos, v)
        else if LENGTH('a) \<le> shift then None
        else decode_vi_loop buf data_len (tmp_pos + 1) (v OR push_bit shift (ucast (buf ! tmp_pos) AND 0x7f)) (shift + 7)
      else if data_len < tmp_pos + 1 then Some (OB_DESERIALIZE_ERROR, tmp_pos, v)
      else if LENGTH('a) \<le> shift then None
      else Some (OB_SUCCESS, tmp_pos + 1, v OR push_bit shift (ucast (buf ! tmp_pos) AND 0x7f)))"
  by pat_completeness auto
termination
  by (relation "measure (\<lambda>(buf, _, tmp_pos, _, _). length buf - tmp_pos)") auto

declare decode_vi_loop.simps [simp del]

definition decode_vi :: "'a::len word decoder" where
  "decode_vi buf data_len pos old =
     do { (ret, tmp_pos, v) \<leftarrow> decode_vi_loop buf data_len pos 0 0;
          Some (if ret = OB_SUCCESS then (ret, tmp_pos, v) else (ret, pos, old)) }"

definition decode_vi64 :: "64 word decoder" where
  "decode_vi64 = decode_vi"

definition decode_vi32 :: "32 word decoder" where
  "decode_vi32 = decode_vi"

text \<open>\<open>encode\<close> and \<open>decode\<close> for integers, enumerations and \<^verbatim>\<open>bool\<close>.\<close>

definition decode_uint64 :: "64 word decoder" where
  "decode_uint64 buf data_len pos old = decode_vi64 buf data_len pos 0"

definition encode_int32 :: "int \<Rightarrow> encoder" where
  "encode_int32 v = encode_vi32 (word_of_int v)"

definition decode_int32 :: "int decoder" where
  "decode_int32 buf data_len pos old =
     do { (ret, pos1, v) \<leftarrow> decode_vi32 buf data_len pos 0; Some (ret, pos1, sint v) }"

definition encode_bool :: "bool \<Rightarrow> encoder" where
  "encode_bool v buf pos =
     (if pos + 1 \<le> length buf
      then do { buf1 \<leftarrow> put_byte buf pos (if v then 1 else 0); Some (OB_SUCCESS, buf1, pos + 1) }
      else Some (OB_SIZE_OVERFLOW, buf, pos))"

definition decode_bool :: "bool decoder" where
  "decode_bool buf data_len pos old =
     (if pos + 1 \<le> data_len
      then if pos < length buf then Some (OB_SUCCESS, pos + 1, buf ! pos \<noteq> 0) else None
      else Some (OB_DESERIALIZE_ERROR, pos, False))"

section \<open>Strings\<close>

definition encoded_length_vstr :: "nat \<Rightarrow> nat" where
  "encoded_length_vstr n = encoded_length_vi64 (of_nat n) + n + 1"

definition char_byte :: "char \<Rightarrow> byte" where
  "char_byte c = word_of_nat (of_char c)"

definition byte_char :: "byte \<Rightarrow> char" where
  "byte_char b = char_of (unat b)"

text \<open>\<open>MEMCPY\<close> into the buffer.\<close>

definition put_bytes :: "byte list \<Rightarrow> nat \<Rightarrow> byte list \<Rightarrow> byte list option" where
  "put_bytes buf pos bs =
     (if pos + length bs \<le> length buf then Some (take pos buf @ bs @ drop (pos + length bs) buf) else None)"

text \<open>\<open>encode_vstr\<close>: the length, the bytes and a zero. The length of the encoding is compared as a 32-bit integer.\<close>

definition encode_vstr :: "string \<Rightarrow> encoder" where
  "encode_vstr s buf pos =
     (if to_i32 (int (encoded_length_vstr (length s))) \<le> int (length buf) - int pos
      then do { (ret, buf1, pos1) \<leftarrow> encode_vi64 (of_nat (length s)) buf pos;
                (buf2, pos2) \<leftarrow> (if ret = OB_SUCCESS \<and> 0 < length s
                   then do { b \<leftarrow> put_bytes buf1 pos1 (map char_byte s); Some (b, pos1 + length s) }
                   else Some (buf1, pos1));
                buf3 \<leftarrow> put_byte buf2 pos2 0;
                Some (ret, buf3, pos2 + 1) }
      else Some (OB_SIZE_OVERFLOW, buf, pos))"

definition string_serialize_size :: "string \<Rightarrow> nat" where
  "string_serialize_size s = encoded_length_vstr (length s)"

definition string_serialize :: "string \<Rightarrow> encoder" where
  "string_serialize s buf pos =
     (if length buf < pos + string_serialize_size s then Some (OB_SIZE_OVERFLOW, buf, pos)
      else encode_vstr s buf pos)"

text \<open>
  \<open>decode_vstr\<close> without a destination: the result points into the buffer. \<open>None\<close> in the second component is the null
  pointer. The zero behind the string is skipped without a look at it or at the length of the message.
\<close>

definition decode_vstr :: "byte list \<Rightarrow> nat \<Rightarrow> nat \<Rightarrow> (nat \<times> string option) option" where
  "decode_vstr buf data_len pos =
     do { (ret, tmp_pos, tmp_len) \<leftarrow> decode_vi64 buf data_len pos 0;
          if ret \<noteq> OB_SUCCESS \<or> sint tmp_len < 0 then Some (pos, None)
          else if int data_len - int tmp_pos \<ge> sint tmp_len
          then Some (tmp_pos + unat tmp_len + 1, Some (map byte_char (take (unat tmp_len) (drop tmp_pos buf))))
          else Some (pos, None) }"

text \<open>\<open>ObString::deserialize\<close> for a string without a buffer of its own (\<open>buffer_size_\<close> is 0).\<close>

definition string_deserialize :: "string decoder" where
  "string_deserialize buf data_len pos old =
     (if data_len < pos + 2 then Some (OB_INVALID_ARGUMENT, pos, old)
      else do { (pos1, str) \<leftarrow> decode_vstr buf data_len pos;
                Some (case str of None \<Rightarrow> (OB_ERROR, pos1, old) | Some s \<Rightarrow> (OB_SUCCESS, pos1, s)) })"

section \<open>Structures\<close>

text \<open>\<open>LST_DO_CODE(OB_UNIS_ENCODE, ...)\<close> and \<open>LST_DO_CODE(OB_UNIS_DECODE, ...)\<close>.\<close>

fun unis_encode :: "encoder list \<Rightarrow> encoder" where
  "unis_encode [] buf pos = Some (OB_SUCCESS, buf, pos)"
| "unis_encode (e # es) buf pos =
     do { (ret, buf1, pos1) \<leftarrow> e buf pos;
          if ret = OB_SUCCESS then unis_encode es buf1 pos1 else Some (ret, buf1, pos1) }"

fun unis_decode :: "'a decoder list \<Rightarrow> 'a decoder" where
  "unis_decode [] buf data_len pos obj = Some (OB_SUCCESS, pos, obj)"
| "unis_decode (d # ds) buf data_len pos obj =
     (if pos < data_len
      then do { (ret, pos1, obj1) \<leftarrow> d buf data_len pos obj;
                if ret = OB_SUCCESS then unis_decode ds buf data_len pos1 obj1 else Some (ret, pos1, obj1) }
      else unis_decode ds buf data_len pos obj)"

definition decode_member :: "('o \<Rightarrow> 'a) \<Rightarrow> ('a \<Rightarrow> 'o \<Rightarrow> 'o) \<Rightarrow> 'a decoder \<Rightarrow> 'o decoder" where
  "decode_member get upd d buf data_len pos obj =
     do { (ret, pos1, v) \<leftarrow> d buf data_len pos (get obj); Some (ret, pos1, upd v obj) }"

text \<open>\<open>OB_UNIS_SERIALIZE\<close>: the version, five bytes for the length, the members.\<close>

definition unis_serialize :: "64 word \<Rightarrow> encoder \<Rightarrow> encoder" where
  "unis_serialize version members buf pos =
     do { (ret, buf1, pos1) \<leftarrow> encode_vi64 version buf pos;
          if ret = OB_SUCCESS
          then let pos_bak = pos1 + OB_SERIALIZE_SIZE_NEED_BYTES
               in do { (ret2, buf2, pos2) \<leftarrow> members buf1 pos_bak;
                       if ret2 = OB_SUCCESS
                       then do { buf3 \<leftarrow> encode_fixed_bytes_i64 buf2 (pos_bak - OB_SERIALIZE_SIZE_NEED_BYTES)
                                   (of_nat (pos2 - pos_bak));
                                 Some (OB_SUCCESS, buf3, pos2) }
                       else Some (ret2, buf2, pos2) }
          else Some (ret, buf1, pos1) }"

text \<open>\<open>OB_UNIS_DESERIALIZE\<close>: the members are read from a message of the announced length.\<close>

definition unis_deserialize :: "64 word \<Rightarrow> 'a decoder \<Rightarrow> 'a decoder" where
  "unis_deserialize unis_version members buf data_len pos obj =
     do { (ret, pos1, version) \<leftarrow> (if pos < data_len then decode_uint64 buf data_len pos 0 else Some (OB_SUCCESS, pos, 0));
          (ret, pos2, len) \<leftarrow> (if ret = OB_SUCCESS \<and> pos1 < data_len then decode_uint64 buf data_len pos1 0
                               else Some (ret, pos1, 0));
          let ret2 = (if ret \<noteq> OB_SUCCESS then ret
                      else if version \<noteq> unis_version then OB_NOT_SUPPORTED
                      else if sint len < 0 then OB_ERR_UNEXPECTED
                      else if int data_len < sint len + int pos2 then OB_DESERIALIZE_ERROR
                      else OB_SUCCESS)
          in if ret2 = OB_SUCCESS
             then do { (ret3, _, obj1) \<leftarrow> members (drop pos2 buf) (unat len) 0 obj;
                       Some (ret3, pos2 + unat len, obj1) }
             else Some (ret2, pos2, obj) }"

definition unis_serialize_size :: "64 word \<Rightarrow> nat \<Rightarrow> nat" where
  "unis_serialize_size version members = members + encoded_length_vi64 version + OB_SERIALIZE_SIZE_NEED_BYTES"

section \<open>Arrays\<close>

text \<open>
  \<open>ObSEArrayImpl::serialize\<close>, \<open>deserialize\<close> and \<open>get_serialize_size\<close>. \<open>prepare_allocate\<close> constructs the elements
  (\<open>fresh\<close>) and allocates when they do not fit into the array of 16 elements of the object; \<open>mem_ok\<close> is the outcome.
\<close>

definition LOCAL_ARRAY_SIZE :: nat where
  "LOCAL_ARRAY_SIZE = 16"

definition array_serialize :: "('a \<Rightarrow> encoder) \<Rightarrow> 'a list \<Rightarrow> encoder" where
  "array_serialize enc xs buf pos =
     do { (ret, buf1, pos1) \<leftarrow> encode_vi64 (of_nat (length xs)) buf pos;
          if ret = OB_SUCCESS then unis_encode (map enc xs) buf1 pos1 else Some (ret, buf1, pos1) }"

fun array_items :: "'a decoder \<Rightarrow> 'a \<Rightarrow> nat \<Rightarrow> 'a list \<Rightarrow> 'a list decoder" where
  "array_items d fresh 0 acc buf data_len pos old = Some (OB_SUCCESS, pos, acc)"
| "array_items d fresh (Suc n) acc buf data_len pos old =
     do { (ret, pos1, v) \<leftarrow> d buf data_len pos fresh;
          if ret = OB_SUCCESS then array_items d fresh n (acc @ [v]) buf data_len pos1 old
          else Some (ret, pos1, acc @ v # replicate n fresh) }"

definition array_deserialize :: "(nat \<Rightarrow> bool) \<Rightarrow> 'a decoder \<Rightarrow> 'a \<Rightarrow> 'a list decoder" where
  "array_deserialize mem_ok d fresh buf data_len pos old =
     do { (ret, pos1, count) \<leftarrow> decode_vi64 buf data_len pos 0;
          if ret \<noteq> OB_SUCCESS then Some (ret, pos1, [])
          else if sint count \<le> 0 then Some (OB_SUCCESS, pos1, [])
          else if LOCAL_ARRAY_SIZE < unat count \<and> \<not> mem_ok (unat count) then Some (OB_ALLOCATE_MEMORY_FAILED, pos1, [])
          else array_items d fresh (unat count) [] buf data_len pos1 [] }"

definition array_serialize_size :: "('a \<Rightarrow> nat) \<Rightarrow> 'a list \<Rightarrow> nat" where
  "array_serialize_size elen xs = encoded_length_vi64 (of_nat (length xs)) + sum_list (map elen xs)"

section \<open>The bytes of an integer\<close>

function vi_bytes :: "'a::len word \<Rightarrow> byte list" where
  "vi_bytes v = (if v > OB_MAX_V1B then ucast (v OR 0x80) # vi_bytes (drop_bit 7 v) else [ucast (v AND 0x7f)])"
  by pat_completeness auto
termination
proof (relation "measure unat", goal_cases)
  case (2 v)
  then have "0 < unat v" by (metis OB_MAX_V1B_def gr_zeroI unat_eq_zero word_not_simps(1))
  then show ?case by (simp add: unat_drop_bit_div)
qed simp

declare vi_bytes.simps [simp del]

lemma vi_bytes_nonempty: "vi_bytes v \<noteq> []"
  by (simp add: vi_bytes.simps [of v])

lemma put_byte_append:
  "pos < length buf \<Longrightarrow> put_byte buf pos b = Some (take pos buf @ b # drop (Suc pos) buf)"
  by (simp add: put_byte_def upd_conv_take_nth_drop)

lemma encode_vi_loop_bytes:
  "pos + length (vi_bytes v) \<le> length buf \<Longrightarrow>
     encode_vi_loop v buf pos =
       Some (take pos buf @ vi_bytes v @ drop (pos + length (vi_bytes v)) buf, pos + length (vi_bytes v))"
proof (induction v arbitrary: buf pos rule: vi_bytes.induct)
  case (1 v)
  show ?case
  proof (cases "v > OB_MAX_V1B")
    case True
    then have B: "vi_bytes v = ucast (v OR 0x80) # vi_bytes (drop_bit 7 v)" by (simp add: vi_bytes.simps [of v])
    define buf1 where "buf1 = take pos buf @ ucast (v OR 0x80) # drop (Suc pos) buf"
    have len: "pos < length buf" "length buf1 = length buf" using "1.prems" by (simp_all add: B buf1_def)
    have "encode_vi_loop v buf pos = encode_vi_loop (drop_bit 7 v) buf1 (pos + 1)"
      using True len(1) by (simp add: encode_vi_loop.simps [of v] put_byte_append buf1_def)
    also have "\<dots> = Some (take (pos + 1) buf1 @ vi_bytes (drop_bit 7 v) @ drop (pos + 1 + length (vi_bytes (drop_bit 7 v))) buf1,
        pos + 1 + length (vi_bytes (drop_bit 7 v)))"
      using "1.prems" len by (intro "1.IH" [OF True]) (simp add: B)
    finally show ?thesis using len(1) by (simp add: B buf1_def add.commute)
  next
    case False
    then show ?thesis using "1.prems"
      by (simp add: encode_vi_loop.simps [of v] vi_bytes.simps [of v] put_byte_append)
  qed
qed

lemma OB_MAX_V1B_less:
  fixes v :: "'a::len word"
  assumes "7 < LENGTH('a)"
  shows "OB_MAX_V1B < v \<longleftrightarrow> 128 \<le> unat v"
proof -
  have "(2::nat) ^ 8 \<le> 2 ^ LENGTH('a)" using assms by (intro power_increasing) auto
  then have "unat (0x7f :: 'a word) = 127" by (simp add: unat_numeral take_bit_nat_eq_self)
  then show ?thesis unfolding OB_MAX_V1B_def word_less_nat_alt by linarith
qed

lemma length_vi_bytes_le:
  fixes v :: "'a::len word"
  assumes "7 < LENGTH('a)"
  shows "length (vi_bytes v) \<le> Suc n \<longleftrightarrow> unat v < 2 ^ (7 * Suc n)"
proof (induction n arbitrary: v)
  case 0
  show ?case
    using vi_bytes.simps [of "drop_bit 7 v"] OB_MAX_V1B_less [OF assms, of v] by (simp add: vi_bytes.simps [of v])
next
  case (Suc n)
  have "(2::nat) ^ 7 \<le> 2 ^ (7 * Suc (Suc n))" by (rule power_increasing) simp_all
  then have small: "unat v < 128 \<Longrightarrow> unat v < 2 ^ (7 * Suc (Suc n))" by simp
  have "(2::nat) ^ (7 * Suc (Suc n)) = 2 ^ (7 * Suc n) * 128" by (simp add: power_add)
  then have "unat v div 128 < 2 ^ (7 * Suc n) \<longleftrightarrow> unat v < 2 ^ (7 * Suc (Suc n))"
    by (simp only: div_less_iff_less_mult zero_less_numeral)
  then show ?case
    using Suc [of "drop_bit 7 v"] small
    by (simp add: vi_bytes.simps [of v] OB_MAX_V1B_less [OF assms] unat_drop_bit_div del: mult_Suc_right)
qed

lemma length_vi_bytes_bound:
  fixes v :: "'a::len word"
  assumes "7 < LENGTH('a)" and "unat m = 2 ^ (7 * Suc n) - 1"
  shows "v \<le> m \<longleftrightarrow> length (vi_bytes v) \<le> Suc n"
proof -
  have "0 < (2::nat) ^ (7 * Suc n)" by simp
  then show ?thesis unfolding word_le_nat_alt assms(2) length_vi_bytes_le [OF assms(1)] by linarith
qed

lemma encoded_length_vi64_bytes [simp]: "length (vi_bytes v) = encoded_length_vi64 v"
proof -
  let ?n = "length (vi_bytes v)"
  have "?n \<le> Suc 9" using unsigned_less [of v, where 'a = nat] by (subst length_vi_bytes_le) simp_all
  moreover have "0 < ?n" by (simp add: vi_bytes.simps [of v])
  ultimately have N: "?n = 1 \<or> ?n = 2 \<or> ?n = 3 \<or> ?n = 4 \<or> ?n = 5 \<or> ?n = 6 \<or> ?n = 7 \<or> ?n = 8 \<or> ?n = 9 \<or> ?n = 10" by presburger
  have T: "v \<le> 2 ^ 7 - 1 \<longleftrightarrow> ?n \<le> Suc 0" "v \<le> 2 ^ 14 - 1 \<longleftrightarrow> ?n \<le> Suc 1" "v \<le> 2 ^ 21 - 1 \<longleftrightarrow> ?n \<le> Suc 2"
    "v \<le> 2 ^ 28 - 1 \<longleftrightarrow> ?n \<le> Suc 3" "v \<le> 2 ^ 35 - 1 \<longleftrightarrow> ?n \<le> Suc 4" "v \<le> 2 ^ 42 - 1 \<longleftrightarrow> ?n \<le> Suc 5"
    "v \<le> 2 ^ 49 - 1 \<longleftrightarrow> ?n \<le> Suc 6" "v \<le> 2 ^ 56 - 1 \<longleftrightarrow> ?n \<le> Suc 7" "v \<le> 2 ^ 63 - 1 \<longleftrightarrow> ?n \<le> Suc 8"
    by (rule length_vi_bytes_bound; simp)+
  from N show ?thesis unfolding encoded_length_vi64_def T by (elim disjE) (simp_all del: length_0_conv)
qed

lemma encoded_length_vi32_bytes [simp]: "length (vi_bytes v) = encoded_length_vi32 v"
proof -
  let ?n = "length (vi_bytes v)"
  have "?n \<le> Suc 4" using unsigned_less [of v, where 'a = nat] by (subst length_vi_bytes_le) simp_all
  moreover have "0 < ?n" by (simp add: vi_bytes.simps [of v])
  ultimately have N: "?n = 1 \<or> ?n = 2 \<or> ?n = 3 \<or> ?n = 4 \<or> ?n = 5" by presburger
  have T: "v \<le> 2 ^ 7 - 1 \<longleftrightarrow> ?n \<le> Suc 0" "v \<le> 2 ^ 14 - 1 \<longleftrightarrow> ?n \<le> Suc 1" "v \<le> 2 ^ 21 - 1 \<longleftrightarrow> ?n \<le> Suc 2"
    "v \<le> 2 ^ 28 - 1 \<longleftrightarrow> ?n \<le> Suc 3"
    by (rule length_vi_bytes_bound; simp)+
  from N show ?thesis unfolding encoded_length_vi32_def T by (elim disjE) (simp_all del: length_0_conv)
qed

lemma encoded_length_bounds: "encoded_length_vi64 v \<le> 10" "0 < encoded_length_vi64 v"
  "encoded_length_vi32 w \<le> 5" "0 < encoded_length_vi32 w"
  by (simp_all add: encoded_length_vi64_def encoded_length_vi32_def)

text \<open>What the decoder makes of bytes of which all but the last have the high bit set.\<close>

fun vi_value :: "byte list \<Rightarrow> 'a::len word" where
  "vi_value [] = 0"
| "vi_value (b # bs) = (ucast b AND 0x7f) OR push_bit 7 (vi_value bs)"

fun vi_wf :: "byte list \<Rightarrow> bool" where
  "vi_wf [] \<longleftrightarrow> False"
| "vi_wf [b] \<longleftrightarrow> \<not> bit b 7"
| "vi_wf (b # bs) \<longleftrightarrow> bit b 7 \<and> vi_wf bs"

lemma take_Cons_nth: "take (Suc n) (drop pos buf) = b # bs \<Longrightarrow> pos < length buf \<and> buf ! pos = b \<and> take n (drop (Suc pos) buf) = bs"
proof -
  assume A: "take (Suc n) (drop pos buf) = b # bs"
  then have "pos < length buf" by (cases "pos < length buf") simp_all
  then show ?thesis using A by (simp add: Cons_nth_drop_Suc [symmetric])
qed

lemma decode_vi_loop_value:
  "vi_wf bs \<Longrightarrow> take (length bs) (drop pos buf) = bs \<Longrightarrow> pos + length bs \<le> data_len \<Longrightarrow>
   shift + 7 * (length bs - 1) < LENGTH('a) \<Longrightarrow>
     decode_vi_loop buf data_len pos (acc :: 'a::len word) shift =
       Some (OB_SUCCESS, pos + length bs, acc OR push_bit shift (vi_value bs))"
proof (induction bs arbitrary: pos acc shift rule: vi_wf.induct)
  case (2 b)
  then show ?case using take_Cons_nth [of 0 pos buf b "[]"] by (simp add: decode_vi_loop.simps [of buf])
next
  case (3 b c cs)
  let ?acc = "acc OR push_bit shift (ucast b AND 0x7f)"
  have A: "pos < length buf" "buf ! pos = b" "take (length (c # cs)) (drop (pos + 1) buf) = c # cs"
    using take_Cons_nth [of "length (c # cs)" pos buf b "c # cs"] "3.prems"(2) by simp_all
  have "decode_vi_loop buf data_len (pos + 1) ?acc (shift + 7) =
      Some (OB_SUCCESS, pos + 1 + length (c # cs), ?acc OR push_bit (shift + 7) (vi_value (c # cs)))"
    using "3.prems" A by (intro "3.IH") simp_all
  moreover have "decode_vi_loop buf data_len pos acc shift = decode_vi_loop buf data_len (pos + 1) ?acc (shift + 7)"
    using "3.prems" A by (subst decode_vi_loop.simps) simp
  ultimately show ?case
    by (simp del: vi_value.simps add: vi_value.simps(2) [of b] push_bit_or push_bit_push_bit or.assoc add.commute)
qed simp

lemma bit_0x80: "bit (0x80 :: int) n \<longleftrightarrow> n = 7"
proof -
  have "(0x80 :: int) = 2 ^ 7" by simp
  then show ?thesis by (simp only: bit_exp_iff) auto
qed

lemma bit_0x7f: "bit (0x7f :: int) n \<longleftrightarrow> n < 7"
proof -
  have "(0x7f :: int) = mask 7" by (simp add: mask_eq_exp_minus_1)
  then show ?thesis by (simp only: bit_mask_iff) simp
qed

lemmas bit_7 = bit_0x80 bit_0x7f bit_or_iff bit_and_iff bit_ucast_iff bit_push_bit_iff bit_drop_bit_eq possible_bit_word

lemma low_bits: "(ucast (ucast (v OR 0x80) :: byte) AND 0x7f) OR push_bit 7 (drop_bit 7 v) = (v :: 'a::len word)"
  (is "?l = v")
proof (rule bit_word_eqI)
  fix n
  assume "n < LENGTH('a)"
  then show "bit ?l n = bit v n" by (cases "n < 7") (simp_all add: bit_7)
qed

lemma low_bits_last: "ucast (ucast (v AND 0x7f) :: byte) AND 0x7f = v AND (0x7f :: 'a::len word)"
  by (rule bit_word_eqI) (auto simp: bit_7)

lemma flag_bits: "7 < LENGTH('a) \<Longrightarrow> bit (ucast (v OR 0x80 :: 'a::len word) :: byte) 7" "\<not> bit (ucast (v AND 0x7f :: 'a word) :: byte) 7"
  by (simp_all add: bit_7)

lemma and_7f_id:
  assumes "unat v < 128"
  shows "v AND 0x7f = v"
proof -
  have "unat (take_bit 7 v) = unat v" using assms by (simp add: unsigned_take_bit_eq take_bit_nat_eq_self)
  then have "v AND mask 7 = v" by (simp only: unsigned_word_eqI take_bit_eq_mask [symmetric])
  then show ?thesis by (simp add: mask_eq_exp_minus_1)
qed

lemma vi_bytes_value:
  fixes v :: "'a::len word"
  assumes "7 < LENGTH('a)"
  shows "vi_value (vi_bytes v) = v \<and> vi_wf (vi_bytes v)"
proof (induction v rule: vi_bytes.induct)
  case (1 v)
  obtain c cs where C: "vi_bytes (drop_bit 7 v) = c # cs" by (meson neq_Nil_conv vi_bytes_nonempty)
  show ?case
  proof (cases "v > OB_MAX_V1B")
    case True
    then have "vi_bytes v = ucast (v OR 0x80) # c # cs" by (simp add: vi_bytes.simps [of v] C)
    then show ?thesis
      using "1.IH" [OF True] flag_bits(1) [OF assms, of v] low_bits [of v]
      by (simp del: vi_value.simps add: vi_value.simps(2) [of "ucast (v OR 0x80)"] C)
  next
    case False
    then have "unat v < 128" using OB_MAX_V1B_less [OF assms, of v] by simp
    then show ?thesis
      using False flag_bits(2) [of v] and_7f_id [of v] low_bits_last [of v]
      by (simp add: vi_bytes.simps [of v])
  qed
qed

section \<open>The contract of a format\<close>

text \<open>
  \<open>writes e bs\<close>: the encoder \<open>e\<close> puts the bytes \<open>bs\<close> at the position, or refuses a buffer without room for them and
  leaves its length as it is. \<open>reads d bs old new\<close>: the decoder \<open>d\<close> turns the object \<open>old\<close> into \<open>new\<close> when it finds
  \<open>bs\<close> at the position.
\<close>

definition writes :: "encoder \<Rightarrow> byte list \<Rightarrow> bool" where
  "writes e bs \<longleftrightarrow>
     (\<forall>buf pos. pos + length bs \<le> length buf \<longrightarrow>
        e buf pos = Some (OB_SUCCESS, take pos buf @ bs @ drop (pos + length bs) buf, pos + length bs)) \<and>
     (\<forall>buf pos. length buf < pos + length bs \<and> bs \<noteq> [] \<longrightarrow>
        (\<exists>buf1 pos1. e buf pos = Some (OB_SIZE_OVERFLOW, buf1, pos1) \<and> length buf1 = length buf))"

definition reads :: "'a decoder \<Rightarrow> byte list \<Rightarrow> 'a \<Rightarrow> 'a \<Rightarrow> bool" where
  "reads d bs old new \<longleftrightarrow>
     (\<forall>buf data_len pos. take (length bs) (drop pos buf) = bs \<and> pos + length bs \<le> data_len \<and> data_len \<le> length buf \<longrightarrow>
        d buf data_len pos old = Some (OB_SUCCESS, pos + length bs, new))"

lemma writesI:
  assumes "\<And>buf pos. pos + length bs \<le> length buf \<Longrightarrow>
      e buf pos = Some (OB_SUCCESS, take pos buf @ bs @ drop (pos + length bs) buf, pos + length bs)"
    and "\<And>buf pos. length buf < pos + length bs \<Longrightarrow> bs \<noteq> [] \<Longrightarrow>
      \<exists>buf1 pos1. e buf pos = Some (OB_SIZE_OVERFLOW, buf1, pos1) \<and> length buf1 = length buf"
  shows "writes e bs"
  using assms by (simp add: writes_def)

lemma writes_room:
  "writes e bs \<Longrightarrow> pos + length bs \<le> length buf \<Longrightarrow>
     e buf pos = Some (OB_SUCCESS, take pos buf @ bs @ drop (pos + length bs) buf, pos + length bs)"
  by (simp add: writes_def)

lemma writes_full:
  "writes e bs \<Longrightarrow> length buf < pos + length bs \<Longrightarrow> bs \<noteq> [] \<Longrightarrow>
     \<exists>buf1 pos1. e buf pos = Some (OB_SIZE_OVERFLOW, buf1, pos1) \<and> length buf1 = length buf"
  by (simp add: writes_def)

lemma readsI:
  "(\<And>buf data_len pos. take (length bs) (drop pos buf) = bs \<Longrightarrow> pos + length bs \<le> data_len \<Longrightarrow> data_len \<le> length buf \<Longrightarrow>
      d buf data_len pos old = Some (OB_SUCCESS, pos + length bs, new)) \<Longrightarrow> reads d bs old new"
  by (simp add: reads_def)

lemma readsD:
  "reads d bs old new \<Longrightarrow> take (length bs) (drop pos buf) = bs \<Longrightarrow> pos + length bs \<le> data_len \<Longrightarrow> data_len \<le> length buf \<Longrightarrow>
      d buf data_len pos old = Some (OB_SUCCESS, pos + length bs, new)"
  by (simp add: reads_def)

lemma take_append_drop:
  assumes "take (length (as @ bs)) (drop pos buf) = as @ bs"
  shows "take (length as) (drop pos buf) = as" and "take (length bs) (drop (pos + length as) buf) = bs"
proof -
  have "take (length as) (take (length (as @ bs)) (drop pos buf)) = as" unfolding assms by simp
  then show "take (length as) (drop pos buf) = as" by (simp add: min_def)
  have "drop (length as) (take (length (as @ bs)) (drop pos buf)) = bs" unfolding assms by simp
  then show "take (length bs) (drop (pos + length as) buf) = bs" by (simp add: drop_take add.commute)
qed

lemma writes_vi64: "writes (encode_vi64 v) (vi_bytes v)"
  by (rule writesI) (auto simp: encode_vi64_def encode_vi_loop_bytes)

lemma writes_vi32: "writes (encode_vi32 v) (vi_bytes v)"
  by (rule writesI) (auto simp: encode_vi32_def encode_vi_loop_bytes)

lemma reads_vi_value:
  assumes "vi_wf bs" and "7 * (length bs - 1) < LENGTH('a::len)"
  shows "reads (decode_vi :: 'a word decoder) bs old (vi_value bs)"
  by (rule readsI) (use assms in \<open>simp add: decode_vi_def decode_vi_loop_value [where bs = bs]\<close>)

lemma reads_vi64: "reads decode_vi64 (vi_bytes (v :: 64 word)) old v"
proof -
  have "reads (decode_vi :: 64 word decoder) (vi_bytes v) old (vi_value (vi_bytes v))"
    using encoded_length_bounds(1) [of v] vi_bytes_value [of v] by (intro reads_vi_value) simp_all
  then show ?thesis using vi_bytes_value [of v] by (simp add: decode_vi64_def)
qed

lemma reads_vi32: "reads decode_vi32 (vi_bytes (v :: 32 word)) old v"
proof -
  have "reads (decode_vi :: 32 word decoder) (vi_bytes v) old (vi_value (vi_bytes v))"
    using encoded_length_bounds(3) [of v] vi_bytes_value [of v] by (intro reads_vi_value) simp_all
  then show ?thesis using vi_bytes_value [of v] by (simp add: decode_vi32_def)
qed

section \<open>Members of a structure\<close>

lemma writes_Nil: "writes (unis_encode []) []"
  by (rule writesI) simp_all

lemma writes_append:
  assumes "writes e as" and "writes f bs" and "as \<noteq> []"
    and "\<And>buf pos. g buf pos = do { (ret, buf1, pos1) \<leftarrow> e buf pos; if ret = OB_SUCCESS then f buf1 pos1 else Some (ret, buf1, pos1) }"
  shows "writes g (as @ bs)"
proof (rule writesI)
  fix buf :: "byte list" and pos
  assume A: "pos + length (as @ bs) \<le> length buf"
  let ?buf = "take pos buf @ as @ drop (pos + length as) buf"
  have "e buf pos = Some (OB_SUCCESS, ?buf, pos + length as)" using A by (intro writes_room [OF assms(1)]) simp
  moreover have "f ?buf (pos + length as) =
      Some (OB_SUCCESS, take (pos + length as) ?buf @ bs @ drop (pos + length as + length bs) ?buf, pos + length as + length bs)"
    using A by (intro writes_room [OF assms(2)]) simp
  ultimately show "g buf pos = Some (OB_SUCCESS, take pos buf @ (as @ bs) @ drop (pos + length (as @ bs)) buf, pos + length (as @ bs))"
    using A by (simp add: assms(4) add.commute add.left_commute)
next
  fix buf :: "byte list" and pos
  assume A: "length buf < pos + length (as @ bs)"
  show "\<exists>buf1 pos1. g buf pos = Some (OB_SIZE_OVERFLOW, buf1, pos1) \<and> length buf1 = length buf"
  proof (cases "pos + length as \<le> length buf")
    case True
    let ?buf = "take pos buf @ as @ drop (pos + length as) buf"
    have len: "length ?buf = length buf" using True by simp
    then obtain buf1 pos1 where "f ?buf (pos + length as) = Some (OB_SIZE_OVERFLOW, buf1, pos1)" "length buf1 = length buf"
      using writes_full [OF assms(2), of ?buf "pos + length as"] A True by fastforce
    then show ?thesis using writes_room [OF assms(1) True] by (simp add: assms(4))
  next
    case False
    then obtain buf1 pos1 where "e buf pos = Some (OB_SIZE_OVERFLOW, buf1, pos1)" "length buf1 = length buf"
      using writes_full [OF assms(1), of buf pos] assms(3) by auto
    then show ?thesis by (simp add: assms(4))
  qed
qed

lemma writes_Cons:
  "writes e bs \<Longrightarrow> bs \<noteq> [] \<Longrightarrow> writes (unis_encode es) cs \<Longrightarrow> writes (unis_encode (e # es)) (bs @ cs)"
  by (rule writes_append) simp_all

lemma writes_unis:
  "list_all2 (\<lambda>e bs. writes e bs \<and> bs \<noteq> []) es bss \<Longrightarrow> writes (unis_encode es) (concat bss)"
  by (induction rule: list_all2_induct) (auto intro: writes_Nil writes_Cons simp del: unis_encode.simps)

lemma reads_Nil: "reads (unis_decode []) [] obj obj"
  by (rule readsI) simp

lemma reads_Cons:
  assumes "reads d bs old mid" and "bs \<noteq> []" and "reads (unis_decode ds) cs mid new"
  shows "reads (unis_decode (d # ds)) (bs @ cs) old new"
proof (rule readsI)
  fix buf data_len pos
  assume A: "take (length (bs @ cs)) (drop pos buf) = bs @ cs" "pos + length (bs @ cs) \<le> data_len" "data_len \<le> length buf"
  have "d buf data_len pos old = Some (OB_SUCCESS, pos + length bs, mid)"
    using A take_append_drop [OF A(1)] by (intro readsD [OF assms(1)]) simp_all
  moreover have "unis_decode ds buf data_len (pos + length bs) mid = Some (OB_SUCCESS, pos + length bs + length cs, new)"
    using A take_append_drop [OF A(1)] by (intro readsD [OF assms(3)]) simp_all
  moreover have "pos < data_len" using A(2) assms(2) by (cases bs) simp_all
  ultimately show "unis_decode (d # ds) buf data_len pos old = Some (OB_SUCCESS, pos + length (bs @ cs), new)" by simp
qed

lemma reads_member_Cons:
  assumes "reads d bs (get obj) v" and "bs \<noteq> []" and "reads (unis_decode ds) cs (upd v obj) new"
  shows "reads (unis_decode (decode_member get upd d # ds)) (bs @ cs) obj new"
proof -
  have "reads (decode_member get upd d) bs obj (upd v obj)"
    by (rule readsI) (use assms(1) in \<open>simp add: decode_member_def readsD\<close>)
  then show ?thesis using assms(2,3) by (rule reads_Cons)
qed

section \<open>The header of a structure\<close>

fun fixed_list :: "nat \<Rightarrow> 64 word \<Rightarrow> byte list" where
  "fixed_list 0 v = []"
| "fixed_list (Suc n) v = (if 0 < n then ucast (v OR 0x80) # fixed_list n (drop_bit 7 v) else [ucast (v AND 0x7f)])"

lemma length_fixed_list [simp]: "length (fixed_list n v) = n"
  by (induction n v rule: fixed_list.induct) auto

lemma fixed_bytes_loop_list:
  "pos + n \<le> length buf \<Longrightarrow>
     fixed_bytes_loop n v buf pos = Some (take pos buf @ fixed_list n v @ drop (pos + n) buf, pos + n)"
proof (induction n v arbitrary: buf pos rule: fixed_list.induct)
  case (2 n v)
  show ?case
  proof (cases "0 < n")
    case True
    let ?buf = "take pos buf @ ucast (v OR 0x80) # drop (Suc pos) buf"
    have len: "pos < length buf" "pos + 1 + n \<le> length ?buf" using "2.prems" by simp_all
    have "fixed_bytes_loop n (drop_bit 7 v) ?buf (pos + 1) =
        Some (take (pos + 1) ?buf @ fixed_list n (drop_bit 7 v) @ drop (pos + 1 + n) ?buf, pos + 1 + n)"
      using True len(2) by (rule "2.IH")
    then show ?thesis using True len(1) by (simp add: put_byte_append add.commute)
  next
    case False
    then show ?thesis using "2.prems" by (simp add: put_byte_append)
  qed
qed simp

lemma fixed_list_value:
  "unat v < 2 ^ (7 * Suc n) \<Longrightarrow> vi_value (fixed_list (Suc n) v) = v \<and> vi_wf (fixed_list (Suc n) v)"
proof (induction n arbitrary: v)
  case 0
  then show ?case using flag_bits(2) [of v] and_7f_id [of v] low_bits_last [of v] by simp
next
  case (Suc n)
  obtain c cs where C: "fixed_list (Suc n) (drop_bit 7 v) = c # cs"
    by (cases "fixed_list (Suc n) (drop_bit 7 v)") (metis length_fixed_list list.size(3) nat.distinct(1), blast)
  have "(2::nat) ^ (7 * Suc (Suc n)) = 2 ^ (7 * Suc n) * 128" by (simp add: power_add)
  then have "unat v div 128 < 2 ^ (7 * Suc n)" using Suc.prems by (simp only: div_less_iff_less_mult zero_less_numeral)
  then have "unat (drop_bit 7 v) < 2 ^ (7 * Suc n)" by (simp add: unat_drop_bit_div)
  then have "vi_value (c # cs) = drop_bit 7 v" "vi_wf (c # cs)" using Suc.IH [of "drop_bit 7 v"] by (simp_all only: C)
  moreover have "fixed_list (Suc (Suc n)) v = ucast (v OR 0x80) # c # cs" using C by simp
  ultimately show ?case
    using flag_bits(1) [of v] low_bits [of v]
    by (simp del: vi_value.simps fixed_list.simps add: vi_value.simps(2) [of "ucast (v OR 0x80)"])
qed

definition unis_bytes :: "64 word \<Rightarrow> byte list \<Rightarrow> byte list" where
  "unis_bytes version bs = vi_bytes version @ fixed_list OB_SERIALIZE_SIZE_NEED_BYTES (of_nat (length bs)) @ bs"

lemma length_unis_bytes [simp]: "length (unis_bytes version bs) = unis_serialize_size version (length bs)"
  by (simp add: unis_bytes_def unis_serialize_size_def)

lemma unis_bytes_nonempty [simp]: "unis_bytes version bs \<noteq> []"
  by (simp add: unis_bytes_def vi_bytes_nonempty)

lemma writes_unis_serialize:
  assumes m: "writes m bs" and ne: "bs \<noteq> []"
  shows "writes (unis_serialize version m) (unis_bytes version bs)"
proof (rule writesI)
  fix buf :: "byte list" and pos
  let ?v = "vi_bytes version"
  define pos1 where "pos1 = pos + length ?v"
  define buf1 where "buf1 = take pos buf @ ?v @ drop pos1 buf"
  define buf2 where "buf2 = take (pos1 + 5) buf1 @ bs @ drop (pos1 + 5 + length bs) buf1"
  assume "pos + length (unis_bytes version bs) \<le> length buf"
  then have A: "pos1 + 5 + length bs \<le> length buf"
    by (simp add: unis_serialize_size_def pos1_def OB_SERIALIZE_SIZE_NEED_BYTES_def)
  then have len: "length buf1 = length buf" "length buf2 = length buf" by (simp_all add: buf1_def buf2_def pos1_def)
  have "encode_vi64 version buf pos = Some (OB_SUCCESS, buf1, pos1)"
    unfolding buf1_def pos1_def using A by (intro writes_room [OF writes_vi64]) (simp add: pos1_def)
  moreover have "m buf1 (pos1 + 5) = Some (OB_SUCCESS, buf2, pos1 + 5 + length bs)"
    unfolding buf2_def using A len by (intro writes_room [OF m]) simp
  moreover have "fixed_bytes_loop 5 (of_nat (length bs)) buf2 pos1 =
      Some (take pos1 buf2 @ fixed_list 5 (of_nat (length bs)) @ drop (pos1 + 5) buf2, pos1 + 5)"
    using A len by (intro fixed_bytes_loop_list) simp
  ultimately have "unis_serialize version m buf pos =
      Some (OB_SUCCESS, take pos1 buf2 @ fixed_list 5 (of_nat (length bs)) @ drop (pos1 + 5) buf2, pos1 + 5 + length bs)"
    by (simp add: unis_serialize_def OB_SERIALIZE_SIZE_NEED_BYTES_def encode_fixed_bytes_i64_def Let_def)
  moreover have "take pos1 buf2 = take pos buf @ ?v" using A by (simp add: buf2_def buf1_def pos1_def)
  moreover have "drop (pos1 + 5) buf2 = bs @ drop (pos1 + 5 + length bs) buf"
    using A by (simp add: buf2_def buf1_def pos1_def add.commute add.left_commute)
  ultimately show "unis_serialize version m buf pos = Some (OB_SUCCESS,
      take pos buf @ unis_bytes version bs @ drop (pos + length (unis_bytes version bs)) buf, pos + length (unis_bytes version bs))"
    by (simp add: unis_bytes_def unis_serialize_size_def OB_SERIALIZE_SIZE_NEED_BYTES_def pos1_def add_ac)
next
  fix buf :: "byte list" and pos
  assume A: "length buf < pos + length (unis_bytes version bs)"
  let ?v = "vi_bytes version"
  show "\<exists>buf1 pos1. unis_serialize version m buf pos = Some (OB_SIZE_OVERFLOW, buf1, pos1) \<and> length buf1 = length buf"
  proof (cases "pos + length ?v \<le> length buf")
    case True
    let ?buf = "take pos buf @ ?v @ drop (pos + length ?v) buf"
    have "length ?buf = length buf" using True by simp
    moreover have "length buf < pos + length ?v + 5 + length bs"
      using A by (simp add: unis_serialize_size_def OB_SERIALIZE_SIZE_NEED_BYTES_def)
    ultimately have "length ?buf < (pos + length ?v + 5) + length bs" by linarith
    then obtain buf1 pos1 where "m ?buf (pos + length ?v + 5) = Some (OB_SIZE_OVERFLOW, buf1, pos1)" "length buf1 = length ?buf"
      using writes_full [OF m _ ne] by blast
    then have "m ?buf (pos + length ?v + 5) = Some (OB_SIZE_OVERFLOW, buf1, pos1)" "length buf1 = length buf"
      using \<open>length ?buf = length buf\<close> by simp_all
    then show ?thesis
      using writes_room [OF writes_vi64 True] by (simp add: unis_serialize_def OB_SERIALIZE_SIZE_NEED_BYTES_def Let_def)
  next
    case False
    then obtain buf1 pos1 where "encode_vi64 version buf pos = Some (OB_SIZE_OVERFLOW, buf1, pos1)" "length buf1 = length buf"
      using writes_full [OF writes_vi64, of buf pos version] vi_bytes_nonempty [of version] by auto
    then show ?thesis by (simp add: unis_serialize_def)
  qed
qed

lemma sint_of_nat_small: "n < 2 ^ 63 \<Longrightarrow> sint (of_nat n :: 64 word) = int n" "n < 2 ^ 63 \<Longrightarrow> unat (of_nat n :: 64 word) = n"
proof -
  assume A: "n < 2 ^ 63"
  have "sint (word_of_int (int n) :: 64 word) = int n"
    using A by (subst sint_sbintrunc') (simp add: signed_take_bit_int_eq_self)
  then show "sint (of_nat n :: 64 word) = int n" by simp
  show "unat (of_nat n :: 64 word) = n" using A by (simp add: unat_of_nat take_bit_nat_eq_self)
qed

lemma reads_unis_deserialize:
  assumes m: "reads m bs old new" and len: "length bs < 2 ^ 35"
  shows "reads (unis_deserialize version m) (unis_bytes version bs) old new"
proof (rule readsI)
  fix buf data_len pos
  let ?v = "vi_bytes version" and ?n = "of_nat (length bs) :: 64 word"
  let ?f = "fixed_list 5 ?n"
  assume A: "take (length (unis_bytes version bs)) (drop pos buf) = unis_bytes version bs"
    "pos + length (unis_bytes version bs) \<le> data_len" "data_len \<le> length buf"
  have B: "unis_bytes version bs = ?v @ ?f @ bs" by (simp add: unis_bytes_def OB_SERIALIZE_SIZE_NEED_BYTES_def)
  have T: "take (length ?v) (drop pos buf) = ?v" "take (length ?f) (drop (pos + length ?v) buf) = ?f"
    "take (length bs) (drop (pos + length ?v + 5) buf) = bs"
    using take_append_drop [OF A(1) [unfolded B]] take_append_drop [of ?f bs "pos + length ?v" buf] by simp_all
  have L: "pos + length ?v + 5 + length bs \<le> data_len" using A(2) by (simp add: B)
  have n: "unat ?n = length bs" "sint ?n = int (length bs)" using len by (simp_all add: sint_of_nat_small)
  then have "vi_value ?f = ?n" "vi_wf ?f" using len fixed_list_value [of ?n 4] by simp_all
  then have "reads decode_vi64 ?f 0 ?n" using reads_vi_value [of ?f, where 'a = 64] by (simp add: decode_vi64_def)
  then have "decode_uint64 buf data_len (pos + length ?v) 0 = Some (OB_SUCCESS, pos + length ?v + 5, ?n)"
    unfolding decode_uint64_def using T(2) L A(3) by (subst readsD [where bs = ?f]) simp_all
  moreover have "decode_uint64 buf data_len pos 0 = Some (OB_SUCCESS, pos + length ?v, version)"
    unfolding decode_uint64_def using T(1) L A(3) by (intro readsD [OF reads_vi64]) simp_all
  moreover have "m (drop (pos + length ?v + 5) buf) (length bs) 0 old = Some (OB_SUCCESS, 0 + length bs, new)"
    using T(3) L A(3) by (intro readsD [OF m]) simp_all
  ultimately show "unis_deserialize version m buf data_len pos old = Some (OB_SUCCESS, pos + length (unis_bytes version bs), new)"
    using L n by (simp add: unis_deserialize_def B Let_def)
qed

section \<open>Types that can be sent\<close>

text \<open>The contract of one type of values, with \<open>ok\<close> the values the format covers.\<close>

locale codec =
  fixes ok :: "'a \<Rightarrow> bool" and enc :: "'a \<Rightarrow> encoder" and dec :: "'a decoder" and elen :: "'a \<Rightarrow> nat" and bytes :: "'a \<Rightarrow> byte list"
  assumes bytes_len: "ok v \<Longrightarrow> length (bytes v) = elen v"
    and bytes_nonempty: "ok v \<Longrightarrow> bytes v \<noteq> []"
    and enc_writes: "ok v \<Longrightarrow> writes (enc v) (bytes v)"
    and dec_reads: "ok v \<Longrightarrow> reads dec (bytes v) old v"
begin

text \<open>A value written into a buffer of exactly its size fills it and is read back.\<close>

lemma roundtrip:
  assumes "ok v" and "length buf = elen v"
  shows "enc v buf 0 = Some (OB_SUCCESS, bytes v, elen v)" and "dec (bytes v) (elen v) 0 old = Some (OB_SUCCESS, elen v, v)"
  using writes_room [OF enc_writes [OF assms(1)], of 0 buf] readsD [OF dec_reads [OF assms(1)], of 0 "bytes v" "elen v" old] assms
  by (simp_all add: bytes_len)

lemma refuses_small_buffer:
  assumes "ok v" and "length buf < pos + elen v"
  shows "\<exists>buf1 pos1. enc v buf pos = Some (OB_SIZE_OVERFLOW, buf1, pos1) \<and> length buf1 = length buf"
  using writes_full [OF enc_writes [OF assms(1)] _ bytes_nonempty [OF assms(1)]] assms by (simp add: bytes_len)

lemma writes_items: "list_all ok xs \<Longrightarrow> writes (unis_encode (map enc xs)) (concat (map bytes xs))"
  by (rule writes_unis) (simp add: list_all2_map1 list_all2_map2 list_all2_same list_all_iff enc_writes bytes_nonempty)

lemma items_read:
  assumes "list_all ok xs" and "take (length (concat (map bytes xs))) (drop pos buf) = concat (map bytes xs)"
    and "pos + length (concat (map bytes xs)) \<le> data_len" and "data_len \<le> length buf"
  shows "array_items dec fresh (length xs) acc buf data_len pos old =
    Some (OB_SUCCESS, pos + length (concat (map bytes xs)), acc @ xs)"
  using assms(1-3)
proof (induction xs arbitrary: acc pos)
  case (Cons x xs)
  have T: "take (length (bytes x)) (drop pos buf) = bytes x"
    "take (length (concat (map bytes xs))) (drop (pos + length (bytes x)) buf) = concat (map bytes xs)"
    using take_append_drop [of "bytes x" "concat (map bytes xs)" pos buf] Cons.prems(2) by simp_all
  have "dec buf data_len pos fresh = Some (OB_SUCCESS, pos + length (bytes x), x)"
    using Cons.prems T assms(4) by (intro readsD [OF dec_reads]) simp_all
  moreover have "array_items dec fresh (length xs) (acc @ [x]) buf data_len (pos + length (bytes x)) old =
      Some (OB_SUCCESS, pos + length (bytes x) + length (concat (map bytes xs)), (acc @ [x]) @ xs)"
    using Cons.prems T by (intro Cons.IH) simp_all
  ultimately show ?case by simp
qed simp

definition array_ok :: "(nat \<Rightarrow> bool) \<Rightarrow> 'a list \<Rightarrow> bool" where
  "array_ok mem_ok xs \<longleftrightarrow>
     list_all ok xs \<and> length xs < 2 ^ 63 \<and> (length xs \<le> LOCAL_ARRAY_SIZE \<or> mem_ok (length xs))"

definition array_bytes :: "'a list \<Rightarrow> byte list" where
  "array_bytes xs = vi_bytes (of_nat (length xs) :: 64 word) @ concat (map bytes xs)"

lemma length_array_bytes: "list_all ok xs \<Longrightarrow> length (array_bytes xs) = array_serialize_size elen xs"
  unfolding array_bytes_def array_serialize_size_def
  by (induction xs) (simp_all add: bytes_len length_concat comp_def)

lemma array_reads:
  assumes "array_ok mem_ok xs"
  shows "reads (array_deserialize mem_ok dec fresh) (array_bytes xs) old xs"
proof (rule readsI)
  fix buf data_len pos
  let ?n = "of_nat (length xs) :: 64 word"
  let ?v = "vi_bytes ?n" and ?bs = "concat (map bytes xs)"
  assume A: "take (length (array_bytes xs)) (drop pos buf) = array_bytes xs"
    "pos + length (array_bytes xs) \<le> data_len" "data_len \<le> length buf"
  have T: "take (length ?v) (drop pos buf) = ?v" "take (length ?bs) (drop (pos + length ?v) buf) = ?bs"
    using take_append_drop [OF A(1) [unfolded array_bytes_def]] by simp_all
  have L: "pos + length ?v + length ?bs \<le> data_len" using A(2) by (simp add: array_bytes_def)
  have n: "sint ?n = int (length xs)" "unat ?n = length xs"
    using assms by (simp_all add: array_ok_def sint_of_nat_small)
  have "decode_vi64 buf data_len pos 0 = Some (OB_SUCCESS, pos + length ?v, ?n)"
    using T(1) L A(3) by (intro readsD [OF reads_vi64]) simp_all
  moreover have "array_items dec fresh (length xs) [] buf data_len (pos + length ?v) [] =
      Some (OB_SUCCESS, pos + length ?v + length ?bs, [] @ xs)"
    using T(2) L A(3) assms by (intro items_read) (simp_all add: array_ok_def)
  ultimately show "array_deserialize mem_ok dec fresh buf data_len pos old = Some (OB_SUCCESS, pos + length (array_bytes xs), xs)"
    using assms n by (cases "xs = []") (auto simp: array_deserialize_def array_ok_def array_bytes_def not_le not_less)
qed

text \<open>Arrays of such values can be sent as well.\<close>

lemma array_codec:
  "codec (array_ok mem_ok) (array_serialize enc) (array_deserialize mem_ok dec fresh) (array_serialize_size elen) array_bytes"
proof
  fix xs :: "'a list" and old
  assume A: "array_ok mem_ok xs"
  then have B: "list_all ok xs" by (simp add: array_ok_def)
  show "length (array_bytes xs) = array_serialize_size elen xs" using B by (rule length_array_bytes)
  show "array_bytes xs \<noteq> []" by (simp add: array_bytes_def vi_bytes_nonempty)
  show "writes (array_serialize enc xs) (array_bytes xs)"
    unfolding array_bytes_def using writes_vi64 writes_items [OF B] vi_bytes_nonempty
    by (rule writes_append) (simp add: array_serialize_def)
  show "reads (array_deserialize mem_ok dec fresh) (array_bytes xs) old xs" using A by (rule array_reads)
qed

end

section \<open>The formats\<close>

interpretation u64: codec "\<lambda>_. True" encode_vi64 decode_uint64 encoded_length_vi64 vi_bytes
proof
  fix v old :: "64 word"
  show "reads decode_uint64 (vi_bytes v) old v"
    using reads_vi64 [of v 0] by (simp add: reads_def decode_uint64_def)
qed (simp_all add: vi_bytes_nonempty writes_vi64)

definition i32_ok :: "int \<Rightarrow> bool" where
  "i32_ok v \<longleftrightarrow> - 2147483648 \<le> v \<and> v < 2147483648"

interpretation i32: codec i32_ok encode_int32 decode_int32 "\<lambda>v. encoded_length_vi32 (word_of_int v)" "\<lambda>v. vi_bytes (word_of_int v :: 32 word)"
proof
  fix v old :: int
  assume "i32_ok v"
  then have "sint (word_of_int v :: 32 word) = v" using to_i32_id [of v] by (simp add: i32_ok_def to_i32_def)
  then show "reads decode_int32 (vi_bytes (word_of_int v :: 32 word)) old v"
    using reads_vi32 [of "word_of_int v" 0] by (simp add: reads_def decode_int32_def)
qed (simp_all add: vi_bytes_nonempty writes_vi32 encode_int32_def)

interpretation bool: codec "\<lambda>_. True" encode_bool decode_bool "\<lambda>_. 1" "\<lambda>v. [if v then 1 else 0]"
proof
  fix v old :: bool
  show "writes (encode_bool v) [if v then 1 else 0]"
    by (rule writesI) (auto simp: encode_bool_def put_byte_append)
  show "reads decode_bool [if v then 1 else 0] old v"
  proof (rule readsI)
    fix buf :: "byte list" and data_len pos
    assume "take (length [if v then 1 else 0 :: byte]) (drop pos buf) = [if v then 1 else 0]"
      "pos + length [if v then 1 else 0 :: byte] \<le> data_len" "data_len \<le> length buf"
    then show "decode_bool buf data_len pos old = Some (OB_SUCCESS, pos + length [if v then 1 else 0 :: byte], v)"
      using take_Cons_nth [of 0 pos buf "if v then 1 else 0" "[]"] by (simp add: decode_bool_def)
  qed
qed simp_all

definition string_ok :: "string \<Rightarrow> bool" where
  "string_ok s \<longleftrightarrow> length s < 2 ^ 31"

definition vstr_bytes :: "string \<Rightarrow> byte list" where
  "vstr_bytes s = vi_bytes (of_nat (length s) :: 64 word) @ map char_byte s @ [0]"

lemma length_vstr_bytes [simp]: "length (vstr_bytes s) = string_serialize_size s" and vstr_bytes_nonempty [simp]: "vstr_bytes s \<noteq> []"
  by (simp_all add: vstr_bytes_def string_serialize_size_def encoded_length_vstr_def)

lemma byte_char_byte [simp]: "byte_char (char_byte c) = c"
proof -
  have "of_char c mod 256 < (256 :: nat)" by (rule mod_less_divisor) simp
  then have "of_char c < (256 :: nat)" by simp
  then have "unat (of_nat (of_char c) :: byte) = of_char c" by (simp add: unat_of_nat take_bit_nat_eq_self)
  then show ?thesis by (simp add: byte_char_def char_byte_def)
qed

lemma to_i32_le: "0 \<le> x \<Longrightarrow> to_i32 x \<le> x"
proof -
  assume "0 \<le> x"
  have "0 \<le> uint (word_of_int x :: 32 word)" by (rule uint_ge_0)
  then have "sint (word_of_int x :: 32 word) \<le> uint (word_of_int x :: 32 word)"
    unfolding sint_uint signed_take_bit_int_less_eq_self_iff by (rule order_trans [rotated]) simp
  also have "\<dots> \<le> x" using \<open>0 \<le> x\<close> by (simp add: uint_word_of_int zmod_le_nonneg_dividend)
  finally show ?thesis by (simp add: to_i32_def)
qed

lemma writes_vstr: "string_ok s \<Longrightarrow> writes (string_serialize s) (vstr_bytes s)"
proof (rule writesI)
  fix buf :: "byte list" and pos
  let ?v = "vi_bytes (of_nat (length s) :: 64 word)"
  define buf1 where "buf1 = take pos buf @ ?v @ drop (pos + length ?v) buf"
  define buf2 where "buf2 = take pos buf @ ?v @ map char_byte s @ drop (pos + length ?v + length s) buf"
  assume A: "pos + length (vstr_bytes s) \<le> length buf"
  then have L: "pos + length ?v + length s + 1 \<le> length buf" by (simp add: vstr_bytes_def string_serialize_size_def encoded_length_vstr_def)
  have "encode_vi64 (of_nat (length s)) buf pos = Some (OB_SUCCESS, buf1, pos + length ?v)"
    unfolding buf1_def using L by (intro writes_room [OF writes_vi64]) simp
  moreover have "put_bytes buf1 (pos + length ?v) (map char_byte s) = Some buf2"
    using L by (simp add: put_bytes_def buf1_def buf2_def add_ac)
  moreover have "s = '''' \<Longrightarrow> buf1 = buf2" by (simp add: buf1_def buf2_def)
  moreover have "put_byte buf2 (pos + length ?v + length s) 0 =
      Some (take pos buf @ ?v @ map char_byte s @ 0 # drop (pos + length ?v + length s + 1) buf)"
    using L by (subst put_byte_append) (simp_all add: buf2_def)
  moreover have "to_i32 (int (encoded_length_vstr (length s))) \<le> int (length buf) - int pos"
    using to_i32_le [of "int (encoded_length_vstr (length s))"] L by (simp add: encoded_length_vstr_def)
  ultimately show "string_serialize s buf pos =
      Some (OB_SUCCESS, take pos buf @ vstr_bytes s @ drop (pos + length (vstr_bytes s)) buf, pos + length (vstr_bytes s))"
    using L by (cases "s = ''''")
      (simp_all add: string_serialize_def encode_vstr_def vstr_bytes_def string_serialize_size_def encoded_length_vstr_def add_ac)
qed (simp add: string_serialize_def vstr_bytes_def string_serialize_size_def encoded_length_vstr_def)

lemma reads_vstr:
  assumes "string_ok s"
  shows "reads string_deserialize (vstr_bytes s) old s"
proof (rule readsI)
  fix buf data_len pos
  let ?n = "of_nat (length s) :: 64 word"
  let ?v = "vi_bytes ?n"
  assume A: "take (length (vstr_bytes s)) (drop pos buf) = vstr_bytes s" "pos + length (vstr_bytes s) \<le> data_len" "data_len \<le> length buf"
  have T: "take (length ?v) (drop pos buf) = ?v" "take (length s) (drop (pos + length ?v) buf) = map char_byte s"
    using take_append_drop [OF A(1) [unfolded vstr_bytes_def]]
      take_append_drop(1) [of "map char_byte s" "[0]" "pos + length ?v" buf] by simp_all
  have L: "pos + length ?v + length s + 1 \<le> data_len" using A(2) by (simp add: vstr_bytes_def string_serialize_size_def encoded_length_vstr_def)
  have n: "sint ?n = int (length s)" "unat ?n = length s" using assms by (simp_all add: string_ok_def sint_of_nat_small)
  have "decode_vi64 buf data_len pos 0 = Some (OB_SUCCESS, pos + length ?v, ?n)"
    using T(1) L A(3) by (intro readsD [OF reads_vi64]) simp_all
  then have "decode_vstr buf data_len pos = Some (pos + length ?v + length s + 1, Some s)"
    using L n T(2) by (simp add: decode_vstr_def comp_def)
  then show "string_deserialize buf data_len pos old = Some (OB_SUCCESS, pos + length (vstr_bytes s), s)"
    using L encoded_length_bounds(2) [of ?n] by (simp add: string_deserialize_def vstr_bytes_def string_serialize_size_def encoded_length_vstr_def)
qed

interpretation vstr: codec string_ok string_serialize string_deserialize string_serialize_size vstr_bytes
  by unfold_locales (rule length_vstr_bytes, simp_all add: writes_vstr reads_vstr)

interpretation vstr_array: codec "vstr.array_ok mem_ok" "array_serialize string_serialize"
  "array_deserialize mem_ok string_deserialize fresh" "array_serialize_size string_serialize_size" vstr.array_bytes
  for mem_ok fresh
  by (rule vstr.array_codec)

section \<open>Properties\<close>

text \<open>C33. A 64-bit integer encoded with variable length is read back as it was, at every position of every buffer with room
  for it: exactly the announced number of bytes changes, and the decoder stops behind them.\<close>

theorem varint_roundtrip:
  assumes "pos + encoded_length_vi64 v \<le> length buf"
  shows "\<exists>buf1. encode_vi64 v buf pos = Some (OB_SUCCESS, buf1, pos + encoded_length_vi64 v) \<and> length buf1 = length buf \<and>
     take pos buf1 = take pos buf \<and> drop (pos + encoded_length_vi64 v) buf1 = drop (pos + encoded_length_vi64 v) buf \<and>
     decode_vi64 buf1 (length buf1) pos old = Some (OB_SUCCESS, pos + encoded_length_vi64 v, v)"
proof -
  let ?buf = "take pos buf @ vi_bytes v @ drop (pos + length (vi_bytes v)) buf"
  have "encode_vi64 v buf pos = Some (OB_SUCCESS, ?buf, pos + length (vi_bytes v))"
    using assms by (intro writes_room [OF writes_vi64]) simp
  moreover have "decode_vi64 ?buf (length ?buf) pos old = Some (OB_SUCCESS, pos + length (vi_bytes v), v)"
    using assms by (intro readsD [OF reads_vi64]) simp_all
  ultimately show ?thesis using assms by (intro exI [of _ ?buf]) simp
qed

theorem varint_roundtrip_witness:
  "\<exists>buf1. encode_vi64 300 (replicate 4 0) 1 = Some (OB_SUCCESS, buf1, 3) \<and> decode_vi64 buf1 4 1 0 = Some (OB_SUCCESS, 3, 300)"
proof -
  have "encoded_length_vi64 300 = 2" by (simp add: encoded_length_vi64_def)
  then show ?thesis using varint_roundtrip [of 1 300 "replicate 4 0" 0] by auto
qed

text \<open>C34. A message that breaks off inside an integer makes the decoder read the byte behind the message: the position is
  compared with the length of the message only after the byte has been read.\<close>

theorem truncated_varint_overread:
  assumes "\<forall>i < length buf. bit (buf ! i) 7" and "length buf \<le> 9"
  shows "decode_vi64 buf (length buf) 0 old = None"
proof -
  have "decode_vi_loop buf (length buf) pos (v :: 64 word) (7 * pos) = None" if "pos \<le> length buf" for pos v
    using that
  proof (induction "length buf - pos" arbitrary: pos v)
    case 0
    then show ?case by (simp add: decode_vi_loop.simps [of buf])
  next
    case (Suc n)
    then have "decode_vi_loop buf (length buf) (pos + 1) w (7 * (pos + 1)) = None" for w :: "64 word"
      using Suc.hyps(1) [of "pos + 1" w] by simp
    then show ?case using assms Suc.hyps(2) by (subst decode_vi_loop.simps) (simp add: add.commute)
  qed
  from this [of 0 0] show ?thesis by (simp add: decode_vi64_def decode_vi_def)
qed

theorem truncated_varint_overread_witness: "decode_vi64 [0x80] 1 0 0 = None"
  using truncated_varint_overread [of "[0x80]" 0] by (simp add: bit_0x80)

end
