(* ===== verification/Python_UDF_Serialize.thy ===== *)
theory Python_UDF_Serialize
  imports OB_Serialization Python_UDF_Cell
begin

text \<open>
  The serialized members of \<open>ObPythonUDF\<close> and \<open>ObPythonUDFMeta\<close> (\<^verbatim>\<open>src/share/schema/ob_python_udf.cpp\<close>) and of
  \<open>ObPythonUdfInfo\<close> (\<^verbatim>\<open>ob_expr_python_udf.cpp\<close>): the schema travels to the root server when a function is created, the
  metadata and the expression information travel with a plan.
\<close>

section \<open>The return type\<close>

fun ret_num :: "py_udf_ret_type \<Rightarrow> int" where
  "ret_num UDF_UNINITIAL = 0"
| "ret_num STRING = 1"
| "ret_num INTEGER = 2"
| "ret_num REAL = 3"
| "ret_num DECIMAL = 4"

text \<open>\<^verbatim>\<open>PyUdfRetType(n)\<close>; \<open>None\<close> is a number that is no enumerator.\<close>

definition ret_of_num :: "int \<Rightarrow> py_udf_ret_type option" where
  "ret_of_num n =
     (if n = 0 then Some UDF_UNINITIAL else if n = 1 then Some STRING else if n = 2 then Some INTEGER
      else if n = 3 then Some REAL else if n = 4 then Some DECIMAL else None)"

lemma ret_of_num_num [simp]: "ret_of_num (ret_num t) = Some t"
  by (cases t) (simp_all add: ret_of_num_def)

lemma ret_num_i32 [simp]: "i32_ok (ret_num t)"
  by (cases t) (simp_all add: i32_ok_def)

definition encode_ret :: "py_udf_ret_type \<Rightarrow> encoder" where
  "encode_ret t = encode_int32 (ret_num t)"

definition decode_ret :: "py_udf_ret_type decoder" where
  "decode_ret buf data_len pos old =
     do { (ret, pos1, n) \<leftarrow> decode_int32 buf data_len pos 0;
          t \<leftarrow> ret_of_num (if ret = OB_SUCCESS then n else 0);
          Some (ret, pos1, t) }"

definition encoded_length_ret :: "py_udf_ret_type \<Rightarrow> nat" where
  "encoded_length_ret t = encoded_length_vi32 (word_of_int (ret_num t))"

definition ret_bytes :: "py_udf_ret_type \<Rightarrow> byte list" where
  "ret_bytes t = vi_bytes (word_of_int (ret_num t) :: 32 word)"

interpretation ret_codec: codec "\<lambda>_. True" encode_ret decode_ret encoded_length_ret ret_bytes
proof
  fix t old
  show "reads decode_ret (ret_bytes t) old t"
    using i32.dec_reads [OF ret_num_i32 [of t], of 0] by (simp add: reads_def decode_ret_def ret_bytes_def)
qed (simp_all add: encoded_length_ret_def ret_bytes_def encode_ret_def vi_bytes_nonempty i32.enc_writes)

interpretation ret_array: codec "ret_codec.array_ok mok" "array_serialize encode_ret"
  "array_deserialize mok decode_ret fresh" "array_serialize_size encoded_length_ret" ret_codec.array_bytes
  for mok fresh
  by (rule ret_codec.array_codec)

section \<open>The schema\<close>

definition python_udf_serialize :: "python_udf \<Rightarrow> encoder" where
  "python_udf_serialize u =
     unis_serialize 1 (unis_encode
       [encode_vi64 (tenant_id u), encode_vi64 (udf_id u), string_serialize (name u), encode_int32 (arg_num u),
        string_serialize (arg_names u), string_serialize (arg_types u), encode_ret (ret_type u),
        string_serialize (pycall u)])"

definition python_udf_deserialize :: "python_udf decoder" where
  "python_udf_deserialize =
     unis_deserialize 1 (unis_decode
       [decode_member tenant_id (\<lambda>v u. u \<lparr>tenant_id := v\<rparr>) decode_uint64,
        decode_member udf_id (\<lambda>v u. u \<lparr>udf_id := v\<rparr>) decode_uint64,
        decode_member name (\<lambda>v u. u \<lparr>name := v\<rparr>) string_deserialize,
        decode_member arg_num (\<lambda>v u. u \<lparr>arg_num := v\<rparr>) decode_int32,
        decode_member arg_names (\<lambda>v u. u \<lparr>arg_names := v\<rparr>) string_deserialize,
        decode_member arg_types (\<lambda>v u. u \<lparr>arg_types := v\<rparr>) string_deserialize,
        decode_member ret_type (\<lambda>v u. u \<lparr>ret_type := v\<rparr>) decode_ret,
        decode_member pycall (\<lambda>v u. u \<lparr>pycall := v\<rparr>) string_deserialize])"

definition python_udf_serialize_size :: "python_udf \<Rightarrow> nat" where
  "python_udf_serialize_size u =
     unis_serialize_size 1
       (encoded_length_vi64 (tenant_id u) + encoded_length_vi64 (udf_id u) + string_serialize_size (name u) +
        encoded_length_vi32 (word_of_int (arg_num u)) + string_serialize_size (arg_names u) +
        string_serialize_size (arg_types u) + encoded_length_ret (ret_type u) + string_serialize_size (pycall u))"

section \<open>The metadata of an expression\<close>

definition udf_meta_serialize :: "python_udf_meta \<Rightarrow> encoder" where
  "udf_meta_serialize m =
     unis_serialize 1 (unis_encode
       [string_serialize (meta_name m), encode_ret (meta_ret m), string_serialize (meta_pycall m),
        array_serialize string_serialize (udf_attributes_names m), array_serialize encode_ret (udf_attributes_types m),
        encode_bool (meta_init m), encode_int32 (meta_batch_size m), encode_bool (meta_batch_size_const m)])"

definition udf_meta_deserialize :: "(nat \<Rightarrow> bool) \<Rightarrow> python_udf_meta decoder" where
  "udf_meta_deserialize mok =
     unis_deserialize 1 (unis_decode
       [decode_member meta_name (\<lambda>v m. m \<lparr>meta_name := v\<rparr>) string_deserialize,
        decode_member meta_ret (\<lambda>v m. m \<lparr>meta_ret := v\<rparr>) decode_ret,
        decode_member meta_pycall (\<lambda>v m. m \<lparr>meta_pycall := v\<rparr>) string_deserialize,
        decode_member udf_attributes_names (\<lambda>v m. m \<lparr>udf_attributes_names := v\<rparr>)
          (array_deserialize mok string_deserialize ''''),
        decode_member udf_attributes_types (\<lambda>v m. m \<lparr>udf_attributes_types := v\<rparr>)
          (array_deserialize mok decode_ret UDF_UNINITIAL),
        decode_member meta_init (\<lambda>v m. m \<lparr>meta_init := v\<rparr>) decode_bool,
        decode_member meta_batch_size (\<lambda>v m. m \<lparr>meta_batch_size := v\<rparr>) decode_int32,
        decode_member meta_batch_size_const (\<lambda>v m. m \<lparr>meta_batch_size_const := v\<rparr>) decode_bool])"

definition udf_meta_serialize_size :: "python_udf_meta \<Rightarrow> nat" where
  "udf_meta_serialize_size m =
     unis_serialize_size 1
       (string_serialize_size (meta_name m) + encoded_length_ret (meta_ret m) + string_serialize_size (meta_pycall m) +
        array_serialize_size string_serialize_size (udf_attributes_names m) +
        array_serialize_size encoded_length_ret (udf_attributes_types m) + 1 +
        encoded_length_vi32 (word_of_int (meta_batch_size m)) + 1)"

text \<open>\<open>ObPythonUdfInfo\<close>: the metadata only; the state of the batch size controller is not sent.\<close>

definition udf_info_serialize :: "'d udf_info \<Rightarrow> encoder" where
  "udf_info_serialize info = unis_serialize 1 (unis_encode [udf_meta_serialize (udf_meta info)])"

definition udf_info_deserialize :: "(nat \<Rightarrow> bool) \<Rightarrow> 'd udf_info decoder" where
  "udf_info_deserialize mok =
     unis_deserialize 1 (unis_decode [decode_member udf_meta (\<lambda>v i. i \<lparr>udf_meta := v\<rparr>) (udf_meta_deserialize mok)])"

definition udf_info_serialize_size :: "'d udf_info \<Rightarrow> nat" where
  "udf_info_serialize_size info = unis_serialize_size 1 (udf_meta_serialize_size (udf_meta info))"

section \<open>The bytes\<close>

definition python_udf_bytes :: "python_udf \<Rightarrow> byte list" where
  "python_udf_bytes u =
     unis_bytes 1
       (vi_bytes (tenant_id u) @ vi_bytes (udf_id u) @ vstr_bytes (name u) @ vi_bytes (word_of_int (arg_num u) :: 32 word) @
        vstr_bytes (arg_names u) @ vstr_bytes (arg_types u) @ ret_bytes (ret_type u) @ vstr_bytes (pycall u) @ [])"

text \<open>The sizes the format covers: strings below 2 GB, a 32-bit number of arguments, and a message whose length fits into
  the five bytes of the header.\<close>

definition python_udf_sendable :: "python_udf \<Rightarrow> bool" where
  "python_udf_sendable u \<longleftrightarrow>
     string_ok (name u) \<and> i32_ok (arg_num u) \<and> string_ok (arg_names u) \<and> string_ok (arg_types u) \<and> string_ok (pycall u)"

lemma length_python_udf_bytes: "length (python_udf_bytes u) = python_udf_serialize_size u"
  by (simp add: python_udf_bytes_def python_udf_serialize_size_def ret_bytes_def encoded_length_ret_def add.assoc)

lemma string_size_bound: "string_ok s \<Longrightarrow> string_serialize_size s < 2 ^ 31 + 11"
  using encoded_length_bounds(1) [of "of_nat (length s)"]
  by (simp add: string_ok_def string_serialize_size_def encoded_length_vstr_def)

lemma member_bytes: "vi_bytes v \<noteq> []" "vstr_bytes s \<noteq> []" "ret_bytes t \<noteq> []"
  by (simp_all add: vi_bytes_nonempty ret_bytes_def)

lemma writes_python_udf: "python_udf_sendable u \<Longrightarrow> writes (python_udf_serialize u) (python_udf_bytes u)"
  unfolding python_udf_sendable_def python_udf_serialize_def python_udf_bytes_def
  by (intro writes_unis_serialize writes_Cons writes_Nil)
    (simp_all add: writes_vi64 writes_vstr i32.enc_writes ret_codec.enc_writes member_bytes)

text \<open>What arrives: the members that are not sent keep their values.\<close>

definition received_udf :: "python_udf \<Rightarrow> python_udf \<Rightarrow> python_udf" where
  "received_udf old u = u \<lparr>model_name := model_name old, schema_version := schema_version old, error_ret := error_ret old\<rparr>"

lemma reads_python_udf:
  assumes "python_udf_sendable u"
  shows "reads python_udf_deserialize (python_udf_bytes u) old (received_udf old u)"
proof -
  have new: "received_udf old u =
      ((((((((old \<lparr>tenant_id := tenant_id u\<rparr>) \<lparr>udf_id := udf_id u\<rparr>) \<lparr>name := name u\<rparr>) \<lparr>arg_num := arg_num u\<rparr>)
        \<lparr>arg_names := arg_names u\<rparr>) \<lparr>arg_types := arg_types u\<rparr>) \<lparr>ret_type := ret_type u\<rparr>) \<lparr>pycall := pycall u\<rparr>)"
    by (cases u, cases old) (simp add: received_udf_def)
  have ok: "string_ok (name u)" "i32_ok (arg_num u)" "string_ok (arg_names u)" "string_ok (arg_types u)" "string_ok (pycall u)"
    using assms by (simp_all add: python_udf_sendable_def)
  note sizes = ok(1,3-5) [THEN string_size_bound] encoded_length_bounds(1) [of "tenant_id u"] encoded_length_bounds(1) [of "udf_id u"]
    encoded_length_bounds(3) [of "word_of_int (arg_num u)"] encoded_length_bounds(3) [of "word_of_int (ret_num (ret_type u))"]
  note R = u64.dec_reads [OF TrueI] ret_codec.dec_reads [OF TrueI] i32.dec_reads [OF ok(2)] ok(1,3-5) [THEN vstr.dec_reads]
  show ?thesis
    unfolding python_udf_deserialize_def python_udf_bytes_def new
    by (rule reads_unis_deserialize, (rule reads_member_Cons, rule R, rule member_bytes)+, rule reads_Nil)
      (use sizes in \<open>simp add: ret_bytes_def\<close>)
qed

definition udf_meta_members :: "python_udf_meta \<Rightarrow> byte list" where
  "udf_meta_members m =
     vstr_bytes (meta_name m) @ ret_bytes (meta_ret m) @ vstr_bytes (meta_pycall m) @
     vstr.array_bytes (udf_attributes_names m) @ ret_codec.array_bytes (udf_attributes_types m) @
     [if meta_init m then 1 else 0] @ vi_bytes (word_of_int (meta_batch_size m) :: 32 word) @
     [if meta_batch_size_const m then 1 else 0] @ []"

definition udf_meta_bytes :: "python_udf_meta \<Rightarrow> byte list" where
  "udf_meta_bytes m = unis_bytes 1 (udf_meta_members m)"

definition udf_meta_sendable :: "(nat \<Rightarrow> bool) \<Rightarrow> python_udf_meta \<Rightarrow> bool" where
  "udf_meta_sendable mok m \<longleftrightarrow>
     string_ok (meta_name m) \<and> string_ok (meta_pycall m) \<and> vstr.array_ok mok (udf_attributes_names m) \<and>
     ret_codec.array_ok mok (udf_attributes_types m) \<and> i32_ok (meta_batch_size m) \<and>
     udf_meta_serialize_size m < 2 ^ 35"

lemma length_udf_meta_bytes:
  assumes "vstr.array_ok mok (udf_attributes_names m)" and "ret_codec.array_ok mok (udf_attributes_types m)"
  shows "length (udf_meta_bytes m) = udf_meta_serialize_size m"
  using assms vstr_array.bytes_len [of mok "udf_attributes_names m"] ret_array.bytes_len [of mok "udf_attributes_types m"]
  by (simp add: udf_meta_bytes_def udf_meta_members_def udf_meta_serialize_size_def ret_bytes_def encoded_length_ret_def add.assoc)

lemma udf_meta_bytes_nonempty [simp]: "udf_meta_bytes m \<noteq> []"
  by (simp add: udf_meta_bytes_def)

lemma array_bytes_nonempty: "vstr.array_bytes xs \<noteq> []" "ret_codec.array_bytes ts \<noteq> []"
  by (simp_all add: vstr.array_bytes_def ret_codec.array_bytes_def vi_bytes_nonempty)

lemma bool_bytes_nonempty: "[if b then 1 else 0 :: byte] \<noteq> []"
  by simp

lemma writes_udf_meta: "udf_meta_sendable mok m \<Longrightarrow> writes (udf_meta_serialize m) (udf_meta_bytes m)"
  unfolding udf_meta_sendable_def udf_meta_serialize_def udf_meta_bytes_def udf_meta_members_def
  by (intro writes_unis_serialize writes_Cons writes_Nil)
    (simp_all add: writes_vstr i32.enc_writes ret_codec.enc_writes vstr_array.enc_writes [of mok] ret_array.enc_writes [of mok]
      bool.enc_writes member_bytes array_bytes_nonempty)

lemma reads_udf_meta:
  assumes "udf_meta_sendable mok m"
  shows "reads (udf_meta_deserialize mok) (udf_meta_bytes m) old m"
proof -
  have new: "m = ((((((((old \<lparr>meta_name := meta_name m\<rparr>) \<lparr>meta_ret := meta_ret m\<rparr>) \<lparr>meta_pycall := meta_pycall m\<rparr>)
        \<lparr>udf_attributes_names := udf_attributes_names m\<rparr>) \<lparr>udf_attributes_types := udf_attributes_types m\<rparr>)
        \<lparr>meta_init := meta_init m\<rparr>) \<lparr>meta_batch_size := meta_batch_size m\<rparr>) \<lparr>meta_batch_size_const := meta_batch_size_const m\<rparr>)"
    by (cases m, cases old) simp
  have ok: "string_ok (meta_name m)" "string_ok (meta_pycall m)" "i32_ok (meta_batch_size m)"
    "vstr.array_ok mok (udf_attributes_names m)" "ret_codec.array_ok mok (udf_attributes_types m)"
    "udf_meta_serialize_size m < 2 ^ 35"
    using assms by (simp_all only: udf_meta_sendable_def)
  note R = ok(1,2) [THEN vstr.dec_reads] ret_codec.dec_reads [OF TrueI] i32.dec_reads [OF ok(3)]
    vstr_array.dec_reads [OF ok(4)] ret_array.dec_reads [OF ok(5)] bool.dec_reads [OF TrueI]
  have "length (udf_meta_members m) \<le> length (udf_meta_bytes m)"
    by (simp add: udf_meta_bytes_def unis_serialize_size_def)
  then have "length (udf_meta_members m) < 2 ^ 35" using ok(4-6) by (simp add: length_udf_meta_bytes)
  moreover have "reads (unis_decode
       [decode_member meta_name (\<lambda>v m. m \<lparr>meta_name := v\<rparr>) string_deserialize,
        decode_member meta_ret (\<lambda>v m. m \<lparr>meta_ret := v\<rparr>) decode_ret,
        decode_member meta_pycall (\<lambda>v m. m \<lparr>meta_pycall := v\<rparr>) string_deserialize,
        decode_member udf_attributes_names (\<lambda>v m. m \<lparr>udf_attributes_names := v\<rparr>)
          (array_deserialize mok string_deserialize ''''),
        decode_member udf_attributes_types (\<lambda>v m. m \<lparr>udf_attributes_types := v\<rparr>)
          (array_deserialize mok decode_ret UDF_UNINITIAL),
        decode_member meta_init (\<lambda>v m. m \<lparr>meta_init := v\<rparr>) decode_bool,
        decode_member meta_batch_size (\<lambda>v m. m \<lparr>meta_batch_size := v\<rparr>) decode_int32,
        decode_member meta_batch_size_const (\<lambda>v m. m \<lparr>meta_batch_size_const := v\<rparr>) decode_bool]) (udf_meta_members m) old m"
    by (subst (2) new, unfold udf_meta_members_def)
      ((rule reads_member_Cons, rule R, rule member_bytes array_bytes_nonempty bool_bytes_nonempty)+, rule reads_Nil)
  ultimately show ?thesis unfolding udf_meta_deserialize_def udf_meta_bytes_def by (intro reads_unis_deserialize)
qed

interpretation meta_codec: codec "udf_meta_sendable mok" udf_meta_serialize "udf_meta_deserialize mok" udf_meta_serialize_size udf_meta_bytes
  for mok
proof
  fix m
  assume "udf_meta_sendable mok m"
  then show "length (udf_meta_bytes m) = udf_meta_serialize_size m"
    unfolding udf_meta_sendable_def by (intro length_udf_meta_bytes [of mok]) simp_all
  show "udf_meta_bytes m \<noteq> []" by simp
qed (rule writes_udf_meta, assumption, rule reads_udf_meta)

definition udf_info_bytes :: "'d udf_info \<Rightarrow> byte list" where
  "udf_info_bytes info = unis_bytes 1 (udf_meta_bytes (udf_meta info) @ [])"

lemma writes_udf_info: "udf_meta_sendable mok (udf_meta info) \<Longrightarrow> writes (udf_info_serialize info) (udf_info_bytes info)"
  unfolding udf_info_serialize_def udf_info_bytes_def
  by (intro writes_unis_serialize writes_Cons writes_Nil) (simp_all add: writes_udf_meta [of mok])

lemma reads_udf_info:
  assumes "udf_meta_sendable mok (udf_meta info)"
  shows "reads (udf_info_deserialize mok) (udf_info_bytes info) old (old \<lparr>udf_meta := udf_meta info\<rparr>)"
  unfolding udf_info_deserialize_def udf_info_bytes_def
proof (rule reads_unis_deserialize)
  show "length (udf_meta_bytes (udf_meta info) @ []) < 2 ^ 35"
    using meta_codec.bytes_len [OF assms] assms by (simp add: udf_meta_sendable_def)
qed (rule reads_member_Cons, rule reads_udf_meta [OF assms], rule udf_meta_bytes_nonempty, rule reads_Nil)

lemma length_udf_info_bytes:
  "udf_meta_sendable mok (udf_meta info) \<Longrightarrow> length (udf_info_bytes info) = udf_info_serialize_size info"
  using meta_codec.bytes_len [of mok "udf_meta info"] by (simp add: udf_info_bytes_def udf_info_serialize_size_def)

section \<open>Properties\<close>

text \<open>C10. The schema of a function arrives at the root server as it was sent, in a message of exactly the announced size,
  except for the members that are not part of the message: the model name and the schema version.\<close>

theorem udf_schema_rpc_roundtrip:
  assumes "python_udf_sendable u" and "length buf = python_udf_serialize_size u"
  shows "\<exists>bs. python_udf_serialize u buf 0 = Some (OB_SUCCESS, bs, length bs) \<and> length bs = length buf \<and>
     python_udf_deserialize bs (length bs) 0 python_udf_default =
       Some (OB_SUCCESS, length bs, u \<lparr>model_name := '''', schema_version := OB_INVALID_VERSION, error_ret := OB_SUCCESS\<rparr>)"
proof (intro exI conjI)
  show "python_udf_serialize u buf 0 = Some (OB_SUCCESS, python_udf_bytes u, length (python_udf_bytes u))"
    using writes_room [OF writes_python_udf [OF assms(1)], of 0 buf] assms(2) by (simp add: length_python_udf_bytes)
  show "python_udf_deserialize (python_udf_bytes u) (length (python_udf_bytes u)) 0 python_udf_default =
       Some (OB_SUCCESS, length (python_udf_bytes u), u \<lparr>model_name := '''', schema_version := OB_INVALID_VERSION, error_ret := OB_SUCCESS\<rparr>)"
    using readsD [OF reads_python_udf [OF assms(1)], of 0 "python_udf_bytes u" "length (python_udf_bytes u)" python_udf_default]
    by (simp add: received_udf_def python_udf_default_def)
qed (simp add: assms(2) length_python_udf_bytes)

theorem udf_schema_rpc_roundtrip_witness:
  "\<exists>u buf. python_udf_sendable u \<and> length buf = python_udf_serialize_size u \<and> name u = ''f'' \<and> ret_type u = REAL \<and>
     (\<exists>bs. python_udf_serialize u buf 0 = Some (OB_SUCCESS, bs, length bs))"
proof -
  let ?u = "python_udf_default \<lparr>name := ''f'', ret_type := REAL\<rparr>"
  let ?buf = "replicate (python_udf_serialize_size ?u) 0"
  have "python_udf_sendable ?u" "length ?buf = python_udf_serialize_size ?u" "name ?u = ''f''" "ret_type ?u = REAL"
    by (simp_all add: python_udf_sendable_def python_udf_default_def string_ok_def i32_ok_def)
  moreover from udf_schema_rpc_roundtrip [OF this(1,2)]
  have "\<exists>bs. python_udf_serialize ?u ?buf 0 = Some (OB_SUCCESS, bs, length bs)" by blast
  ultimately show ?thesis by blast
qed

text \<open>C32. A buffer without room for the schema is refused with \<open>OB_SIZE_OVERFLOW\<close>; nothing is written outside of it, even
  though the five bytes of the length are skipped without a check.\<close>

theorem udf_schema_small_buffer:
  assumes "python_udf_sendable u" and "length buf < pos + python_udf_serialize_size u"
  shows "\<exists>buf1 pos1. python_udf_serialize u buf pos = Some (OB_SIZE_OVERFLOW, buf1, pos1) \<and> length buf1 = length buf"
  using writes_full [OF writes_python_udf [OF assms(1)], of buf pos] assms(2)
  by (simp add: length_python_udf_bytes) (simp add: python_udf_bytes_def)

theorem udf_schema_small_buffer_witness:
  "\<exists>buf1 pos1. python_udf_serialize python_udf_default [0, 0, 0] 1 = Some (OB_SIZE_OVERFLOW, buf1, pos1) \<and> length buf1 = 3"
proof -
  have "python_udf_sendable python_udf_default"
    by (simp add: python_udf_sendable_def python_udf_default_def string_ok_def i32_ok_def)
  moreover have "length [0, 0, 0 :: byte] < 1 + python_udf_serialize_size python_udf_default"
    by (simp add: python_udf_serialize_size_def unis_serialize_size_def OB_SERIALIZE_SIZE_NEED_BYTES_def)
  ultimately show ?thesis using udf_schema_small_buffer [of python_udf_default "[0, 0, 0]" 1] by auto
qed

text \<open>C11. The metadata of a UDF expression arrive with a plan as they were sent; the state of the batch size controller of
  the receiver is not touched, so it has whatever value the receiver's object had.\<close>

theorem udf_info_plan_roundtrip:
  assumes "udf_meta_sendable mok (udf_meta info)" and "length buf = udf_info_serialize_size info"
  shows "\<exists>bs. udf_info_serialize info buf 0 = Some (OB_SUCCESS, bs, length bs) \<and> length bs = length buf \<and>
     udf_info_deserialize mok bs (length bs) 0 old = Some (OB_SUCCESS, length bs, old \<lparr>udf_meta := udf_meta info\<rparr>)"
proof (intro exI conjI)
  have len: "length (udf_info_bytes info) = udf_info_serialize_size info" using assms(1) by (rule length_udf_info_bytes)
  show "udf_info_serialize info buf 0 = Some (OB_SUCCESS, udf_info_bytes info, length (udf_info_bytes info))"
    using writes_room [OF writes_udf_info [OF assms(1)], of 0 buf] assms(2) by (simp add: len)
  show "length (udf_info_bytes info) = length buf" by (simp add: len assms(2))
  show "udf_info_deserialize mok (udf_info_bytes info) (length (udf_info_bytes info)) 0 old =
      Some (OB_SUCCESS, length (udf_info_bytes info), old \<lparr>udf_meta := udf_meta info\<rparr>)"
    using readsD [OF reads_udf_info [OF assms(1)], of 0 "udf_info_bytes info" "length (udf_info_bytes info)" old] by simp
qed

theorem udf_info_plan_roundtrip_witness:
  "\<exists>info :: nat udf_info. udf_attributes_types (udf_meta info) = [STRING, REAL] \<and>
     (\<exists>bs. udf_info_serialize info (replicate (udf_info_serialize_size info) 0) 0 = Some (OB_SUCCESS, bs, length bs))"
proof -
  let ?m = "python_udf_meta_default \<lparr>udf_attributes_names := [''a'', ''b''], udf_attributes_types := [STRING, REAL]\<rparr>"
  define info :: "nat udf_info" where
    "info = \<lparr>udf_meta = ?m, predict_size = 0, tps_s = 0, lambda_threshold = 0, alpha = 0, round_cnt = 0, round_limit = 0, delta = 0\<rparr>"
  have "udf_meta_sendable (\<lambda>_. True) (udf_meta info)"
    by (simp add: info_def udf_meta_sendable_def python_udf_meta_default_def string_ok_def i32_ok_def vstr.array_ok_def
        ret_codec.array_ok_def udf_meta_serialize_size_def unis_serialize_size_def string_serialize_size_def
        encoded_length_vstr_def encoded_length_vi64_def encoded_length_ret_def encoded_length_vi32_def
        array_serialize_size_def OB_SERIALIZE_SIZE_NEED_BYTES_def LOCAL_ARRAY_SIZE_def)
  then have "\<exists>bs. udf_info_serialize info (replicate (udf_info_serialize_size info) 0) 0 = Some (OB_SUCCESS, bs, length bs)"
    using udf_info_plan_roundtrip [of "\<lambda>_. True" info "replicate (udf_info_serialize_size info) 0"] by auto
  moreover have "udf_attributes_types (udf_meta info) = [STRING, REAL]" by (simp add: info_def)
  ultimately show ?thesis by blast
qed

end
