(* ===== verification/Python_UDF_SQL.thy ===== *)
theory Python_UDF_SQL
  imports OB_SQL_Text OB_Dictionary Python_UDF_Serialize
begin

text \<open>
  The persistence of python UDFs: \<^verbatim>\<open>src/share/schema/ob_python_udf_sql_service.cpp\<close> builds the statements that insert and
  delete a row of the inner table \<^verbatim>\<open>__all_python_udf\<close>, \<^verbatim>\<open>ob_multi_version_schema_service.cpp\<close> reads rows back.

  The SQL engine that runs the statements is a parameter, \<open>sql_client\<close>. What the code relies on is \<open>runs_sql\<close>: a text that the
  fragment of the SQL grammar given by \<open>sql_read\<close> covers is executed with its documented meaning. The column \<open>name\<close> is
  compared with a collation, given by a function \<open>fold_name\<close> that maps equal names to one representative.
\<close>

section \<open>The statements of the SQL service\<close>

text \<open>The macros \<open>SQL_APPEND_COLUMN_NAME\<close>, \<open>SQL_COL_APPEND_VALUE\<close> and \<open>SQL_COL_APPEND_ESCAPE_STR_VALUE\<close> work on the result
  code, the statement and the list of values.\<close>

type_synonym sql_parts = "ob_ret \<times> string \<times> string"

definition append_column_name :: "(nat \<Rightarrow> bool) \<Rightarrow> string \<Rightarrow> sql_parts \<Rightarrow> sql_parts" where
  "append_column_name mok column p =
     (case p of (ret, sql, values) \<Rightarrow>
        if ret \<noteq> OB_SUCCESS then p
        else let (ret1, sql1) = sql_append mok sql ((if values = '''' then '''' else '', '') @ column) in (ret1, sql1, values))"

definition col_append_value :: "(nat \<Rightarrow> bool) \<Rightarrow> string \<Rightarrow> string \<Rightarrow> sql_parts \<Rightarrow> sql_parts" where
  "col_append_value mok column v p =
     (case append_column_name mok column p of (ret, sql, values) \<Rightarrow>
        if ret \<noteq> OB_SUCCESS then (ret, sql, values)
        else let (ret1, values1) = sql_append mok values ((if values = '''' then '''' else '', '') @ v) in (ret1, sql, values1))"

text \<open>For the first value the macro would append a quote instead of nothing.\<close>

definition col_append_escape_str :: "(nat \<Rightarrow> bool) \<Rightarrow> string \<Rightarrow> string \<Rightarrow> sql_parts \<Rightarrow> sql_parts" where
  "col_append_escape_str mok column v p =
     (case append_column_name mok column p of (ret, sql, values) \<Rightarrow>
        if ret \<noteq> OB_SUCCESS then (ret, sql, values)
        else let (ret1, values1) = sql_append mok values (if values = '''' then [quote] else '', '')
        in if ret1 \<noteq> OB_SUCCESS then (ret1, sql, values1)
           else let (ret2, values2) = sql_append_hex_escape_str mok v values1 in (ret2, sql, values2))"

definition OB_INVALID_TENANT_ID :: "64 word" where
  "OB_INVALID_TENANT_ID = 0"

definition OB_SYS_TENANT_ID :: "64 word" where
  "OB_SYS_TENANT_ID = 1"

definition get_exec_tenant_id :: "64 word \<Rightarrow> 64 word" where
  "get_exec_tenant_id t = (if t \<noteq> OB_INVALID_TENANT_ID then t else OB_SYS_TENANT_ID)"

text \<open>The tenant is not stored in the row: a tenant has its own table.\<close>

definition get_extract_tenant_id :: "64 word \<Rightarrow> 64 word \<Rightarrow> 64 word" where
  "get_extract_tenant_id exec_tenant_id t = OB_INVALID_TENANT_ID"

definition get_extract_schema_id :: "64 word \<Rightarrow> 64 word \<Rightarrow> 64 word" where
  "get_extract_schema_id exec_tenant_id i = i"

text \<open>
  The SQL client: \<open>write\<close> gives the result and the number of affected rows, \<open>read\<close> a result set (a null pointer is
  \<open>None\<close>), that is the rows and the code with which the iteration ends.
\<close>

record sql_client =
  sc_write :: "64 word \<Rightarrow> string \<Rightarrow> udf_tables \<Rightarrow> ob_ret \<times> int \<times> udf_tables"
  sc_read :: "64 word \<Rightarrow> string \<Rightarrow> udf_tables \<Rightarrow> ob_ret \<times> (row list \<times> ob_ret) option"

definition table_name :: string where
  "table_name = ''__all_python_udf''"

text \<open>\<open>ObPythonUdfSqlService::add_python_udf\<close>.\<close>

definition add_sql_parts :: "(nat \<Rightarrow> bool) \<Rightarrow> python_udf \<Rightarrow> string \<Rightarrow> sql_parts" where
  "add_sql_parts mok u sql =
     (let exec = get_exec_tenant_id (tenant_id u)
      in fold (\<lambda>append. append)
           [col_append_value mok ''tenant_id'' (fmt_nat (unat (get_extract_tenant_id exec (tenant_id u)))),
            col_append_value mok ''udf_id'' (fmt_nat (unat (get_extract_schema_id exec (udf_id u)))),
            col_append_escape_str mok ''name'' (name u),
            col_append_value mok ''arg_num'' (fmt_int (arg_num u)),
            col_append_escape_str mok ''arg_names'' (arg_names u),
            col_append_escape_str mok ''arg_types'' (arg_types u),
            col_append_value mok ''ret'' (fmt_int (ret_num (ret_type u))),
            col_append_escape_str mok ''pycall'' (pycall u),
            col_append_value mok ''schema_version'' (fmt_int (schema_version u))] (OB_SUCCESS, sql, ''''))"

definition sql_add_python_udf :: "(nat \<Rightarrow> bool) \<Rightarrow> sql_client \<Rightarrow> python_udf \<Rightarrow> udf_tables \<Rightarrow> ob_ret \<times> udf_tables" where
  "sql_add_python_udf mok client u db =
     (let (ret, sql) = sql_append mok '''' (''INSERT INTO '' @ table_name @ '' ('')
      in if ret \<noteq> OB_SUCCESS then (ret, db)
         else case add_sql_parts mok u sql of (ret1, sql1, values) \<Rightarrow>
           if ret1 \<noteq> OB_SUCCESS then (ret1, db)
           else let (ret2, sql2) = sql_append mok sql1 ('') VALUES ('' @ values @ '')'')
           in if ret2 \<noteq> OB_SUCCESS then (ret2, db)
              else if check_pycall u \<noteq> OB_SUCCESS then (check_pycall u, db)
              else case sc_write client (get_exec_tenant_id (tenant_id u)) sql2 db of (ret3, affected_rows, db1) \<Rightarrow>
                if ret3 \<noteq> OB_SUCCESS then (ret3, db1)
                else if affected_rows \<noteq> 1 then (OB_ERR_UNEXPECTED, db1)
                else (OB_SUCCESS, db1))"

text \<open>\<open>is_valid\<close> of a schema: no error was recorded in it.\<close>

definition python_udf_is_valid :: "python_udf \<Rightarrow> bool" where
  "python_udf_is_valid u \<longleftrightarrow> error_ret u = OB_SUCCESS"

definition insert_python_udf :: "(nat \<Rightarrow> bool) \<Rightarrow> sql_client option \<Rightarrow> python_udf \<Rightarrow> udf_tables \<Rightarrow> ob_ret \<times> udf_tables" where
  "insert_python_udf mok client u db =
     (case client of
        None \<Rightarrow> (OB_INVALID_ARGUMENT, db)
      | Some c \<Rightarrow> if \<not> python_udf_is_valid u then (OB_INVALID_ARGUMENT, db) else sql_add_python_udf mok c u db)"

text \<open>The name goes into the statement as it is; \<^verbatim>\<open>%s\<close> stops at a zero byte.\<close>

definition delete_sql :: "64 word \<Rightarrow> string \<Rightarrow> string" where
  "delete_sql t nm =
     ''DELETE FROM '' @ table_name @ '' WHERE tenant_id = '' @
       fmt_int (sint (get_extract_tenant_id (get_exec_tenant_id t) t)) @ '' AND name='' @ [quote] @ c_str nm @ [quote]"

definition delete_python_udf :: "(nat \<Rightarrow> bool) \<Rightarrow> sql_client option \<Rightarrow> 64 word \<Rightarrow> string \<Rightarrow> udf_tables \<Rightarrow> ob_ret \<times> udf_tables" where
  "delete_python_udf mok client t nm db =
     (case client of
        None \<Rightarrow> (OB_INVALID_ARGUMENT, db)
      | Some c \<Rightarrow>
          let (ret, sql) = sql_append mok '''' (delete_sql t nm)
          in if ret \<noteq> OB_SUCCESS then (ret, db)
             else case sc_write c (get_exec_tenant_id t) sql db of (ret1, affected_rows, db1) \<Rightarrow>
               if ret1 \<noteq> OB_SUCCESS then (ret1, db1)
               else if affected_rows \<noteq> 1 then (OB_ERR_UNEXPECTED, db1)
               else (OB_SUCCESS, db1))"

definition sql_drop_python_udf :: "(nat \<Rightarrow> bool) \<Rightarrow> sql_client option \<Rightarrow> python_udf \<Rightarrow> udf_tables \<Rightarrow> ob_ret \<times> udf_tables" where
  "sql_drop_python_udf mok client u db =
     (if client = None then (OB_INVALID_ARGUMENT, db)
      else if \<not> python_udf_is_valid u then (OB_INVALID_ARGUMENT, db)
      else delete_python_udf mok client (tenant_id u) (c_str (name u)) db)"

section \<open>Lookups of the schema service\<close>

definition result_get_varchar :: "row \<Rightarrow> string \<Rightarrow> ob_ret \<times> string" where
  "result_get_varchar r column =
     (case map_of r column of Some (SStr s) \<Rightarrow> (OB_SUCCESS, s) | Some _ \<Rightarrow> (OB_OBJ_TYPE_ERROR, '''') | None \<Rightarrow> (OB_ERR_COLUMN_NOT_FOUND, ''''))"

definition result_get_int :: "row \<Rightarrow> string \<Rightarrow> ob_ret \<times> int" where
  "result_get_int r column =
     (case map_of r column of Some (SInt i) \<Rightarrow> (OB_SUCCESS, i) | Some _ \<Rightarrow> (OB_OBJ_TYPE_ERROR, 0) | None \<Rightarrow> (OB_ERR_COLUMN_NOT_FOUND, 0))"

text \<open>\<open>EXTRACT_VARCHAR_FIELD_TO_CLASS_MYSQL\<close> and \<open>EXTRACT_INT_FIELD_TO_CLASS_MYSQL\<close>; the setter may be undefined.\<close>

definition extract_varchar ::
  "(nat \<Rightarrow> bool) \<Rightarrow> row \<Rightarrow> string \<Rightarrow> (string \<Rightarrow> python_udf \<Rightarrow> python_udf) \<Rightarrow> ob_ret \<times> python_udf \<Rightarrow> (ob_ret \<times> python_udf) option" where
  "extract_varchar mok r column upd p =
     (case p of (ret, u) \<Rightarrow>
        if ret \<noteq> OB_SUCCESS then Some p
        else let (ret1, s) = result_get_varchar r column
        in if ret1 \<noteq> OB_SUCCESS then Some (ret1, u)
           else let ret2 = deep_copy_str mok (error_ret u) s
           in Some (ret2, if ret2 = OB_SUCCESS then upd s u else u))"

definition extract_int ::
  "row \<Rightarrow> string \<Rightarrow> (int \<Rightarrow> python_udf \<Rightarrow> python_udf option) \<Rightarrow> ob_ret \<times> python_udf \<Rightarrow> (ob_ret \<times> python_udf) option" where
  "extract_int r column upd p =
     (case p of (ret, u) \<Rightarrow>
        if ret \<noteq> OB_SUCCESS then Some p
        else let (ret1, i) = result_get_int r column
        in if ret1 \<noteq> OB_SUCCESS then Some (ret1, u)
           else do { u1 \<leftarrow> upd i u; Some (OB_SUCCESS, u1) })"

definition fill_python_udf_schema ::
  "(nat \<Rightarrow> bool) \<Rightarrow> 64 word \<Rightarrow> row \<Rightarrow> python_udf \<Rightarrow> (ob_ret \<times> python_udf) option" where
  "fill_python_udf_schema mok t r u =
     do { p1 \<leftarrow> extract_varchar mok r ''name'' (\<lambda>s u. u \<lparr>name := s\<rparr>) (OB_SUCCESS, (python_udf_reset u) \<lparr>tenant_id := t\<rparr>);
          p2 \<leftarrow> extract_int r ''udf_id'' (\<lambda>i u. Some (u \<lparr>udf_id := word_of_int i\<rparr>)) p1;
          p3 \<leftarrow> extract_int r ''arg_num'' (\<lambda>i u. Some (u \<lparr>arg_num := to_i32 i\<rparr>)) p2;
          p4 \<leftarrow> extract_varchar mok r ''arg_names'' (\<lambda>s u. u \<lparr>arg_names := s\<rparr>) p3;
          p5 \<leftarrow> extract_varchar mok r ''arg_types'' (\<lambda>s u. u \<lparr>arg_types := s\<rparr>) p4;
          p6 \<leftarrow> extract_int r ''ret'' (\<lambda>i u. map_option (\<lambda>t. u \<lparr>ret_type := t\<rparr>) (ret_of_num (to_i32 i))) p5;
          p7 \<leftarrow> extract_varchar mok r ''pycall'' (\<lambda>s u. u \<lparr>pycall := s\<rparr>) p6;
          extract_int r ''schema_version'' (\<lambda>i u. Some (u \<lparr>schema_version := i\<rparr>)) p7 }"

definition select_sql :: "string \<Rightarrow> string" where
  "select_sql nm = ''SELECT * FROM '' @ table_name @ '' WHERE name = '' @ [quote] @ c_str nm @ [quote]"

text \<open>The loop over the result set of \<open>get_python_udf_info\<close>: the last row wins, and a failure ends the loop.\<close>

fun info_loop ::
  "(nat \<Rightarrow> bool) \<Rightarrow> 64 word \<Rightarrow> row list \<Rightarrow> ob_ret \<Rightarrow> bool \<Rightarrow> python_udf \<Rightarrow> (ob_ret \<times> bool \<times> python_udf) option" where
  "info_loop mok t [] last_ret exist u = Some (last_ret, exist, u)"
| "info_loop mok t (r # rs) last_ret exist u =
     do { (ret, u1) \<leftarrow> fill_python_udf_schema mok t r u;
          if ret = OB_SUCCESS then info_loop mok t rs last_ret True u1 else Some (ret, True, u1) }"

definition get_python_udf_info ::
  "(nat \<Rightarrow> bool) \<Rightarrow> sql_client \<Rightarrow> 64 word \<Rightarrow> string \<Rightarrow> python_udf \<Rightarrow> udf_tables \<Rightarrow> (ob_ret \<times> bool \<times> python_udf) option" where
  "get_python_udf_info mok client t nm u db =
     (if t = OB_INVALID_ID \<or> nm = '''' then Some (OB_INVALID_ARGUMENT, False, u)
      else let (ret, sql) = sql_append mok '''' (select_sql nm)
      in if ret \<noteq> OB_SUCCESS then Some (ret, False, u)
         else case sc_read client t sql db of (ret1, res) \<Rightarrow>
           if ret1 \<noteq> OB_SUCCESS then Some (ret1, False, u)
           else case res of
             None \<Rightarrow> Some (OB_ERR_UNEXPECTED, False, u)
           | Some (rows, last_ret) \<Rightarrow>
               do { (ret2, exist, u1) \<leftarrow> info_loop mok t rows last_ret False u;
                    Some (if ret2 = OB_ITER_END then OB_SUCCESS else ret2, exist, u1) })"

text \<open>\<open>check_python_udf_exist\<close> fills a fresh schema for every row and keeps the id of the last one.\<close>

fun exist_loop ::
  "(nat \<Rightarrow> bool) \<Rightarrow> 64 word \<Rightarrow> row list \<Rightarrow> ob_ret \<Rightarrow> bool \<times> 64 word \<Rightarrow> (ob_ret \<times> bool \<times> 64 word) option" where
  "exist_loop mok t [] last_ret e = Some (last_ret, e)"
| "exist_loop mok t (r # rs) last_ret e =
     do { (ret, u1) \<leftarrow> fill_python_udf_schema mok t r python_udf_default;
          if ret = OB_SUCCESS then exist_loop mok t rs last_ret (True, udf_id u1) else Some (ret, True, udf_id u1) }"

definition check_python_udf_exist ::
  "(nat \<Rightarrow> bool) \<Rightarrow> sql_client \<Rightarrow> 64 word \<Rightarrow> string \<Rightarrow> udf_tables \<Rightarrow> (ob_ret \<times> bool \<times> 64 word) option" where
  "check_python_udf_exist mok client t nm db =
     (if t = OB_INVALID_ID \<or> nm = '''' then Some (OB_INVALID_ARGUMENT, False, OB_INVALID_ID)
      else let (ret, sql) = sql_append mok '''' (select_sql nm)
      in if ret \<noteq> OB_SUCCESS then Some (ret, False, OB_INVALID_ID)
         else case sc_read client t sql db of (ret1, res) \<Rightarrow>
           if ret1 \<noteq> OB_SUCCESS then Some (ret1, False, OB_INVALID_ID)
           else case res of
             None \<Rightarrow> Some (OB_ERR_UNEXPECTED, False, OB_INVALID_ID)
           | Some (rows, last_ret) \<Rightarrow>
               do { (ret2, exist, i) \<leftarrow> exist_loop mok t rows last_ret (False, OB_INVALID_ID);
                    Some (if ret2 = OB_ITER_END then OB_SUCCESS else ret2, exist, i) })"

section \<open>What the code relies on: execution of statements\<close>

text \<open>Equality of values; strings are compared with a collation.\<close>

fun sql_eq :: "(string \<Rightarrow> string) \<Rightarrow> sql_val \<Rightarrow> sql_val \<Rightarrow> bool" where
  "sql_eq fold_name (SInt a) (SInt b) \<longleftrightarrow> a = b"
| "sql_eq fold_name (SStr a) (SStr b) \<longleftrightarrow> fold_name a = fold_name b"
| "sql_eq fold_name _ _ \<longleftrightarrow> False"

definition row_has :: "(string \<Rightarrow> string) \<Rightarrow> row \<Rightarrow> string \<times> sql_val \<Rightarrow> bool" where
  "row_has fold_name r p = (case map_of r (fst p) of None \<Rightarrow> False | Some v \<Rightarrow> sql_eq fold_name v (snd p))"

definition row_matches :: "(string \<Rightarrow> string) \<Rightarrow> row list \<Rightarrow> row \<Rightarrow> bool" where
  "row_matches fold_name dnf r = list_ex (\<lambda>con. list_all (row_has fold_name r) con) dnf"

text \<open>The row key of the inner table is the tenant and the name.\<close>

definition same_key :: "(string \<Rightarrow> string) \<Rightarrow> row \<Rightarrow> row \<Rightarrow> bool" where
  "same_key fold_name r1 r2 =
     list_all (\<lambda>c. case map_of r2 c of None \<Rightarrow> False | Some v \<Rightarrow> row_has fold_name r1 (c, v)) [''tenant_id'', ''name'']"

text \<open>The columns of the inner table \<^verbatim>\<open>__all_python_udf\<close>: integers, and strings with the longest length that fits
  (\<^verbatim>\<open>OB_MAX_UDF_NAME_LENGTH\<close>, \<^verbatim>\<open>OB_MAX_SYS_PARAM_INFO_LENGTH\<close>, \<^verbatim>\<open>OB_MAX_TEXT_LENGTH\<close>). Lengths are counted in bytes, which is on the
  safe side where the server counts characters.\<close>

definition udf_columns :: "(string \<times> nat option) list" where
  "udf_columns =
     [(''tenant_id'', None), (''name'', Some 64), (''udf_id'', None), (''ret'', None), (''arg_num'', None),
      (''arg_names'', Some 1024), (''arg_types'', Some 1024), (''pycall'', Some 65536), (''schema_version'', None)]"

text \<open>A value goes with its column, and a condition compares a column with a value of its type.\<close>

definition value_storable :: "string \<times> sql_val \<Rightarrow> bool" where
  "value_storable p =
     (case (map_of udf_columns (fst p), snd p) of
        (Some None, SInt i) \<Rightarrow> - (2 ^ 63) \<le> i \<and> i < 2 ^ 63
      | (Some (Some n), SStr s) \<Rightarrow> length s \<le> n
      | _ \<Rightarrow> False)"

definition row_storable :: "row \<Rightarrow> bool" where
  "row_storable r \<longleftrightarrow> list_all value_storable r \<and> distinct (map fst r) \<and> set (map fst r) = set (map fst udf_columns)"

definition typed_cond :: "row list \<Rightarrow> bool" where
  "typed_cond dnf = list_all (list_all (\<lambda>p. case (map_of udf_columns (fst p), snd p) of
     (Some None, SInt _) \<Rightarrow> True | (Some (Some _), SStr _) \<Rightarrow> True | _ \<Rightarrow> False)) dnf"

definition int64_val :: "sql_val \<Rightarrow> bool" where
  "int64_val v = (case v of SInt i \<Rightarrow> - (2 ^ 63) \<le> i \<and> i < 2 ^ 63 | SStr _ \<Rightarrow> True)"

definition exec_write :: "(string \<Rightarrow> string) \<Rightarrow> 64 word \<Rightarrow> sql_stmt \<Rightarrow> udf_tables \<Rightarrow> ob_ret \<times> int \<times> udf_tables" where
  "exec_write fold_name t st db =
     (case st of
        SInsert _ r \<Rightarrow>
          if \<not> list_all (int64_val \<circ> snd) r then (OB_DATA_OUT_OF_RANGE, 0, db)
          else if \<not> row_storable r then (OB_ERR_DATA_TOO_LONG, 0, db)
          else if list_ex (same_key fold_name r) (db t) then (OB_ERR_PRIMARY_KEY_DUPLICATE, 0, db)
          else (OB_SUCCESS, 1, db(t := db t @ [r]))
      | SDelete _ dnf \<Rightarrow>
          (OB_SUCCESS, int (length (filter (row_matches fold_name dnf) (db t))),
           db(t := filter (\<lambda>r. \<not> row_matches fold_name dnf r) (db t)))
      | SSelect _ _ \<Rightarrow> (OB_NOT_SUPPORTED, 0, db))"

definition exec_read :: "(string \<Rightarrow> string) \<Rightarrow> 64 word \<Rightarrow> sql_stmt \<Rightarrow> udf_tables \<Rightarrow> ob_ret \<times> (row list \<times> ob_ret) option" where
  "exec_read fold_name t st db =
     (case st of
        SSelect _ dnf \<Rightarrow> (OB_SUCCESS, Some (filter (row_matches fold_name dnf) (db t), OB_ITER_END))
      | _ \<Rightarrow> (OB_NOT_SUPPORTED, None))"

text \<open>What is relied on of the server: a row that fits the columns is inserted unless its key is taken, and the conditions of
  a \<^verbatim>\<open>DELETE\<close> or a \<^verbatim>\<open>SELECT\<close> on columns of the table, compared with values of their types, choose the rows. Nothing is
  relied on for other rows and conditions.\<close>

definition runs_sql :: "(string \<Rightarrow> string) \<Rightarrow> sql_client \<Rightarrow> bool" where
  "runs_sql fold_name client \<longleftrightarrow>
     (\<forall>t sql db r. sql_read sql = Some (SInsert table_name r) \<and> row_storable r \<longrightarrow>
        sc_write client t sql db = exec_write fold_name t (SInsert table_name r) db) \<and>
     (\<forall>t sql db c. sql_read sql = Some (SDelete table_name c) \<and> typed_cond c \<longrightarrow>
        sc_write client t sql db = exec_write fold_name t (SDelete table_name c) db) \<and>
     (\<forall>t sql db c. sql_read sql = Some (SSelect table_name c) \<and> typed_cond c \<longrightarrow>
        sc_read client t sql db = exec_read fold_name t (SSelect table_name c) db)"

lemma runs_sqlD:
  assumes "runs_sql fold_name client"
  shows "sql_read sql = Some (SInsert table_name r) \<Longrightarrow> row_storable r \<Longrightarrow> sc_write client t sql db = exec_write fold_name t (SInsert table_name r) db"
    and "sql_read sql = Some (SDelete table_name c) \<Longrightarrow> typed_cond c \<Longrightarrow> sc_write client t sql db = exec_write fold_name t (SDelete table_name c) db"
    and "sql_read sql = Some (SSelect table_name c) \<Longrightarrow> typed_cond c \<Longrightarrow> sc_read client t sql db = exec_read fold_name t (SSelect table_name c) db"
  using assms by (simp_all add: runs_sql_def)

text \<open>A client with this behaviour: the reader itself, which refuses rows that do not fit.\<close>

definition ref_client :: "(string \<Rightarrow> string) \<Rightarrow> sql_client" where
  "ref_client fold_name =
     \<lparr>sc_write = \<lambda>t sql db. case sql_read sql of None \<Rightarrow> (OB_ERR_PARSER_SYNTAX, 0, db) | Some st \<Rightarrow> exec_write fold_name t st db,
      sc_read = \<lambda>t sql db. case sql_read sql of None \<Rightarrow> (OB_ERR_PARSER_SYNTAX, None) | Some st \<Rightarrow> exec_read fold_name t st db\<rparr>"

lemma ref_client_runs_sql: "runs_sql fold_name (ref_client fold_name)"
  by (simp add: runs_sql_def ref_client_def)

section \<open>Statements and rows\<close>

definition udf_row :: "python_udf \<Rightarrow> row" where
  "udf_row u =
     [(''tenant_id'', SInt 0), (''udf_id'', SInt (int (unat (udf_id u)))), (''name'', SStr (name u)),
      (''arg_num'', SInt (arg_num u)), (''arg_names'', SStr (arg_names u)), (''arg_types'', SStr (arg_types u)),
      (''ret'', SInt (ret_num (ret_type u))), (''pycall'', SStr (pycall u)), (''schema_version'', SInt (schema_version u))]"

definition insert_columns :: string where
  "insert_columns = ''tenant_id, udf_id, name, arg_num, arg_names, arg_types, ret, pycall, schema_version''"

definition insert_values :: "python_udf \<Rightarrow> string" where
  "insert_values u =
     fmt_nat 0 @ '', '' @ fmt_nat (unat (udf_id u)) @ '', '' @ hex_escape (name u) @ '', '' @ fmt_int (arg_num u) @ '', '' @
     hex_escape (arg_names u) @ '', '' @ hex_escape (arg_types u) @ '', '' @ fmt_int (ret_num (ret_type u)) @ '', '' @
     hex_escape (pycall u) @ '', '' @ fmt_int (schema_version u)"

lemma fmt_nonempty [simp]: "fmt_nat n \<noteq> []" "fmt_int i \<noteq> []"
  using fmt_nat_digits by (auto simp: fmt_int_def)

lemma add_sql_parts_ok:
  "(\<And>n. mok n) \<Longrightarrow> add_sql_parts mok u sql = (OB_SUCCESS, sql @ insert_columns, insert_values u)"
  by (simp add: add_sql_parts_def col_append_value_def col_append_escape_str_def append_column_name_def sql_append_def
      sql_append_hex_escape_str_def get_extract_tenant_id_def get_extract_schema_id_def OB_INVALID_TENANT_ID_def
      insert_columns_def insert_values_def Let_def)

definition insert_head :: string where
  "insert_head = ''INSERT INTO '' @ table_name @ '' ('' @ insert_columns @ '') VALUES (''"

lemma insert_head_lex:
  "sql_lex insert_head = Some
     [TIdent ''INSERT'', TIdent ''INTO'', TIdent table_name, TSym (CHR ''(''),
      TIdent ''tenant_id'', TSym (CHR '',''), TIdent ''udf_id'', TSym (CHR '',''), TIdent ''name'', TSym (CHR '',''),
      TIdent ''arg_num'', TSym (CHR '',''), TIdent ''arg_names'', TSym (CHR '',''), TIdent ''arg_types'', TSym (CHR '',''),
      TIdent ''ret'', TSym (CHR '',''), TIdent ''pycall'', TSym (CHR '',''), TIdent ''schema_version'', TSym (CHR '')''),
      TIdent ''VALUES'', TSym (CHR ''('')]"
  by code_simp

lemma values_lex:
  "sql_lex (insert_values u @ '')'') = Some
     (TNum 0 # TSym (CHR '','') # TNum (unat (udf_id u)) # TSym (CHR '','') # TStr (name u) # TSym (CHR '','') #
      int_tokens (arg_num u) @ TSym (CHR '','') # TStr (arg_names u) # TSym (CHR '','') # TStr (arg_types u) # TSym (CHR '','') #
      int_tokens (ret_num (ret_type u)) @ TSym (CHR '','') # TStr (pycall u) # TSym (CHR '','') #
      int_tokens (schema_version u) @ [TSym (CHR '')'')])"
proof -
  have N: "sql_lex (fmt_nat n @ '', '' @ r) = map_option ((@) [TNum n, TSym (CHR '','')]) (sql_lex r)" for n r
    using sql_lex_fmt_nat [of "'', '' @ r" n] by (cases "sql_lex r") (simp_all add: sep_chars sql_lex_comma [simplified])
  have I: "sql_lex (fmt_int i @ '', '' @ r) = map_option ((@) (int_tokens i @ [TSym (CHR '','')])) (sql_lex r)" for i r
    using sql_lex_fmt_int [of "'', '' @ r" i] by (cases "sql_lex r") (simp_all add: sep_chars sql_lex_comma [simplified])
  have H: "sql_lex (hex_escape s @ '', '' @ r) = map_option ((@) [TStr s, TSym (CHR '','')]) (sql_lex r)" for s r
    using sql_lex_hex [of s "'', '' @ r"] by (cases "sql_lex r") (simp_all add: sql_lex_comma [simplified])
  have L: "sql_lex (fmt_int (schema_version u) @ '')'') = Some (int_tokens (schema_version u) @ [TSym (CHR '')'')])"
    using sql_lex_fmt_int [of "'')''" "schema_version u"] by (simp add: sep_chars sql_lex_close)
  show ?thesis unfolding insert_values_def append_assoc N H I L by simp
qed

lemma insert_text_read:
  "sql_read (insert_head @ insert_values u @ '')'') = Some (SInsert table_name (udf_row u))"
proof -
  have "insert_head \<noteq> []" "sep (last insert_head)" by (simp_all add: insert_head_def sep_chars)
  note lex = sql_lex_append [OF insert_head_lex this, of "insert_values u @ '')''"]
  show ?thesis unfolding sql_read_def lex values_lex
    by (simp add: parse_stmt_def udf_row_def)
qed

definition delete_head :: string where
  "delete_head = ''DELETE FROM '' @ table_name @ '' WHERE tenant_id = 0 AND name=''"

definition select_head :: string where
  "select_head = ''SELECT * FROM '' @ table_name @ '' WHERE name = ''"

lemma delete_head_lex:
  "sql_lex delete_head = Some
     [TIdent ''DELETE'', TIdent ''FROM'', TIdent table_name, TIdent ''WHERE'', TIdent ''tenant_id'', TSym (CHR ''=''), TNum 0,
      TIdent ''AND'', TIdent ''name'', TSym (CHR ''='')]"
  by code_simp

lemma select_head_lex:
  "sql_lex select_head = Some
     [TIdent ''SELECT'', TSym (CHR ''*''), TIdent ''FROM'', TIdent table_name, TIdent ''WHERE'', TIdent ''name'', TSym (CHR ''='')]"
  by code_simp

lemma fmt_int_0: "fmt_int 0 = ''0''"
  by code_simp

lemma delete_sql_split: "delete_sql t nm = delete_head @ [quote] @ c_str nm @ [quote]"
  by (simp add: delete_sql_def delete_head_def get_extract_tenant_id_def OB_INVALID_TENANT_ID_def fmt_int_0)

lemma select_sql_split: "select_sql nm = select_head @ [quote] @ c_str nm @ [quote]"
  by (simp add: select_sql_def select_head_def)

lemma plain_c_str: "plain_name nm \<Longrightarrow> c_str nm = nm"
  by (simp add: plain_name_def c_str_id)

lemma delete_text_read:
  assumes "plain_name nm"
  shows "sql_read (delete_sql t nm) = Some (SDelete table_name [[(''tenant_id'', SInt 0), (''name'', SStr nm)]])"
proof -
  have "delete_head \<noteq> []" "sep (last delete_head)" by (simp_all add: delete_head_def sep_chars)
  note lex = sql_lex_append [OF delete_head_lex this, of "[quote] @ nm @ [quote]"]
  show ?thesis unfolding sql_read_def delete_sql_split plain_c_str [OF assms] lex sql_lex_plain [OF assms]
    by (simp add: parse_stmt_def numeral_eq_Suc)
qed

lemma select_text_read:
  assumes "plain_name nm"
  shows "sql_read (select_sql nm) = Some (SSelect table_name [[(''name'', SStr nm)]])"
proof -
  have "select_head \<noteq> []" "sep (last select_head)" by (simp_all add: select_head_def sep_chars)
  note lex = sql_lex_append [OF select_head_lex this, of "[quote] @ nm @ [quote]"]
  show ?thesis unfolding sql_read_def select_sql_split plain_c_str [OF assms] lex sql_lex_plain [OF assms]
    by (simp add: parse_stmt_def)
qed

section \<open>The table as a list of schemas\<close>

definition udf_fits :: "python_udf \<Rightarrow> bool" where
  "udf_fits u \<longleftrightarrow> unat (udf_id u) < 2 ^ 63 \<and> i32_ok (arg_num u) \<and> - (2 ^ 63) \<le> schema_version u \<and> schema_version u < 2 ^ 63"

text \<open>The rows are those of schemas with different names, up to the collation.\<close>

definition table_of :: "(string \<Rightarrow> string) \<Rightarrow> row list \<Rightarrow> python_udf list \<Rightarrow> bool" where
  "table_of fold_name rs us \<longleftrightarrow> rs = map udf_row us \<and> list_all udf_fits us \<and> distinct (map (fold_name \<circ> name) us)"

lemma row_matches_name [simp]:
  "row_matches fold_name [[(''name'', SStr nm)]] (udf_row u) \<longleftrightarrow> fold_name (name u) = fold_name nm"
  "row_matches fold_name [[(''tenant_id'', SInt 0), (''name'', SStr nm)]] (udf_row u) \<longleftrightarrow> fold_name (name u) = fold_name nm"
  by (simp_all add: row_matches_def row_has_def udf_row_def)

lemma same_key_row [simp]: "same_key fold_name (udf_row u) (udf_row v) \<longleftrightarrow> fold_name (name u) = fold_name (name v)"
  by (simp add: same_key_def row_has_def udf_row_def)

lemma row_ints:
  assumes "udf_fits u"
  shows "list_all (int64_val \<circ> snd) (udf_row u)"
proof -
  have "int (unat (udf_id u)) < int (2 ^ 63)" using assms by (simp only: udf_fits_def of_nat_less_iff)
  then have "int64_val (SInt (int (unat (udf_id u))))" by (auto simp: int64_val_def intro: order_trans [OF _ uint_ge_0])
  moreover have "int64_val (SInt (ret_num (ret_type u)))" by (cases "ret_type u") (simp_all add: int64_val_def)
  moreover have "int64_val (SInt (arg_num u))" "int64_val (SInt (schema_version u))"
    using assms by (simp_all add: udf_fits_def i32_ok_def int64_val_def)
  ultimately show ?thesis by (simp add: udf_row_def) (simp add: int64_val_def)
qed

text \<open>The strings of a schema fit into the columns.\<close>

definition column_limits :: "python_udf \<Rightarrow> bool" where
  "column_limits u \<longleftrightarrow> length (name u) \<le> 64 \<and> length (arg_names u) \<le> 1024 \<and> length (arg_types u) \<le> 1024 \<and> length (pycall u) \<le> 65536"

lemma udf_row_storable: "udf_fits u \<Longrightarrow> column_limits u \<Longrightarrow> row_storable (udf_row u)"
  using row_ints [of u]
  by (auto simp: row_storable_def value_storable_def udf_columns_def udf_row_def column_limits_def int64_val_def)

lemma typed_conds:
  "typed_cond [[(''name'', SStr nm)]]" "typed_cond [[(''tenant_id'', SInt i), (''name'', SStr nm)]]"
  "typed_cond [[(''name'', SStr a)], [(''name'', SStr b)]]"
  "typed_cond [[(''tenant_id'', SInt i), (''name'', SStr a)], [(''name'', SStr b)]]"
  by (simp_all add: typed_cond_def udf_columns_def)

lemma filter_key:
  "distinct (map key us) \<Longrightarrow> filter (\<lambda>u. key u = k) us = (case key_map key us k of None \<Rightarrow> [] | Some u \<Rightarrow> [u])"
proof (induction us)
  case (Cons u us)
  then have "key u = k \<Longrightarrow> key_map key us k = None" by (auto simp: key_map_None)
  then show ?case using Cons by (cases "key u = k") (simp_all add: key_map_def)
qed (simp add: key_map_def)

lemma key_map_filter:
  "key_map key (filter (\<lambda>u. key u \<noteq> k) us) = (key_map key us)(k := None)"
  by (rule ext, induction us) (auto simp: key_map_def)

text \<open>What a lookup makes of a row: the tenant is the one asked for, the model name stays as it was.\<close>

definition loaded_udf :: "64 word \<Rightarrow> python_udf \<Rightarrow> python_udf \<Rightarrow> python_udf" where
  "loaded_udf t old u = u \<lparr>tenant_id := t, model_name := model_name old, error_ret := OB_SUCCESS\<rparr>"

lemma fill_udf_row:
  assumes "\<And>n. mok n" and "udf_fits u"
  shows "fill_python_udf_schema mok t (udf_row u) old = Some (OB_SUCCESS, loaded_udf t old u)"
proof -
  have "to_i32 (arg_num u) = arg_num u" using assms(2) by (simp add: udf_fits_def i32_ok_def)
  moreover have "to_i32 (ret_num (ret_type u)) = ret_num (ret_type u)" by (cases "ret_type u") simp_all
  ultimately show ?thesis using assms(1)
    by (simp add: fill_python_udf_schema_def extract_varchar_def extract_int_def result_get_varchar_def result_get_int_def udf_row_def
        deep_copy_str_def python_udf_reset_def Let_def loaded_udf_def)
qed

lemma select_rows:
  assumes "runs_sql fold_name client" and "plain_name nm" and "table_of fold_name (db t) us"
  shows "sc_read client t (select_sql nm) db =
    (OB_SUCCESS, Some (map udf_row (case key_map (fold_name \<circ> name) us (fold_name nm) of None \<Rightarrow> [] | Some u \<Rightarrow> [u]), OB_ITER_END))"
proof -
  have "sc_read client t (select_sql nm) db = exec_read fold_name t (SSelect table_name [[(''name'', SStr nm)]]) db"
    by (rule runs_sqlD(3) [OF assms(1) select_text_read [OF assms(2)] typed_conds(1)])
  moreover have "filter (row_matches fold_name [[(''name'', SStr nm)]]) (db t) =
      map udf_row (filter (\<lambda>u. (fold_name \<circ> name) u = fold_name nm) us)"
    using assms(3) by (simp add: table_of_def filter_map comp_def)
  ultimately show ?thesis
    using assms(3) filter_key [of "fold_name \<circ> name" us "fold_name nm"] by (simp add: exec_read_def table_of_def)
qed

lemma get_python_udf_info_ok:
  assumes "runs_sql fold_name client" and "\<And>n. mok n" and "plain_name nm" and "nm \<noteq> ''''" and "t \<noteq> OB_INVALID_ID"
    and "table_of fold_name (db t) us"
  shows "get_python_udf_info mok client t nm old db =
    Some (case key_map (fold_name \<circ> name) us (fold_name nm) of
        None \<Rightarrow> (OB_SUCCESS, False, old) | Some u \<Rightarrow> (OB_SUCCESS, True, loaded_udf t old u))"
proof -
  have "udf_fits u" if "key_map (fold_name \<circ> name) us (fold_name nm) = Some u" for u
    using key_map_SomeD [OF that] assms(6) by (simp add: table_of_def list_all_iff)
  then show ?thesis
    using assms select_rows [where db = db and t = t, OF assms(1,3,6)]
    by (simp add: get_python_udf_info_def sql_append_def fill_udf_row split: option.split)
qed

lemma check_python_udf_exist_ok:
  assumes "runs_sql fold_name client" and "\<And>n. mok n" and "plain_name nm" and "nm \<noteq> ''''" and "t \<noteq> OB_INVALID_ID"
    and "table_of fold_name (db t) us"
  shows "check_python_udf_exist mok client t nm db =
    Some (case key_map (fold_name \<circ> name) us (fold_name nm) of
        None \<Rightarrow> (OB_SUCCESS, False, OB_INVALID_ID) | Some u \<Rightarrow> (OB_SUCCESS, True, udf_id u))"
proof -
  have "udf_fits u" if "key_map (fold_name \<circ> name) us (fold_name nm) = Some u" for u
    using key_map_SomeD [OF that] assms(6) by (simp add: table_of_def list_all_iff)
  then show ?thesis
    using assms select_rows [where db = db and t = t, OF assms(1,3,6)]
    by (simp add: check_python_udf_exist_def sql_append_def fill_udf_row loaded_udf_def split: option.split)
qed

text \<open>Inserting: a name that is taken is refused by the row key.\<close>

lemma insert_python_udf_sends:
  assumes "\<And>n. mok n" and "error_ret u = OB_SUCCESS" and "check_pycall u = OB_SUCCESS"
  shows "insert_python_udf mok (Some client) u db =
    (case sc_write client (get_exec_tenant_id (tenant_id u)) (insert_head @ insert_values u @ '')'') db of (ret3, affected_rows, db1) \<Rightarrow>
       if ret3 \<noteq> OB_SUCCESS then (ret3, db1) else if affected_rows \<noteq> 1 then (OB_ERR_UNEXPECTED, db1) else (OB_SUCCESS, db1))"
  using assms
  by (simp add: insert_python_udf_def python_udf_is_valid_def sql_add_python_udf_def add_sql_parts_ok sql_append_def insert_head_def)

lemma insert_python_udf_ok:
  assumes "runs_sql fold_name client" and "\<And>n. mok n" and "error_ret u = OB_SUCCESS" and "check_pycall u = OB_SUCCESS"
    and "udf_fits u" and "table_of fold_name (db (get_exec_tenant_id (tenant_id u))) us" and "column_limits u"
  shows "insert_python_udf mok (Some client) u db =
    (if key_map (fold_name \<circ> name) us (fold_name (name u)) = None
     then (OB_SUCCESS, db(get_exec_tenant_id (tenant_id u) := map udf_row (us @ [u])))
     else (OB_ERR_PRIMARY_KEY_DUPLICATE, db))"
proof -
  let ?t = "get_exec_tenant_id (tenant_id u)"
  let ?sql = "insert_head @ insert_values u @ '')''"
  have "sc_write client ?t ?sql db = exec_write fold_name ?t (SInsert table_name (udf_row u)) db"
    by (rule runs_sqlD(1) [OF assms(1) insert_text_read udf_row_storable [OF assms(5,7)]])
  moreover have "list_ex (same_key fold_name (udf_row u)) (db ?t) \<longleftrightarrow> key_map (fold_name \<circ> name) us (fold_name (name u)) \<noteq> None"
    using assms(6) by (auto simp: table_of_def list_ex_iff key_map_None image_iff)
  ultimately have W: "sc_write client ?t ?sql db =
      (if key_map (fold_name \<circ> name) us (fold_name (name u)) = None
       then (OB_SUCCESS, 1, db(?t := map udf_row (us @ [u]))) else (OB_ERR_PRIMARY_KEY_DUPLICATE, 0, db))"
    using row_ints [OF assms(5)] udf_row_storable [OF assms(5,7)] assms(6) by (simp add: exec_write_def table_of_def)
  then show ?thesis using insert_python_udf_sends [OF assms(2-4)] by simp
qed

lemma delete_python_udf_ok:
  assumes "runs_sql fold_name client" and "\<And>n. mok n" and "plain_name nm"
    and "table_of fold_name (db (get_exec_tenant_id t)) us"
  shows "delete_python_udf mok (Some client) t nm db =
    (if key_map (fold_name \<circ> name) us (fold_name nm) = None then OB_ERR_UNEXPECTED else OB_SUCCESS,
     db(get_exec_tenant_id t := map udf_row (filter (\<lambda>u. fold_name (name u) \<noteq> fold_name nm) us)))"
proof -
  let ?t = "get_exec_tenant_id t" and ?c = "[[(''tenant_id'', SInt 0), (''name'', SStr nm)]]"
  have "sc_write client ?t (delete_sql t nm) db = exec_write fold_name ?t (SDelete table_name ?c) db"
    by (rule runs_sqlD(2) [OF assms(1) delete_text_read [OF assms(3)] typed_conds(2)])
  moreover have "length (filter (row_matches fold_name ?c) (db ?t)) =
      (if key_map (fold_name \<circ> name) us (fold_name nm) = None then 0 else 1)"
    using filter_key [of "fold_name \<circ> name" us "fold_name nm"] assms(4)
    by (auto simp: table_of_def filter_map comp_def split: option.splits)
  moreover have "filter (\<lambda>r. \<not> row_matches fold_name ?c r) (db ?t) = map udf_row (filter (\<lambda>u. fold_name (name u) \<noteq> fold_name nm) us)"
    using assms(4) by (simp add: table_of_def filter_map comp_def)
  ultimately show ?thesis using assms(2) by (simp add: delete_python_udf_def sql_append_def exec_write_def)
qed

section \<open>Injected conditions\<close>

lemma injected_c_str: "plain_name a \<Longrightarrow> plain_name b \<Longrightarrow> c_str (injected_name a b) = injected_name a b"
  by (intro c_str_id) (auto simp: injected_name_def plain_name_def or_name_def quote_def char_of_def)

lemma injected_text_read:
  assumes "plain_name a" and "plain_name b"
  shows "sql_read (delete_sql t (injected_name a b)) =
      Some (SDelete table_name [[(''tenant_id'', SInt 0), (''name'', SStr a)], [(''name'', SStr b)]])"
    and "sql_read (select_sql (injected_name a b)) = Some (SSelect table_name [[(''name'', SStr a)], [(''name'', SStr b)]])"
proof -
  have "delete_head \<noteq> []" "sep (last delete_head)" by (simp_all add: delete_head_def sep_chars)
  note dlex = sql_lex_append [OF delete_head_lex this, of "[quote] @ injected_name a b @ [quote]"]
  show "sql_read (delete_sql t (injected_name a b)) =
      Some (SDelete table_name [[(''tenant_id'', SInt 0), (''name'', SStr a)], [(''name'', SStr b)]])"
    unfolding sql_read_def delete_sql_split injected_c_str [OF assms] dlex sql_lex_injected [OF assms]
    by (simp add: parse_stmt_def numeral_eq_Suc)
  have "select_head \<noteq> []" "sep (last select_head)" by (simp_all add: select_head_def sep_chars)
  note slex = sql_lex_append [OF select_head_lex this, of "[quote] @ injected_name a b @ [quote]"]
  show "sql_read (select_sql (injected_name a b)) = Some (SSelect table_name [[(''name'', SStr a)], [(''name'', SStr b)]])"
    unfolding sql_read_def select_sql_split injected_c_str [OF assms] slex sql_lex_injected [OF assms]
    by (simp add: parse_stmt_def numeral_eq_Suc)
qed

lemma row_matches_or:
  "row_matches fold_name (c # d # ds) r \<longleftrightarrow> row_matches fold_name [c] r \<or> row_matches fold_name (d # ds) r"
  by (auto simp: row_matches_def)

lemma injected_filter:
  assumes "table_of fold_name rs us" and "key_map (fold_name \<circ> name) us (fold_name a) = None"
  shows "filter (row_matches fold_name [[(''name'', SStr a)], [(''name'', SStr b)]]) rs =
      map udf_row (filter (\<lambda>u. fold_name (name u) = fold_name b) us)"
    and "filter (row_matches fold_name [[(''tenant_id'', SInt 0), (''name'', SStr a)], [(''name'', SStr b)]]) rs =
      map udf_row (filter (\<lambda>u. fold_name (name u) = fold_name b) us)"
    and "filter (\<lambda>r. \<not> row_matches fold_name [[(''tenant_id'', SInt 0), (''name'', SStr a)], [(''name'', SStr b)]] r) rs =
      map udf_row (filter (\<lambda>u. fold_name (name u) \<noteq> fold_name b) us)"
proof -
  have "u \<in> set us \<Longrightarrow> fold_name (name u) \<noteq> fold_name a" for u using assms(2) by (auto simp: key_map_None image_iff)
  then show "filter (row_matches fold_name [[(''name'', SStr a)], [(''name'', SStr b)]]) rs =
      map udf_row (filter (\<lambda>u. fold_name (name u) = fold_name b) us)"
    "filter (row_matches fold_name [[(''tenant_id'', SInt 0), (''name'', SStr a)], [(''name'', SStr b)]]) rs =
      map udf_row (filter (\<lambda>u. fold_name (name u) = fold_name b) us)"
    "filter (\<lambda>r. \<not> row_matches fold_name [[(''tenant_id'', SInt 0), (''name'', SStr a)], [(''name'', SStr b)]] r) rs =
      map udf_row (filter (\<lambda>u. fold_name (name u) \<noteq> fold_name b) us)"
    using assms(1) by (auto simp: table_of_def filter_map comp_def row_matches_or cong: filter_cong)
qed

lemma injected_services:
  assumes "runs_sql fold_name client" and "\<And>n. mok n" and "plain_name a" and "plain_name b"
    and "t \<noteq> OB_INVALID_ID" and "t \<noteq> OB_INVALID_TENANT_ID" and "table_of fold_name (db t) us"
    and "key_map (fold_name \<circ> name) us (fold_name a) = None" and "key_map (fold_name \<circ> name) us (fold_name b) = Some u"
  shows "check_python_udf_exist mok client t (injected_name a b) db = Some (OB_SUCCESS, True, udf_id u)"
    and "delete_python_udf mok (Some client) t (injected_name a b) db =
      (OB_SUCCESS, db(t := map udf_row (filter (\<lambda>u. fold_name (name u) \<noteq> fold_name b) us)))"
proof -
  have one: "filter (\<lambda>u. fold_name (name u) = fold_name b) us = [u]"
    using filter_key [of "fold_name \<circ> name" us "fold_name b"] assms(7,9) by (simp add: table_of_def)
  have "udf_fits u" using key_map_SomeD [OF assms(9)] assms(7) by (simp add: table_of_def list_all_iff)
  moreover have "sc_read client t (select_sql (injected_name a b)) db = (OB_SUCCESS, Some ([udf_row u], OB_ITER_END))"
    using runs_sqlD(3) [OF assms(1) injected_text_read(2) [OF assms(3,4)] typed_conds(3)] injected_filter(1) [OF assms(7,8), of b] one
    by (simp add: exec_read_def)
  moreover have "injected_name a b \<noteq> ''''" by (simp add: injected_name_def)
  ultimately show "check_python_udf_exist mok client t (injected_name a b) db = Some (OB_SUCCESS, True, udf_id u)"
    using assms(2,5) by (simp add: check_python_udf_exist_def sql_append_def fill_udf_row loaded_udf_def)
  have "sc_write client t (delete_sql t (injected_name a b)) db =
      (OB_SUCCESS, 1, db(t := map udf_row (filter (\<lambda>u. fold_name (name u) \<noteq> fold_name b) us)))"
    using runs_sqlD(2) [OF assms(1) injected_text_read(1) [OF assms(3,4)] typed_conds(4)] injected_filter(2,3) [OF assms(7,8), of b] one
    by (simp add: exec_write_def)
  then show "delete_python_udf mok (Some client) t (injected_name a b) db =
      (OB_SUCCESS, db(t := map udf_row (filter (\<lambda>u. fold_name (name u) \<noteq> fold_name b) us)))"
    using assms(2,6) by (simp add: delete_python_udf_def sql_append_def get_exec_tenant_id_def)
qed

section \<open>The insert statement\<close>

text \<open>C14. Whatever bytes the name, the parameter names and the code of a function hold, the text that \<open>insert_python_udf\<close>
  sends to the server is one \<^verbatim>\<open>INSERT\<close> of exactly one row with exactly these values: the strings are escaped so that none of
  them can end the literal it stands in. The result of the call is the one of this statement, and a statement that did not
  insert one row is an error.\<close>

theorem insert_statement_exact:
  assumes "\<And>n. mok n" and "error_ret u = OB_SUCCESS" and "check_pycall u = OB_SUCCESS"
  shows "\<exists>sql. sql_read sql = Some (SInsert table_name (udf_row u)) \<and>
    (\<forall>client db. insert_python_udf mok (Some client) u db =
      (case sc_write client (get_exec_tenant_id (tenant_id u)) sql db of (ret, affected_rows, db1) \<Rightarrow>
         (if ret \<noteq> OB_SUCCESS then ret else if affected_rows \<noteq> 1 then OB_ERR_UNEXPECTED else OB_SUCCESS, db1)))"
  using insert_text_read [of u] insert_python_udf_sends [where mok = mok and u = u, OF assms]
  by (intro exI [of _ "insert_head @ insert_values u @ '')''"]) (auto split: prod.split)

definition ex_quoted_udf :: python_udf where
  "ex_quoted_udf = python_udf_default \<lparr>tenant_id := 1, name := ''f'' @ [quote] @ '' or 1=1'', pycall := ''pyinitial pyfun''\<rparr>"

theorem insert_statement_exact_witness:
  "\<exists>sql. sql_read sql = Some (SInsert table_name (udf_row ex_quoted_udf)) \<and>
    insert_python_udf (\<lambda>_. True) (Some (ref_client id)) ex_quoted_udf (\<lambda>_. []) =
      (case sc_write (ref_client id) 1 sql (\<lambda>_. []) of (ret, affected_rows, db1) \<Rightarrow>
         (if ret \<noteq> OB_SUCCESS then ret else if affected_rows \<noteq> 1 then OB_ERR_UNEXPECTED else OB_SUCCESS, db1))"
proof -
  have "check_pycall ex_quoted_udf = OB_SUCCESS" by code_simp
  moreover have "error_ret ex_quoted_udf = OB_SUCCESS" "get_exec_tenant_id (tenant_id ex_quoted_udf) = 1"
    by (simp_all add: ex_quoted_udf_def python_udf_default_def get_exec_tenant_id_def OB_INVALID_TENANT_ID_def)
  ultimately show ?thesis using insert_statement_exact [of "\<lambda>_. True" ex_quoted_udf] by auto
qed

end
