(* ===== verification/OB_Parse_Node.thy ===== *)
theory OB_Parse_Node
  imports OB_Prelude
begin

text \<open>
  Parse trees and how the grammar actions build them: \<^verbatim>\<open>src/sql/parser/parse_node.c\<close> and the macros of
  \<^verbatim>\<open>sql_parser_base.h\<close>. A list of the grammar is first built as a tree of link nodes and then flattened by \<open>merge_tree\<close>, which
  walks the tree twice with an explicit stack, first to count the elements and then to store them.

  \<open>alloc\<close> is the outcome of the allocations, in the order in which they happen, and a counter is threaded through. A node
  counts its children by the length of its array; a null array has none, so that the check for a null array with a
  positive count never fires. Counters are unbounded (a statement has less
  than \<open>2\<^sup>3\<^sup>1\<close> nodes). The main lemma is that the two walks with a stack compute the recursive flattening.
\<close>

section \<open>Nodes\<close>

datatype item_type =
    T_CREATE_PYTHON_UDF | T_DROP_PYTHON_UDF | T_IF_EXISTS | T_PYTHON_CODE_TYPE | T_PYTHON_CODE | T_FILE_PATH
  | T_FUNCTION_ELEMENT_LIST | T_PARAM_DEFINITION | T_EXPR_LIST | T_FUN_PYTHON_UDF_NODE | T_LINK_NODE | T_IDENT | T_VARCHAR | T_INT

text \<open>\<open>ParseNode\<close>: the array of children and its entries may be null pointers.\<close>

datatype parse_node =
  ParseNode (pn_type: item_type) (pn_children: "parse_node option list option") (pn_str: string) (pn_value: int)

definition num_child :: "parse_node \<Rightarrow> nat" where
  "num_child n = (case pn_children n of None \<Rightarrow> 0 | Some cs \<Rightarrow> length cs)"

definition child :: "parse_node \<Rightarrow> nat \<Rightarrow> parse_node option" where
  "child n i = do { cs \<leftarrow> pn_children n; if i < length cs then cs ! i else None }"

definition INT64_MAX :: int where
  "INT64_MAX = 2 ^ 63 - 1"

type_synonym allocs = "nat \<Rightarrow> bool"

text \<open>The memory of a node and of its array is set to zero.\<close>

definition new_node :: "allocs \<Rightarrow> nat \<Rightarrow> item_type \<Rightarrow> nat \<Rightarrow> nat \<times> parse_node option" where
  "new_node alloc n ty num =
     (if \<not> alloc n then (n + 1, None)
      else if num > 0
      then if alloc (n + 1) then (n + 2, Some (ParseNode ty (Some (replicate num None)) '''' INT64_MAX)) else (n + 2, None)
      else (n + 1, Some (ParseNode ty None '''' INT64_MAX)))"

definition new_terminal_node :: "allocs \<Rightarrow> nat \<Rightarrow> item_type \<Rightarrow> nat \<times> parse_node option" where
  "new_terminal_node alloc n ty = new_node alloc n ty 0"

definition set_children :: "parse_node option list \<Rightarrow> parse_node \<Rightarrow> parse_node" where
  "set_children cs t = ParseNode (pn_type t) (Some cs) (pn_str t) (pn_value t)"

definition new_non_terminal_node :: "allocs \<Rightarrow> nat \<Rightarrow> item_type \<Rightarrow> parse_node option list \<Rightarrow> nat \<times> parse_node option" where
  "new_non_terminal_node alloc n ty cs =
     (if cs = [] then (n, None)
      else let (n1, t) = new_node alloc n ty (length cs) in (n1, map_option (set_children cs) t))"

section \<open>Merging\<close>

text \<open>The loop that pushes the children of a link node, the last one first; the list is the reversed array.\<close>

fun push_children :: "allocs \<Rightarrow> parse_node option list \<Rightarrow> nat \<Rightarrow> parse_node list \<Rightarrow> ob_ret \<times> nat \<times> parse_node list" where
  "push_children alloc [] n st = (OB_SUCCESS, n, st)"
| "push_children alloc (None # cs) n st = push_children alloc cs n st"
| "push_children alloc (Some c # cs) n st =
     (if alloc n then push_children alloc cs (n + 1) (c # st) else (OB_ALLOCATE_MEMORY_FAILED, n + 1, st))"

definition link_children :: "parse_node \<Rightarrow> parse_node option list" where
  "link_children t = (case pn_children t of None \<Rightarrow> [] | Some cs \<Rightarrow> cs)"

abbreviation weight :: "parse_node list \<Rightarrow> nat" where
  "weight ts \<equiv> sum_list (map size ts)"

lemma push_children_weight:
  "push_children alloc cs n st = (ret, n1, st1) \<Longrightarrow> weight st1 \<le> size_list (size_option size) cs + weight st"
  by (induction alloc cs n st rule: push_children.induct) (auto split: if_splits)

lemma size_list_rev [simp]: "size_list f (rev xs) = size_list f xs"
  by (simp add: size_list_conv_sum_list rev_map [symmetric])

lemma link_children_size: "size_list (size_option size) (link_children t) < size t"
  by (cases t) (auto simp: link_children_def split: option.split)

lemma node_size: "0 < size (t :: parse_node)"
  by (cases t) simp

lemma push_link_weight:
  "push_children alloc (rev (link_children t)) n st = (ret, n1, st1) \<Longrightarrow> weight st1 < size t + weight st"
  using push_children_weight [of alloc "rev (link_children t)" n st ret n1 st1] link_children_size [of t] by simp

text \<open>\<open>count_child\<close>: the loop, and the function.\<close>

function count_loop :: "allocs \<Rightarrow> nat \<Rightarrow> parse_node list \<Rightarrow> nat \<Rightarrow> ob_ret \<times> nat \<times> nat" where
  "count_loop alloc n [] count = (OB_SUCCESS, n, count)"
| "count_loop alloc n (tree # st) count =
     (if pn_type tree \<noteq> T_LINK_NODE then count_loop alloc n st (count + 1)
      else case push_children alloc (rev (link_children tree)) n st of (ret, n1, st1) \<Rightarrow>
        if ret \<noteq> OB_SUCCESS then (ret, n1, count) else count_loop alloc n1 st1 count)"
  by pat_completeness auto
termination
  by (relation "measure (\<lambda>(_, _, st, _). weight st)") (auto simp: node_size dest!: push_link_weight [OF sym])

definition count_child :: "allocs \<Rightarrow> nat \<Rightarrow> parse_node option \<Rightarrow> ob_ret \<times> nat \<times> nat" where
  "count_child alloc n root =
     (case root of
        None \<Rightarrow> (OB_SUCCESS, n, 0)
      | Some t \<Rightarrow> if \<not> alloc n then (OB_ALLOCATE_MEMORY_FAILED, n + 1, 0) else count_loop alloc (n + 1) [t] 0)"

text \<open>\<open>merge_child\<close>: the loop stores the elements at \<open>index\<close> in the array of the new node.\<close>

function merge_loop ::
  "allocs \<Rightarrow> nat \<Rightarrow> parse_node list \<Rightarrow> parse_node \<Rightarrow> nat \<Rightarrow> ob_ret \<times> nat \<times> parse_node \<times> nat" where
  "merge_loop alloc n [] node index = (OB_SUCCESS, n, node, index)"
| "merge_loop alloc n (tree # st) node index =
     (if pn_type tree \<noteq> T_LINK_NODE
      then case pn_children node of
             None \<Rightarrow> (OB_ERR_UNEXPECTED, n, node, index)
           | Some cs \<Rightarrow>
               if index \<ge> length cs then (OB_ERR_UNEXPECTED, n, node, index)
               else merge_loop alloc n st (set_children (cs[index := Some tree]) node) (index + 1)
      else case push_children alloc (rev (link_children tree)) n st of (ret, n1, st1) \<Rightarrow>
        if ret \<noteq> OB_SUCCESS then (ret, n1, node, index) else merge_loop alloc n1 st1 node index)"
  by pat_completeness auto
termination
  by (relation "measure (\<lambda>(_, _, st, _). weight st)") (auto simp: node_size dest!: push_link_weight [OF sym])

definition merge_child ::
  "allocs \<Rightarrow> nat \<Rightarrow> parse_node \<Rightarrow> parse_node option \<Rightarrow> nat \<Rightarrow> ob_ret \<times> nat \<times> parse_node \<times> nat" where
  "merge_child alloc n node source_tree index =
     (case source_tree of
        None \<Rightarrow> (OB_SUCCESS, n, node, index)
      | Some t \<Rightarrow> if \<not> alloc n then (OB_ALLOCATE_MEMORY_FAILED, n + 1, node, index) else merge_loop alloc (n + 1) [t] node index)"

text \<open>\<open>merge_tree\<close> gives the fatal error and the merged node.\<close>

definition merge_tree :: "allocs \<Rightarrow> nat \<Rightarrow> item_type \<Rightarrow> parse_node option \<Rightarrow> ob_ret \<times> nat \<times> parse_node option" where
  "merge_tree alloc n node_tag source_tree =
     (if source_tree = None then (OB_SUCCESS, n, None)
      else case count_child alloc n source_tree of (ret, n1, num) \<Rightarrow>
        if ret \<noteq> OB_SUCCESS then (ret, n1, None)
        else case new_node alloc n1 node_tag num of
          (n2, None) \<Rightarrow> (OB_ALLOCATE_MEMORY_FAILED, n2, None)
        | (n2, Some node) \<Rightarrow>
            (case merge_child alloc n2 node source_tree 0 of (ret1, n3, node1, index) \<Rightarrow>
               if ret1 \<noteq> OB_SUCCESS then (ret1, n3, None)
               else if index \<noteq> num then (OB_SUCCESS, n3, None)
               else (OB_SUCCESS, n3, Some node1)))"

text \<open>The macro \<open>merge_nodes\<close>: without a node the parser aborts for want of memory, unless another error was set.\<close>

definition merge_nodes :: "allocs \<Rightarrow> nat \<Rightarrow> item_type \<Rightarrow> parse_node option \<Rightarrow> ob_ret \<times> nat \<times> parse_node option" where
  "merge_nodes alloc n node_tag source_tree =
     (if source_tree = None then (OB_SUCCESS, n, None)
      else case merge_tree alloc n node_tag source_tree of
        (ret, n1, None) \<Rightarrow> (if ret = OB_SUCCESS then OB_ALLOCATE_MEMORY_FAILED else ret, n1, None)
      | (ret, n1, Some node) \<Rightarrow> (OB_SUCCESS, n1, Some node))"

section \<open>Flattening\<close>

text \<open>The reference: the elements below the link nodes, from left to right.\<close>

function flat :: "parse_node \<Rightarrow> parse_node list" where
  "flat t =
     (if pn_type t \<noteq> T_LINK_NODE then [t]
      else concat (map (\<lambda>c. case c of None \<Rightarrow> [] | Some t1 \<Rightarrow> flat t1) (link_children t)))"
  by pat_completeness auto
termination
proof (relation "measure size", goal_cases)
  case (2 t c t1)
  then have "size t1 < size_list (size_option size) (link_children t)"
    using size_list_estimation [of c "link_children t" "size t1" "size_option size"] by simp
  then show ?case using link_children_size [of t] by simp
qed simp

declare flat.simps [simp del]

abbreviation flats :: "parse_node list \<Rightarrow> parse_node list" where
  "flats st \<equiv> concat (map flat st)"

definition somes :: "'a option list \<Rightarrow> 'a list" where
  "somes cs = List.map_filter id cs"

lemma somes_simps [simp]: "somes [] = []" "somes (None # cs) = somes cs" "somes (Some c # cs) = c # somes cs"
  "somes (xs @ ys) = somes xs @ somes ys" "somes (rev xs) = rev (somes xs)"
  by (simp_all add: somes_def map_filter_def rev_filter [symmetric] rev_map [symmetric])

lemma flat_element [simp]: "pn_type t \<noteq> T_LINK_NODE \<Longrightarrow> flat t = [t]"
  by (simp add: flat.simps)

lemma flat_link: "pn_type t = T_LINK_NODE \<Longrightarrow> flat t = flats (somes (link_children t))"
proof -
  have "concat (map (\<lambda>c. case c of None \<Rightarrow> [] | Some t1 \<Rightarrow> flat t1) cs) = flats (somes cs)" for cs
    by (induction cs) (simp_all split: option.split)
  then show "pn_type t = T_LINK_NODE \<Longrightarrow> flat t = flats (somes (link_children t))" by (simp add: flat.simps [of t])
qed

text \<open>An allocation that fails is the only error.\<close>

definition no_memory :: "allocs \<Rightarrow> ob_ret \<Rightarrow> bool" where
  "no_memory alloc ret \<longleftrightarrow> ret = OB_ALLOCATE_MEMORY_FAILED \<and> (\<exists>i. alloc i = False)"

lemma no_memory_success [simp]: "\<not> no_memory alloc OB_SUCCESS"
  by (simp add: no_memory_def)

lemma push_children_result:
  "push_children alloc cs n st = (ret, n1, st1) \<Longrightarrow> ret = OB_SUCCESS \<and> st1 = rev (somes cs) @ st \<or> no_memory alloc ret"
  by (induction alloc cs n st rule: push_children.induct) (auto simp: no_memory_def split: if_splits)

lemma push_link_flats:
  assumes "push_children alloc (rev (link_children t)) n st = (ret, n1, st1)" and "pn_type t = T_LINK_NODE"
  shows "ret = OB_SUCCESS \<and> flats st1 = flats (t # st) \<or> no_memory alloc ret"
  using push_children_result [OF assms(1)] flat_link [OF assms(2)] by auto

lemma count_loop_result:
  "count_loop alloc n st count = (ret, n1, num) \<Longrightarrow> ret = OB_SUCCESS \<and> num = count + length (flats st) \<or> no_memory alloc ret"
proof (induction alloc n st count rule: count_loop.induct)
  case (2 alloc n tree st count)
  show ?case
  proof (cases "pn_type tree = T_LINK_NODE")
    case True
    obtain r m s where push: "push_children alloc (rev (link_children tree)) n st = (r, m, s)" using prod_cases3 by blast
    then show ?thesis using 2 True push_link_flats [OF push True] by (auto split: if_splits)
  next
    case False
    then show ?thesis using 2 by auto
  qed
qed simp

lemma set_children_sel [simp]: "pn_children (set_children cs t) = Some cs" "set_children ds (set_children cs t) = set_children ds t"
  by (simp_all add: set_children_def)

lemma set_children_id: "pn_children t = Some cs \<Longrightarrow> set_children cs t = t"
  by (cases t) (simp add: set_children_def)

text \<open>The elements go to the places from \<open>index\<close> on.\<close>

definition stored_at :: "'a option list \<Rightarrow> nat \<Rightarrow> 'a list \<Rightarrow> 'a option list" where
  "stored_at cs index xs = take index cs @ map Some xs @ drop (index + length xs) cs"

lemma stored_at_Cons: "index < length cs \<Longrightarrow> stored_at (cs[index := Some x]) (index + 1) xs = stored_at cs index (x # xs)"
  by (simp add: stored_at_def take_Suc_conv_app_nth)

lemma merge_loop_result:
  "merge_loop alloc n st node index = (ret, n1, node1, index1) \<Longrightarrow> pn_children node = Some cs \<Longrightarrow>
   index + length (flats st) \<le> length cs \<Longrightarrow>
   ret = OB_SUCCESS \<and> index1 = index + length (flats st) \<and> node1 = set_children (stored_at cs index (flats st)) node \<or> no_memory alloc ret"
proof (induction alloc n st node index arbitrary: cs rule: merge_loop.induct)
  case (1 alloc n node index)
  then show ?case by (simp add: stored_at_def set_children_id)
next
  case (2 alloc n tree st node index)
  show ?case
  proof (cases "pn_type tree = T_LINK_NODE")
    case True
    obtain r m s where push: "push_children alloc (rev (link_children tree)) n st = (r, m, s)" using prod_cases3 by blast
    then show ?thesis using 2 True push_link_flats [OF push True] by (auto split: if_splits)
  next
    case False
    then have "merge_loop alloc n st (set_children (cs[index := Some tree]) node) (index + 1) = (ret, n1, node1, index1)"
      using 2 by (auto split: if_splits)
    then show ?thesis using 2(1) [OF False \<open>pn_children node = Some cs\<close>, of "cs[index := Some tree]"] 2 False
      by (simp add: stored_at_Cons [symmetric])
  qed
qed

lemma merge_loop_empty:
  "merge_loop alloc n st node index = (ret, n1, node1, index1) \<Longrightarrow> flats st = [] \<Longrightarrow>
   ret = OB_SUCCESS \<and> index1 = index \<and> node1 = node \<or> no_memory alloc ret"
proof (induction alloc n st node index rule: merge_loop.induct)
  case (2 alloc n tree st node index)
  have True: "pn_type tree = T_LINK_NODE" using "2.prems"(2) flat_element [of tree] by fastforce
  obtain r m s where push: "push_children alloc (rev (link_children tree)) n st = (r, m, s)" using prod_cases3 by blast
  then show ?case using 2 True push_link_flats [OF push True] by (auto split: if_splits simp del: concat_eq_Nil_conv)
qed simp

definition merged :: "item_type \<Rightarrow> parse_node list \<Rightarrow> parse_node" where
  "merged ty ts = ParseNode ty (if ts = [] then None else Some (map Some ts)) '''' INT64_MAX"

lemma merge_child_result:
  assumes "new_node alloc n ty (length (flat t)) = (n1, Some node)" and "merge_child alloc n1 node (Some t) 0 = (ret, n2, node1, index)"
  shows "ret = OB_SUCCESS \<and> index = length (flat t) \<and> node1 = merged ty (flat t) \<or> no_memory alloc ret"
proof (cases "alloc n1")
  case True
  then have loop: "merge_loop alloc (n1 + 1) [t] node 0 = (ret, n2, node1, index)" using assms(2) by (simp add: merge_child_def)
  show ?thesis
  proof (cases "flat t = []")
    case True
    then show ?thesis using assms(1) merge_loop_empty [OF loop] by (auto simp: new_node_def merged_def split: if_splits)
  next
    case False
    then have node: "node = ParseNode ty (Some (replicate (length (flat t)) None)) '''' INT64_MAX"
      using assms(1) by (auto simp: new_node_def split: if_splits)
    then show ?thesis using False merge_loop_result [OF loop, of "replicate (length (flat t)) None"]
      by (auto simp: stored_at_def merged_def set_children_def)
  qed
next
  case False
  then show ?thesis using assms(2) by (auto simp: merge_child_def no_memory_def)
qed

lemma merge_tree_result:
  assumes "merge_tree alloc n ty (Some t) = (ret, n1, r)"
  shows "ret = OB_SUCCESS \<and> r = Some (merged ty (flat t)) \<or> no_memory alloc ret \<and> r = None"
proof -
  obtain r1 m num where count: "count_child alloc n (Some t) = (r1, m, num)" using prod_cases3 by blast
  then have c: "r1 = OB_SUCCESS \<and> num = length (flat t) \<or> no_memory alloc r1"
    using count_loop_result [of alloc "n + 1" "[t]" 0 r1 m num]
    by (auto simp: count_child_def no_memory_def simp del: count_loop.simps split: if_splits)
  show ?thesis
  proof (cases "r1 = OB_SUCCESS")
    case True
    obtain m2 node where node: "new_node alloc m ty num = (m2, node)" by fastforce
    then have n: "node = None \<Longrightarrow> no_memory alloc OB_ALLOCATE_MEMORY_FAILED" by (auto simp: new_node_def no_memory_def split: if_splits)
    show ?thesis
    proof (cases node)
      case None
      then show ?thesis using assms True n count node by (auto simp: merge_tree_def)
    next
      case (Some x)
      obtain r2 m3 node1 index where merge: "merge_child alloc m2 x (Some t) 0 = (r2, m3, node1, index)" using prod_cases4 by blast
      have "new_node alloc m ty (length (flat t)) = (m2, Some x)" using node c True Some by auto
      from merge_child_result [OF this merge] show ?thesis
        using assms True c count node Some merge by (auto simp: merge_tree_def split: if_splits)
    qed
  next
    case False
    then show ?thesis using assms c count by (auto simp: merge_tree_def)
  qed
qed

text \<open>C35. \<open>merge_tree\<close> flattens a tree of link nodes. The two walks with an explicit stack, one that counts and one that stores,
  agree with each other and with the recursive flattening: the merged node has the elements below the link nodes, from left to
  right, as its children. The only way to fail is an allocation that fails, which is reported.\<close>

theorem merge_tree_flattens:
  "case merge_tree alloc n ty (Some t) of (ret, n1, r) \<Rightarrow>
     ret = OB_SUCCESS \<and> r = Some (merged ty (flat t)) \<or>
     ret = OB_ALLOCATE_MEMORY_FAILED \<and> r = None \<and> (\<exists>i. alloc i = False)"
  using merge_tree_result [of alloc n ty t] by (auto simp: no_memory_def split: prod.split)

lemma merge_nodes_ok:
  assumes "\<And>i. alloc i"
  shows "\<exists>n1. merge_nodes alloc n ty (Some t) = (OB_SUCCESS, n1, Some (merged ty (flat t)))"
proof -
  obtain ret n1 r where m: "merge_tree alloc n ty (Some t) = (ret, n1, r)" using prod_cases3 by blast
  then show ?thesis using merge_tree_result [OF m] assms by (auto simp: merge_nodes_def no_memory_def)
qed

end
