(* ===== verification/Python_UDF_Grammar.thy ===== *)
theory Python_UDF_Grammar
  imports OB_Parse_Node Python_UDF_Serialize
begin

text \<open>
  The grammar rules of \<^verbatim>\<open>CREATE PYTHON_UDF\<close> and \<^verbatim>\<open>DROP PYTHON_UDF\<close> in \<^verbatim>\<open>src/sql/parser/sql_parser_mysql_mode.y\<close>: what their
  actions build for a statement with given names, parameters, types and code. An action is a function of the allocation
  counter; the parser aborts (\<open>None\<close>) when an allocation fails. Tokens with a text come from the lexer.

  The lemmas say that the actions build the trees the resolvers expect: the parameters, linked one by one while the list
  is parsed, end up as the children of one node in the order of the statement.
\<close>

section \<open>Actions\<close>

type_synonym action = "nat \<Rightarrow> nat \<times> parse_node option"

definition act_bind :: "action \<Rightarrow> (parse_node \<Rightarrow> action) \<Rightarrow> action" where
  "act_bind m f n = (case m n of (n1, None) \<Rightarrow> (n1, None) | (n1, Some t) \<Rightarrow> f t n1)"

definition malloc_terminal_node :: "allocs \<Rightarrow> item_type \<Rightarrow> action" where
  "malloc_terminal_node alloc ty n = new_terminal_node alloc n ty"

definition malloc_non_terminal_node :: "allocs \<Rightarrow> item_type \<Rightarrow> parse_node option list \<Rightarrow> action" where
  "malloc_non_terminal_node alloc ty cs n = new_non_terminal_node alloc n ty cs"

definition merge_action :: "allocs \<Rightarrow> item_type \<Rightarrow> parse_node \<Rightarrow> action" where
  "merge_action alloc ty t n = (case merge_nodes alloc n ty (Some t) of (_, n1, r) \<Rightarrow> (n1, r))"

definition set_value :: "int \<Rightarrow> parse_node \<Rightarrow> parse_node" where
  "set_value v t = ParseNode (pn_type t) (pn_children t) (pn_str t) v"

definition act_return :: "parse_node \<Rightarrow> action" where
  "act_return t n = (n, Some t)"

text \<open>Tokens of the lexer: \<^verbatim>\<open>NAME_OB\<close> and \<^verbatim>\<open>STRING_VALUE\<close>.\<close>

definition name_ob :: "string \<Rightarrow> parse_node" where
  "name_ob s = ParseNode T_IDENT None s INT64_MAX"

definition string_value :: "string \<Rightarrow> parse_node" where
  "string_value s = ParseNode T_VARCHAR None s INT64_MAX"

section \<open>Rules\<close>

text \<open>\<open>param_type\<close> and \<open>ret_type\<close>: \<^verbatim>\<open>DECIMAL\<close>, \<^verbatim>\<open>FIXED\<close> and \<^verbatim>\<open>NUMERIC\<close> are one type.\<close>

definition parse_ret_type :: "allocs \<Rightarrow> py_udf_ret_type \<Rightarrow> action" where
  "parse_ret_type alloc t = act_bind (malloc_terminal_node alloc T_INT) (\<lambda>node. act_return (set_value (ret_num t) node))"

definition parse_function_element :: "allocs \<Rightarrow> string \<times> py_udf_ret_type \<Rightarrow> action" where
  "parse_function_element alloc p =
     act_bind (parse_ret_type alloc (snd p))
       (\<lambda>ty. malloc_non_terminal_node alloc T_PARAM_DEFINITION [Some (name_ob (fst p)), Some ty])"

text \<open>The list is left recursive: what is parsed so far and the next element are linked.\<close>

fun parse_more_elements :: "allocs \<Rightarrow> parse_node \<Rightarrow> (string \<times> py_udf_ret_type) list \<Rightarrow> action" where
  "parse_more_elements alloc l [] = act_return l"
| "parse_more_elements alloc l (p # ps) =
     act_bind (parse_function_element alloc p) (\<lambda>e.
       act_bind (malloc_non_terminal_node alloc T_LINK_NODE [Some l, Some e]) (\<lambda>l1. parse_more_elements alloc l1 ps))"

fun parse_function_element_list :: "allocs \<Rightarrow> (string \<times> py_udf_ret_type) list \<Rightarrow> action" where
  "parse_function_element_list alloc [] n = (n, None)"
| "parse_function_element_list alloc (p # ps) n =
     act_bind (parse_function_element alloc p) (\<lambda>e. parse_more_elements alloc e ps) n"

datatype python_code = Code string | File_Path string

definition parse_python_code_type :: "allocs \<Rightarrow> python_code \<Rightarrow> action" where
  "parse_python_code_type alloc c =
     (case c of Code s \<Rightarrow> malloc_non_terminal_node alloc T_PYTHON_CODE [Some (string_value s)]
      | File_Path s \<Rightarrow> malloc_non_terminal_node alloc T_FILE_PATH [Some (string_value s)])"

definition parse_create_python_udf ::
  "allocs \<Rightarrow> string \<Rightarrow> (string \<times> py_udf_ret_type) list \<Rightarrow> py_udf_ret_type \<Rightarrow> python_code \<Rightarrow> action" where
  "parse_create_python_udf alloc nm params rt code =
     act_bind (parse_function_element_list alloc params) (\<lambda>l.
       act_bind (parse_ret_type alloc rt) (\<lambda>r.
         act_bind (parse_python_code_type alloc code) (\<lambda>c.
           act_bind (merge_action alloc T_FUNCTION_ELEMENT_LIST l) (\<lambda>function_elements.
             act_bind (merge_action alloc T_PYTHON_CODE_TYPE c) (\<lambda>code_type_node.
               malloc_non_terminal_node alloc T_CREATE_PYTHON_UDF
                 [Some (name_ob nm), Some function_elements, Some r, Some code_type_node])))))"

definition parse_create_model_udf :: "allocs \<Rightarrow> string \<Rightarrow> string \<Rightarrow> python_code \<Rightarrow> action" where
  "parse_create_model_udf alloc nm model code =
     act_bind (parse_python_code_type alloc code) (\<lambda>c.
       act_bind (merge_action alloc T_PYTHON_CODE_TYPE c) (\<lambda>code_type_node.
         malloc_non_terminal_node alloc T_CREATE_PYTHON_UDF [Some (name_ob nm), Some (name_ob model), Some code_type_node]))"

definition parse_drop_python_udf :: "allocs \<Rightarrow> bool \<Rightarrow> string \<Rightarrow> action" where
  "parse_drop_python_udf alloc if_exists nm =
     (if if_exists
      then act_bind (malloc_terminal_node alloc T_IF_EXISTS)
             (\<lambda>e. malloc_non_terminal_node alloc T_DROP_PYTHON_UDF [Some e, Some (name_ob nm)])
      else malloc_non_terminal_node alloc T_DROP_PYTHON_UDF [None, Some (name_ob nm)])"

section \<open>The trees\<close>

definition node :: "item_type \<Rightarrow> parse_node option list \<Rightarrow> parse_node" where
  "node ty cs = ParseNode ty (Some cs) '''' INT64_MAX"

definition ret_type_node :: "py_udf_ret_type \<Rightarrow> parse_node" where
  "ret_type_node t = ParseNode T_INT None '''' (ret_num t)"

definition function_element :: "string \<times> py_udf_ret_type \<Rightarrow> parse_node" where
  "function_element p = node T_PARAM_DEFINITION [Some (name_ob (fst p)), Some (ret_type_node (snd p))]"

definition code_node :: "python_code \<Rightarrow> parse_node" where
  "code_node c =
     (case c of Code s \<Rightarrow> node T_PYTHON_CODE [Some (string_value s)] | File_Path s \<Rightarrow> node T_FILE_PATH [Some (string_value s)])"

definition create_python_udf_stmt :: "string \<Rightarrow> (string \<times> py_udf_ret_type) list \<Rightarrow> py_udf_ret_type \<Rightarrow> python_code \<Rightarrow> parse_node" where
  "create_python_udf_stmt nm params rt code =
     node T_CREATE_PYTHON_UDF
       [Some (name_ob nm), Some (node T_FUNCTION_ELEMENT_LIST (map (Some \<circ> function_element) params)),
        Some (ret_type_node rt), Some (node T_PYTHON_CODE_TYPE [Some (code_node code)])]"

definition create_model_udf_stmt :: "string \<Rightarrow> string \<Rightarrow> python_code \<Rightarrow> parse_node" where
  "create_model_udf_stmt nm model code =
     node T_CREATE_PYTHON_UDF [Some (name_ob nm), Some (name_ob model), Some (node T_PYTHON_CODE_TYPE [Some (code_node code)])]"

definition drop_python_udf_stmt :: "bool \<Rightarrow> string \<Rightarrow> parse_node" where
  "drop_python_udf_stmt if_exists nm =
     node T_DROP_PYTHON_UDF
       [if if_exists then Some (ParseNode T_IF_EXISTS None '''' INT64_MAX) else None, Some (name_ob nm)]"

section \<open>Actions with enough memory\<close>

definition builds :: "action \<Rightarrow> parse_node \<Rightarrow> bool" where
  "builds m t \<longleftrightarrow> (\<forall>n. \<exists>n1. m n = (n1, Some t))"

named_theorems build

lemma builds_bind [build]: "builds m t \<Longrightarrow> builds (f t) t1 \<Longrightarrow> builds (act_bind m f) t1"
  unfolding builds_def act_bind_def by (metis (mono_tags, lifting) case_prod_conv option.simps(5))

lemma builds_return [build]: "builds (act_return t) t"
  by (simp add: builds_def act_return_def)

locale enough_memory =
  fixes alloc :: allocs
  assumes alloc_ok: "alloc i"
begin

lemma builds_terminal [build]: "builds (malloc_terminal_node alloc ty) (ParseNode ty None '''' INT64_MAX)"
  by (simp add: builds_def malloc_terminal_node_def new_terminal_node_def new_node_def alloc_ok)

lemma builds_non_terminal [build]: "cs \<noteq> [] \<Longrightarrow> builds (malloc_non_terminal_node alloc ty cs) (node ty cs)"
  by (simp add: builds_def malloc_non_terminal_node_def new_non_terminal_node_def new_node_def alloc_ok set_children_def node_def)

lemma builds_merge [build]: "builds (merge_action alloc ty t) (merged ty (flat t))"
proof -
  have "\<exists>n1. merge_nodes alloc n ty (Some t) = (OB_SUCCESS, n1, Some (merged ty (flat t)))" for n
    using alloc_ok by (rule merge_nodes_ok)
  then show ?thesis unfolding builds_def merge_action_def by (metis case_prod_conv)
qed

lemma builds_ret_type [build]: "builds (parse_ret_type alloc t) (ret_type_node t)"
  unfolding parse_ret_type_def by (rule build)+ (simp add: set_value_def ret_type_node_def build)

lemma builds_element [build]: "builds (parse_function_element alloc p) (function_element p)"
  unfolding parse_function_element_def function_element_def by (rule build)+ simp

text \<open>The tree of link nodes has the elements parsed so far below it.\<close>

lemma builds_more:
  "\<exists>t. builds (parse_more_elements alloc l ps) t \<and> flat t = flat l @ map function_element ps"
proof (induction ps arbitrary: l)
  case Nil
  show ?case by (intro exI [of _ l]) (simp add: build)
next
  case (Cons p ps)
  let ?l = "node T_LINK_NODE [Some l, Some (function_element p)]"
  have "flat ?l = flat l @ [function_element p]"
    by (simp add: flat_link node_def link_children_def function_element_def)
  moreover obtain t where t: "builds (parse_more_elements alloc ?l ps) t" "flat t = flat ?l @ map function_element ps"
    using Cons by blast
  moreover have "builds (parse_more_elements alloc l (p # ps)) t"
    unfolding parse_more_elements.simps by (rule build t(1))+ (simp_all add: t(1))
  ultimately show ?case by auto
qed

lemma builds_element_list:
  assumes "ps \<noteq> []"
  shows "\<exists>t. builds (parse_function_element_list alloc ps) t \<and> flat t = map function_element ps"
proof -
  obtain p qs where ps: "ps = p # qs" using assms by (cases ps) auto
  obtain t where t: "builds (parse_more_elements alloc (function_element p) qs) t"
      "flat t = flat (function_element p) @ map function_element qs"
    using builds_more by blast
  have "builds (act_bind (parse_function_element alloc p) (\<lambda>e. parse_more_elements alloc e qs)) t" by (rule build t)+
  moreover have "flat (function_element p) = [function_element p]" by (simp add: function_element_def node_def)
  ultimately show ?thesis using t(2) by (auto simp: ps builds_def)
qed

lemma builds_code [build]: "builds (parse_python_code_type alloc c) (code_node c)"
  by (cases c) (simp_all add: parse_python_code_type_def code_node_def build)

lemma flat_code: "merged ty (flat (code_node c)) = node ty [Some (code_node c)]"
  by (cases c) (simp_all add: code_node_def node_def merged_def)

lemma builds_create:
  assumes "params \<noteq> []"
  shows "builds (parse_create_python_udf alloc nm params rt code) (create_python_udf_stmt nm params rt code)"
proof -
  obtain t where t: "builds (parse_function_element_list alloc params) t" "flat t = map function_element params"
    using builds_element_list [OF assms] by blast
  have list: "merged T_FUNCTION_ELEMENT_LIST (flat t) = node T_FUNCTION_ELEMENT_LIST (map (Some \<circ> function_element) params)"
    using assms by (simp add: t(2) merged_def node_def)
  show ?thesis
    unfolding parse_create_python_udf_def create_python_udf_stmt_def list [symmetric] flat_code [symmetric]
    by (rule build t(1))+ simp
qed

lemma builds_create_model:
  "builds (parse_create_model_udf alloc nm model code) (create_model_udf_stmt nm model code)"
  unfolding parse_create_model_udf_def create_model_udf_stmt_def flat_code [symmetric] by (rule build)+ simp

lemma builds_drop: "builds (parse_drop_python_udf alloc e nm) (drop_python_udf_stmt e nm)"
  by (cases e) (auto simp: parse_drop_python_udf_def drop_python_udf_stmt_def intro!: build)

end

interpretation memory: enough_memory "\<lambda>_. True"
  by unfold_locales simp

end
