(* ===== verification/Python_UDF_DDL.thy ===== *)
theory Python_UDF_DDL
  imports Python_UDF_SQL Python_UDF_Grammar
begin

text \<open>
  \<^verbatim>\<open>CREATE PYTHON_UDF\<close> and \<^verbatim>\<open>DROP PYTHON_UDF\<close> from the parse tree to the inner table: the resolvers
  (\<^verbatim>\<open>ob_create_python_udf_resolver.cpp\<close>, \<^verbatim>\<open>ob_drop_python_udf_resolver.cpp\<close>), the executors (\<^verbatim>\<open>ob_python_udf_executor.cpp\<close>), the
  root service, the DDL service and the DDL operator, composed with the serialization of the request and with the SQL
  service. The argument of a \<^verbatim>\<open>DROP\<close> is passed to the root service as it is.

  Parameters are what these functions call outside of the UDF code: files, the lower-casing of a name, the RPC proxy, the
  state of the root service, the schema guard, the transaction, the generators of ids and versions, and the publication of
  a schema. The network is a parameter too: a call of the root server may fail before it gets there, or its answer may be
  lost after the root server has done the work. \<open>transactional\<close> is what is relied on of a transaction: a rollback restores the
  tables and a successful commit keeps the changes.
\<close>

section \<open>Resolvers\<close>

text \<open>The string setters of \<open>ObPythonUDF\<close>.\<close>

definition set_udf_str ::
  "(nat \<Rightarrow> bool) \<Rightarrow> ((string \<Rightarrow> string) \<Rightarrow> python_udf \<Rightarrow> python_udf) \<Rightarrow> string \<Rightarrow> python_udf \<Rightarrow> ob_ret \<times> python_udf" where
  "set_udf_str mok upd s u =
     (let ret = deep_copy_str mok (error_ret u) s in (ret, if ret = OB_SUCCESS then upd (\<lambda>_. s) u else u))"

text \<open>\<open>resolve_pycall\<close>. A file that cannot be opened gives an empty text, and the error code is overwritten.\<close>

definition resolve_pycall ::
  "(nat \<Rightarrow> bool) \<Rightarrow> (string \<Rightarrow> string option) \<Rightarrow> parse_node \<Rightarrow> python_udf \<Rightarrow> (ob_ret \<times> python_udf) option" where
  "resolve_pycall mok files parse_node u =
     do { type_node \<leftarrow> child parse_node 0;
          code_node \<leftarrow> child type_node 0;
          Some (if pn_type type_node = T_PYTHON_CODE then set_udf_str mok pycall_update (pn_str code_node) u
                else let python_code = (case files (c_str (pn_str code_node)) of None \<Rightarrow> '''' | Some text \<Rightarrow> text)
                in set_udf_str mok pycall_update python_code u) }"

definition arg_type_text :: "int \<Rightarrow> string" where
  "arg_type_text v =
     (if v = 1 then ''STRING'' else if v = 2 then ''INTEGER'' else if v = 3 then ''REAL'' else if v = 4 then ''DECIMAL'' else '''')"

text \<open>The loop over the parameters.\<close>

fun arg_loop :: "parse_node option list \<Rightarrow> string \<times> string \<Rightarrow> (string \<times> string) option" where
  "arg_loop [] acc = Some acc"
| "arg_loop (e # es) (names, types) =
     do { element \<leftarrow> e;
          arg_name_node \<leftarrow> child element 0;
          type_node \<leftarrow> child element 1;
          let comma = (if es = [] then '''' else '','')
          in arg_loop es (names @ c_str (pn_str arg_name_node) @ comma, types @ arg_type_text (pn_value type_node) @ comma) }"

definition resolve_ret :: "int \<Rightarrow> python_udf \<Rightarrow> python_udf" where
  "resolve_ret v u =
     (if v = 1 then u \<lparr>ret_type := STRING\<rparr> else if v = 2 then u \<lparr>ret_type := INTEGER\<rparr>
      else if v = 3 then u \<lparr>ret_type := REAL\<rparr> else if v = 4 then u \<lparr>ret_type := DECIMAL\<rparr> else u)"

text \<open>\<open>ObCreatePythonUdfResolver::resolve\<close>; \<open>stmt_ok\<close> is the outcome of \<open>create_stmt\<close>. Only the result of \<open>resolve_pycall\<close> is
  looked at.\<close>

definition resolve_create ::
  "(nat \<Rightarrow> bool) \<Rightarrow> bool \<Rightarrow> (string \<Rightarrow> string option) \<Rightarrow> 64 word \<Rightarrow> parse_node \<Rightarrow> (ob_ret \<times> python_udf) option" where
  "resolve_create mok stmt_ok files tenant tree =
     (let n = num_child tree
      in if pn_type tree \<noteq> T_CREATE_PYTHON_UDF \<or> (n \<noteq> 4 \<and> n \<noteq> 3) \<or> pn_children tree = None
         then Some (OB_INVALID_ARGUMENT, python_udf_default)
         else if \<not> stmt_ok then Some (OB_ALLOCATE_MEMORY_FAILED, python_udf_default)
         else do {
           relation_node \<leftarrow> child tree 0;
           let u1 = snd (set_udf_str mok name_update (pn_str relation_node) python_udf_default)
           in do {
             u2 \<leftarrow> (if n = 4
               then do {
                 list_node \<leftarrow> child tree 1;
                 (names, types) \<leftarrow> arg_loop (case pn_children list_node of None \<Rightarrow> [] | Some cs \<Rightarrow> cs) ('''', '''');
                 ret_node \<leftarrow> child tree 2;
                 let ua = u1 \<lparr>arg_num := int (num_child list_node)\<rparr>;
                     ub = snd (set_udf_str mok arg_names_update names ua);
                     uc = snd (set_udf_str mok arg_types_update types ub)
                 in Some (resolve_ret (pn_value ret_node) uc) }
               else do {
                 model_name_node \<leftarrow> child tree 1;
                 Some (snd (set_udf_str mok model_name_update (pn_str model_name_node) u1)) });
             pycall_node \<leftarrow> child tree (n - 1);
             (ret, u3) \<leftarrow> resolve_pycall mok files pycall_node u2;
             Some (ret, u3 \<lparr>tenant_id := tenant\<rparr>) } })"

record drop_arg =
  da_tenant_id :: "64 word"
  da_name :: string
  da_if_exist :: bool

text \<open>\<open>ObDropPythonUdfResolver::resolve\<close>. The name is lower-cased, other than in \<^verbatim>\<open>CREATE\<close>; \<open>casedn\<close> is
  \<open>ObCharset::casedn\<close>, \<open>ptrs_ok\<close> that the session, the schema checker and the allocator are there.\<close>

definition resolve_drop ::
  "(nat \<Rightarrow> bool) \<Rightarrow> bool \<Rightarrow> bool \<Rightarrow> ob_ret \<Rightarrow> (string \<Rightarrow> string) \<Rightarrow> 64 word \<Rightarrow> parse_node \<Rightarrow> (ob_ret \<times> drop_arg option) option" where
  "resolve_drop mok ptrs_ok stmt_ok collation_ret casedn tenant tree =
     (if \<not> ptrs_ok \<or> pn_type tree \<noteq> T_DROP_PYTHON_UDF \<or> num_child tree \<noteq> 2 \<or> pn_children tree = None \<or>
         (case child tree 0 of None \<Rightarrow> False | Some e \<Rightarrow> pn_type e \<noteq> T_IF_EXISTS)
      then Some (OB_ERR_UNEXPECTED, None)
      else if collation_ret \<noteq> OB_SUCCESS then Some (collation_ret, None)
      else do {
        name_node \<leftarrow> child tree 1;
        if \<not> (pn_str name_node = '''' \<or> mok (length (pn_str name_node))) then Some (OB_ALLOCATE_MEMORY_FAILED, None)
        else if \<not> stmt_ok then Some (OB_ALLOCATE_MEMORY_FAILED, None)
        else Some (OB_SUCCESS, Some \<lparr>da_tenant_id = tenant, da_name = casedn (pn_str name_node), da_if_exist = (child tree 0 \<noteq> None)\<rparr>) })"

section \<open>The root server\<close>

record ddl_env =
  de_inited :: bool
  de_inner_stat :: ob_ret
  de_guard :: ob_ret
  de_guard_version :: ob_ret
  de_start :: ob_ret
  de_end :: "bool \<Rightarrow> udf_tables \<Rightarrow> udf_tables \<Rightarrow> ob_ret \<times> udf_tables"
  de_publish :: ob_ret
  de_schema_service :: bool
  de_new_id :: "ob_ret \<times> 64 word"
  de_new_version :: "ob_ret \<times> int"
  de_modify_dep :: "64 word \<Rightarrow> ob_ret"

definition transactional :: "ddl_env \<Rightarrow> bool" where
  "transactional env \<longleftrightarrow>
     (\<forall>db db1. snd (de_end env False db db1) = db) \<and>
     (\<forall>db db1 d. de_end env True db db1 = (OB_SUCCESS, d) \<longrightarrow> d = db1)"

text \<open>\<open>ObDDLOperator::create_python_udf\<close> and \<open>drop_python_udf\<close>, inside the transaction.\<close>

definition operator_create_python_udf ::
  "ddl_env \<Rightarrow> (nat \<Rightarrow> bool) \<Rightarrow> sql_client \<Rightarrow> python_udf \<Rightarrow> udf_tables \<Rightarrow> ob_ret \<times> udf_tables" where
  "operator_create_python_udf env mok client u db =
     (if \<not> de_schema_service env then (OB_ERR_SYS, db)
      else if fst (de_new_id env) \<noteq> OB_SUCCESS then (fst (de_new_id env), db)
      else if fst (de_new_version env) \<noteq> OB_SUCCESS then (fst (de_new_version env), db)
      else insert_python_udf mok (Some client) (u \<lparr>udf_id := snd (de_new_id env), schema_version := snd (de_new_version env)\<rparr>) db)"

definition operator_drop_python_udf ::
  "ddl_env \<Rightarrow> (nat \<Rightarrow> bool) \<Rightarrow> sql_client \<Rightarrow> 64 word \<Rightarrow> string \<Rightarrow> udf_tables \<Rightarrow> ob_ret \<times> udf_tables" where
  "operator_drop_python_udf env mok client t nm db =
     (if t = OB_INVALID_ID then (OB_INVALID_ARGUMENT, db)
      else if \<not> de_schema_service env then (OB_ERR_SYS, db)
      else if fst (de_new_version env) \<noteq> OB_SUCCESS then (fst (de_new_version env), db)
      else delete_python_udf mok (Some client) t nm db)"

text \<open>The end of a transaction: the result of \<open>trans.end\<close> counts only if nothing failed before.\<close>

definition end_trans :: "ddl_env \<Rightarrow> ob_ret \<Rightarrow> udf_tables \<Rightarrow> udf_tables \<Rightarrow> ob_ret \<times> udf_tables" where
  "end_trans env ret db db1 =
     (let (temp_ret, db2) = de_end env (ret = OB_SUCCESS) db db1
      in (if temp_ret \<noteq> OB_SUCCESS then (if ret = OB_SUCCESS then temp_ret else ret) else ret, db2))"

definition publish_schema :: "ddl_env \<Rightarrow> ob_ret \<times> udf_tables \<Rightarrow> ob_ret \<times> udf_tables" where
  "publish_schema env p = (if fst p = OB_SUCCESS then (de_publish env, snd p) else p)"

definition ddl_create_python_udf ::
  "ddl_env \<Rightarrow> (nat \<Rightarrow> bool) \<Rightarrow> sql_client \<Rightarrow> python_udf \<Rightarrow> udf_tables \<Rightarrow> ob_ret \<times> udf_tables" where
  "ddl_create_python_udf env mok client u db =
     (if de_inner_stat env \<noteq> OB_SUCCESS then (de_inner_stat env, db)
      else if de_guard env \<noteq> OB_SUCCESS then (de_guard env, db)
      else publish_schema env
        (if de_guard_version env \<noteq> OB_SUCCESS then (de_guard_version env, db)
         else if de_start env \<noteq> OB_SUCCESS then (de_start env, db)
         else let (ret, db1) = operator_create_python_udf env mok client u db in end_trans env ret db db1))"

definition drop_arg_is_valid :: "drop_arg \<Rightarrow> bool" where
  "drop_arg_is_valid arg \<longleftrightarrow> da_name arg \<noteq> ''''"

definition ddl_drop_python_udf ::
  "ddl_env \<Rightarrow> (nat \<Rightarrow> bool) \<Rightarrow> sql_client \<Rightarrow> drop_arg \<Rightarrow> udf_tables \<Rightarrow> (ob_ret \<times> udf_tables) option" where
  "ddl_drop_python_udf env mok client arg db =
     (let t = da_tenant_id arg; nm = da_name arg
      in if de_inner_stat env \<noteq> OB_SUCCESS then Some (de_inner_stat env, db)
         else if de_guard env \<noteq> OB_SUCCESS then Some (de_guard env, db)
         else if \<not> drop_arg_is_valid arg then Some (OB_INVALID_ARGUMENT, db)
         else do {
           (ret, is_exist, i) \<leftarrow> check_python_udf_exist mok client t nm db;
           Some (publish_schema env
             (if ret \<noteq> OB_SUCCESS then (ret, db)
              else if \<not> is_exist then (if da_if_exist arg then OB_SUCCESS else OB_ERR_FUNCTION_UNKNOWN, db)
              else if de_guard_version env \<noteq> OB_SUCCESS then (de_guard_version env, db)
              else if de_start env \<noteq> OB_SUCCESS then (de_start env, db)
              else let (ret1, db1) =
                     (if de_modify_dep env i \<noteq> OB_SUCCESS then (de_modify_dep env i, db)
                      else operator_drop_python_udf env mok client t nm db)
                   in end_trans env ret1 db db1)) })"

text \<open>\<open>ObRootService\<close>: the argument is copied; that the function exists is looked up and then ignored.\<close>

definition root_create_python_udf ::
  "ddl_env \<Rightarrow> (nat \<Rightarrow> bool) \<Rightarrow> sql_client \<Rightarrow> python_udf \<Rightarrow> udf_tables \<Rightarrow> (ob_ret \<times> udf_tables) option" where
  "root_create_python_udf env mok client arg db =
     (let u = python_udf_assign mok python_udf_default arg
      in if \<not> de_inited env then Some (OB_NOT_INIT, db)
         else if name arg = '''' then Some (OB_INVALID_ARGUMENT, db)
         else do { (ret, exist, i) \<leftarrow> check_python_udf_exist mok client (tenant_id arg) (name arg) db;
                   Some (if ret \<noteq> OB_SUCCESS then (ret, db) else ddl_create_python_udf env mok client u db) })"

definition root_drop_python_udf ::
  "ddl_env \<Rightarrow> (nat \<Rightarrow> bool) \<Rightarrow> sql_client \<Rightarrow> drop_arg \<Rightarrow> udf_tables \<Rightarrow> (ob_ret \<times> udf_tables) option" where
  "root_drop_python_udf env mok client arg db =
     (if \<not> de_inited env then Some (OB_NOT_INIT, db)
      else if \<not> drop_arg_is_valid arg then Some (OB_INVALID_ARGUMENT, db)
      else ddl_drop_python_udf env mok client arg db)"

section \<open>Executors\<close>

text \<open>What happens to a call of the root server: it is answered, it fails on the way there, or the caller gives up (a timeout, a
  broken connection) although the root server executes it.\<close>

datatype rpc_fate = Answered | Not_Delivered ob_ret | Answer_Lost ob_ret

fun deliver ::
  "rpc_fate \<Rightarrow> (udf_tables \<Rightarrow> (ob_ret \<times> udf_tables) option) \<Rightarrow> udf_tables \<Rightarrow> (ob_ret \<times> udf_tables) option" where
  "deliver Answered handler db = handler db"
| "deliver (Not_Delivered r) handler db = Some (r, db)"
| "deliver (Answer_Lost r) handler db = do { (_, db1) \<leftarrow> handler db; Some (r, db1) }"

record exec_env =
  ee_first_stmt :: ob_ret
  ee_task_ctx :: bool
  ee_get_rpc :: ob_ret
  ee_rpc :: bool
  ee_fate :: rpc_fate

definition executor_ret :: "exec_env \<Rightarrow> ob_ret" where
  "executor_ret ee =
     (if ee_first_stmt ee \<noteq> OB_SUCCESS then ee_first_stmt ee
      else if \<not> ee_task_ctx ee then OB_NOT_INIT
      else if ee_get_rpc ee \<noteq> OB_SUCCESS then ee_get_rpc ee
      else if \<not> ee_rpc ee then OB_ERR_UNEXPECTED
      else OB_SUCCESS)"

definition executor_ready :: "exec_env \<Rightarrow> bool" where
  "executor_ready ee \<longleftrightarrow> executor_ret ee = OB_SUCCESS \<and> ee_fate ee = Answered"

text \<open>The call of the root server sends the serialized schema.\<close>

definition rpc_create_python_udf ::
  "rpc_fate \<Rightarrow> ddl_env \<Rightarrow> (nat \<Rightarrow> bool) \<Rightarrow> sql_client \<Rightarrow> python_udf \<Rightarrow> udf_tables \<Rightarrow> (ob_ret \<times> udf_tables) option" where
  "rpc_create_python_udf fate env mok client u db =
     do { (ret, bs, n) \<leftarrow> python_udf_serialize u (replicate (python_udf_serialize_size u) 0) 0;
          if ret \<noteq> OB_SUCCESS then Some (ret, db)
          else deliver fate (\<lambda>db.
            do { (ret1, _, arg) \<leftarrow> python_udf_deserialize bs n 0 python_udf_default;
                 if ret1 \<noteq> OB_SUCCESS then Some (ret1, db)
                 else root_create_python_udf env mok client arg db }) db }"

definition execute_create ::
  "exec_env \<Rightarrow> ddl_env \<Rightarrow> (nat \<Rightarrow> bool) \<Rightarrow> sql_client \<Rightarrow> python_udf \<Rightarrow> udf_tables \<Rightarrow> (ob_ret \<times> udf_tables) option" where
  "execute_create ee env mok client u db =
     (if executor_ret ee \<noteq> OB_SUCCESS then Some (executor_ret ee, db) else rpc_create_python_udf (ee_fate ee) env mok client u db)"

definition execute_drop ::
  "exec_env \<Rightarrow> ddl_env \<Rightarrow> (nat \<Rightarrow> bool) \<Rightarrow> sql_client \<Rightarrow> drop_arg \<Rightarrow> udf_tables \<Rightarrow> (ob_ret \<times> udf_tables) option" where
  "execute_drop ee env mok client arg db =
     (if executor_ret ee \<noteq> OB_SUCCESS then Some (executor_ret ee, db)
      else deliver (ee_fate ee) (root_drop_python_udf env mok client arg) db)"

text \<open>A statement from its parse tree to the tables.\<close>

definition run_create ::
  "exec_env \<Rightarrow> ddl_env \<Rightarrow> (nat \<Rightarrow> bool) \<Rightarrow> sql_client \<Rightarrow> (string \<Rightarrow> string option) \<Rightarrow> 64 word \<Rightarrow> parse_node \<Rightarrow> udf_tables \<Rightarrow> (ob_ret \<times> udf_tables) option" where
  "run_create ee env mok client files tenant tree db =
     do { (ret, u) \<leftarrow> resolve_create mok True files tenant tree;
          if ret \<noteq> OB_SUCCESS then Some (ret, db) else execute_create ee env mok client u db }"

definition run_drop ::
  "exec_env \<Rightarrow> ddl_env \<Rightarrow> (nat \<Rightarrow> bool) \<Rightarrow> sql_client \<Rightarrow> (string \<Rightarrow> string) \<Rightarrow> 64 word \<Rightarrow> parse_node \<Rightarrow> udf_tables \<Rightarrow> (ob_ret \<times> udf_tables) option" where
  "run_drop ee env mok client casedn tenant tree db =
     do { (ret, arg) \<leftarrow> resolve_drop mok True True OB_SUCCESS casedn tenant tree;
          case arg of None \<Rightarrow> Some (ret, db) | Some a \<Rightarrow> execute_drop ee env mok client a db }"

section \<open>Resolving\<close>

lemma arg_type_text_token: "arg_type_text (ret_num t) = type_token t"
  by (cases t) (simp_all add: arg_type_text_def)

lemma resolve_ret_num: "ret_type u = UDF_UNINITIAL \<Longrightarrow> resolve_ret (ret_num t) u = u \<lparr>ret_type := t\<rparr>"
  by (cases t) (simp_all add: resolve_ret_def)

lemma child_node [simp]: "child (node ty cs) i = (if i < length cs then cs ! i else None)"
  by (simp add: child_def node_def)

lemma num_child_node [simp]: "num_child (node ty cs) = length cs"
  by (simp add: num_child_def node_def)

lemma node_sel [simp]: "pn_type (node ty cs) = ty" "pn_children (node ty cs) = Some cs" "pn_str (name_ob s) = s"
  "pn_str (string_value s) = s" "pn_value (ret_type_node t) = ret_num t"
  by (simp_all add: node_def name_ob_def string_value_def ret_type_node_def)

text \<open>The loop joins the names and the types with commas.\<close>

lemma arg_loop_step:
  "arg_loop (Some (function_element p) # es) (a, b) =
     arg_loop es (a @ c_str (fst p) @ (if es = [] then [] else '',''), b @ type_token (snd p) @ (if es = [] then [] else '',''))"
  by (simp add: function_element_def arg_type_text_token Let_def)

lemma join_comma_Cons: "ts \<noteq> [] \<Longrightarrow> join_comma (t # ts) = t @ '','' @ join_comma ts"
  by (cases ts) simp_all

lemma arg_loop_ok:
  "arg_loop (map (Some \<circ> function_element) ps) (a, b) =
     Some (a @ join_comma (map (c_str \<circ> fst) ps), b @ join_comma (map (type_token \<circ> snd) ps))"
proof (induction ps arbitrary: a b)
  case (Cons p ps)
  show ?case
    by (cases "ps = []") (simp_all add: arg_loop_step join_comma_Cons Cons.IH [unfolded comp_def] del: arg_loop.simps(2))
qed simp

definition code_text :: "(string \<Rightarrow> string option) \<Rightarrow> python_code \<Rightarrow> string" where
  "code_text files c = (case c of Code s \<Rightarrow> s | File_Path p \<Rightarrow> (case files (c_str p) of None \<Rightarrow> '''' | Some text \<Rightarrow> text))"

definition declared_udf :: "64 word \<Rightarrow> string \<Rightarrow> (string \<times> py_udf_ret_type) list \<Rightarrow> py_udf_ret_type \<Rightarrow> string \<Rightarrow> python_udf" where
  "declared_udf tenant nm params rt code =
     python_udf_default \<lparr>tenant_id := tenant, name := nm, arg_num := int (length params),
       arg_names := join_comma (map (c_str \<circ> fst) params), arg_types := join_comma (map (type_token \<circ> snd) params),
       ret_type := rt, pycall := code\<rparr>"

lemma set_udf_str_ok: "(\<And>n. mok n) \<Longrightarrow> error_ret u = OB_SUCCESS \<Longrightarrow> set_udf_str mok upd s u = (OB_SUCCESS, upd (\<lambda>_. s) u)"
  by (simp add: set_udf_str_def deep_copy_str_def Let_def)

lemma resolve_create_ok:
  assumes "\<And>n. mok n"
  shows "resolve_create mok True files tenant (create_python_udf_stmt nm params rt code) =
    Some (OB_SUCCESS, declared_udf tenant nm params rt (code_text files code))"
  using assms
  by (simp add: resolve_create_def create_python_udf_stmt_def set_udf_str_ok python_udf_default_def arg_loop_ok
      resolve_ret_num resolve_pycall_def code_node_def code_text_def declared_udf_def Let_def
      numeral_2_eq_2 numeral_3_eq_3 split: python_code.split)

section \<open>Creating\<close>

text \<open>\<open>env_up\<close>: the root service works up to the end of the transaction. \<open>env_ready\<close>: commit and publication work as well.\<close>

definition env_up :: "ddl_env \<Rightarrow> bool" where
  "env_up env \<longleftrightarrow>
     de_inited env \<and> de_inner_stat env = OB_SUCCESS \<and> de_guard env = OB_SUCCESS \<and> de_guard_version env = OB_SUCCESS \<and>
     de_start env = OB_SUCCESS \<and> de_schema_service env \<and> fst (de_new_id env) = OB_SUCCESS \<and>
     unat (snd (de_new_id env)) < 2 ^ 63 \<and> fst (de_new_version env) = OB_SUCCESS \<and> - (2 ^ 63) \<le> snd (de_new_version env) \<and>
     snd (de_new_version env) < 2 ^ 63 \<and> (\<forall>i. de_modify_dep env i = OB_SUCCESS)"

definition env_ready :: "ddl_env \<Rightarrow> bool" where
  "env_ready env \<longleftrightarrow> env_up env \<and> de_publish env = OB_SUCCESS \<and> (\<forall>db db1. fst (de_end env True db db1) = OB_SUCCESS)"

lemma end_trans_commit:
  assumes "env_ready env" and "transactional env"
  shows "end_trans env OB_SUCCESS db db1 = (OB_SUCCESS, db1)"
proof -
  obtain d where "de_end env True db db1 = (OB_SUCCESS, d)" using assms(1) by (metis env_ready_def prod.collapse)
  moreover from this have "d = db1" using assms(2) by (simp add: transactional_def)
  ultimately show ?thesis by (simp add: end_trans_def)
qed

lemma end_trans_rollback:
  assumes "transactional env" and "ret \<noteq> OB_SUCCESS"
  shows "end_trans env ret db db1 = (ret, db)"
proof -
  have "snd (de_end env False db db1) = db" using assms(1) by (simp add: transactional_def)
  then show ?thesis using assms(2) by (cases "de_end env False db db1") (simp add: end_trans_def)
qed

text \<open>The schema the root service stores: the copy drops the model name, the operator sets the id and the version.\<close>

definition stored_udf :: "ddl_env \<Rightarrow> python_udf \<Rightarrow> python_udf" where
  "stored_udf env u = u \<lparr>model_name := '''', udf_id := snd (de_new_id env), schema_version := snd (de_new_version env)\<rparr>"

lemma python_udf_assign_ok:
  "(\<And>n. mok n) \<Longrightarrow> error_ret u = OB_SUCCESS \<Longrightarrow> python_udf_assign mok python_udf_default u = u \<lparr>model_name := ''''\<rparr>"
  by (cases u) (simp add: python_udf_assign_def deep_copy_str_def python_udf_default_def python_udf_reset_def)

lemma check_pycall_cong: "pycall u = pycall v \<Longrightarrow> check_pycall u = check_pycall v"
  by (simp add: check_pycall_def)

lemma root_create_runs:
  assumes "runs_sql fold_name client" and "\<And>n. mok n" and "env_up env"
    and "error_ret u = OB_SUCCESS" and "check_pycall u = OB_SUCCESS" and "i32_ok (arg_num u)" and "column_limits u"
    and "plain_name (name u)" and "name u \<noteq> ''''" and "tenant_id u \<noteq> OB_INVALID_ID" and "tenant_id u \<noteq> OB_INVALID_TENANT_ID"
    and "table_of fold_name (db (tenant_id u)) us"
  shows "root_create_python_udf env mok client u db =
    Some (publish_schema env
      (if key_map (fold_name \<circ> name) us (fold_name (name u)) = None
       then end_trans env OB_SUCCESS db (db(tenant_id u := map udf_row (us @ [stored_udf env u])))
       else end_trans env OB_ERR_PRIMARY_KEY_DUPLICATE db db))"
proof -
  let ?u = "stored_udf env u" and ?t = "tenant_id u"
  let ?k = "key_map (fold_name \<circ> name) us (fold_name (name u))"
  have exec: "get_exec_tenant_id ?t = ?t" using assms(11) by (simp add: get_exec_tenant_id_def)
  have sel: "tenant_id ?u = ?t" "name ?u = name u" "error_ret ?u = OB_SUCCESS" using assms(4) by (simp_all add: stored_udf_def)
  have "udf_fits ?u" using assms(3,6) by (simp add: udf_fits_def stored_udf_def env_up_def)
  moreover have "check_pycall ?u = OB_SUCCESS" using assms(5) check_pycall_cong [of ?u u] by (simp add: stored_udf_def)
  moreover have "column_limits ?u" using assms(7) by (simp add: column_limits_def stored_udf_def)
  ultimately have "insert_python_udf mok (Some client) ?u db =
      (if ?k = None then (OB_SUCCESS, db(?t := map udf_row (us @ [?u]))) else (OB_ERR_PRIMARY_KEY_DUPLICATE, db))"
    using insert_python_udf_ok [OF assms(1,2), of ?u db us] assms(12) by (simp add: exec sel)
  moreover have "python_udf_assign mok python_udf_default u \<lparr>udf_id := snd (de_new_id env), schema_version := snd (de_new_version env)\<rparr> = ?u"
    using python_udf_assign_ok [OF assms(2,4)] by (simp add: stored_udf_def)
  moreover have "\<exists>e i. check_python_udf_exist mok client ?t (name u) db = Some (OB_SUCCESS, e, i)"
    using check_python_udf_exist_ok [where db = db and t = ?t, OF assms(1,2,8,9,10,12)] by (simp add: ex_bool_eq split: option.split)
  ultimately show ?thesis
    using assms(3,9)
    by (auto simp: root_create_python_udf_def ddl_create_python_udf_def operator_create_python_udf_def env_up_def Let_def)
qed

lemma rpc_create_ok:
  assumes "python_udf_sendable u" and "model_name u = ''''" and "schema_version u = OB_INVALID_VERSION" and "error_ret u = OB_SUCCESS"
  shows "rpc_create_python_udf fate env mok client u db = deliver fate (root_create_python_udf env mok client u) db"
proof -
  let ?n = "length (python_udf_bytes u)"
  have "python_udf_serialize u (replicate ?n 0) 0 = Some (OB_SUCCESS, python_udf_bytes u, ?n)"
    using writes_room [OF writes_python_udf [OF assms(1)], of 0 "replicate ?n 0"] by simp
  moreover have "python_udf_deserialize (python_udf_bytes u) ?n 0 python_udf_default = Some (OB_SUCCESS, ?n, u)"
    using readsD [OF reads_python_udf [OF assms(1)], of 0 "python_udf_bytes u" ?n python_udf_default] assms(2-4)
    by (simp add: received_udf_def python_udf_default_def)
  ultimately show ?thesis by (simp add: rpc_create_python_udf_def length_python_udf_bytes)
qed

section \<open>Dropping\<close>

lemma root_drop_ok:
  assumes "runs_sql fold_name client" and "\<And>n. mok n" and "transactional env" and "env_ready env"
    and "plain_name nm" and "nm \<noteq> ''''" and "t \<noteq> OB_INVALID_ID" and "t \<noteq> OB_INVALID_TENANT_ID"
    and "table_of fold_name (db t) us"
  shows "root_drop_python_udf env mok client \<lparr>da_tenant_id = t, da_name = nm, da_if_exist = e\<rparr> db =
    Some (if key_map (fold_name \<circ> name) us (fold_name nm) = None
          then (if e then OB_SUCCESS else OB_ERR_FUNCTION_UNKNOWN, db)
          else (OB_SUCCESS, db(t := map udf_row (filter (\<lambda>u. fold_name (name u) \<noteq> fold_name nm) us))))"
proof -
  have exec: "get_exec_tenant_id t = t" using assms(8) by (simp add: get_exec_tenant_id_def)
  note exist = check_python_udf_exist_ok [where db = db and t = t, OF assms(1,2,5,6,7,9)]
  have del: "delete_python_udf mok (Some client) t nm db =
      (if key_map (fold_name \<circ> name) us (fold_name nm) = None then OB_ERR_UNEXPECTED else OB_SUCCESS,
       db(t := map udf_row (filter (\<lambda>u. fold_name (name u) \<noteq> fold_name nm) us)))"
    using delete_python_udf_ok [where db = db and t = t, OF assms(1,2,5)] assms(9) by (simp add: exec)
  show ?thesis
  proof (cases "key_map (fold_name \<circ> name) us (fold_name nm)")
    case None
    then show ?thesis using assms(4,6) exist
      by (simp add: root_drop_python_udf_def ddl_drop_python_udf_def drop_arg_is_valid_def publish_schema_def env_ready_def env_up_def Let_def)
  next
    case (Some u)
    then show ?thesis using assms(4,6,7) exist del end_trans_commit [OF assms(4,3)]
      by (simp add: root_drop_python_udf_def ddl_drop_python_udf_def operator_drop_python_udf_def drop_arg_is_valid_def
          publish_schema_def env_ready_def env_up_def Let_def)
  qed
qed

section \<open>The catalogue\<close>

text \<open>The contract of the two statements: a finite map from names, up to the collation, to functions.\<close>

datatype ddl_stmt =
    Create_UDF string "(string \<times> py_udf_ret_type) list" py_udf_ret_type python_code
  | Drop_UDF bool string

fun stmt_tree :: "ddl_stmt \<Rightarrow> parse_node" where
  "stmt_tree (Create_UDF nm params rt code) = create_python_udf_stmt nm params rt code"
| "stmt_tree (Drop_UDF e nm) = drop_python_udf_stmt e nm"

text \<open>A statement is dispatched on the type of its tree. The environment may differ from statement to statement.\<close>

definition run_stmt ::
  "exec_env \<Rightarrow> ddl_env \<Rightarrow> (nat \<Rightarrow> bool) \<Rightarrow> sql_client \<Rightarrow> (string \<Rightarrow> string option) \<Rightarrow> (string \<Rightarrow> string) \<Rightarrow> 64 word \<Rightarrow>
   ddl_stmt \<Rightarrow> udf_tables \<Rightarrow> (ob_ret \<times> udf_tables) option" where
  "run_stmt ee env mok client files casedn t st db =
     (case st of Create_UDF nm params rt code \<Rightarrow> run_create ee env mok client files t (stmt_tree st) db
      | Drop_UDF e nm \<Rightarrow> run_drop ee env mok client casedn t (stmt_tree st) db)"

fun run_stmts ::
  "exec_env \<Rightarrow> (nat \<Rightarrow> bool) \<Rightarrow> sql_client \<Rightarrow> (string \<Rightarrow> string option) \<Rightarrow> (string \<Rightarrow> string) \<Rightarrow> 64 word \<Rightarrow>
   (ddl_env \<times> ddl_stmt) list \<Rightarrow> udf_tables \<Rightarrow> (ob_ret list \<times> udf_tables) option" where
  "run_stmts ee mok client files casedn t [] db = Some ([], db)"
| "run_stmts ee mok client files casedn t ((env, st) # sts) db =
     do { (ret, db1) \<leftarrow> run_stmt ee env mok client files casedn t st db;
          (rets, db2) \<leftarrow> run_stmts ee mok client files casedn t sts db1;
          Some (ret # rets, db2) }"

type_synonym catalogue = "string \<rightharpoonup> python_udf"

fun catalogue_step ::
  "(string \<Rightarrow> string) \<Rightarrow> (string \<Rightarrow> string option) \<Rightarrow> 64 word \<Rightarrow> ddl_env \<times> ddl_stmt \<Rightarrow> catalogue \<Rightarrow> ob_ret \<times> catalogue" where
  "catalogue_step fold_name files t (env, Create_UDF nm params rt code) c =
     (if c (fold_name nm) = None
      then (OB_SUCCESS, c(fold_name nm \<mapsto> stored_udf env (declared_udf t nm params rt (code_text files code))))
      else (OB_ERR_PRIMARY_KEY_DUPLICATE, c))"
| "catalogue_step fold_name files t (env, Drop_UDF e nm) c =
     (if c (fold_name nm) = None then (if e then OB_SUCCESS else OB_ERR_FUNCTION_UNKNOWN, c)
      else (OB_SUCCESS, c(fold_name nm := None)))"

fun catalogue_steps ::
  "(string \<Rightarrow> string) \<Rightarrow> (string \<Rightarrow> string option) \<Rightarrow> 64 word \<Rightarrow> (ddl_env \<times> ddl_stmt) list \<Rightarrow> catalogue \<Rightarrow> ob_ret list \<times> catalogue" where
  "catalogue_steps fold_name files t [] c = ([], c)"
| "catalogue_steps fold_name files t (st # sts) c =
     (let (ret, c1) = catalogue_step fold_name files t st c; (rets, c2) = catalogue_steps fold_name files t sts c1
      in (ret # rets, c2))"

text \<open>The statements the contract covers: names without quotes, backslashes and null bytes, code with the two entry points,
  strings that fit the protocol and the columns of the inner table.\<close>

fun stmt_ok :: "(string \<Rightarrow> string option) \<Rightarrow> (string \<Rightarrow> string) \<Rightarrow> 64 word \<Rightarrow> ddl_env \<times> ddl_stmt \<Rightarrow> bool" where
  "stmt_ok files casedn t (env, Create_UDF nm params rt code) \<longleftrightarrow>
     transactional env \<and> env_ready env \<and> plain_name nm \<and> nm \<noteq> '''' \<and>
     python_udf_sendable (declared_udf t nm params rt (code_text files code)) \<and>
     column_limits (declared_udf t nm params rt (code_text files code)) \<and>
     check_pycall (declared_udf t nm params rt (code_text files code)) = OB_SUCCESS"
| "stmt_ok files casedn t (env, Drop_UDF e nm) \<longleftrightarrow>
     transactional env \<and> env_ready env \<and> plain_name (casedn nm) \<and> casedn nm \<noteq> ''''"

lemma declared_udf_sel [simp]:
  "tenant_id (declared_udf t nm params rt code) = t" "name (declared_udf t nm params rt code) = nm"
  "model_name (declared_udf t nm params rt code) = ''''" "error_ret (declared_udf t nm params rt code) = OB_SUCCESS"
  "schema_version (declared_udf t nm params rt code) = OB_INVALID_VERSION"
  by (simp_all add: declared_udf_def python_udf_default_def)

lemma run_create_ok:
  assumes "runs_sql fold_name client" and "\<And>n. mok n" and "executor_ready ee"
    and "t \<noteq> OB_INVALID_ID" and "t \<noteq> OB_INVALID_TENANT_ID" and "table_of fold_name (db t) us"
    and "stmt_ok files casedn t (env, Create_UDF nm params rt code)"
  shows "run_create ee env mok client files t (create_python_udf_stmt nm params rt code) db =
    Some (if key_map (fold_name \<circ> name) us (fold_name nm) = None
          then (OB_SUCCESS, db(t := map udf_row (us @ [stored_udf env (declared_udf t nm params rt (code_text files code))])))
          else (OB_ERR_PRIMARY_KEY_DUPLICATE, db))"
proof -
  let ?u = "declared_udf t nm params rt (code_text files code)"
  have env: "env_ready env" "transactional env" using assms(7) by simp_all
  have "i32_ok (arg_num ?u)" using assms(7) by (simp add: python_udf_sendable_def)
  then have "root_create_python_udf env mok client ?u db =
      Some (if key_map (fold_name \<circ> name) us (fold_name nm) = None
            then (OB_SUCCESS, db(t := map udf_row (us @ [stored_udf env ?u]))) else (OB_ERR_PRIMARY_KEY_DUPLICATE, db))"
    using root_create_runs [where u = ?u and db = db and us = us and env = env, OF assms(1,2)] assms(4-7)
      end_trans_commit [OF env] end_trans_rollback [OF env(2)]
    by (simp add: env_ready_def publish_schema_def)
  moreover have "rpc_create_python_udf Answered env mok client ?u db = root_create_python_udf env mok client ?u db"
    using rpc_create_ok [of ?u] assms(7) by simp
  ultimately show ?thesis
    using assms(3) by (simp add: run_create_def resolve_create_ok [OF assms(2)] execute_create_def executor_ready_def)
qed

lemma run_drop_ok:
  assumes "runs_sql fold_name client" and "\<And>n. mok n" and "executor_ready ee"
    and "t \<noteq> OB_INVALID_ID" and "t \<noteq> OB_INVALID_TENANT_ID" and "table_of fold_name (db t) us"
    and "stmt_ok files casedn t (env, Drop_UDF e nm)" and "fold_name (casedn nm) = fold_name nm"
  shows "run_drop ee env mok client casedn t (drop_python_udf_stmt e nm) db =
    Some (if key_map (fold_name \<circ> name) us (fold_name nm) = None
          then (if e then OB_SUCCESS else OB_ERR_FUNCTION_UNKNOWN, db)
          else (OB_SUCCESS, db(t := map udf_row (filter (\<lambda>u. fold_name (name u) \<noteq> fold_name nm) us))))"
proof -
  have "resolve_drop mok True True OB_SUCCESS casedn t (drop_python_udf_stmt e nm) =
      Some (OB_SUCCESS, Some \<lparr>da_tenant_id = t, da_name = casedn nm, da_if_exist = e\<rparr>)"
    using assms(2) by (simp add: resolve_drop_def drop_python_udf_stmt_def)
  then show ?thesis
    using root_drop_ok [where env = env and nm = "casedn nm" and t = t and e = e and db = db, OF assms(1,2)] assms(3-8)
    by (simp add: run_drop_def execute_drop_def executor_ready_def)
qed

text \<open>What the tables of a tenant hold, as a catalogue.\<close>

definition holds_catalogue :: "(string \<Rightarrow> string) \<Rightarrow> row list \<Rightarrow> catalogue \<Rightarrow> bool" where
  "holds_catalogue fold_name rs c \<longleftrightarrow> (\<exists>us. table_of fold_name rs us \<and> c = key_map (fold_name \<circ> name) us)"

lemma stored_fits:
  assumes "env_ready env" and "python_udf_sendable u"
  shows "udf_fits (stored_udf env u)"
  using assms by (simp add: udf_fits_def stored_udf_def env_ready_def env_up_def python_udf_sendable_def)

lemma holds_insert:
  assumes "table_of fold_name rs us" and "udf_fits u" and "key_map (fold_name \<circ> name) us (fold_name (name u)) = None"
  shows "holds_catalogue fold_name (map udf_row (us @ [u])) ((key_map (fold_name \<circ> name) us)(fold_name (name u) \<mapsto> u))"
proof -
  have "table_of fold_name (map udf_row (us @ [u])) (us @ [u])"
    using assms by (auto simp: table_of_def key_map_None image_iff)
  moreover have "key_map (fold_name \<circ> name) (us @ [u]) = (key_map (fold_name \<circ> name) us)(fold_name (name u) \<mapsto> u)"
    using key_map_insert [of "fold_name \<circ> name" u us "[]"] assms(3) by (simp add: key_map_None)
  ultimately show ?thesis unfolding holds_catalogue_def by metis
qed

lemma holds_delete:
  assumes "table_of fold_name rs us"
  shows "holds_catalogue fold_name (map udf_row (filter (\<lambda>u. fold_name (name u) \<noteq> fold_name nm) us))
    ((key_map (fold_name \<circ> name) us)(fold_name nm := None))"
proof -
  let ?us = "filter (\<lambda>u. fold_name (name u) \<noteq> fold_name nm) us"
  have "table_of fold_name (map udf_row ?us) ?us"
    using assms by (auto simp: table_of_def list_all_iff distinct_map_filter)
  moreover have "key_map (fold_name \<circ> name) ?us = (key_map (fold_name \<circ> name) us)(fold_name nm := None)"
    using key_map_filter [of "fold_name \<circ> name"] by (simp add: comp_def)
  ultimately show ?thesis unfolding holds_catalogue_def by metis
qed

lemma run_stmt_step:
  assumes "runs_sql fold_name client" and "\<And>n. mok n" and "executor_ready ee"
    and "t \<noteq> OB_INVALID_ID" and "t \<noteq> OB_INVALID_TENANT_ID" and "\<And>nm. fold_name (casedn nm) = fold_name nm"
    and "stmt_ok files casedn t (env, st)" and "holds_catalogue fold_name (db t) c"
  shows "\<exists>db1. run_stmt ee env mok client files casedn t st db = Some (fst (catalogue_step fold_name files t (env, st) c), db1) \<and>
    holds_catalogue fold_name (db1 t) (snd (catalogue_step fold_name files t (env, st) c)) \<and> (\<forall>t'. t' \<noteq> t \<longrightarrow> db1 t' = db t')"
proof -
  obtain us where us: "table_of fold_name (db t) us" and c: "c = key_map (fold_name \<circ> name) us"
    using assms(8) unfolding holds_catalogue_def by blast
  show ?thesis
  proof (cases st)
    case (Create_UDF nm params rt code)
    let ?u = "stored_udf env (declared_udf t nm params rt (code_text files code))"
    have "udf_fits ?u" and "name ?u = nm"
      using assms(7) by (simp_all add: Create_UDF stored_fits) (simp add: stored_udf_def)
    then show ?thesis
      using run_create_ok [where db = db and us = us, OF assms(1-5) us assms(7) [unfolded Create_UDF]] assms(8)
        holds_insert [OF us, of ?u]
      by (simp add: Create_UDF run_stmt_def c)
  next
    case (Drop_UDF e nm)
    show ?thesis
      using run_drop_ok [where db = db and us = us, OF assms(1-5) us assms(7) [unfolded Drop_UDF] assms(6)] assms(8) holds_delete [OF us]
      by (simp add: Drop_UDF run_stmt_def c)
  qed
qed

lemma run_stmts_steps:
  assumes "runs_sql fold_name client" and "\<And>n. mok n" and "executor_ready ee"
    and "t \<noteq> OB_INVALID_ID" and "t \<noteq> OB_INVALID_TENANT_ID" and "\<And>nm. fold_name (casedn nm) = fold_name nm"
  shows "list_all (stmt_ok files casedn t) sts \<Longrightarrow> holds_catalogue fold_name (db t) c \<Longrightarrow>
    \<exists>db1. run_stmts ee mok client files casedn t sts db = Some (fst (catalogue_steps fold_name files t sts c), db1) \<and>
      holds_catalogue fold_name (db1 t) (snd (catalogue_steps fold_name files t sts c)) \<and> (\<forall>t'. t' \<noteq> t \<longrightarrow> db1 t' = db t')"
proof (induction sts arbitrary: db c)
  case (Cons p sts)
  obtain env st where p: "p = (env, st)" by (cases p)
  obtain ret c1 where step: "catalogue_step fold_name files t (env, st) c = (ret, c1)" by fastforce
  obtain db1 where 1: "run_stmt ee env mok client files casedn t st db = Some (ret, db1)"
      "holds_catalogue fold_name (db1 t) c1" "\<forall>t'. t' \<noteq> t \<longrightarrow> db1 t' = db t'"
    using run_stmt_step [where db = db and mok = mok and files = files and env = env and st = st, OF assms _ Cons.prems(2)] Cons.prems(1) step p by auto
  obtain rets c2 where steps: "catalogue_steps fold_name files t sts c1 = (rets, c2)" by fastforce
  obtain db2 where "run_stmts ee mok client files casedn t sts db1 = Some (rets, db2)"
      "holds_catalogue fold_name (db2 t) c2" "\<forall>t'. t' \<noteq> t \<longrightarrow> db2 t' = db1 t'"
    using Cons.IH [where db = db1 and c = c1, OF _ 1(2)] Cons.prems(1) steps by auto
  with 1 show ?case by (simp add: p step steps)
qed simp

lemma catalogue_lookup:
  assumes "runs_sql fold_name client" and "\<And>n. mok n" and "plain_name nm" and "nm \<noteq> ''''" and "t \<noteq> OB_INVALID_ID"
    and "holds_catalogue fold_name (db t) c"
  shows "get_python_udf_info mok client t nm old db =
    Some (case c (fold_name nm) of None \<Rightarrow> (OB_SUCCESS, False, old) | Some u \<Rightarrow> (OB_SUCCESS, True, loaded_udf t old u))"
  using assms(6) get_python_udf_info_ok [where db = db and t = t, OF assms(1-5)] by (auto simp: holds_catalogue_def)

section \<open>Failures\<close>

text \<open>A transaction is atomic, also when the outcome of its commit is reported as unknown: it took place or it did not.\<close>

definition atomic_end :: "ddl_env \<Rightarrow> bool" where
  "atomic_end env \<longleftrightarrow> (\<forall>db db1. snd (de_end env True db db1) = db \<or> snd (de_end env True db db1) = db1)"

text \<open>The same root server on a day when commit and publication work.\<close>

definition settled :: "ddl_env \<Rightarrow> ddl_env" where
  "settled env = env \<lparr>de_end := (\<lambda>commit db db1. (OB_SUCCESS, if commit then db1 else db)), de_publish := OB_SUCCESS\<rparr>"

lemma settled_sel [simp]:
  "de_inited (settled env) = de_inited env" "de_inner_stat (settled env) = de_inner_stat env" "de_guard (settled env) = de_guard env"
  "de_guard_version (settled env) = de_guard_version env" "de_start (settled env) = de_start env"
  "de_schema_service (settled env) = de_schema_service env" "de_new_id (settled env) = de_new_id env"
  "de_new_version (settled env) = de_new_version env" "de_modify_dep (settled env) = de_modify_dep env"
  by (simp_all add: settled_def)

lemma operator_settled [simp]:
  "operator_create_python_udf (settled env) = operator_create_python_udf env"
  "operator_drop_python_udf (settled env) = operator_drop_python_udf env"
  by (simp_all add: fun_eq_iff operator_create_python_udf_def operator_drop_python_udf_def)

text \<open>The tables are changed as the statement is meant to change them, by a result \<open>s\<close> of the settled environment, and the error is
  one of the commit or of the publication.\<close>

definition took_place :: "ddl_env \<Rightarrow> udf_tables \<Rightarrow> ob_ret \<times> udf_tables \<Rightarrow> ob_ret \<times> udf_tables \<Rightarrow> bool" where
  "took_place env db p s \<longleftrightarrow> s = (OB_SUCCESS, snd p) \<and>
     (fst p = OB_SUCCESS \<or> fst p = de_publish env \<or> (\<exists>db1. de_end env True db db1 = p))"

lemma snd_publish [simp]: "snd (publish_schema env p) = snd p"
  by (simp add: publish_schema_def)

lemma end_publish_settled:
  assumes "transactional env" and "atomic_end env"
  shows "snd (publish_schema env (end_trans env ret db db1)) = db \<or>
    took_place env db (publish_schema env (end_trans env ret db db1)) (publish_schema (settled env) (end_trans (settled env) ret db db1))"
proof (cases "ret = OB_SUCCESS")
  case True
  obtain r d where e: "de_end env True db db1 = (r, d)" by fastforce
  then have "d = db \<or> d = db1" using assms(2) by (metis atomic_end_def snd_conv)
  then show ?thesis using True e
    by (auto simp: took_place_def publish_schema_def end_trans_def settled_def)
next
  case False
  then show ?thesis using end_trans_rollback [OF assms(1)] by (simp add: publish_schema_def)
qed

lemma ddl_create_settled:
  assumes "transactional env" and "atomic_end env"
  shows "snd (ddl_create_python_udf env mok client u db) = db \<or>
    took_place env db (ddl_create_python_udf env mok client u db) (ddl_create_python_udf (settled env) mok client u db)"
proof -
  obtain ret db1 where "operator_create_python_udf env mok client u db = (ret, db1)" by fastforce
  then show ?thesis using end_publish_settled [OF assms, of ret db db1]
    by (auto simp: ddl_create_python_udf_def)
qed

lemma root_create_settled:
  assumes "transactional env" and "atomic_end env" and "root_create_python_udf env mok client u db = Some p"
  shows "snd p = db \<or> (\<exists>s. root_create_python_udf (settled env) mok client u db = Some s \<and> took_place env db p s)"
  using assms(3) ddl_create_settled [OF assms(1,2), where mok = mok and client = client and db = db and u = "python_udf_assign mok python_udf_default u"]
  by (auto simp: root_create_python_udf_def Let_def bind_eq_Some_conv simp del: split_paired_Ex split: if_splits)

lemma ddl_drop_settled:
  assumes "transactional env" and "atomic_end env" and "ddl_drop_python_udf env mok client arg db = Some p"
  shows "snd p = db \<or> (\<exists>s. ddl_drop_python_udf (settled env) mok client arg db = Some s \<and> took_place env db p s)"
proof (cases "check_python_udf_exist mok client (da_tenant_id arg) (da_name arg) db")
  case None
  then show ?thesis using assms(3) by (auto simp: ddl_drop_python_udf_def Let_def split: if_splits)
next
  case (Some c)
  obtain ret e i where c: "c = (ret, e, i)" by (cases c)
  obtain ret1 db1 where op: "(if de_modify_dep env i \<noteq> OB_SUCCESS then (de_modify_dep env i, db)
      else operator_drop_python_udf env mok client (da_tenant_id arg) (da_name arg) db) = (ret1, db1)" by fastforce
  show ?thesis using assms(3) end_publish_settled [OF assms(1,2), of ret1 db db1]
    by (simp add: ddl_drop_python_udf_def Let_def Some c op cong: if_cong del: split_paired_Ex split del: if_split) (auto simp del: split_paired_Ex split: if_splits)
qed

lemma root_drop_settled:
  assumes "transactional env" and "atomic_end env" and "root_drop_python_udf env mok client arg db = Some p"
  shows "snd p = db \<or> (\<exists>s. root_drop_python_udf (settled env) mok client arg db = Some s \<and> took_place env db p s)"
  using assms(3) ddl_drop_settled [OF assms(1,2)]
  by (auto simp: root_drop_python_udf_def simp del: split_paired_Ex split: if_splits)

text \<open>The call of the root server, and the whole statement.\<close>

lemma deliver_settled:
  assumes "deliver fate (h env) db = Some (r, d)" and "r \<noteq> OB_SUCCESS"
    and "\<And>p. h env db = Some p \<Longrightarrow> snd p = db \<or> (\<exists>s. h (settled env) db = Some s \<and> took_place env db p s)"
  shows "d = db \<or> h (settled env) db = Some (OB_SUCCESS, d) \<and>
    (r = de_publish env \<or> (\<exists>db1. de_end env True db db1 = (r, d)) \<or> fate = Answer_Lost r)"
proof (cases fate)
  case Answered
  then show ?thesis using assms(1,2) assms(3) [of "(r, d)"] by (auto simp: took_place_def)
next
  case (Not_Delivered r1)
  then show ?thesis using assms(1) by simp
next
  case (Answer_Lost r1)
  then obtain r2 where "h env db = Some (r2, d)" "r1 = r" using assms(1) by (auto simp: bind_eq_Some_conv)
  then show ?thesis using assms(3) [of "(r2, d)"] Answer_Lost by (auto simp: took_place_def)
qed

text \<open>An error that can be reported after the statement took place.\<close>

definition late_error :: "exec_env \<Rightarrow> ddl_env \<Rightarrow> udf_tables \<Rightarrow> ob_ret \<Rightarrow> udf_tables \<Rightarrow> bool" where
  "late_error ee env db r d \<longleftrightarrow> r = de_publish env \<or> (\<exists>db1. de_end env True db db1 = (r, d)) \<or> ee_fate ee = Answer_Lost r"

lemma rpc_create_settled:
  assumes "transactional env" and "atomic_end env" and "rpc_create_python_udf (ee_fate ee) env mok client u db = Some (r, d)" and "r \<noteq> OB_SUCCESS"
  shows "d = db \<or> rpc_create_python_udf Answered (settled env) mok client u db = Some (OB_SUCCESS, d) \<and> late_error ee env db r d"
proof -
  obtain ret bs n where ser: "python_udf_serialize u (replicate (python_udf_serialize_size u) 0) 0 = Some (ret, bs, n)"
    using assms(3) by (auto simp: rpc_create_python_udf_def bind_eq_Some_conv)
  define h where "h env db = do { (ret1, _, arg) \<leftarrow> python_udf_deserialize bs n 0 python_udf_default;
      if ret1 \<noteq> OB_SUCCESS then Some (ret1, db) else root_create_python_udf env mok client arg db }" for env db
  have rpc: "rpc_create_python_udf fate env mok client u db = (if ret \<noteq> OB_SUCCESS then Some (ret, db) else deliver fate (h env) db)" for fate env
    by (simp add: rpc_create_python_udf_def ser h_def [abs_def])
  have "snd p = db \<or> (\<exists>s. h (settled env) db = Some s \<and> took_place env db p s)" if "h env db = Some p" for p
    using that root_create_settled [OF assms(1,2), where p = p and mok = mok and client = client and db = db]
    by (auto simp: h_def bind_eq_Some_conv simp del: split_paired_Ex split_paired_All split: if_splits) blast
  then show ?thesis
    using deliver_settled [of "ee_fate ee" h env db r d] assms(3,4) by (auto simp: rpc late_error_def split: if_splits)
qed

text \<open>C4. A statement that fails is all or nothing, for every parse tree, every outcome of the memory allocations, every behaviour of
  the SQL server and every fate of the call of the root server: either the tables are as before, or they are exactly those
  that the same statement leaves when commit, publication and call work. The second case is left to three errors, which are
  reported after the transaction may have been committed: a commit that is not known to have succeeded, a failed publication of the
  schema version, and an answer of the root server that is lost. In all other failures nothing has changed. Relied on: a rollback
  restores the tables, and a commit takes place as a whole or not at all.\<close>

theorem failed_ddl_all_or_nothing:
  assumes "transactional env" and "atomic_end env" and "r \<noteq> OB_SUCCESS"
  shows "(run_create ee env mok client files t tree db = Some (r, d) \<longrightarrow>
      d = db \<or> run_create (ee \<lparr>ee_fate := Answered\<rparr>) (settled env) mok client files t tree db = Some (OB_SUCCESS, d) \<and> late_error ee env db r d) \<and>
    (run_drop ee env mok client casedn t tree db = Some (r, d) \<longrightarrow>
      d = db \<or> run_drop (ee \<lparr>ee_fate := Answered\<rparr>) (settled env) mok client casedn t tree db = Some (OB_SUCCESS, d) \<and> late_error ee env db r d)"
proof (intro conjI impI)
  have ex [simp]: "executor_ret (ee \<lparr>ee_fate := f\<rparr>) = executor_ret ee" for f by (simp add: executor_ret_def)
  assume "run_create ee env mok client files t tree db = Some (r, d)"
  then show "d = db \<or> run_create (ee \<lparr>ee_fate := Answered\<rparr>) (settled env) mok client files t tree db = Some (OB_SUCCESS, d) \<and> late_error ee env db r d"
    using rpc_create_settled [OF assms(1,2) _ assms(3)]
    by (auto simp: run_create_def execute_create_def bind_eq_Some_conv split: if_splits) blast+
next
  have ex [simp]: "executor_ret (ee \<lparr>ee_fate := f\<rparr>) = executor_ret ee" for f by (simp add: executor_ret_def)
  have "d = db \<or> root_drop_python_udf (settled env) mok client arg db = Some (OB_SUCCESS, d) \<and> late_error ee env db r d"
    if "deliver (ee_fate ee) (root_drop_python_udf env mok client arg) db = Some (r, d)" for arg
    using deliver_settled [of "ee_fate ee" "\<lambda>env. root_drop_python_udf env mok client arg", OF that assms(3) root_drop_settled [OF assms(1,2)]]
    by (auto simp: late_error_def)
  moreover assume "run_drop ee env mok client casedn t tree db = Some (r, d)"
  ultimately show "d = db \<or> run_drop (ee \<lparr>ee_fate := Answered\<rparr>) (settled env) mok client casedn t tree db = Some (OB_SUCCESS, d) \<and> late_error ee env db r d"
    by (auto simp: run_drop_def execute_drop_def bind_eq_Some_conv split: if_splits option.splits)
qed

text \<open>An environment in which everything works.\<close>

definition ex_ddl_env :: "64 word \<Rightarrow> ddl_env" where
  "ex_ddl_env i = \<lparr>de_inited = True, de_inner_stat = OB_SUCCESS, de_guard = OB_SUCCESS, de_guard_version = OB_SUCCESS, de_start = OB_SUCCESS,
     de_end = (\<lambda>commit db db1. (OB_SUCCESS, if commit then db1 else db)), de_publish = OB_SUCCESS, de_schema_service = True,
     de_new_id = (OB_SUCCESS, i), de_new_version = (OB_SUCCESS, 7), de_modify_dep = (\<lambda>_. OB_SUCCESS)\<rparr>"

definition ex_exec :: exec_env where
  "ex_exec = \<lparr>ee_first_stmt = OB_SUCCESS, ee_task_ctx = True, ee_get_rpc = OB_SUCCESS, ee_rpc = True, ee_fate = Answered\<rparr>"

lemma ex_ddl_env_ok:
  "transactional (ex_ddl_env i)" "unat i < 2 ^ 63 \<Longrightarrow> env_ready (ex_ddl_env i)" "executor_ready ex_exec"
  by (simp_all add: transactional_def env_ready_def env_up_def ex_ddl_env_def executor_ready_def executor_ret_def ex_exec_def)

definition ex_create :: ddl_stmt where
  "ex_create = Create_UDF ''f'' [(''a'', INTEGER), (''b'', REAL)] STRING (Code ''pyinitial pyfun'')"

definition ex_declared :: python_udf where
  "ex_declared = declared_udf 1 ''f'' [(''a'', INTEGER), (''b'', REAL)] STRING ''pyinitial pyfun''"

lemma ex_declared_ok: "python_udf_sendable ex_declared" "check_pycall ex_declared = OB_SUCCESS" "column_limits ex_declared"
proof -
  show "python_udf_sendable ex_declared"
    by (simp add: python_udf_sendable_def string_ok_def i32_ok_def ex_declared_def declared_udf_def python_udf_default_def c_str_def)
  show "check_pycall ex_declared = OB_SUCCESS" by code_simp
  show "column_limits ex_declared"
    by (simp add: column_limits_def ex_declared_def declared_udf_def python_udf_default_def c_str_def)
qed

lemma plain_f: "plain_name ''f''" "plain_name ''g''" "plain_name ''z''"
  by code_simp+

lemma ex_create_ok: "unat i < 2 ^ 63 \<Longrightarrow> stmt_ok files casedn 1 (ex_ddl_env i, ex_create)"
  using ex_declared_ok plain_f by (simp add: ex_create_def ex_ddl_env_ok code_text_def ex_declared_def)

lemma holds_empty: "holds_catalogue fold_name [] Map.empty"
  by (auto simp: holds_catalogue_def table_of_def intro!: exI [of _ "[]"])

lemma tenant_1: "(1 :: 64 word) \<noteq> OB_INVALID_ID" "(1 :: 64 word) \<noteq> OB_INVALID_TENANT_ID"
  by (simp_all add: OB_INVALID_ID_def OB_INVALID_TENANT_ID_def)

text \<open>A commit whose outcome is not known, although it took place.\<close>

definition ex_unknown_env :: ddl_env where
  "ex_unknown_env = ex_ddl_env 5 \<lparr>de_end := (\<lambda>commit db db1. if commit then (OB_TRANS_UNKNOWN, db1) else (OB_SUCCESS, db))\<rparr>"

lemma ex_unknown_run:
  "\<exists>d. run_create ex_exec ex_unknown_env (\<lambda>_. True) (ref_client id) (\<lambda>_. None) 1 (stmt_tree ex_create) (\<lambda>_. []) = Some (OB_TRANS_UNKNOWN, d) \<and> d 1 \<noteq> []"
proof -
  have up: "env_up ex_unknown_env" by (simp add: ex_unknown_env_def ex_ddl_env_def env_up_def)
  have tbl: "table_of id ((\<lambda>_. []) (tenant_id ex_declared)) []" by (simp add: table_of_def)
  have sel: "name ex_declared = ''f''" "tenant_id ex_declared = 1" "error_ret ex_declared = OB_SUCCESS" "model_name ex_declared = ''''"
    "schema_version ex_declared = OB_INVALID_VERSION"
    by (simp_all add: ex_declared_def)
  have arg: "i32_ok (arg_num ex_declared)" using ex_declared_ok(1) by (simp add: python_udf_sendable_def)
  have "plain_name (name ex_declared)" "name ex_declared \<noteq> ''''" "tenant_id ex_declared \<noteq> OB_INVALID_ID" "tenant_id ex_declared \<noteq> OB_INVALID_TENANT_ID"
    using plain_f(1) tenant_1 by (simp_all add: sel)
  note root = root_create_runs [where mok = "\<lambda>_. True" and db = "\<lambda>_. []", OF ref_client_runs_sql TrueI up sel(3) ex_declared_ok(2) arg ex_declared_ok(3) this tbl]
  have res: "resolve_create (\<lambda>_. True) True (\<lambda>_. None) 1 (stmt_tree ex_create) = Some (OB_SUCCESS, ex_declared)"
    using resolve_create_ok [of "\<lambda>_. True"] by (simp add: ex_create_def ex_declared_def code_text_def)
  have "executor_ret ex_exec = OB_SUCCESS" "ee_fate ex_exec = Answered" using ex_ddl_env_ok(3) by (simp_all add: executor_ready_def)
  then show ?thesis
    using root rpc_create_ok [OF ex_declared_ok(1) sel(4,5,3), of Answered ex_unknown_env "\<lambda>_. True" "ref_client id" "\<lambda>_. []"] res
    by (simp add: run_create_def execute_create_def publish_schema_def end_trans_def ex_unknown_env_def key_map_def sel)
qed

theorem failed_ddl_all_or_nothing_witness:
  "\<exists>d. run_create ex_exec ex_unknown_env (\<lambda>_. True) (ref_client id) (\<lambda>_. None) 1 (stmt_tree ex_create) (\<lambda>_. []) = Some (OB_TRANS_UNKNOWN, d) \<and>
     run_create (ex_exec \<lparr>ee_fate := Answered\<rparr>) (settled ex_unknown_env) (\<lambda>_. True) (ref_client id) (\<lambda>_. None) 1 (stmt_tree ex_create) (\<lambda>_. []) =
       Some (OB_SUCCESS, d)"
proof -
  have "transactional ex_unknown_env" "atomic_end ex_unknown_env"
    by (simp_all add: ex_unknown_env_def transactional_def atomic_end_def)
  moreover obtain d where d: "run_create ex_exec ex_unknown_env (\<lambda>_. True) (ref_client id) (\<lambda>_. None) 1 (stmt_tree ex_create) (\<lambda>_. []) =
      Some (OB_TRANS_UNKNOWN, d)" "d 1 \<noteq> []"
    using ex_unknown_run by blast
  moreover have "d \<noteq> (\<lambda>_. [])" using d(2) by auto
  moreover have "OB_TRANS_UNKNOWN \<noteq> OB_SUCCESS" by simp
  ultimately show ?thesis
    using failed_ddl_all_or_nothing [of ex_unknown_env OB_TRANS_UNKNOWN ex_exec "\<lambda>_. True" "ref_client id" "\<lambda>_. None" 1 "stmt_tree ex_create" "\<lambda>_. []" d]
    by blast
qed

section \<open>Correctness of the statements\<close>

text \<open>C2. \<^verbatim>\<open>CREATE PYTHON_UDF\<close> and \<^verbatim>\<open>DROP PYTHON_UDF\<close> implement a catalogue. For every sequence of statements of a tenant that satisfy
  \<open>stmt_ok\<close> (the names are not empty and have no quote, backslash or null byte, the code has the two entry points, the strings fit
  into the columns of the inner table and into the protocol, and the root server works), run through resolver, executor, RPC, root service,
  transaction and SQL text, the results of the statements are those of the abstract catalogue (a duplicate name and an unknown
  name are refused, \<^verbatim>\<open>IF EXISTS\<close> is not an error), a lookup of any such name afterwards answers as the catalogue does, and the
  tables of the other tenants are unchanged. Relied on: the server executes statements on rows that fit, transactions, enough
  memory, a collation that ignores case. Without the condition on the names it is false, see \<open>drop_name_injected\<close>.\<close>

theorem ddl_refines_catalogue:
  assumes "runs_sql fold_name client" and "\<And>n. mok n" and "executor_ready ee"
    and "t \<noteq> OB_INVALID_ID" and "t \<noteq> OB_INVALID_TENANT_ID" and "\<And>nm. fold_name (casedn nm) = fold_name nm"
    and "list_all (stmt_ok files casedn t) sts" and "holds_catalogue fold_name (db t) c"
    and "catalogue_steps fold_name files t sts c = (rets, c1)"
  shows "\<exists>db1. run_stmts ee mok client files casedn t sts db = Some (rets, db1) \<and>
    (\<forall>nm old. plain_name nm \<and> nm \<noteq> '''' \<longrightarrow>
      get_python_udf_info mok client t nm old db1 =
        Some (case c1 (fold_name nm) of None \<Rightarrow> (OB_SUCCESS, False, old) | Some u \<Rightarrow> (OB_SUCCESS, True, loaded_udf t old u))) \<and>
    (\<forall>t'. t' \<noteq> t \<longrightarrow> db1 t' = db t')"
proof -
  obtain db1 where "run_stmts ee mok client files casedn t sts db = Some (rets, db1)"
      "holds_catalogue fold_name (db1 t) c1" "\<forall>t'. t' \<noteq> t \<longrightarrow> db1 t' = db t'"
    using run_stmts_steps [where db = db and mok = mok, OF assms(1-8)] assms(9) by auto
  then show ?thesis using catalogue_lookup [where db = db1 and t = t and mok = mok, OF assms(1,2) _ _ assms(4)] by blast
qed

theorem ddl_refines_catalogue_witness:
  "\<exists>db1. run_stmts ex_exec (\<lambda>_. True) (ref_client id) (\<lambda>_. None) id 1
      [(ex_ddl_env 5, ex_create), (ex_ddl_env 6, ex_create), (ex_ddl_env 7, Drop_UDF False ''g''), (ex_ddl_env 8, Drop_UDF True ''g'')] (\<lambda>_. [])
     = Some ([OB_SUCCESS, OB_ERR_PRIMARY_KEY_DUPLICATE, OB_ERR_FUNCTION_UNKNOWN, OB_SUCCESS], db1) \<and>
   get_python_udf_info (\<lambda>_. True) (ref_client id) 1 ''f'' python_udf_default db1 =
     Some (OB_SUCCESS, True, loaded_udf 1 python_udf_default (stored_udf (ex_ddl_env 5) ex_declared))"
proof -
  let ?sts = "[(ex_ddl_env 5, ex_create), (ex_ddl_env 6, ex_create), (ex_ddl_env 7, Drop_UDF False ''g''), (ex_ddl_env 8, Drop_UDF True ''g'')]"
  let ?c = "Map.empty(''f'' \<mapsto> stored_udf (ex_ddl_env 5) ex_declared)"
  have L: "list_all (stmt_ok (\<lambda>_. None) id 1) ?sts" using ex_create_ok plain_f by (simp add: ex_ddl_env_ok)
  have C: "catalogue_steps id (\<lambda>_. None) 1 ?sts Map.empty =
      ([OB_SUCCESS, OB_ERR_PRIMARY_KEY_DUPLICATE, OB_ERR_FUNCTION_UNKNOWN, OB_SUCCESS], ?c)"
    by (simp add: ex_create_def ex_declared_def code_text_def)
  have I: "\<And>nm. id (id nm) = id (nm :: string)" by simp
  obtain db1 where "run_stmts ex_exec (\<lambda>_. True) (ref_client id) (\<lambda>_. None) id 1 ?sts (\<lambda>_. []) =
        Some ([OB_SUCCESS, OB_ERR_PRIMARY_KEY_DUPLICATE, OB_ERR_FUNCTION_UNKNOWN, OB_SUCCESS], db1)"
    and info: "\<forall>nm old. plain_name nm \<and> nm \<noteq> '''' \<longrightarrow>
        get_python_udf_info (\<lambda>_. True) (ref_client id) 1 nm old db1 =
          Some (case ?c (id nm) of None \<Rightarrow> (OB_SUCCESS, False, old) | Some u \<Rightarrow> (OB_SUCCESS, True, loaded_udf 1 old u))"
    using ddl_refines_catalogue [where db = "\<lambda>_. []" and mok = "\<lambda>_. True" and casedn = id,
        OF ref_client_runs_sql TrueI ex_ddl_env_ok(3) tenant_1 I L holds_empty C]
    by (elim exE conjE) (rule that)
  moreover have "get_python_udf_info (\<lambda>_. True) (ref_client id) 1 ''f'' python_udf_default db1 =
      Some (OB_SUCCESS, True, loaded_udf 1 python_udf_default (stored_udf (ex_ddl_env 5) ex_declared))"
    using info plain_f(1) by simp
  ultimately show ?thesis by (intro exI [of _ db1] conjI)
qed

text \<open>The function that the lookup returns after a successful \<^verbatim>\<open>CREATE\<close>, under every name that the collation takes for the same.\<close>

lemma create_then_lookup:
  assumes "runs_sql fold_name client" and "\<And>n. mok n" and "executor_ready ee"
    and "t \<noteq> OB_INVALID_ID" and "t \<noteq> OB_INVALID_TENANT_ID" and "holds_catalogue fold_name (db t) c" and "c (fold_name nm) = None"
    and "stmt_ok files casedn t (env, Create_UDF nm params rt code)" and "params \<noteq> []"
    and "fold_name nm1 = fold_name nm" and "plain_name nm1" and "nm1 \<noteq> ''''"
  shows "\<exists>n1 tree db1. parse_create_python_udf (\<lambda>_. True) nm params rt code n = (n1, Some tree) \<and>
    run_create ee env mok client files t tree db = Some (OB_SUCCESS, db1) \<and>
    get_python_udf_info mok client t nm1 old db1 =
      Some (OB_SUCCESS, True, loaded_udf t old (stored_udf env (declared_udf t nm params rt (code_text files code))))"
proof -
  let ?s = "stored_udf env (declared_udf t nm params rt (code_text files code))"
  have "stmt_ok files id t (env, Create_UDF nm params rt code)" using assms(8) by simp
  then obtain db1 where 1: "run_stmt ee env mok client files id t (Create_UDF nm params rt code) db = Some (OB_SUCCESS, db1)"
      "holds_catalogue fold_name (db1 t) (c(fold_name nm \<mapsto> ?s))"
    using run_stmt_step [where db = db and mok = mok and casedn = id and st = "Create_UDF nm params rt code" and files = files and env = env,
        OF assms(1-5) _ _ assms(6)] assms(7) by auto
  have "get_python_udf_info mok client t nm1 old db1 = Some (OB_SUCCESS, True, loaded_udf t old ?s)"
    using catalogue_lookup [where db = db1 and t = t and mok = mok and nm = nm1 and old = old, OF assms(1,2,11,12,4) 1(2)] assms(10) by simp
  moreover obtain n1 where "parse_create_python_udf (\<lambda>_. True) nm params rt code n = (n1, Some (create_python_udf_stmt nm params rt code))"
    using memory.builds_create [OF assms(9), of nm rt code] unfolding builds_def by blast
  ultimately show ?thesis using 1(1) by (auto simp: run_stmt_def)
qed

lemma found_types:
  "UDF_UNINITIAL \<notin> snd ` set params \<Longrightarrow>
   get_arg_types_arr (loaded_udf t old (stored_udf env (declared_udf t nm params rt code))) = (OB_SUCCESS, map snd params)"
  using get_arg_types_arr_join [of "map snd params" "loaded_udf t old (stored_udf env (declared_udf t nm params rt code))"]
  by (simp add: loaded_udf_def stored_udf_def declared_udf_def)

text \<open>C13. What was declared is what is found. For a statement that satisfies \<open>stmt_ok\<close> (in particular, its strings fit into the columns
  of the inner table and its name is plain), the grammar builds a tree from the statement, and after running it, when the name was free, the
  lookup by the name, or by a name that the collation takes for the same, returns
  the function with the declared name, number of parameters, parameter names, return type and code, its parameter types
  parse back to the declared list, and it carries the id and the version given by the root server.\<close>

theorem created_function_found:
  assumes "runs_sql fold_name client" and "\<And>n. mok n" and "executor_ready ee"
    and "t \<noteq> OB_INVALID_ID" and "t \<noteq> OB_INVALID_TENANT_ID" and "holds_catalogue fold_name (db t) c" and "c (fold_name nm) = None"
    and "stmt_ok files casedn t (env, Create_UDF nm params rt code)" and "UDF_UNINITIAL \<notin> snd ` set params"
    and "params \<noteq> []" and "fold_name nm1 = fold_name nm" and "plain_name nm1" and "nm1 \<noteq> ''''"
  shows "\<exists>n1 tree db1 u. parse_create_python_udf (\<lambda>_. True) nm params rt code n = (n1, Some tree) \<and>
    run_create ee env mok client files t tree db = Some (OB_SUCCESS, db1) \<and>
    get_python_udf_info mok client t nm1 old db1 = Some (OB_SUCCESS, True, u) \<and>
    name u = nm \<and> ret_type u = rt \<and> pycall u = code_text files code \<and> tenant_id u = t \<and>
    arg_num u = int (length params) \<and> arg_names u = join_comma (map (c_str \<circ> fst) params) \<and>
    get_arg_types_arr u = (OB_SUCCESS, map snd params) \<and>
    udf_id u = snd (de_new_id env) \<and> schema_version u = snd (de_new_version env)"
proof -
  let ?u = "loaded_udf t old (stored_udf env (declared_udf t nm params rt (code_text files code)))"
  obtain n1 tree db1 where "parse_create_python_udf (\<lambda>_. True) nm params rt code n = (n1, Some tree)"
      "run_create ee env mok client files t tree db = Some (OB_SUCCESS, db1)"
      "get_python_udf_info mok client t nm1 old db1 = Some (OB_SUCCESS, True, ?u)"
    using create_then_lookup [where mok = mok and db = db and t = t and nm = nm and ?nm1.0 = nm1 and old = old and n = n, OF assms(1-8,10-13)] by blast
  then show ?thesis using found_types [OF assms(9)]
    by (intro exI [of _ n1] exI [of _ tree] exI [of _ db1] exI [of _ ?u]) (simp add: loaded_udf_def stored_udf_def declared_udf_def)
qed

theorem created_function_found_witness:
  "\<exists>n1 tree db1 u.
    parse_create_python_udf (\<lambda>_. True) ''f'' [(''a'', INTEGER), (''b'', REAL)] STRING (Code ''pyinitial pyfun'') 0 = (n1, Some tree) \<and>
    run_create ex_exec (ex_ddl_env 5) (\<lambda>_. True) (ref_client id) (\<lambda>_. None) 1 tree (\<lambda>_. []) = Some (OB_SUCCESS, db1) \<and>
    get_python_udf_info (\<lambda>_. True) (ref_client id) 1 ''f'' python_udf_default db1 = Some (OB_SUCCESS, True, u) \<and>
    get_arg_types_arr u = (OB_SUCCESS, [INTEGER, REAL]) \<and> udf_id u = 5"
proof -
  let ?ps = "[(''a'', INTEGER), (''b'', REAL)]"
  have "stmt_ok (\<lambda>_. None) id 1 (ex_ddl_env 5, Create_UDF ''f'' ?ps STRING (Code ''pyinitial pyfun''))"
    using ex_create_ok [of 5 "\<lambda>_. None" id] by (simp add: ex_create_def)
  moreover have "UDF_UNINITIAL \<notin> snd ` set ?ps" and "Map.empty (id ''f'') = None" and "?ps \<noteq> []" by simp_all
  moreover have "snd (de_new_id (ex_ddl_env 5)) = 5" by (simp add: ex_ddl_env_def)
  ultimately show ?thesis
    using created_function_found [where db = "\<lambda>_. []" and mok = "\<lambda>_. True" and casedn = id and params = ?ps and old = python_udf_default and fold_name = id
        and nm = "''f''" and ?nm1.0 = "''f''" and files = "\<lambda>_. None" and env = "ex_ddl_env 5" and rt = STRING and code = "Code ''pyinitial pyfun''" and n = 0,
        OF ref_client_runs_sql TrueI ex_ddl_env_ok(3) tenant_1 holds_empty] plain_f(1)
    by auto
qed

text \<open>C15. The name of a \<^verbatim>\<open>DROP\<close> is spliced unescaped into the lookup and into the \<^verbatim>\<open>DELETE\<close>. Dropping the quoted identifier
  \<^verbatim>\<open>a' or name='b\<close>, which no function has, drops the function \<open>b\<close> and reports success.\<close>

theorem drop_name_injected:
  assumes "runs_sql fold_name client" and "\<And>n. mok n" and "executor_ready ee" and "transactional env" and "env_ready env"
    and "t \<noteq> OB_INVALID_ID" and "t \<noteq> OB_INVALID_TENANT_ID" and "plain_name a" and "plain_name b"
    and "casedn (injected_name a b) = injected_name a b" and "table_of fold_name (db t) us"
    and "key_map (fold_name \<circ> name) us (fold_name a) = None" and "key_map (fold_name \<circ> name) us (fold_name b) = Some u"
  shows "run_drop ee env mok client casedn t (drop_python_udf_stmt e (injected_name a b)) db =
    Some (OB_SUCCESS, db(t := map udf_row (filter (\<lambda>u. fold_name (name u) \<noteq> fold_name b) us)))"
proof -
  have ne: "injected_name a b \<noteq> ''''" by (simp add: injected_name_def)
  note inj = injected_services [where db = db and t = t and mok = mok, OF assms(1,2,8,9,6,7,11,12,13)]
  have "resolve_drop mok True True OB_SUCCESS casedn t (drop_python_udf_stmt e (injected_name a b)) =
      Some (OB_SUCCESS, Some \<lparr>da_tenant_id = t, da_name = injected_name a b, da_if_exist = e\<rparr>)"
    using assms(2,10) by (simp add: resolve_drop_def drop_python_udf_stmt_def)
  then show ?thesis using assms(3,5,6) inj ne end_trans_commit [OF assms(5,4)]
    by (simp add: run_drop_def execute_drop_def executor_ready_def root_drop_python_udf_def ddl_drop_python_udf_def operator_drop_python_udf_def
        drop_arg_is_valid_def publish_schema_def env_ready_def env_up_def Let_def)
qed

theorem drop_name_injected_witness:
  "run_drop ex_exec (ex_ddl_env 5) (\<lambda>_. True) (ref_client id) id 1 (drop_python_udf_stmt False (injected_name ''z'' ''f''))
     (\<lambda>_. [udf_row (stored_udf (ex_ddl_env 5) ex_declared)]) =
   Some (OB_SUCCESS, (\<lambda>_. [udf_row (stored_udf (ex_ddl_env 5) ex_declared)])(1 := []))"
proof -
  let ?u = "stored_udf (ex_ddl_env 5) ex_declared"
  have fits: "table_of id [udf_row ?u] [?u]" using stored_fits [of "ex_ddl_env 5" ex_declared] ex_declared_ok(1) by (simp add: table_of_def ex_ddl_env_ok)
  have nm: "name ?u = ''f''" by (simp add: stored_udf_def ex_declared_def)
  show ?thesis
    using drop_name_injected [where mok = "\<lambda>_. True" and ee = ex_exec and env = "ex_ddl_env 5" and t = 1 and a = "''z''" and b = "''f''" and casedn = id
        and db = "\<lambda>_. [udf_row ?u]" and us = "[?u]" and u = ?u and e = False, OF ref_client_runs_sql] plain_f fits
    by (simp add: ex_ddl_env_ok nm OB_INVALID_ID_def OB_INVALID_TENANT_ID_def key_map_def)
qed

end
