(* ===== verification/Python_UDF_Expr.thy ===== *)
theory Python_UDF_Expr
  imports Python_UDF_Cell
begin

text \<open>
  The python UDF expression at compile time: \<open>ObPythonUdfRawExpr\<close> (\<^verbatim>\<open>src/sql/resolver/expr/ob_raw_expr.cpp\<close>),
  \<open>ObExprPythonUdf\<close> and \<open>ObPythonUdfInfo\<close> (\<^verbatim>\<open>src/sql/engine/expr/ob_expr_python_udf.cpp\<close>), with \<open>init_udfs\<close> and
  \<open>import_udf\<close> of \<open>ObPythonUDFOp\<close>, which do the same at run time.

  The interpreter is the parameter \<open>py_import\<close>. The strings of the metadata are read through \<^verbatim>\<open>std::string(ptr)\<close> and cut
  to their length afterwards, so a NUL inside ends them early; the byte after the end is taken to be readable.
\<close>

section \<open>Metadata\<close>

definition ob_write_string :: "(nat \<Rightarrow> bool) \<Rightarrow> string \<Rightarrow> ob_ret \<times> string" where
  "ob_write_string mok src =
     (if src = '''' then (OB_SUCCESS, '''')
      else if \<not> mok (length src) then (OB_ALLOCATE_MEMORY_FAILED, '''')
      else (OB_SUCCESS, src))"

text \<open>
  \<open>deep_copy_udf_meta\<close> copies the flag, the type and the two strings and appends the types; the names and the batch size
  are not copied.
\<close>

definition deep_copy_udf_meta ::
  "(nat \<Rightarrow> bool) \<Rightarrow> python_udf_meta \<Rightarrow> python_udf_meta \<Rightarrow> ob_ret \<times> python_udf_meta" where
  "deep_copy_udf_meta mok dst src =
     (let d1 = dst \<lparr>meta_init := meta_init src, meta_ret := meta_ret src\<rparr>;
          (ret, nm) = ob_write_string mok (meta_name src);
          d2 = d1 \<lparr>meta_name := nm\<rparr>
      in if ret \<noteq> OB_SUCCESS then (ret, d2)
         else let (ret, code) = ob_write_string mok (meta_pycall src);
                  d3 = d2 \<lparr>meta_pycall := code\<rparr>
              in if ret \<noteq> OB_SUCCESS then (ret, d3)
                 else (OB_SUCCESS, d3 \<lparr>udf_attributes_types := udf_attributes_types d3 @ udf_attributes_types src\<rparr>))"

definition expr_set_udf_meta :: "(nat \<Rightarrow> bool) \<Rightarrow> python_udf_meta \<Rightarrow> python_udf_meta \<Rightarrow> ob_ret \<times> python_udf_meta" where
  "expr_set_udf_meta mok op_meta udf = deep_copy_udf_meta mok op_meta udf"

text \<open>
  \<open>ObPythonUdfRawExpr::set_udf_meta\<close>, on an expression whose allocator is set. The code of an invalid batch size is
  overwritten by what follows. \<open>junk\<close> stands for the bytes behind the dangling pointers of \<open>get_arg_names_arr\<close>.
\<close>

definition raw_batch_size :: "int \<Rightarrow> python_udf_meta \<Rightarrow> ob_ret \<times> python_udf_meta" where
  "raw_batch_size bs m =
     (if bs = 0 then (OB_SUCCESS, m \<lparr>meta_batch_size_const := False, meta_batch_size := 256\<rparr>)
      else if bs < 256 \<or> 8192 < bs then (OB_INVALID_ARGUMENT, m)
      else (OB_SUCCESS, m \<lparr>meta_batch_size_const := True, meta_batch_size := bs\<rparr>))"

definition raw_set_udf_meta ::
  "(nat \<Rightarrow> bool) \<Rightarrow> (nat list \<Rightarrow> string list) \<Rightarrow> python_udf \<Rightarrow> int \<Rightarrow> python_udf_meta \<Rightarrow> ob_ret \<times> python_udf_meta" where
  "raw_set_udf_meta mok junk udf bs m0 =
     (let (ret, m1) = raw_batch_size bs (m0 \<lparr>meta_init := False\<rparr>);
          m2 = m1 \<lparr>meta_ret := ret_type udf\<rparr>;
          (ret, nm) = ob_write_string mok (name udf);
          m3 = m2 \<lparr>meta_name := nm\<rparr>
      in if ret \<noteq> OB_SUCCESS then (ret, m3)
         else let (ret, code) = ob_write_string mok (pycall udf);
                  m4 = m3 \<lparr>meta_pycall := code\<rparr>
         in if ret \<noteq> OB_SUCCESS then (ret, m4)
         else let (ret, tys) = get_arg_types_arr udf;
                  m5 = m4 \<lparr>udf_attributes_types := udf_attributes_types m4 @ tys\<rparr>
         in if ret \<noteq> OB_SUCCESS then (ret, m5)
         else let (ret, lens) = get_arg_names_arr udf
         in (ret, m5 \<lparr>udf_attributes_names := udf_attributes_names m5 @ junk lens\<rparr>))"

text \<open>\<open>ObPythonUdfInfo\<close>: \<open>raw\<close> is the memory of a fresh object.\<close>

definition from_raw_expr :: "(nat \<Rightarrow> bool) \<Rightarrow> 'd dbl_ops \<Rightarrow> ('d \<times> 'd) \<Rightarrow> python_udf_meta \<Rightarrow> 'd udf_info \<Rightarrow> ob_ret \<times> 'd udf_info" where
  "from_raw_expr mok D consts raw_meta info =
     (let (ret, m) = deep_copy_udf_meta mok (udf_meta info) raw_meta
      in (ret, info \<lparr>udf_meta := m, predict_size := 256, tps_s := d_of_int D 0, round_cnt := 0,
                     lambda_threshold := fst consts, alpha := snd consts, delta := 256, round_limit := 10\<rparr>))"

definition info_new :: "'d udf_info \<Rightarrow> 'd udf_info" where
  "info_new raw = raw \<lparr>udf_meta := python_udf_meta_default\<rparr>"

text \<open>\<open>ObPythonUdfInfo::deep_copy\<close>: only the metadata are copied, the other members of the copy stay as allocated.\<close>

definition info_deep_copy :: "(nat \<Rightarrow> bool) \<Rightarrow> nat \<Rightarrow> 'd udf_info \<Rightarrow> 'd udf_info \<Rightarrow> ob_ret \<times> 'd udf_info option" where
  "info_deep_copy mok sizeof_info raw info =
     (if \<not> mok sizeof_info then (OB_ALLOCATE_MEMORY_FAILED, None)
      else let (ret, m) = deep_copy_udf_meta mok (udf_meta (info_new raw)) (udf_meta info)
           in (ret, Some ((info_new raw) \<lparr>udf_meta := m\<rparr>)))"

section \<open>Result type and evaluation functions\<close>

datatype collation_level =
    CS_LEVEL_EXPLICIT | CS_LEVEL_NONE | CS_LEVEL_IMPLICIT | CS_LEVEL_SYSCONST | CS_LEVEL_COERCIBLE | CS_LEVEL_NUMERIC
  | CS_LEVEL_IGNORABLE | CS_LEVEL_INVALID

record 'c expr_res_type =
  res_obj_type :: ob_obj_type
  res_cs_level :: collation_level
  res_cs_type :: 'c

definition set_numeric :: "'c \<Rightarrow> ob_obj_type \<Rightarrow> 'c expr_res_type \<Rightarrow> 'c expr_res_type" where
  "set_numeric binary t ty = ty \<lparr>res_obj_type := t, res_cs_level := CS_LEVEL_NUMERIC, res_cs_type := binary\<rparr>"

text \<open>\<open>calc_result_typeN\<close>; \<open>dflt\<close> and \<open>binary\<close> are the default and the binary collation. The cast mode gets \<open>CM_WARN_ON_FAIL\<close>, bit 0.\<close>

definition calc_result_typeN ::
  "'c \<Rightarrow> 'c \<Rightarrow> python_udf_meta \<Rightarrow> 'c expr_res_type \<times> 64 word \<Rightarrow> ob_ret \<times> 'c expr_res_type \<times> 64 word" where
  "calc_result_typeN dflt binary m st =
     (let (ty, cast_mode) = st;
          ty' = (case meta_ret m of
                   STRING \<Rightarrow> ty \<lparr>res_obj_type := ObVarcharType, res_cs_level := CS_LEVEL_SYSCONST, res_cs_type := dflt\<rparr>
                 | DECIMAL \<Rightarrow> set_numeric binary ObNumberType ty
                 | INTEGER \<Rightarrow> set_numeric binary ObIntType ty
                 | REAL \<Rightarrow> set_numeric binary ObDoubleType ty
                 | UDF_UNINITIAL \<Rightarrow> set_numeric binary ObNumberType ty)
      in (OB_SUCCESS, ty', set_bit 0 cast_mode))"

text \<open>The functions bound to the expression do not evaluate it: that is left to the operator.\<close>

definition eval_python_udf :: ob_ret where
  "eval_python_udf = OB_NOT_SUPPORTED"

definition eval_python_udf_batch :: ob_ret where
  "eval_python_udf_batch = OB_NOT_SUPPORTED"

definition eval_python_udf_vector :: ob_ret where
  "eval_python_udf_vector = OB_NOT_SUPPORTED"

record 'd rt_bind =
  extra_info :: "'d udf_info option"
  bind_eval :: "ob_ret option"
  bind_eval_batch :: "ob_ret option"
  bind_eval_vector :: "ob_ret option"

definition cg_expr ::
  "(nat \<Rightarrow> bool) \<Rightarrow> nat \<Rightarrow> 'd dbl_ops \<Rightarrow> 'd \<times> 'd \<Rightarrow> 'd udf_info \<Rightarrow> python_udf_meta \<Rightarrow> ob_expr \<Rightarrow> 'd rt_bind \<Rightarrow> ob_ret \<times> 'd rt_bind" where
  "cg_expr mok sizeof_info D consts raw raw_meta e b =
     (let (ret, b1) = (if \<not> mok sizeof_info then (OB_ALLOCATE_MEMORY_FAILED, b)
                       else let (ret, info) = from_raw_expr mok D consts raw_meta (info_new raw)
                            in (ret, b \<lparr>extra_info := Some info\<rparr>));
          b2 = b1 \<lparr>bind_eval := Some eval_python_udf\<rparr>
      in (ret, if \<forall>a \<in> set (expr_args e). batch_result a \<or> is_const_expr a
               then b2 \<lparr>bind_eval_batch := Some eval_python_udf_batch, bind_eval_vector := Some eval_python_udf_vector\<rparr>
               else b2))"

section \<open>The error report\<close>

text \<open>
  \<open>process_python_exception\<close> prints into a buffer of 65536 bytes. \<^verbatim>\<open>snprintf\<close> writes at most \<open>szbuf\<close> bytes with the final NUL
  and returns the length the whole text needs; that length is added to the pointer and subtracted from \<open>szbuf\<close>, which is a
  \<^verbatim>\<open>size_t\<close>. Writing outside of the buffer is undefined.
\<close>

record report =
  rep_text :: string
  rep_off :: nat
  rep_szbuf :: "64 word"

definition report_new :: report where
  "report_new = \<lparr>rep_text = '''', rep_off = 0, rep_szbuf = 65536\<rparr>"

definition report_print :: "string \<Rightarrow> report \<Rightarrow> report option" where
  "report_print s r =
     (let w = min (length s) (unat (rep_szbuf r) - 1);
          r' = r \<lparr>rep_off := rep_off r + length s, rep_szbuf := rep_szbuf r - of_nat (length s)\<rparr>
      in if 2147483647 < length s then None
         else if rep_szbuf r = 0 then Some r'
         else if 65536 < rep_off r + w + 1 then None
         else Some (r' \<lparr>rep_text := rep_text r @ take w s\<rparr>))"

fun nat_digits :: "nat \<Rightarrow> string" where
  "nat_digits n = (if n < 10 then '''' else nat_digits (n div 10)) @ [char_of (48 + n mod 10)]"

declare nat_digits.simps [simp del]

definition show_int :: "int \<Rightarrow> string" where
  "show_int i = (if i < 0 then ''-'' @ nat_digits (nat (- i)) else nat_digits (nat i))"

type_synonym tb_entry = "string \<times> string \<times> int"

fun frame_line :: "tb_entry \<Rightarrow> string" where
  "frame_line (fn, file, line) = fn @ '': '' @ file @ ''(# '' @ show_int line @ '')\<newline>''"

fun report_frames :: "tb_entry list \<Rightarrow> report \<Rightarrow> report option" where
  "report_frames [] r = Some r"
| "report_frames (t # ts) r =
     (if rep_szbuf r = 0 then Some r else do { r' \<leftarrow> report_print (frame_line t) r; report_frames ts r' })"

definition exception_text :: "string \<Rightarrow> tb_entry list option \<Rightarrow> string option" where
  "exception_text v tb =
     do {
       r \<leftarrow> report_print (''Error Message:\<newline>'' @ v) report_new;
       r' \<leftarrow> (case tb of
                 None \<Rightarrow> Some r
               | Some ts \<Rightarrow> do { r1 \<leftarrow> report_print ''\<newline>\<newline>Traceback:\<newline>'' r; report_frames ts r1 });
       Some (rep_text r')
     }"

text \<open>The report while everything fits.\<close>

definition report_ok :: "string \<Rightarrow> report \<Rightarrow> bool" where
  "report_ok t r \<longleftrightarrow> rep_text r = t \<and> rep_off r = length t \<and> length t \<le> 65535 \<and> unat (rep_szbuf r) + length t = 65536"

lemma unat_of_nat_small: "n \<le> 2147483647 \<Longrightarrow> unat (of_nat n :: 64 word) = n"
  by (simp add: unat_of_nat)

lemma report_print_ok:
  assumes "report_ok t r" and "length (t @ s) \<le> 65535"
  shows "\<exists>r'. report_print s r = Some r' \<and> report_ok (t @ s) r'"
proof -
  have sz: "unat (rep_szbuf r) = 65536 - length t" using assms by (simp add: report_ok_def; linarith)
  then have "rep_szbuf r \<noteq> 0" using assms by auto
  moreover have "unat (of_nat (length s) :: 64 word) = length s"
    using assms(2) by (intro unat_of_nat_small) simp
  then have "unat (rep_szbuf r - of_nat (length s)) = 65536 - length t - length s"
    using sz assms(2) by (subst unat_sub) (simp_all add: word_le_nat_alt)
  ultimately show ?thesis
    using assms sz by (auto simp: report_print_def report_ok_def Let_def)
qed

lemma report_frames_ok:
  assumes "report_ok t r" and "length (t @ concat (map frame_line ts)) \<le> 65535"
  shows "\<exists>r'. report_frames ts r = Some r' \<and> report_ok (t @ concat (map frame_line ts)) r'"
  using assms
proof (induction ts arbitrary: t r)
  case (Cons e ts)
  have "rep_szbuf r \<noteq> 0" using Cons.prems by (auto simp: report_ok_def)
  moreover obtain r1 where "report_print (frame_line e) r = Some r1" "report_ok (t @ frame_line e) r1"
    using report_print_ok [OF Cons.prems(1), of "frame_line e"] Cons.prems(2) by auto
  ultimately show ?case using Cons.IH [of "t @ frame_line e" r1] Cons.prems(2) by auto
qed simp

definition full_text :: "string \<Rightarrow> tb_entry list option \<Rightarrow> string" where
  "full_text v tb = ''Error Message:\<newline>'' @ v @
     (case tb of None \<Rightarrow> '''' | Some ts \<Rightarrow> ''\<newline>\<newline>Traceback:\<newline>'' @ concat (map frame_line ts))"

lemma exception_text_fits:
  assumes "length (full_text v tb) \<le> 65535"
  shows "exception_text v tb = Some (full_text v tb)"
proof -
  have new: "report_ok '''' report_new" by (simp add: report_ok_def report_new_def)
  obtain r where r: "report_print (''Error Message:\<newline>'' @ v) report_new = Some r" "report_ok (''Error Message:\<newline>'' @ v) r"
    using report_print_ok [OF new, of "''Error Message:\<newline>'' @ v"] assms by (auto simp: full_text_def)
  show ?thesis
  proof (cases tb)
    case None
    with r show ?thesis by (simp add: exception_text_def full_text_def report_ok_def)
  next
    case (Some ts)
    obtain r1 where r1: "report_print ''\<newline>\<newline>Traceback:\<newline>'' r = Some r1"
      "report_ok ((''Error Message:\<newline>'' @ v) @ ''\<newline>\<newline>Traceback:\<newline>'') r1"
      using report_print_ok [OF r(2), of "''\<newline>\<newline>Traceback:\<newline>''"] assms Some by (auto simp: full_text_def)
    show ?thesis
      using report_frames_ok [OF r1(2), of ts] r(1) r1(1) assms Some
      by (auto simp: exception_text_def full_text_def report_ok_def)
  qed
qed

text \<open>A longer message with a traceback makes the size wrap around, and the next text is written behind the buffer.\<close>

lemma report_print_long:
  assumes "65536 < length s" "length s \<le> 2147483647"
  shows "\<exists>r. report_print s report_new = Some r \<and> rep_off r = length s \<and> rep_szbuf r \<noteq> 0"
proof -
  have "(of_nat (length s) :: 64 word) \<noteq> 65536"
    using assms unat_of_nat_small [of "length s"] by (auto dest!: arg_cong [of _ _ unat])
  with assms show ?thesis by (simp add: report_print_def report_new_def Let_def)
qed

lemma report_print_behind: "65536 < rep_off r \<Longrightarrow> rep_szbuf r \<noteq> 0 \<Longrightarrow> report_print s r = None"
  by (simp add: report_print_def Let_def)

lemma exception_text_overflow:
  assumes "65521 < length v" "length v \<le> 2147483632"
  shows "exception_text v (Some ts) = None"
proof -
  obtain r where r: "report_print (''Error Message:\<newline>'' @ v) report_new = Some r" "65536 < rep_off r" "rep_szbuf r \<noteq> 0"
    using report_print_long [of "''Error Message:\<newline>'' @ v"] assms by auto
  from report_print_behind [OF r(2,3)] r(1) show ?thesis by (simp add: exception_text_def)
qed

section \<open>Importing the code\<close>

text \<open>
  \<^verbatim>\<open>std::string::replace\<close> at the position \<^verbatim>\<open>find\<close> returned; \<^verbatim>\<open>npos\<close> makes it throw, and nothing catches the exception.
\<close>

definition str_replace :: "string \<Rightarrow> nat option \<Rightarrow> nat \<Rightarrow> string \<Rightarrow> string option" where
  "str_replace s pos n t = map_option (\<lambda>i. take i s @ t @ drop (i + n) s) pos"

definition pyinitial_handler :: "string \<Rightarrow> string" where
  "pyinitial_handler nm = c_str nm @ ''_pyinitial''"

text \<open>The code with the two handlers renamed, one after the other.\<close>

definition import_code :: "string \<Rightarrow> string \<Rightarrow> string option" where
  "import_code nm code =
     do {
       let c = c_str code;
       c1 \<leftarrow> str_replace c (str_find ''pyinitial'' c) 9 (pyinitial_handler nm);
       str_replace c1 (str_find ''pyfun'' c1) 5 (pyfun_handler nm)
     }"

text \<open>The interpreter at import: every call may change the world \<open>'w\<close>; \<open>fetch_error\<close> is \<^verbatim>\<open>PyErr_Fetch\<close> with the texts of the error.\<close>

record 'w py_import =
  add_main :: "'w \<Rightarrow> bool"
  main_dict :: "'w \<Rightarrow> bool"
  run_string :: "string \<Rightarrow> 'w \<Rightarrow> bool \<times> 'w"
  has_attr :: "string \<Rightarrow> 'w \<Rightarrow> bool"
  is_callable :: "string \<Rightarrow> 'w \<Rightarrow> bool"
  call_noargs :: "string \<Rightarrow> 'w \<Rightarrow> bool \<times> 'w"
  fetch_error :: "'w \<Rightarrow> (string \<times> tb_entry list option) option \<times> 'w"
  write_report :: "string \<Rightarrow> 'w \<Rightarrow> 'w"

definition process_python_exception :: "'w py_import \<Rightarrow> 'w \<Rightarrow> 'w option" where
  "process_python_exception im w =
     (let (e, w1) = fetch_error im w
      in case e of
          None \<Rightarrow> Some w1
        | Some (v, tb) \<Rightarrow> map_option (\<lambda>msg. write_report im msg w1) (exception_text v tb))"

text \<open>An error of the interpreter: it is reported and the import fails.\<close>

definition import_failed :: "'w py_import \<Rightarrow> 'w \<Rightarrow> (ob_ret \<times> 'w) option" where
  "import_failed im w = map_option (\<lambda>w'. (OB_ERR_UNEXPECTED, w')) (process_python_exception im w)"

definition op_import_udf :: "'w py_import \<Rightarrow> python_udf_meta \<Rightarrow> 'w \<Rightarrow> (ob_ret \<times> 'w) option" where
  "op_import_udf im m w =
     do {
       code \<leftarrow> import_code (meta_name m) (meta_pycall m);
       let h = pyinitial_handler (meta_name m);
       (if \<not> add_main im w \<or> \<not> main_dict im w then Some (OB_ERR_UNEXPECTED, w)
        else let (ok, w1) = run_string im code w
        in if \<not> ok \<or> \<not> has_attr im h w1 then import_failed im w1
        else let (ok, w2) = call_noargs im h w1
        in if \<not> ok then import_failed im w2 else Some (OB_SUCCESS, w2))
     }"

text \<open>
  \<open>ObExprPythonUdf::import_udf\<close> also tests that the handler can be called, and takes the interpreter lock itself. When the
  thread holds it already, the uninitialised \<^verbatim>\<open>gstate\<close> is passed to \<^verbatim>\<open>PyGILState_Release\<close>: undefined.
\<close>

definition expr_import_udf :: "bool \<Rightarrow> 'w py_import \<Rightarrow> python_udf_meta \<Rightarrow> 'w \<Rightarrow> (ob_ret \<times> 'w) option" where
  "expr_import_udf gil_held im m w =
     do {
       code \<leftarrow> import_code (meta_name m) (meta_pycall m);
       let h = pyinitial_handler (meta_name m);
       r \<leftarrow> (if \<not> add_main im w \<or> \<not> main_dict im w then Some (OB_ERR_UNEXPECTED, w)
             else let (ok, w1) = run_string im code w
             in if \<not> ok \<or> \<not> has_attr im h w1 \<or> \<not> is_callable im h w1 then import_failed im w1
             else let (ok, w2) = call_noargs im h w1
             in if \<not> ok then import_failed im w2 else Some (OB_SUCCESS, w2));
       (if gil_held then None else Some r)
     }"

section \<open>Initialisation\<close>

text \<open>
  The types of the parameters against the declared ones. A null pointer is \<open>None\<close>; reading a declared type that is not
  there is undefined.
\<close>

definition declared_kind :: "py_udf_ret_type \<Rightarrow> arg_kind" where
  "declared_kind t = (case t of STRING \<Rightarrow> KString | INTEGER \<Rightarrow> KInt | REAL \<Rightarrow> KDouble | _ \<Rightarrow> KUnsupported)"

fun check_params :: "ob_obj_type option list \<Rightarrow> py_udf_ret_type list \<Rightarrow> ob_ret option" where
  "check_params [] tys = Some OB_SUCCESS"
| "check_params (None # ps) tys = Some OB_ERR_UNEXPECTED"
| "check_params (Some t # ps) tys =
     (if arg_kind t = KUnsupported then Some OB_ERR_UNEXPECTED
      else case tys of
          [] \<Rightarrow> None
        | ty # tys' \<Rightarrow> if declared_kind ty \<noteq> arg_kind t then Some OB_ERR_UNEXPECTED else check_params ps tys')"

definition init_udf ::
  "bool \<Rightarrow> 'w py_import \<Rightarrow> ob_obj_type option list \<Rightarrow> python_udf_meta \<times> 'w \<Rightarrow> (ob_ret \<times> python_udf_meta \<times> 'w) option" where
  "init_udf gil_held im params st =
     (let (m, w) = st
      in if meta_init m then Some (OB_SUCCESS, st)
         else do {
           ret \<leftarrow> (if meta_ret m = UDF_UNINITIAL \<or> meta_pycall m = '''' then Some OB_ERR_UNEXPECTED
                  else check_params params (udf_attributes_types m));
           (if ret \<noteq> OB_SUCCESS then Some (ret, st)
            else do {
              (ret, w1) \<leftarrow> expr_import_udf gil_held im m w;
              Some (ret, if ret = OB_SUCCESS then m \<lparr>meta_init := True\<rparr> else m, w1)
            })
         })"

text \<open>\<open>init_udfs\<close> of the operator works on copies of the metadata: the flag it sets is lost.\<close>

definition init_one ::
  "'w py_import \<Rightarrow> (nat \<Rightarrow> 'd udf_info) \<Rightarrow> ob_expr \<Rightarrow> 'w \<Rightarrow> (ob_ret \<times> 'w) option" where
  "init_one im infs e w =
     (let m = udf_meta (infs (expr_id e))
      in if meta_init m then Some (OB_SUCCESS, w)
         else if meta_ret m = UDF_UNINITIAL \<or> meta_pycall m = '''' then Some (OB_ERR_UNEXPECTED, w)
         else do {
           ret \<leftarrow> check_params (map (Some \<circ> datum_type) (expr_args e)) (udf_attributes_types m);
           (if ret \<noteq> OB_SUCCESS then Some (OB_INIT_FAIL, w)
            else do { (ret, w1) \<leftarrow> op_import_udf im m w; Some (if ret \<noteq> OB_SUCCESS then OB_INIT_FAIL else OB_SUCCESS, w1) })
         })"

definition init_udfs :: "bool \<Rightarrow> 'w py_import \<Rightarrow> (nat \<Rightarrow> 'd udf_info) \<Rightarrow> ob_expr list \<Rightarrow> 'w \<Rightarrow> (ob_ret \<times> 'w) option" where
  "init_udfs gil_held im infs es w =
     do { r \<leftarrow> for_ret (init_one im infs) es w; (if gil_held then None else Some r) }"

text \<open>
  Type deduction and code generation call these for an expression operator \<open>op\<close>, whose metadata are the state; \<open>None\<close> is
  a null pointer.
\<close>

definition init_python_udf_expr ::
  "(nat \<Rightarrow> bool) \<Rightarrow> bool \<Rightarrow> python_udf_meta \<Rightarrow> python_udf_meta option \<Rightarrow> ob_ret \<times> python_udf_meta option" where
  "init_python_udf_expr mok is_udf raw_meta op =
     (if \<not> is_udf then (OB_ERR_UNEXPECTED, op)
      else case op of
          None \<Rightarrow> (OB_ERR_UNEXPECTED, None)
        | Some m \<Rightarrow> let (ret, m') = expr_set_udf_meta mok m raw_meta in (ret, Some m'))"

definition visit_python_udf_expr ::
  "(nat \<Rightarrow> bool) \<Rightarrow> bool \<Rightarrow> 'w py_import \<Rightarrow> python_udf_meta \<Rightarrow> ob_obj_type option list \<Rightarrow> bool \<Rightarrow>
     python_udf_meta option \<times> 'w \<Rightarrow> (ob_ret \<times> python_udf_meta option \<times> 'w) option" where
  "visit_python_udf_expr mok gil_held im raw_meta params has_old_op st =
     (case st of
        (None, w) \<Rightarrow> Some (OB_ERR_UNEXPECTED, st)
      | (Some m, w) \<Rightarrow>
          if \<not> has_old_op then Some (OB_ERR_UNEXPECTED, st)
          else let (ret, m1) = expr_set_udf_meta mok m raw_meta
          in if ret \<noteq> OB_SUCCESS then Some (ret, Some m1, w)
          else map_option (\<lambda>(ret, m2, w'). (ret, Some m2, w')) (init_udf gil_held im params (m1, w)))"

section \<open>What importing and initialisation guarantee\<close>

text \<open>A character that is not in the pattern separates the search.\<close>

lemma str_find_sep:
  assumes "ch \<notin> set pat" "pat \<noteq> []"
  shows "str_find pat (x @ ch # y) =
     (case str_find pat x of Some i \<Rightarrow> Some i | None \<Rightarrow> map_option (\<lambda>i. Suc (length x) + i) (str_find pat y))"
proof (induction x)
  case Nil
  have "take (length pat) (ch # y) \<noteq> pat" using assms by (cases pat) auto
  then show ?case using assms by (cases "str_find pat y") auto
next
  case (Cons c x)
  have "take (length pat) (c # x @ ch # y) = pat \<longleftrightarrow> take (length pat) (c # x) = pat"
  proof (cases "length pat \<le> length (c # x)")
    case True
    then show ?thesis using take_append [of "length pat" "c # x" "ch # y"] by simp
  next
    case False
    then have "length (take (length pat) (c # x)) \<noteq> length pat" by simp
    then have "take (length pat) (c # x) \<noteq> pat" by metis
    moreover have "ch \<in> set (take (length pat) (c # x @ ch # y))"
      using False take_append [of "length pat" "c # x" "ch # y"] by (cases "length pat - length (c # x)") auto
    ultimately show ?thesis using assms(1) by metis
  qed
  then show ?case using Cons by (cases "str_find pat x"; cases "str_find pat y") simp_all
qed

lemma str_find_here: "str_find pat (pat @ s) = Some 0"
proof (cases "pat @ s")
  case (Cons c r)
  then have "take (length pat) (c # r) = pat" by (metis append_eq_conv_conj)
  then show ?thesis unfolding Cons by simp
qed simp

definition occurs :: "string \<Rightarrow> string \<Rightarrow> bool" where
  "occurs pat s \<longleftrightarrow> str_find pat s \<noteq> None"

lemma str_find_after:
  "ch \<notin> set pat \<Longrightarrow> pat \<noteq> [] \<Longrightarrow> \<not> occurs pat x \<Longrightarrow> str_find pat (x @ ch # pat @ y) = Some (Suc (length x))"
  by (simp add: str_find_sep occurs_def str_find_here)

lemma occurs_sep: "ch \<notin> set pat \<Longrightarrow> pat \<noteq> [] \<Longrightarrow> occurs pat (x @ ch # y) \<longleftrightarrow> occurs pat x \<or> occurs pat y"
  by (auto simp: occurs_def str_find_sep split: option.splits)

lemma str_replace_after: "str_replace (x @ ch # pat @ y) (Some (Suc (length x))) (length pat) t = Some (x @ ch # t @ y)"
  by (simp add: str_replace_def)

text \<open>
  Both handlers are renamed when each name comes first after a character it does not contain (such as the blank of
  \<^verbatim>\<open>def pyinitial\<close>), \<open>pyinitial\<close> comes first, and the name of the UDF does not contain \<open>pyfun\<close>.
\<close>

lemma pyinitial_no_pyfun: "\<not> occurs ''pyfun'' nm \<Longrightarrow> \<not> occurs ''pyfun'' (nm @ ''_pyinitial'')"
proof -
  have "\<not> occurs ''pyfun'' ''pyinitial''" by (simp add: occurs_def)
  then show "\<not> occurs ''pyfun'' nm \<Longrightarrow> ?thesis"
    using occurs_sep [of "CHR ''_''" "''pyfun''" nm "''pyinitial''"] by simp
qed

lemma occurs_suffix_l: 
  assumes "\<not> occurs ''pyfun'' nm" "\<not> occurs ''pyfun'' b"
  shows "\<not> occurs ''pyfun'' (nm @ ''_pyinitial'' @ b)"
proof -
  have "\<not> occurs ''pyfun'' ''pyinitia''" by (simp add: occurs_def)
  then have "\<not> occurs ''pyfun'' (nm @ ''_pyinitia'')"
    using assms occurs_sep [of "CHR ''_''" "''pyfun''" nm "''pyinitia''"] by simp
  then show ?thesis
    using assms occurs_sep [of "CHR ''l''" "''pyfun''" "nm @ ''_pyinitia''" b] by simp
qed

lemma import_code_renamed:
  assumes code: "c_str code = a @ ch # ''pyinitial'' @ b @ ch' # ''pyfun'' @ c" and nm: "c_str nm = n"
    and sep: "ch \<notin> set ''pyinitialfu''" "ch' \<notin> set ''pyfun''"
    and fst: "\<not> occurs ''pyinitial'' a" "\<not> occurs ''pyfun'' a" "\<not> occurs ''pyfun'' b" "\<not> occurs ''pyfun'' n"
  shows "import_code nm code = Some (a @ ch # (n @ ''_pyinitial'') @ b @ ch' # (n @ ''_pyfun'') @ c)"
proof -
  have f1: "str_find ''pyinitial'' (c_str code) = Some (Suc (length a))"
    unfolding code by (rule str_find_after) (use sep fst in auto)
  let ?c1 = "a @ ch # (n @ ''_pyinitial'') @ b @ ch' # ''pyfun'' @ c"
  have "str_replace (c_str code) (Some (Suc (length a))) 9 (n @ ''_pyinitial'') = Some ?c1"
    using str_replace_after [of a ch "''pyinitial''" "b @ ch' # ''pyfun'' @ c" "n @ ''_pyinitial''"]
    unfolding code by (simp add: eval_nat_numeral)
  moreover have "\<not> occurs ''pyfun'' (a @ ch # (n @ ''_pyinitial'') @ b)"
    using occurs_sep [of ch "''pyfun''" a "n @ ''_pyinitial'' @ b"] occurs_suffix_l [OF fst(4,3)] fst(2) sep(1) by simp
  then have f2: "str_find ''pyfun'' ?c1 = Some (Suc (length (a @ ch # (n @ ''_pyinitial'') @ b)))"
    using str_find_after [of ch' "''pyfun''" "a @ ch # (n @ ''_pyinitial'') @ b" c] sep(2) by simp
  have "str_replace ?c1 (Some (Suc (length (a @ ch # (n @ ''_pyinitial'') @ b)))) 5 (n @ ''_pyfun'') =
      Some (a @ ch # (n @ ''_pyinitial'') @ b @ ch' # (n @ ''_pyfun'') @ c)"
    using str_replace_after [of "a @ ch # (n @ ''_pyinitial'') @ b" ch' "''pyfun''" c "n @ ''_pyfun''"] by (simp add: eval_nat_numeral)
  ultimately show ?thesis
    using f1 f2 by (simp add: import_code_def pyinitial_handler_def pyfun_handler_def nm)
qed

text \<open>The check accepts exactly the parameters whose kinds are the declared ones.\<close>

lemma check_params_iff:
  "check_params ps tys = Some OB_SUCCESS \<longleftrightarrow>
     length ps \<le> length tys \<and>
     (\<forall>i < length ps. \<exists>t. ps ! i = Some t \<and> arg_kind t \<noteq> KUnsupported \<and> declared_kind (tys ! i) = arg_kind t)"
  by (induction ps tys rule: check_params.induct) (auto simp: less_Suc_eq_0_disj split: list.splits)

lemma init_udf_checked:
  assumes "init_udf g im ps (m, w) = Some (OB_SUCCESS, m', w')" "\<not> meta_init m"
  shows "check_params ps (udf_attributes_types m) = Some OB_SUCCESS" "meta_init m'" "meta_ret m \<noteq> UDF_UNINITIAL"
    "expr_import_udf g im m w = Some (OB_SUCCESS, w')" "m' = m \<lparr>meta_init := True\<rparr>"
proof -
  have s: "check_params ps (udf_attributes_types m) = Some OB_SUCCESS" "meta_ret m \<noteq> UDF_UNINITIAL"
    "expr_import_udf g im m w = Some (OB_SUCCESS, w')" "m' = m \<lparr>meta_init := True\<rparr>"
    using assms by (auto simp: init_udf_def bind_eq_Some_conv split: if_splits)
  from s show "check_params ps (udf_attributes_types m) = Some OB_SUCCESS" "meta_init m'" "meta_ret m \<noteq> UDF_UNINITIAL"
    "expr_import_udf g im m w = Some (OB_SUCCESS, w')" "m' = m \<lparr>meta_init := True\<rparr>" by simp_all
qed

lemma init_one_checked:
  assumes "init_one im infs e w = Some (OB_SUCCESS, w')" "\<not> meta_init (udf_meta (infs (expr_id e)))"
  shows "check_params (map (Some \<circ> datum_type) (expr_args e)) (udf_attributes_types (udf_meta (infs (expr_id e)))) = Some OB_SUCCESS"
  using assms by (auto simp: init_one_def Let_def bind_eq_Some_conv split: if_splits)

text \<open>The result type: what the expression gets is what the restoring of results needs.\<close>

lemma calc_result_kind:
  assumes "calc_result_typeN dflt binary m (ty, cm) = (ret, ty', cm')"
  shows "ret = OB_SUCCESS \<and> arg_kind (res_obj_type ty') = declared_kind (meta_ret m)"
  using assms by (cases "meta_ret m") (auto simp: calc_result_typeN_def set_numeric_def declared_kind_def arg_kind_def)

text \<open>A copy of the metadata when memory suffices.\<close>

lemma deep_copy_udf_meta_ok:
  assumes "\<And>n. mok n"
  shows "deep_copy_udf_meta mok dst src =
    (OB_SUCCESS, dst \<lparr>meta_init := meta_init src, meta_ret := meta_ret src, meta_name := meta_name src, meta_pycall := meta_pycall src,
       udf_attributes_types := udf_attributes_types dst @ udf_attributes_types src\<rparr>)"
  using assms by (simp add: deep_copy_udf_meta_def ob_write_string_def Let_def)

lemma raw_set_udf_meta_ok:
  assumes "\<And>n. mok n" "get_arg_types_arr u = (OB_SUCCESS, tys)" "get_arg_names_arr u = (OB_SUCCESS, lens)"
  shows "\<exists>m. raw_set_udf_meta mok junk u bs m0 = (OB_SUCCESS, m) \<and> meta_name m = name u \<and> meta_pycall m = pycall u \<and>
    meta_ret m = ret_type u \<and> udf_attributes_types m = udf_attributes_types m0 @ tys \<and> \<not> meta_init m \<and>
    meta_batch_size m = (if bs = 0 then 256 else if 256 \<le> bs \<and> bs \<le> 8192 then bs else meta_batch_size m0)"
  using assms by (auto simp: raw_set_udf_meta_def raw_batch_size_def ob_write_string_def Let_def)

text \<open>When the name of the UDF contains \<open>pyfun\<close>, the second renaming hits the name that the first one has written.\<close>

lemma str_find_append: "str_find pat x = Some i \<Longrightarrow> str_find pat (x @ y) = Some i"
proof (induction x arbitrary: i)
  case Nil
  then show ?case by (cases y) (auto split: if_splits)
next
  case (Cons c x)
  show ?case
  proof (cases "take (length pat) (c # x) = pat")
    case True
    then have "length pat \<le> length (c # x)" by (metis length_take min.cobounded1)
    with True have "take (length pat) (c # x @ y) = pat" using take_append [of "length pat" "c # x" y] by simp
    with True Cons.prems show ?thesis by simp
  next
    case False
    then obtain j where j: "str_find pat x = Some j" "i = Suc j" using Cons.prems by auto
    show ?thesis
    proof (cases "take (length pat) (c # x @ y) = pat")
      case True
      with str_find_Some [OF j(1)] have "length pat \<le> length x" by (metis length_drop length_take min_def nat_le_linear diff_le_self le_trans)
      with True False show ?thesis using take_append [of "length pat" "c # x" y] by simp
    next
      case False': False
      then show ?thesis using Cons.IH [OF j(1)] j(2) by simp
    qed
  qed
qed

lemma import_code_misnamed:
  assumes code: "c_str code = a @ ch # ''pyinitial'' @ b @ ''pyfun'' @ c" and nm: "c_str nm = p @ ''pyfun'' @ q"
    and sep: "ch \<notin> set ''pyinitialfu''" and fst: "\<not> occurs ''pyinitial'' a" "\<not> occurs ''pyfun'' a" "str_find ''pyfun'' (c_str nm) = Some (length p)"
  shows "import_code nm code = Some (a @ ch # p @ pyfun_handler nm @ q @ ''_pyinitial'' @ b @ ''pyfun'' @ c)"
proof -
  have f1: "str_find ''pyinitial'' (c_str code) = Some (Suc (length a))"
    unfolding code by (rule str_find_after) (use sep fst in auto)
  let ?rest = "''_pyinitial'' @ b @ ''pyfun'' @ c"
  have r1: "str_replace (c_str code) (Some (Suc (length a))) 9 (pyinitial_handler nm) = Some (a @ ch # c_str nm @ ?rest)"
    using str_replace_after [of a ch "''pyinitial''" "b @ ''pyfun'' @ c" "pyinitial_handler nm"]
    unfolding code by (simp add: eval_nat_numeral pyinitial_handler_def)
  have f2: "str_find ''pyfun'' (a @ ch # c_str nm @ ?rest) = Some (Suc (length a) + length p)"
    using str_find_sep [of ch "''pyfun''" a "c_str nm @ ?rest"] str_find_append [OF fst(3), of ?rest] sep fst(2)
    by (simp add: occurs_def)
  have "str_replace (a @ ch # c_str nm @ ?rest) (Some (Suc (length a) + length p)) 5 (pyfun_handler nm) =
      Some (a @ ch # p @ pyfun_handler nm @ q @ ?rest)"
    unfolding nm by (simp add: str_replace_def eval_nat_numeral)
  with f1 r1 f2 show ?thesis by (simp add: import_code_def)
qed

section \<open>Properties\<close>

text \<open>An interpreter for examples: it runs everything and keeps what it ran.\<close>

definition ex_import :: "string list py_import" where
  "ex_import = \<lparr>add_main = (\<lambda>w. True), main_dict = (\<lambda>w. True), run_string = (\<lambda>c w. (True, c # w)), has_attr = (\<lambda>h w. True),
     is_callable = (\<lambda>h w. True), call_noargs = (\<lambda>h w. (True, h # w)), fetch_error = (\<lambda>w. (None, w)), write_report = (\<lambda>s w. s # w)\<rparr>"

definition ex_code :: string where
  "ex_code = ''def pyinitial(): 0; def pyfun(x): x''"

text \<open>C16. The code of a UDF runs under names of its own: when the code defines \<open>pyinitial\<close> before \<open>pyfun\<close>, each first after a
  separating character, and \<open>pyfun\<close> does not occur in the UDF's name, the import renames exactly these two to the
  handlers that initialisation and evaluation look up.\<close>

theorem import_code_correct:
  assumes "c_str code = a @ ch # ''pyinitial'' @ b @ ch' # ''pyfun'' @ c"
    and "ch \<notin> set ''pyinitialfu''" "ch' \<notin> set ''pyfun''" "\<not> occurs ''pyinitial'' a" "\<not> occurs ''pyfun'' a"
    and "\<not> occurs ''pyfun'' b" "\<not> occurs ''pyfun'' (c_str nm)"
  shows "import_code nm code = Some (a @ ch # pyinitial_handler nm @ b @ ch' # pyfun_handler nm @ c)"
  unfolding pyinitial_handler_def pyfun_handler_def by (rule import_code_renamed [OF assms(1) refl assms(2-)])

theorem import_code_correct_witness:
  "import_code ''add'' ex_code = Some ''def add_pyinitial(): 0; def add_pyfun(x): x''"
proof -
  have "c_str ex_code = ''def'' @ CHR '' '' # ''pyinitial'' @ ''(): 0; def'' @ CHR '' '' # ''pyfun'' @ ''(x): x''"
    by (simp add: ex_code_def c_str_def)
  from import_code_correct [OF this, of "''add''"] show ?thesis
    by (simp add: occurs_def c_str_def pyinitial_handler_def pyfun_handler_def)
qed

text \<open>C22. A UDF whose name contains \<open>pyfun\<close> is imported wrongly: the second renaming changes the name of the initialiser that
  the first one has just written, and the function itself keeps the name \<open>pyfun\<close>.\<close>

theorem import_code_name_clash:
  assumes "c_str code = a @ ch # ''pyinitial'' @ b @ ''pyfun'' @ c" "ch \<notin> set ''pyinitialfu''"
    and "\<not> occurs ''pyinitial'' a" "\<not> occurs ''pyfun'' a"
    and "c_str nm = p @ ''pyfun'' @ q" "str_find ''pyfun'' (c_str nm) = Some (length p)"
  shows "import_code nm code = Some (a @ ch # p @ pyfun_handler nm @ q @ ''_pyinitial'' @ b @ ''pyfun'' @ c)"
  using assms by (intro import_code_misnamed)

theorem import_code_name_clash_witness:
  "import_code ''my_pyfun'' ex_code = Some ''def my_my_pyfun_pyfun_pyinitial(): 0; def pyfun(x): x''"
proof -
  have "c_str ex_code = ''def'' @ CHR '' '' # ''pyinitial'' @ ''(): 0; def '' @ ''pyfun'' @ ''(x): x''"
    by (simp add: ex_code_def c_str_def)
  from import_code_name_clash [OF this, of "''my_pyfun''" "''my_''" "''''"] show ?thesis
    by (simp add: occurs_def c_str_def pyfun_handler_def)
qed

text \<open>C23. The error report is complete when it fits into the buffer of 65536 bytes; when an error with a traceback has a message
  of more than 65521 characters, the remaining size wraps around and the report is written behind the buffer.\<close>

theorem exception_report_bounds:
  "(length (full_text v tb) \<le> 65535 \<longrightarrow> exception_text v tb = Some (full_text v tb)) \<and>
   (65521 < length v \<and> length v \<le> 2147483632 \<longrightarrow> exception_text v (Some ts) = None)"
  using exception_text_fits exception_text_overflow by blast

theorem exception_report_bounds_witness:
  "exception_text ''bad'' (Some [(''f'', ''a.py'', 12)]) = Some ''Error Message:\<newline>bad\<newline>\<newline>Traceback:\<newline>f: a.py(# 12)\<newline>'' \<and>
   exception_text (replicate 70000 (CHR ''x'')) (Some []) = None"
proof -
  have "show_int 12 = ''12''" by code_simp
  then show ?thesis
    using exception_report_bounds [of "''bad''" "Some [(''f'', ''a.py'', 12)]" "[]"]
      exception_report_bounds [of "replicate 70000 (CHR ''x'')" None "[]"]
    by (simp add: full_text_def)
qed

text \<open>C17. A UDF that has been initialised for code generation is well typed: it has a return type, every parameter has a type
  the operator can pass to the interpreter, and its kind is the declared one.\<close>

theorem init_udf_well_typed:
  assumes "init_udf g im ps (m, w) = Some (OB_SUCCESS, m', w')" and "\<not> meta_init m"
  shows "meta_init m' \<and> meta_ret m \<noteq> UDF_UNINITIAL \<and> length ps \<le> length (udf_attributes_types m) \<and>
    (\<forall>i < length ps. \<exists>t. ps ! i = Some t \<and> arg_kind t \<noteq> KUnsupported \<and> declared_kind (udf_attributes_types m ! i) = arg_kind t)"
  using init_udf_checked [OF assms] unfolding check_params_iff by blast

definition ex_meta :: python_udf_meta where
  "ex_meta = python_udf_meta_default \<lparr>meta_name := ''add'', meta_ret := INTEGER, meta_pycall := ex_code,
     udf_attributes_types := [INTEGER, STRING]\<rparr>"

theorem init_udf_well_typed_witness:
  "init_udf False ex_import [Some ObIntType, Some ObVarcharType] (ex_meta, []) =
     Some (OB_SUCCESS, ex_meta \<lparr>meta_init := True\<rparr>, [''add_pyinitial'', ''def add_pyinitial(): 0; def add_pyfun(x): x'']) \<and>
   declared_kind (udf_attributes_types ex_meta ! 1) = arg_kind ObVarcharType"
proof -
  have "import_code ''add'' ex_code = Some ''def add_pyinitial(): 0; def add_pyfun(x): x''" by code_simp
  then have "init_udf False ex_import [Some ObIntType, Some ObVarcharType] (ex_meta, []) =
     Some (OB_SUCCESS, ex_meta \<lparr>meta_init := True\<rparr>, [''add_pyinitial'', ''def add_pyinitial(): 0; def add_pyfun(x): x''])"
    by (simp add: init_udf_def ex_meta_def python_udf_meta_default_def expr_import_udf_def ex_import_def pyinitial_handler_def
        c_str_def declared_kind_def arg_kind_def) (simp add: ex_code_def)
  moreover from init_udf_well_typed [OF this] have "declared_kind (udf_attributes_types ex_meta ! 1) = arg_kind ObVarcharType"
    by (simp add: ex_meta_def python_udf_meta_default_def less_Suc_eq numeral_2_eq_2)
  ultimately show ?thesis by blast
qed

text \<open>The batch size asked for in a query has no effect: a size outside of 256 to 8192 is accepted like any other, although it
  is tested, and whatever size is asked for, the evaluation starts with 256 rows.\<close>

lemma batch_size_request_ignored:
  assumes "\<And>n. mok n" and "get_arg_types_arr u = (OB_SUCCESS, tys)" and "get_arg_names_arr u = (OB_SUCCESS, lens)"
  shows "\<exists>m info'. raw_set_udf_meta mok junk u bs python_udf_meta_default = (OB_SUCCESS, m) \<and>
    from_raw_expr mok D consts m (info_new raw) = (OB_SUCCESS, info') \<and> predict_size info' = 256 \<and>
    meta_batch_size (udf_meta info') = 256 \<and> meta_name (udf_meta info') = name u \<and> meta_ret (udf_meta info') = ret_type u \<and>
    udf_attributes_types (udf_meta info') = tys"
proof -
  obtain m where m: "raw_set_udf_meta mok junk u bs python_udf_meta_default = (OB_SUCCESS, m)" "meta_name m = name u"
    "meta_ret m = ret_type u" "udf_attributes_types m = tys"
    using raw_set_udf_meta_ok [of mok u tys lens junk bs python_udf_meta_default] assms by (auto simp: python_udf_meta_default_def)
  then show ?thesis
    by (simp add: from_raw_expr_def deep_copy_udf_meta_ok [OF assms(1)] info_new_def python_udf_meta_default_def)
qed

end
