(* ===== verification/Python_UDF_Query.thy ===== *)
theory Python_UDF_Query
  imports Python_UDF_DDL Python_UDF_Expr
begin

text \<open>
  Calls of python UDFs in queries, \<^verbatim>\<open>PREDICT f(...)\<close>: the grammar rule (\<^verbatim>\<open>sql_parser_mysql_mode.y\<close>) and
  \<open>process_python_udf_node\<close> of \<^verbatim>\<open>ob_raw_expr_resolver_impl.cpp\<close>, which looks the function up, checks the number of arguments and
  builds the raw expression.

  The list of objects that a statement refers to, which the grammar keeps for the plan cache, is not modelled, and the list of UDF
  expressions of the query can always grow. The resolver of other expressions is the parameter \<open>rec\<close>; it gets the list of UDF expressions collected so far. A raw
  expression has the identity of its object (\<open>re_ptr\<close>), a type, the metadata of a UDF and its parameters.
\<close>

section \<open>The grammar\<close>

text \<open>\<open>expr_as_list\<close> links the expressions one by one, as the list of parameters of a function is.\<close>

fun parse_more_exprs :: "allocs \<Rightarrow> parse_node \<Rightarrow> parse_node list \<Rightarrow> action" where
  "parse_more_exprs alloc l [] = act_return l"
| "parse_more_exprs alloc l (e # es) =
     act_bind (malloc_non_terminal_node alloc T_LINK_NODE [Some l, Some e]) (\<lambda>l1. parse_more_exprs alloc l1 es)"

text \<open>\<^verbatim>\<open>PREDICT function_name ( ... )\<close> and \<^verbatim>\<open>PREDICT ( INTNUM ) function_name ( ... )\<close>; a call without arguments has no node for them.\<close>

definition parse_predict :: "allocs \<Rightarrow> parse_node option \<Rightarrow> string \<Rightarrow> parse_node list \<Rightarrow> action" where
  "parse_predict alloc int_num fn args =
     (let pre = (case int_num of None \<Rightarrow> [] | Some t \<Rightarrow> [Some t])
      in case args of
           [] \<Rightarrow> malloc_non_terminal_node alloc T_FUN_PYTHON_UDF_NODE (pre @ [Some (name_ob fn)])
         | e # es \<Rightarrow>
             act_bind (parse_more_exprs alloc e es) (\<lambda>l.
               act_bind (merge_action alloc T_EXPR_LIST l) (\<lambda>params.
                 malloc_non_terminal_node alloc T_FUN_PYTHON_UDF_NODE (pre @ [Some (name_ob fn), Some params]))))"

section \<open>The resolver\<close>

datatype raw_expr = RawExpr
  (re_ptr: nat) (re_type: obj_item_type) (re_meta: python_udf_meta) (re_name: string) (re_params: "raw_expr list")

datatype stmt_scope = T_FIELD_LIST_SCOPE | T_WHERE_SCOPE | T_OTHER_SCOPE

text \<open>The context: the clause, what the expression is inside of (\<open>parents_expr_info_\<close>), whether session and schema checker are
  there, the outcome of \<open>get_collation_connection\<close> and the tenant.\<close>

record resolve_ctx =
  current_scope :: stmt_scope
  in_agg :: bool
  in_window_func :: bool
  in_python_udf :: bool
  ctx_ptrs :: bool
  ctx_collation :: ob_ret
  ctx_tenant :: "64 word"

definition is_python_udf_expr_valid_scope :: "stmt_scope \<Rightarrow> bool" where
  "is_python_udf_expr_valid_scope s \<longleftrightarrow> s = T_FIELD_LIST_SCOPE \<or> s = T_WHERE_SCOPE"

text \<open>\<^verbatim>\<open>std::stoi\<close>: an exception, which nobody catches, is \<open>None\<close>.\<close>

definition stoi :: "string \<Rightarrow> int option" where
  "stoi s =
     (let s1 = dropWhile (\<lambda>c. c = CHR '' '' \<or> (9 \<le> (of_char c :: nat) \<and> (of_char c :: nat) \<le> 13)) s;
          (neg, s2) = (case s1 of c # cs \<Rightarrow> if c = CHR ''-'' then (True, cs) else if c = CHR ''+'' then (False, cs) else (False, s1)
                       | [] \<Rightarrow> (False, s1));
          ds = takeWhile is_digit s2;
          v = (if neg then - int (num_of ds) else int (num_of ds))
      in if ds = [] \<or> v < - (2 ^ 31) \<or> 2 ^ 31 \<le> v then None else Some v)"

text \<open>\<open>check_udf_info\<close>: a null list of arguments is dereferenced when the function has no parameters.\<close>

definition check_udf_info :: "parse_node option \<Rightarrow> python_udf \<Rightarrow> ob_ret option" where
  "check_udf_info expr_list_node u =
     (case expr_list_node of
        None \<Rightarrow> if arg_num u > 0 then Some OB_ERR_UNEXPECTED else None
      | Some l \<Rightarrow>
          Some (if pn_type l \<noteq> T_EXPR_LIST then OB_ERR_PARSER_SYNTAX
                else if int (num_child l) \<noteq> arg_num u then OB_INVALID_ARGUMENT
                else OB_SUCCESS))"

text \<open>\<open>ObSchemaChecker::get_python_udf_info\<close> and the schema guard below it; \<open>udf_info\<close> is a fresh object.\<close>

definition checker_get_python_udf_info ::
  "(nat \<Rightarrow> bool) \<Rightarrow> sql_client \<Rightarrow> bool \<Rightarrow> 64 word \<Rightarrow> string \<Rightarrow> udf_tables \<Rightarrow> (ob_ret \<times> bool \<times> python_udf) option" where
  "checker_get_python_udf_info mok client schema_mgr t nm db =
     (if t = OB_INVALID_ID \<or> nm = '''' then Some (OB_INVALID_ARGUMENT, False, python_udf_default)
      else if \<not> schema_mgr then Some (OB_NOT_INIT, False, python_udf_default)
      else get_python_udf_info mok client t nm python_udf_default db)"

text \<open>\<open>function_alias\<close>: a function named \<open>bin\<close> or \<open>oct\<close> gets two more parameters. \<open>bases\<close> are the two new constants, if
  there is memory for them.\<close>

definition ascii_lower :: "string \<Rightarrow> string" where
  "ascii_lower s = map (\<lambda>c. if 65 \<le> (of_char c :: nat) \<and> (of_char c :: nat) \<le> 90 then char_of ((of_char c :: nat) + 32) else c) s"

definition const_int_expr :: "nat \<Rightarrow> int \<Rightarrow> raw_expr" where
  "const_int_expr p v = RawExpr p T_OTHER_EXPR python_udf_meta_default (fmt_int v) []"

definition add_param_expr :: "raw_expr \<Rightarrow> raw_expr \<Rightarrow> raw_expr" where
  "add_param_expr e p = RawExpr (re_ptr e) (re_type e) (re_meta e) (re_name e) (re_params e @ [p])"

definition function_alias :: "(nat \<times> nat) option \<Rightarrow> raw_expr \<Rightarrow> ob_ret \<times> raw_expr" where
  "function_alias bases e =
     (let base = (if ascii_lower (re_name e) = ''bin'' then Some 2 else if ascii_lower (re_name e) = ''oct'' then Some 8 else None)
      in case base of
           None \<Rightarrow> (OB_SUCCESS, e)
         | Some b \<Rightarrow>
             (case bases of
                None \<Rightarrow> (OB_ALLOCATE_MEMORY_FAILED, e)
              | Some (p, q) \<Rightarrow>
                  if length (re_params e) \<noteq> 1 then (OB_ERR_PARAM_SIZE, e)
                  else (OB_SUCCESS, add_param_expr (add_param_expr e (const_int_expr p 10)) (const_int_expr q b))))"

text \<open>The loop over the arguments. Inside of it, another UDF is refused.\<close>

type_synonym resolver = "resolve_ctx \<Rightarrow> parse_node \<Rightarrow> raw_expr list \<Rightarrow> (ob_ret \<times> raw_expr \<times> raw_expr list) option"

fun resolve_params ::
  "resolver \<Rightarrow> resolve_ctx \<Rightarrow> parse_node option list \<Rightarrow> raw_expr \<Rightarrow> raw_expr list \<Rightarrow> (ob_ret \<times> raw_expr \<times> raw_expr list) option" where
  "resolve_params rec ctx [] e udfs = Some (OB_SUCCESS, e, udfs)"
| "resolve_params rec ctx (None # ns) e udfs = Some (OB_ERR_UNEXPECTED, e, udfs)"
| "resolve_params rec ctx (Some param_node # ns) e udfs =
     do { (ret, param_expr, udfs1) \<leftarrow> rec (ctx \<lparr>in_python_udf := True\<rparr>) param_node udfs;
          if ret \<noteq> OB_SUCCESS then Some (ret, e, udfs1)
          else resolve_params rec ctx ns (add_param_expr e param_expr) udfs1 }"

definition set_func_name :: "string \<Rightarrow> raw_expr \<Rightarrow> raw_expr" where
  "set_func_name nm e = RawExpr (re_ptr e) (re_type e) (re_meta e) nm (re_params e)"

text \<open>\<open>process_python_udf_node\<close>; \<open>create\<close> is the outcome of \<open>create_raw_expr\<close> and the new object. The name is child \<open>n - 2\<close>: a call
  without arguments and without a batch size has one child only, and the access is outside of the array.\<close>

definition process_python_udf_node ::
  "(nat \<Rightarrow> bool) \<Rightarrow> (nat list \<Rightarrow> string list) \<Rightarrow> (string \<Rightarrow> string) \<Rightarrow> sql_client \<Rightarrow> udf_tables \<Rightarrow> ob_ret \<times> nat option \<Rightarrow> (nat \<times> nat) option \<Rightarrow>
   resolver \<Rightarrow> resolve_ctx \<Rightarrow> parse_node option \<Rightarrow> raw_expr list \<Rightarrow> (ob_ret \<times> raw_expr option \<times> raw_expr list) option" where
  "process_python_udf_node mok junk casedn client db create bases rec ctx pnode udfs =
     (if \<not> is_python_udf_expr_valid_scope (current_scope ctx) \<or> in_agg ctx \<or> in_window_func ctx \<or> in_python_udf ctx
      then Some (OB_ERR_INVALID_PYTHON_UDF, None, udfs)
      else if \<not> ctx_ptrs ctx then Some (OB_ERR_FUNCTION_UNKNOWN, None, udfs)
      else case pnode of
        None \<Rightarrow> Some (OB_INVALID_ARGUMENT, None, udfs)
      | Some nd \<Rightarrow>
          if ctx_collation ctx \<noteq> OB_SUCCESS then Some (ctx_collation ctx, None, udfs)
          else if num_child nd < 1 then Some (OB_ERR_PARSER_SYNTAX, None, udfs)
          else let n = num_child nd in do {
            batch_size \<leftarrow> (if n = 3 then do { b \<leftarrow> child nd 0; stoi (c_str (pn_str b)) } else Some 0);
            name_node \<leftarrow> (if n < 2 then None else child nd (n - 2));
            (if fst (ob_write_string mok (pn_str name_node)) \<noteq> OB_SUCCESS then Some (OB_ALLOCATE_MEMORY_FAILED, None, udfs)
             else let udf_name = casedn (pn_str name_node) in do {
               (ret, exist, u) \<leftarrow> checker_get_python_udf_info mok client True (ctx_tenant ctx) udf_name db;
               (if ret \<noteq> OB_SUCCESS then Some (ret, None, udfs)
                else if \<not> exist then Some (OB_ERR_FUNCTION_UNKNOWN, None, udfs)
                else do {
                  ret1 \<leftarrow> check_udf_info (child nd (n - 1)) u;
                  (if ret1 \<noteq> OB_SUCCESS then Some (ret1, None, udfs)
                   else if fst create \<noteq> OB_SUCCESS then Some (fst create, None, udfs)
                   else case snd create of
                     None \<Rightarrow> Some (OB_ERR_UNEXPECTED, None, udfs)
                   | Some p \<Rightarrow>
                       let (ret2, meta) = raw_set_udf_meta mok junk u batch_size python_udf_meta_default
                       in if ret2 \<noteq> OB_SUCCESS then Some (ret2, None, udfs)
                          else do {
                            list_node \<leftarrow> child nd (n - 1);
                            (ret3, e, udfs1) \<leftarrow>
                              (if arg_num u \<noteq> int (num_child list_node)
                               then Some (OB_SUCCESS, RawExpr p T_FUN_PYTHON_UDF meta '''' [], udfs)
                               else resolve_params rec ctx (link_children list_node) (RawExpr p T_FUN_PYTHON_UDF meta '''' []) udfs);
                            (if ret3 \<noteq> OB_SUCCESS then Some (ret3, None, udfs1)
                             else let (ret4, e1) = function_alias bases (set_func_name udf_name e)
                             in if ret4 \<noteq> OB_SUCCESS then Some (ret4, None, udfs1) else Some (OB_SUCCESS, Some e1, udfs1 @ [e1])) }) }) }) })"

section \<open>Trees of calls\<close>

definition predict_call :: "parse_node option \<Rightarrow> string \<Rightarrow> parse_node list \<Rightarrow> parse_node" where
  "predict_call int_num fn args =
     node T_FUN_PYTHON_UDF_NODE
       ((case int_num of None \<Rightarrow> [] | Some t \<Rightarrow> [Some t]) @ [Some (name_ob fn)] @
        (if args = [] then [] else [Some (node T_EXPR_LIST (map Some args))]))"

context enough_memory
begin

lemma builds_more_exprs:
  "\<forall>e \<in> set es. pn_type e \<noteq> T_LINK_NODE \<Longrightarrow> \<exists>t. builds (parse_more_exprs alloc l es) t \<and> flat t = flat l @ es"
proof (induction es arbitrary: l)
  case Nil
  show ?case by (intro exI [of _ l]) (simp add: build)
next
  case (Cons e es)
  let ?l = "node T_LINK_NODE [Some l, Some e]"
  have "flat ?l = flat l @ [e]" using Cons.prems by (simp add: flat_link node_def link_children_def)
  moreover obtain t where t: "builds (parse_more_exprs alloc ?l es) t" "flat t = flat ?l @ es"
    using Cons by (meson list.set_intros(2))
  moreover have "builds (parse_more_exprs alloc l (e # es)) t"
    unfolding parse_more_exprs.simps by (rule build t(1))+ (simp_all add: t(1))
  ultimately show ?case by auto
qed

lemma builds_predict:
  assumes "\<forall>e \<in> set args. pn_type e \<noteq> T_LINK_NODE"
  shows "builds (parse_predict alloc int_num fn args) (predict_call int_num fn args)"
proof (cases args)
  case Nil
  then show ?thesis by (simp add: parse_predict_def predict_call_def Let_def) (rule build, simp)
next
  case (Cons e es)
  obtain t where t: "builds (parse_more_exprs alloc e es) t" "flat t = flat e @ es"
    using builds_more_exprs [of es e] assms by (auto simp: Cons)
  have "flat e = [e]" using assms by (simp add: Cons)
  then have m: "merged T_EXPR_LIST (flat t) = node T_EXPR_LIST (map Some args)" by (simp add: t(2) Cons merged_def node_def)
  have "builds (parse_predict alloc int_num fn args)
      (node T_FUN_PYTHON_UDF_NODE ((case int_num of None \<Rightarrow> [] | Some t \<Rightarrow> [Some t]) @ [Some (name_ob fn), Some (merged T_EXPR_LIST (flat t))]))"
    unfolding parse_predict_def Let_def Cons list.case by (rule build t(1))+ simp
  then show ?thesis by (simp add: predict_call_def m Cons)
qed

end

section \<open>Resolving a call\<close>

definition callable_ctx :: "resolve_ctx \<Rightarrow> bool" where
  "callable_ctx ctx \<longleftrightarrow> is_python_udf_expr_valid_scope (current_scope ctx) \<and> \<not> in_agg ctx \<and> \<not> in_window_func ctx \<and> \<not> in_python_udf ctx \<and>
     ctx_ptrs ctx \<and> ctx_collation ctx = OB_SUCCESS"










text \<open>A call without arguments: the name is read in front of the children, or, with a batch size, the number is taken for the name.\<close>

lemma predict_without_arguments:
  "callable_ctx ctx \<Longrightarrow>
   process_python_udf_node mok junk casedn client db create bases rec ctx (Some (predict_call None nm [])) udfs = None"
  by (simp add: process_python_udf_node_def callable_ctx_def predict_call_def node_def num_child_def)

lemma batch_size_taken_for_name:
  assumes "callable_ctx ctx" and "\<And>n. mok n" and "casedn (pn_str t) = pn_str t"
    and "checker_get_python_udf_info mok client True (ctx_tenant ctx) (pn_str t) db = Some (OB_SUCCESS, False, u)"
  shows "process_python_udf_node mok junk casedn client db create bases rec ctx (Some (predict_call (Some t) nm [])) udfs =
    Some (OB_ERR_FUNCTION_UNKNOWN, None, udfs)"
  using assms by (simp add: process_python_udf_node_def callable_ctx_def predict_call_def node_def num_child_def child_def ob_write_string_def)






end
