(* ===== verification/Spec2Isabelle.thy ===== *)
theory Spec2Isabelle
  imports OB_Bit_Foreach Python_UDF_Mgr Python_UDF_Op_Liveness Python_UDF_Query
begin

text \<open>
  IMBridge extends the OceanBase database with user defined functions written in Python: \<^verbatim>\<open>CREATE PYTHON_UDF\<close> stores a function
  in an inner table, a query calls it with \<^verbatim>\<open>PREDICT f(...)\<close>, and an operator of the vectorised engine evaluates it on batches
  of rows with an embedded interpreter. This development models the UDF code and the libraries it rests on. Source
  paths are those under \<^verbatim>\<open>src/\<close> of the repository, \<^verbatim>\<open>src/...\<close> for the server and \<^verbatim>\<open>deps/oblib/...\<close> for its base library.

  \<^bold>\<open>Conventions.\<close> A function of the source is a definition of the same name, with a prefix where several classes share a name
  (\<open>col_\<close>, \<open>pu_\<close>, \<open>cell_\<close>, \<open>ctl_\<close>, \<open>hm_\<close>, \<open>sv_\<close>, \<open>mgr_\<close>). The result code is the type \<open>ob_ret\<close>; state is passed and returned; \<open>None\<close> is
  behaviour that the language leaves undefined, so that a result \<open>Some\<close> includes memory safety. Loops that need not end
  are partial functions into the option type, and the theorems state that they return. No fuel is used. Outcomes of
  allocations are parameters (\<open>mok\<close>, \<open>mem_ok\<close>, \<open>alloc\<close>).

  \<^bold>\<open>The operator\<close> (\<^verbatim>\<open>src/sql/engine/python_udf_engine/ob_python_udf_op.cpp\<close>, \<^verbatim>\<open>ob_operator.cpp\<close>).
  A call of \<open>get_next_batch\<close> fetches batches of the child until the buffers are more than half full, evaluates every UDF on
  the buffered rows in slices of an adaptive size, and hands out windows of the results.
  \<^item> \<open>OB_Popcount\<close>, \<open>OB_Bit_Vector\<close>, \<open>OB_Bit_Foreach\<close>: the skip vectors of batches (\<^verbatim>\<open>ob_bit_vector.h\<close>). Every operation is described
    by its effect on single bits, counting by cardinalities, the word-wise loop as the plain loop.
  \<^item> \<open>OB_Fixed_Array\<close>: \<open>ObFixedArray\<close> as a sequence of bounded length. \<open>OB_Expr_Frame\<close>: datums, vectors and their formats, reserved
    buffers, casts and the evaluation of an expression (\<^verbatim>\<open>ob_expr.cpp\<close>).
  \<^item> \<open>Python_UDF_Col_Store\<close>, \<open>Python_UDF_Arg_Store\<close>, \<open>Python_UDF_Row_Buffer\<close>: the buffers of columns (\<open>ObColInputStore\<close>) and arguments
    (\<open>ObPUInputStore\<close>), both instances of one locale of row buffers, with round trip and refusal of overflow.
  \<^item> \<open>Python_UDF_Cell\<close>, \<open>Python_UDF_Controller\<close>: one UDF (\<open>ObPythonUDFCell\<close>) with slices and the control of the slice size, and the
    controller of a round (\<open>ObPUStoreController\<close>).
  \<^item> \<open>Python_UDF_Op\<close>, \<open>Python_UDF_Round\<close>, \<open>Python_UDF_Op_Correct\<close>, \<open>Python_UDF_Op_Laws\<close>, \<open>Python_UDF_Op_Liveness\<close>: the operator and its driver. The
    state \<open>op_state\<close> is the controller, the batch, the frame and the remaining answers of the child. \<open>plan_ok\<close>, \<open>batch_good\<close> and
    \<open>udfs_ok\<close> collect what the theorems assume of plan, child and functions. The results are the rows delivered, termination,
    progress from every reachable state, the failure of the child and the failure of a rescan. \<open>Python_UDF_Examples\<close> holds
    a concrete plan for the witnesses.

  The bound of 4096 rows for a batch in \<open>plan_ok\<close> is half of \<^verbatim>\<open>DEFAULT_PU_LENGTH\<close>, the smallest capacity of the buffers, which are twice
  the size at which a round stops to fill them. Larger batches are accepted by the source; when they do not fit, the stores refuse
  them (\<open>stores_refuse_overflow\<close>) and the call fails. Null flags are not kept by the column store, so the theorems assume columns that are
  not null. Computed arguments are excluded, because their evaluation flags are cleared only once per round.

  \<^bold>\<open>The expression\<close> (\<^verbatim>\<open>ob_expr_python_udf.cpp\<close>, parts of \<^verbatim>\<open>ob_raw_expr.cpp\<close>): \<open>Python_UDF_Expr\<close> models the metadata of a call, type deduction,
  the import of the code with the renaming of its two handlers, the type check at initialisation and the report of an
  exception. \<open>Python_UDF_Schema\<close> holds the schema object \<open>ObPythonUDF\<close> and the parsing of its parameter lists.

  \<^bold>\<open>Schemas in memory and in messages.\<close> \<open>OB_Dictionary\<close> gives the locales of finite maps; \<open>OB_Pointer_Hash\<close> and \<open>OB_Hash_Map\<close>
  (\<^verbatim>\<open>ob_pointer_hashmap.h\<close>: probing, tables, rebuilding), \<open>OB_Sorted_Vector\<close> (\<^verbatim>\<open>ob_vector.ipp\<close>) and \<open>OB_Murmur_Hash\<close> are the
  containers, and \<open>Python_UDF_Mgr\<close> (\<^verbatim>\<open>ob_python_udf_mgr.cpp\<close>) keeps a vector and a hash map in step, so that it refines a
  finite map from tenants and names to functions. \<open>OB_Serialization\<close> and \<open>Python_UDF_Serialize\<close> are the byte formats of messages and plans
  with round trips, exact sizes and short buffers.

  \<^bold>\<open>Statements.\<close> \<open>OB_Parse_Node\<close> and \<open>Python_UDF_Grammar\<close> build parse trees (\<^verbatim>\<open>parse_node.c\<close>, the rules of
  \<^verbatim>\<open>sql_parser_mysql_mode.y\<close>). \<open>OB_SQL_Text\<close> and \<open>Python_UDF_SQL\<close> are the SQL texts of \<^verbatim>\<open>ob_python_udf_sql_service.cpp\<close> and of the lookups of
  \<^verbatim>\<open>ob_multi_version_schema_service.cpp\<close>, with a reader of the fragment of SQL that the texts use. \<open>Python_UDF_DDL\<close> composes resolvers, executors,
  root service, DDL service and operator, transaction and SQL service into whole statements: they refine an abstract catalogue, a failed
  statement is all or nothing, and a quote in the name of a \<^verbatim>\<open>DROP\<close> is injected. \<open>Python_UDF_Query\<close> is the call
  \<^verbatim>\<open>PREDICT f(...)\<close>, from its grammar to the resolved expression (\<^verbatim>\<open>ob_raw_expr_resolver_impl.cpp\<close>).

  \<^bold>\<open>What is relied on.\<close> Code outside of the repository or outside of the UDF code is a parameter with named hypotheses, and each
  theorem that uses them has a witness with a concrete instance.
  \<^item> The interpreter with numpy, and the clock: \<open>py_env\<close>, with \<open>udf_rowwise\<close> (a function works row by row) and \<open>concat_ok\<close>. Arithmetic of
    \<^verbatim>\<open>double\<close> is the parameter \<open>dbl_ops\<close> without hypotheses.
  \<^item> The SQL server: \<open>runs_sql\<close>. It speaks only of rows that fit the declared columns of \<^verbatim>\<open>__all_python_udf\<close> (\<open>udf_columns\<close>: names of 64,
    parameter lists of 1024, code of 65536 bytes) and of conditions on existing columns with values of their types. Nothing is
    assumed about other statements. The collation is the function \<open>fold_name\<close>.
  \<^item> Transactions: \<open>transactional\<close> (a rollback restores, a successful commit keeps) and \<open>atomic_end\<close> (a commit takes place as a whole or not at
    all; when it is reported as failed or unknown, either may have happened).
  \<^item> The network: \<open>rpc_fate\<close>. A call of the root server is answered, is not delivered, or is executed and its answer lost.

  \<^bold>\<open>Not modelled.\<close>
  \<^item> Select resolver, optimizer and code generator (\<^verbatim>\<open>ob_select_resolver.cpp\<close>, \<^verbatim>\<open>ob_select_log_plan.cpp\<close>, \<^verbatim>\<open>ob_log_python_udf.cpp\<close>, \<^verbatim>\<open>ob_static_engine_cg.cpp\<close>),
    which turn resolved calls into a plan: they work on the statement and plan structures of the whole SQL compiler. The operator takes
    their result, \<open>op_spec\<close>, as its input.
  \<^item> Refresh and cache of schemas (\<^verbatim>\<open>ob_server_schema_service.cpp\<close>, \<^verbatim>\<open>ob_schema_mgr.cpp\<close>), shared by all schema objects.
  \<^item> \<open>resolve_model_path\<close>, which has no caller; \<open>std::sort\<close> with a caller's order; logging, statistics, explain output, startup
    filters, the check of the session status and of the stack.
  \<^item> The generated parser and lexer, the Python interpreter and numpy, and the rest of the database.
\<close>

section \<open>The operator end to end\<close>

text \<open>C1. The operator from opening to its end, on the inputs it is built for. The plan (\<open>plan_ok\<close>): no filter of its own, arguments of
  the UDFs that are columns of the child or constants, and batches of at most 4096 rows, half of what the buffers hold
  (larger batches can overflow the buffers, and then the call fails). The batches of the child (\<open>batch_good\<close>): its columns
  are not null and fit into the buffers of their expressions, and the arguments can be read. The functions (\<open>udfs_ok\<close>): they work row by row.
  There is enough memory. Then opening the operator and calling it until it reports the end returns, with \<open>OB_SUCCESS\<close>, exactly the
  active rows of its child, in their order, each with the value of every UDF on that row's arguments and with its own
  columns. Within these limits the result does not depend on how the child divides its rows into batches, on the number of rows asked for and
  on the slice sizes that the control of the batch size chooses. Every batch returned has at least one row and at most the number asked for.\<close>

theorem python_udf_operator_correct:
  assumes "mx = min mrc (max_batch_size sp)" and "plan_ok env sp mx K fr0" and "frame_inv env sp K fr0 fr0"
    and "\<forall>b \<in> set bs. batch_good env sp mx K fr0 b"
    and "udfs_ok pe f sp (length (all_in sp fr0 bs)) (infos rt)"
    and "\<And>n. mem_ok m n" and "mx \<le> 64 * length sk"
  shows "\<exists>st1 outs st2. inner_open m raw sp tenant (op_start bs fr0 rt sk) = Some (OB_SUCCESS, st1) \<and>
           drain (get_next_batch env m pe D sp None mrc) st1 = Some (OB_SUCCESS, outs, st2) \<and>
           concat (map (batch_out sp) outs) = map (out_row pe f sp) (all_in sp fr0 bs) \<and>
           (\<forall>(fr, brs) \<in> set outs. 0 < bsize brs \<and> bsize brs \<le> mx)"
  using assms by (rule open_drain_ok)

theorem python_udf_operator_correct_witness:
  "\<exists>st1 outs st2. inner_open ex_mem ex_cell ex_spec 0 (op_start [ex_batch, ex_batch] ex_frame ex_rt [0]) = Some (OB_SUCCESS, st1) \<and>
     drain (get_next_batch ex_env ex_mem ex_py ex_dbl ex_spec None 256) st1 = Some (OB_SUCCESS, outs, st2) \<and>
     concat (map (batch_out ex_spec) outs) =
       [([le_bytes 6], [le_bytes 5]), ([le_bytes 8], [le_bytes 7]), ([le_bytes 6], [le_bytes 5]), ([le_bytes 8], [le_bytes 7])]"
proof -
  have mx: "2 = min 256 (max_batch_size ex_spec)" by (simp add: ex_spec_def)
  have bs: "\<forall>b \<in> set [ex_batch, ex_batch]. batch_good ex_env ex_spec 2 {} ex_frame b" by (simp add: ex_batch_good)
  have udfs: "udfs_ok ex_py (\<lambda>i. ex_fun) ex_spec (length (all_in ex_spec ex_frame [ex_batch, ex_batch])) (infos ex_rt)"
    unfolding ex_all_in by (rule ex_udfs_ok)
  have sk: "2 \<le> 64 * length [0 :: 64 word]" by simp
  from python_udf_operator_correct [OF mx ex_plan ex_frame_inv bs udfs ex_mem_ok sk, of ex_cell 0 ex_dbl] show ?thesis
    unfolding ex_outs by blast
qed

end
